(* ===== verification/Containers.thy ===== *)
theory Containers
  imports Prelude
begin

text \<open>
  The maps the sources use, as association lists with distinct keys.

  \<^item> \<open>FnvIndexMap\<close> (lib.rs, the \<open>indexmap\<close> crate) iterates in insertion order: \<open>im_insert\<close>
    keeps the position of a key it overwrites and appends a new one, \<open>im_shift_remove\<close>
    closes the gap, \<open>im_swap_remove\<close> moves the last entry into it, \<open>im_retain\<close> filters.
  \<^item> \<open>BTreeMap\<close> and the object of \<open>serde_json\<close> (whose map is a \<open>BTreeMap\<close> in this build)
    iterate in key order: \<open>bt_insert\<close>, \<open>bt_remove\<close>.

  The locale \<open>ordered_map\<close> is the contract the clients rely on whatever the order is: what
  a lookup returns after an operation, and that operations keep keys distinct. It is
  interpreted on the three removal disciplines.
\<close>

type_synonym ('k, 'v) index_map = "('k \<times> 'v) list"
type_synonym ('k, 'v) btree_map = "('k \<times> 'v) list"

abbreviation keys_of :: "('k \<times> 'v) list \<Rightarrow> 'k list" where
  "keys_of m \<equiv> map fst m"

abbreviation has_key :: "('k \<times> 'v) list \<Rightarrow> 'k \<Rightarrow> bool" where
  "has_key m k \<equiv> map_of m k \<noteq> None"

definition im_insert :: "'k \<Rightarrow> 'v \<Rightarrow> ('k, 'v) index_map \<Rightarrow> ('k, 'v) index_map" where
  "im_insert k v m = AList.update k v m"

definition im_shift_remove :: "'k \<Rightarrow> ('k, 'v) index_map \<Rightarrow> ('k, 'v) index_map" where
  "im_shift_remove k m = filter (\<lambda>(k', v). k' \<noteq> k) m"

definition im_swap_remove :: "'k \<Rightarrow> ('k, 'v) index_map \<Rightarrow> ('k, 'v) index_map" where
  "im_swap_remove k m =
    (if has_key m k
     then (let l = last m; m' = butlast m
           in if fst l = k then m' else map (\<lambda>e. if fst e = k then l else e) m')
     else m)"

definition im_retain :: "('k \<Rightarrow> 'v \<Rightarrow> bool) \<Rightarrow> ('k, 'v) index_map \<Rightarrow> ('k, 'v) index_map" where
  "im_retain P m = filter (\<lambda>(k, v). P k v) m"

definition im_from_iter :: "('k \<times> 'v) list \<Rightarrow> ('k, 'v) index_map" where
  "im_from_iter kvs = fold (\<lambda>(k, v). im_insert k v) kvs []"

fun bt_insert :: "'k::linorder \<Rightarrow> 'v \<Rightarrow> ('k, 'v) btree_map \<Rightarrow> ('k, 'v) btree_map" where
  "bt_insert k v [] = [(k, v)]"
| "bt_insert k v ((k', v') # m) =
    (if k < k' then (k, v) # (k', v') # m
     else if k = k' then (k, v) # m
     else (k', v') # bt_insert k v m)"

definition bt_remove :: "'k::linorder \<Rightarrow> ('k, 'v) btree_map \<Rightarrow> ('k, 'v) btree_map" where
  "bt_remove k m = filter (\<lambda>(k', v). k' \<noteq> k) m"

definition bt_from_iter :: "('k::linorder \<times> 'v) list \<Rightarrow> ('k, 'v) btree_map" where
  "bt_from_iter kvs = fold (\<lambda>(k, v). bt_insert k v) kvs []"

section \<open>Insertion-ordered maps\<close>

lemma map_of_im_insert [simp, keyed_simps]: "map_of (im_insert k v m) = (map_of m)(k \<mapsto> v)"
  by (simp add: im_insert_def AList.update_conv')

lemma distinct_im_insert [simp, intro]:
  "distinct (keys_of m) \<Longrightarrow> distinct (keys_of (im_insert k v m))"
  by (simp add: im_insert_def AList.distinct_update)

lemma keys_im_insert [keyed_simps]:
  "keys_of (im_insert k v m) = (if k \<in> set (keys_of m) then keys_of m else keys_of m @ [k])"
  by (induction m) (auto simp: im_insert_def)

lemma im_insert_again: "im_insert k v (im_insert k u m) = im_insert k v m"
  by (induction m) (auto simp: im_insert_def)

lemma im_insert_same: "map_of m k = Some v \<Longrightarrow> im_insert k v m = m"
  by (induction m) (auto simp: im_insert_def split: if_splits)

lemma im_insert_fresh: "k \<notin> fst ` set m \<Longrightarrow> im_insert k v m = m @ [(k, v)]"
  by (induction m) (auto simp: im_insert_def)

lemma map_of_im_shift_remove [simp, keyed_simps]:
  "map_of (im_shift_remove k m) = (map_of m)(k := None)"
  by (auto simp: im_shift_remove_def map_of_filter_key)

lemma im_shift_remove_fresh: "k \<notin> fst ` set m \<Longrightarrow> im_shift_remove k m = m"
  by (induction m) (auto simp: im_shift_remove_def)

lemma keys_im_shift_remove [keyed_simps]:
  "keys_of (im_shift_remove k m) = filter (\<lambda>k'. k' \<noteq> k) (keys_of m)"
  by (induction m) (auto simp: im_shift_remove_def)

lemma distinct_im_shift_remove [simp, intro]:
  "distinct (keys_of m) \<Longrightarrow> distinct (keys_of (im_shift_remove k m))"
  by (simp add: keyed_simps)

lemma swap_map_eq:
  assumes "distinct (keys_of (m @ [l]))" and "map_of m k = Some v"
  shows "map_of (map (\<lambda>e. if fst e = k then l else e) m) = (map_of (m @ [l]))(k := None)"
  using assms
proof (induction m)
  case (Cons e m)
  have skip: "map (\<lambda>e. if fst e = k then l else e) m = m" if "k \<notin> fst ` set m" for k :: 'a
    using that by (induction m) auto
  from Cons show ?case
    by (cases e; cases l) (auto simp: fun_eq_iff map_add_def skip dest: map_of_SomeD
        split: option.splits if_splits simp: map_of_eq_None_iff image_iff)
qed simp

lemma map_of_im_swap_remove [simp, keyed_simps]:
  assumes "distinct (keys_of m)"
  shows "map_of (im_swap_remove k m) = (map_of m)(k := None)"
proof (cases "has_key m k")
  case False
  then show ?thesis by (auto simp: im_swap_remove_def)
next
  case True
  then have "m \<noteq> []" by auto
  then obtain m' l where m: "m = m' @ [l]" by (metis rev_exhaust)
  show ?thesis
  proof (cases "fst l = k")
    case True
    with assms m show ?thesis
      by (cases l) (auto simp: im_swap_remove_def fun_eq_iff map_add_def map_of_eq_None_iff
          split: option.splits)
  next
    case neq: False
    from True m neq obtain v where v: "map_of m' k = Some v"
      by (cases l) (auto simp: map_add_def split: option.splits if_splits)
    from swap_map_eq [OF assms [unfolded m] v] True neq m show ?thesis
      by (simp add: im_swap_remove_def Let_def)
  qed
qed

lemma distinct_im_swap_remove [simp, intro]:
  assumes "distinct (keys_of m)"
  shows "distinct (keys_of (im_swap_remove k m))"
proof (cases "has_key m k")
  case True
  then have "m \<noteq> []" by auto
  then obtain m' l where m: "m = m' @ [l]" by (metis rev_exhaust)
  have "distinct (keys_of (map (\<lambda>e. if fst e = k then l else e) n))"
    if "distinct (keys_of n)" and "fst l \<notin> fst ` set n" for n
    using that
  proof (induction n)
    case (Cons e n)
    show ?case
    proof (cases "fst e = k")
      case True
      with Cons.prems have "map (\<lambda>e. if fst e = k then l else e) n = n"
        by (auto intro!: map_idI simp: image_iff)
      with Cons.prems True show ?thesis by simp
    next
      case False
      with Cons.prems have "fst e \<notin> (\<lambda>x. fst (if fst x = k then l else x)) ` set n"
        by (auto split: if_splits)
      with Cons False show ?thesis by simp
    qed
  qed simp
  with assms m True show ?thesis
    by (auto simp: im_swap_remove_def Let_def)
qed (use assms in \<open>auto simp: im_swap_remove_def\<close>)

lemma map_of_im_retain [keyed_simps]:
  assumes "distinct (keys_of m)"
  shows "map_of (im_retain P m) k =
    (case map_of m k of None \<Rightarrow> None | Some v \<Rightarrow> if P k v then Some v else None)"
  using map_of_filter_distinct [OF assms, of "\<lambda>(k, v). P k v" k]
  by (simp add: im_retain_def cong: option.case_cong)

lemma distinct_im_retain [simp, intro]:
  "distinct (keys_of m) \<Longrightarrow> distinct (keys_of (im_retain P m))"
  by (simp add: im_retain_def distinct_map_filterI)

lemma set_im_retain [simp]: "set (im_retain P m) = {(k, v) \<in> set m. P k v}"
  by (auto simp: im_retain_def)

lemma distinct_fold_im_insert:
  "distinct (keys_of m) \<Longrightarrow> distinct (keys_of (fold (\<lambda>(k, v). im_insert k v) kvs m))"
  by (induction kvs arbitrary: m) auto

lemma distinct_im_from_iter [simp]: "distinct (keys_of (im_from_iter kvs))"
  by (simp add: im_from_iter_def distinct_fold_im_insert)

lemma fold_im_insert_fresh:
  "distinct (keys_of (m @ kvs)) \<Longrightarrow> fold (\<lambda>(k, v). im_insert k v) kvs m = m @ kvs"
  by (induction kvs arbitrary: m) (auto simp: im_insert_fresh)

lemma im_from_iter_distinct [simp]: "distinct (keys_of kvs) \<Longrightarrow> im_from_iter kvs = kvs"
  by (simp add: im_from_iter_def fold_im_insert_fresh)

section \<open>Key-ordered maps\<close>

lemma map_of_bt_insert [simp, keyed_simps]: "map_of (bt_insert k v m) = (map_of m)(k \<mapsto> v)"
  by (induction k v m rule: bt_insert.induct) (auto simp: fun_eq_iff)

lemma set_keys_bt_insert: "fst ` set (bt_insert k v m) = insert k (fst ` set m)"
  by (induction k v m rule: bt_insert.induct) auto

lemma sorted_bt_insert [simp, intro]:
  "sorted_wrt (<) (keys_of m) \<Longrightarrow> sorted_wrt (<) (keys_of (bt_insert k v m))"
  by (induction k v m rule: bt_insert.induct) (auto simp: set_keys_bt_insert)

lemma map_of_bt_remove [simp, keyed_simps]: "map_of (bt_remove k m) = (map_of m)(k := None)"
  by (auto simp: bt_remove_def map_of_filter_key)

lemma sorted_bt_remove [simp, intro]:
  "sorted_wrt (<) (keys_of m) \<Longrightarrow> sorted_wrt (<) (keys_of (bt_remove k m))"
  by (induction m) (auto simp: bt_remove_def)

lemma sorted_fold_bt_insert:
  "sorted_wrt (<) (keys_of m) \<Longrightarrow> sorted_wrt (<) (keys_of (fold (\<lambda>(k, v). bt_insert k v) kvs m))"
  by (induction kvs arbitrary: m) auto

lemma sorted_bt_from_iter [simp]: "sorted_wrt (<) (keys_of (bt_from_iter kvs))"
  by (simp add: bt_from_iter_def sorted_fold_bt_insert)

lemma sorted_keys_distinct: "sorted_wrt (<) (xs :: 'k::linorder list) \<Longrightarrow> distinct xs"
  by (simp add: strict_sorted_iff)

lemma map_of_fold_bt_insert: "map_of (fold (\<lambda>(k, v). bt_insert k v) kvs m) = map_of m ++ map_of (rev kvs)"
  by (induction kvs arbitrary: m) (auto simp: map_add_def fun_eq_iff split: option.splits)

lemma map_of_bt_from_iter [simp]:
  "distinct (keys_of kvs) \<Longrightarrow> map_of (bt_from_iter kvs) = map_of kvs"
  by (simp add: bt_from_iter_def map_of_fold_bt_insert map_of_rev_distinct)

text \<open>Two key-ordered maps with the same lookups are the same list.\<close>

lemma bt_map_eqI:
  fixes m n :: "('k::linorder \<times> 'v) list"
  assumes "sorted_wrt (<) (keys_of m)" "sorted_wrt (<) (keys_of n)" "map_of m = map_of n"
  shows "m = n"
proof (rule alist_eqI)
  show "distinct (keys_of m)" by (rule sorted_keys_distinct [OF assms(1)])
  have "set (keys_of m) = set (keys_of n)"
    by (metis assms(3) dom_map_of_conv_image_fst list.set_map)
  then show "keys_of m = keys_of n"
    using assms(1,2) by (metis strict_sorted_equal)
qed (rule assms(3))

lemma bt_from_iter_sorted [simp]: "sorted_wrt (<) (keys_of kvs) \<Longrightarrow> bt_from_iter kvs = kvs"
  by (rule bt_map_eqI) (auto simp: sorted_keys_distinct)

text \<open>The entries of a map with distinct keys, sorted by key.\<close>

lemma sorted_sort_entries [simp]:
  "distinct (keys_of m) \<Longrightarrow> sorted_wrt (<) (keys_of (sort_key fst m))"
  by (simp add: strict_sorted_iff distinct_map)

lemma map_of_sort_entries [simp]: "distinct (keys_of m) \<Longrightarrow> map_of (sort_key fst m) = map_of m"
  by (rule map_of_inject_set [THEN iffD2]) (auto simp: sorted_keys_distinct)

lemma sort_entries_eqI:
  assumes "distinct (keys_of m)" "distinct (keys_of n)" "set m = set n"
  shows "sort_key fst m = sort_key fst n"
  using assms by (intro bt_map_eqI) (auto simp: map_of_inject_set)

section \<open>The contract of the maps\<close>

locale ordered_map =
  fixes ins :: "'k \<Rightarrow> 'v \<Rightarrow> ('k \<times> 'v) list \<Rightarrow> ('k \<times> 'v) list"
    and rem :: "'k \<Rightarrow> ('k \<times> 'v) list \<Rightarrow> ('k \<times> 'v) list"
    and wf :: "('k \<times> 'v) list \<Rightarrow> bool"
  assumes wf_Nil: "wf []"
    and wf_ins: "wf m \<Longrightarrow> wf (ins k v m)"
    and wf_rem: "wf m \<Longrightarrow> wf (rem k m)"
    and wf_distinct: "wf m \<Longrightarrow> distinct (keys_of m)"
    and lookup_ins: "wf m \<Longrightarrow> map_of (ins k v m) = (map_of m)(k \<mapsto> v)"
    and lookup_rem: "wf m \<Longrightarrow> map_of (rem k m) = (map_of m)(k := None)"
begin

lemma keys_rem: "wf m \<Longrightarrow> set (keys_of (rem k m)) = set (keys_of m) - {k}"
  by (metis dom_fun_upd dom_map_of_conv_image_fst list.set_map lookup_rem)

lemma keys_ins: "wf m \<Longrightarrow> set (keys_of (ins k v m)) = insert k (set (keys_of m))"
  by (metis dom_fun_upd dom_map_of_conv_image_fst list.set_map lookup_ins option.distinct(1))

lemma mem_iff: "wf m \<Longrightarrow> (a, b) \<in> set m \<longleftrightarrow> map_of m a = Some b"
  by (simp add: wf_distinct)

lemma set_rem:
  assumes "wf m"
  shows "set (rem k m) = {e \<in> set m. fst e \<noteq> k}"
  using assms by (force simp: mem_iff wf_rem lookup_rem split: if_splits)

lemma set_ins:
  assumes "wf m"
  shows "set (ins k v m) = insert (k, v) {e \<in> set m. fst e \<noteq> k}"
proof -
  have "(a, b) \<in> set (ins k v m) \<longleftrightarrow> (a, b) \<in> insert (k, v) {e \<in> set m. fst e \<noteq> k}" for a b
    using assms by (auto simp: mem_iff wf_ins lookup_ins)
  then show ?thesis by auto
qed

lemma rem_ins_fresh: "wf m \<Longrightarrow> map_of m k = None \<Longrightarrow> map_of (rem k (ins k v m)) = map_of m"
  by (auto simp: lookup_rem lookup_ins wf_ins)

lemma wf_fold: "wf m \<Longrightarrow> wf (fold (\<lambda>(k, v). ins k v) kvs m)"
  by (induction kvs arbitrary: m) (auto simp: wf_ins)

lemma lookup_fold: "wf m \<Longrightarrow> map_of (fold (\<lambda>(k, v). ins k v) kvs m) = map_of m ++ map_of (rev kvs)"
  by (induction kvs arbitrary: m)
    (auto simp: wf_ins lookup_ins map_add_def fun_eq_iff split: option.splits)

lemma wf_fold_rem: "wf m \<Longrightarrow> wf (fold rem ks m)"
  by (induction ks arbitrary: m) (auto simp: wf_rem)

lemma lookup_fold_rem: "wf m \<Longrightarrow> map_of (fold rem ks m) k = (if k \<in> set ks then None else map_of m k)"
  by (induction ks arbitrary: m) (auto simp: wf_rem lookup_rem)

end

interpretation shift: ordered_map im_insert im_shift_remove "\<lambda>m. distinct (keys_of m)"
  by unfold_locales auto

interpretation swap: ordered_map im_insert im_swap_remove "\<lambda>m. distinct (keys_of m)"
  by unfold_locales auto

interpretation bt: ordered_map bt_insert bt_remove "\<lambda>m. sorted_wrt (<) (keys_of m)"
  by unfold_locales (auto intro: sorted_keys_distinct)

end
