(* ===== verification/Floats.thy ===== *)
theory Floats
  imports Prelude
begin

text \<open>
  Rust's \<open>f64\<close> and \<open>f32\<close> as their IEEE 754 bit patterns, with the operations the sources
  apply to them: the comparison \<open>==\<close> (so NaN differs from itself and the two zeros are
  equal), the saturating cast \<open>as i64\<close>, the rounding cast \<open>as f64\<close> of an \<open>i64\<close> (to
  nearest, ties to even) and the exact widening of an \<open>f32\<close>. Reading and printing a float
  in decimal is not modelled (see the record \<open>host\<close> in the theory Json).
\<close>

datatype f64 = F64 (bits64: "64 word")
datatype f32 = F32 (bits32: "32 word")

definition f_neg :: "f64 \<Rightarrow> bool" where
  "f_neg x \<longleftrightarrow> 2 ^ 63 \<le> unat (bits64 x)"

definition f_exp :: "f64 \<Rightarrow> nat" where
  "f_exp x = unat (bits64 x) div 2 ^ 52 mod 2048"

definition f_frac :: "f64 \<Rightarrow> nat" where
  "f_frac x = unat (bits64 x) mod 2 ^ 52"

definition f_is_nan :: "f64 \<Rightarrow> bool" where
  "f_is_nan x \<longleftrightarrow> f_exp x = 2047 \<and> f_frac x \<noteq> 0"

definition f_is_finite :: "f64 \<Rightarrow> bool" where
  "f_is_finite x \<longleftrightarrow> f_exp x \<noteq> 2047"

definition f_is_zero :: "f64 \<Rightarrow> bool" where
  "f_is_zero x \<longleftrightarrow> f_exp x = 0 \<and> f_frac x = 0"

definition f_eq :: "f64 \<Rightarrow> f64 \<Rightarrow> bool" where
  "f_eq x y \<longleftrightarrow> \<not> f_is_nan x \<and> \<not> f_is_nan y \<and> (x = y \<or> f_is_zero x \<and> f_is_zero y)"

definition f_zero :: f64 where "f_zero = F64 0"
definition f_one :: f64 where "f_one = F64 (1023 * 2 ^ 52)"

text \<open>The magnitude of a finite float, rounded towards zero.\<close>

definition f_trunc :: "f64 \<Rightarrow> nat" where
  "f_trunc x =
    (let e = f_exp x; m = (if e = 0 then f_frac x else 2 ^ 52 + f_frac x); e' = max e 1
     in if 1075 \<le> e' then m * 2 ^ (e' - 1075) else m div 2 ^ (1075 - e'))"

definition i64_clamp :: "int \<Rightarrow> i64" where
  "i64_clamp i = word_of_int (max (- (2 ^ 63)) (min (2 ^ 63 - 1) i))"

definition f64_as_i64 :: "f64 \<Rightarrow> i64" where
  "f64_as_i64 x =
    (if f_is_nan x then 0
     else if \<not> f_is_finite x then (if f_neg x then i64_clamp (- (2 ^ 63)) else i64_clamp (2 ^ 63))
     else i64_clamp (if f_neg x then - int (f_trunc x) else int (f_trunc x)))"

fun bitlen :: "nat \<Rightarrow> nat" where
  "bitlen n = (if n = 0 then 0 else Suc (bitlen (n div 2)))"

declare bitlen.simps [simp del]

text \<open>\<open>round_even n k\<close> is \<open>n / 2 ^ k\<close> to the nearest integer, a tie going to the even one.\<close>

definition round_even :: "nat \<Rightarrow> nat \<Rightarrow> nat" where
  "round_even n k =
    (let q = n div 2 ^ k; r = 2 * (n mod 2 ^ k)
     in if 2 ^ k < r \<or> (r = 2 ^ k \<and> odd q) then q + 1 else q)"

text \<open>The pattern (without its sign) of the float nearest to a positive integer: a significand
  of 53 bits and its exponent; a significand rounded up to \<open>2 ^ 53\<close> carries into the
  exponent field.\<close>

definition nat_pattern :: "nat \<Rightarrow> nat" where
  "nat_pattern n =
    (if n = 0 then 0
     else let b = bitlen n;
              sig = (if b \<le> 53 then n * 2 ^ (53 - b) else round_even n (b - 53))
          in (b + 1022) * 2 ^ 52 + (sig - 2 ^ 52))"

definition i64_as_f64 :: "i64 \<Rightarrow> f64" where
  "i64_as_f64 i =
    (if sint i < 0 then F64 (2 ^ 63 + word_of_nat (nat_pattern (nat (- sint i))))
     else F64 (word_of_nat (nat_pattern (nat (sint i)))))"

definition f32_as_f64 :: "f32 \<Rightarrow> f64" where
  "f32_as_f64 x =
    (let n = unat (bits32 x); s = n div 2 ^ 31; e = n div 2 ^ 23 mod 256; f = n mod 2 ^ 23;
         p = (if e = 255 then 2047 * 2 ^ 52 + f * 2 ^ 29
              else if e \<noteq> 0 then (e + 896) * 2 ^ 52 + f * 2 ^ 29
              else if f = 0 then 0
              else (bitlen f + 873) * 2 ^ 52 + (f * 2 ^ (53 - bitlen f) - 2 ^ 52))
     in F64 (word_of_nat (s * 2 ^ 63 + p)))"

definition f32_is_nan :: "f32 \<Rightarrow> bool" where
  "f32_is_nan x \<longleftrightarrow> unat (bits32 x) div 2 ^ 23 mod 256 = 255 \<and> unat (bits32 x) mod 2 ^ 23 \<noteq> 0"

definition f32_is_finite :: "f32 \<Rightarrow> bool" where
  "f32_is_finite x \<longleftrightarrow> unat (bits32 x) div 2 ^ 23 mod 256 \<noteq> 255"

definition f32_eq :: "f32 \<Rightarrow> f32 \<Rightarrow> bool" where
  "f32_eq x y \<longleftrightarrow> \<not> f32_is_nan x \<and> \<not> f32_is_nan y \<and>
    (x = y \<or> (unat (bits32 x) mod 2 ^ 31 = 0 \<and> unat (bits32 y) mod 2 ^ 31 = 0))"

section \<open>Comparison\<close>

lemma f_eq_sym: "f_eq x y \<longleftrightarrow> f_eq y x"
  by (auto simp: f_eq_def)

lemma f_eq_refl [simp]: "f_eq x x \<longleftrightarrow> \<not> f_is_nan x"
  by (simp add: f_eq_def)

lemma f32_eq_sym: "f32_eq x y \<longleftrightarrow> f32_eq y x"
  by (auto simp: f32_eq_def)

lemma f32_eq_refl [simp]: "f32_eq x x \<longleftrightarrow> \<not> f32_is_nan x"
  by (simp add: f32_eq_def)

section \<open>Casts\<close>

lemma bitlen_pos: "0 < n \<Longrightarrow> 0 < bitlen n"
  by (subst bitlen.simps) simp

lemma bitlen_bounds: "0 < n \<Longrightarrow> 2 ^ (bitlen n - 1) \<le> n \<and> n < 2 ^ bitlen n"
proof (induction n rule: bitlen.induct)
  case (1 n)
  show ?case
  proof (cases "n = 1")
    case True
    then show ?thesis by (simp add: bitlen.simps)
  next
    case False
    with 1 have "2 ^ (bitlen (n div 2) - 1) \<le> n div 2 \<and> n div 2 < 2 ^ bitlen (n div 2)"
      by auto
    moreover have "bitlen n = Suc (bitlen (n div 2))" using 1 by (subst bitlen.simps) simp
    moreover have "0 < bitlen (n div 2)" using False 1 by (intro bitlen_pos) auto
    ultimately show ?thesis
      by (cases "bitlen (n div 2)") auto
  qed
qed

lemma bitlen_le: "n < 2 ^ k \<Longrightarrow> bitlen n \<le> k"
proof (cases "n = 0")
  case True
  then show ?thesis by (simp add: bitlen.simps)
next
  case False
  assume "n < 2 ^ k"
  with bitlen_bounds [of n] False have "(2::nat) ^ (bitlen n - 1) < 2 ^ k" by linarith
  then have "bitlen n - 1 < k" using power_less_imp_less_exp by fastforce
  then show ?thesis by simp
qed

lemma field_div: "(r::nat) < d \<Longrightarrow> (q * d + r) div d = q"
  by simp

lemma field_mod: "(r::nat) < d \<Longrightarrow> (q * d + r) mod d = r"
  by simp

text \<open>The fields of the pattern of an integer of at most 53 bits, and its truncation.\<close>

lemma nat_pattern_fields:
  assumes "0 < n" and "n < 2 ^ 53"
  shows "nat_pattern n div 2 ^ 52 = bitlen n + 1022"
    and "2 ^ 52 + nat_pattern n mod 2 ^ 52 = n * 2 ^ (53 - bitlen n)"
proof -
  have b: "bitlen n \<le> 53" "0 < bitlen n" "2 ^ (bitlen n - 1) \<le> n" "n < 2 ^ bitlen n"
    using bitlen_le [OF assms(2)] bitlen_pos [OF assms(1)] bitlen_bounds [OF assms(1)] by auto
  let ?s = "n * 2 ^ (53 - bitlen n)"
  have "2 ^ (bitlen n - 1) * 2 ^ (53 - bitlen n) \<le> ?s" by (rule mult_le_mono1 [OF b(3)])
  moreover have "(2::nat) ^ (bitlen n - 1) * 2 ^ (53 - bitlen n) = 2 ^ 52"
    using b(1,2) by (simp flip: power_add)
  ultimately have lo: "2 ^ 52 \<le> ?s" by (simp only:)
  have "?s < 2 ^ bitlen n * 2 ^ (53 - bitlen n)" using b(4) by simp
  also have "\<dots> = 2 ^ 53" using b(1) by (simp flip: power_add)
  finally have hi: "?s - 2 ^ 52 < 2 ^ 52" by simp
  have p: "nat_pattern n = (bitlen n + 1022) * 2 ^ 52 + (?s - 2 ^ 52)"
    using assms b by (simp add: nat_pattern_def Let_def)
  show "nat_pattern n div 2 ^ 52 = bitlen n + 1022"
    unfolding p by (rule field_div [OF hi])
  have "nat_pattern n mod 2 ^ 52 = ?s - 2 ^ 52"
    unfolding p by (rule field_mod [OF hi])
  with lo show "2 ^ 52 + nat_pattern n mod 2 ^ 52 = ?s" by simp
qed

lemma nat_pattern_less: "0 < n \<Longrightarrow> n < 2 ^ 53 \<Longrightarrow> nat_pattern n < 1076 * 2 ^ 52"
proof -
  assume n: "0 < n" "n < 2 ^ 53"
  have "nat_pattern n div 2 ^ 52 < 1076"
    using nat_pattern_fields(1) [OF n] bitlen_le [OF n(2)] by simp
  then show ?thesis by (simp add: div_less_iff_less_mult)
qed

lemma word_fields:
  assumes "p < 2 ^ 63"
  shows "f_exp (F64 (word_of_nat p)) = p div 2 ^ 52" "f_frac (F64 (word_of_nat p)) = p mod 2 ^ 52"
    "\<not> f_neg (F64 (word_of_nat p))"
    "f_exp (F64 (2 ^ 63 + word_of_nat p)) = p div 2 ^ 52"
    "f_frac (F64 (2 ^ 63 + word_of_nat p)) = p mod 2 ^ 52"
    "f_neg (F64 (2 ^ 63 + word_of_nat p))"
proof -
  have u: "unat (word_of_nat p :: 64 word) = p"
    using assms by (simp add: unsigned_of_nat take_bit_nat_eq_self)
  have "(2 ^ 63 + word_of_nat p :: 64 word) = word_of_nat (2 ^ 63 + p)" by simp
  then have v: "unat (2 ^ 63 + word_of_nat p :: 64 word) = 2 ^ 63 + p"
    using assms by (simp only: unsigned_of_nat) (simp add: take_bit_nat_eq_self)
  have d: "p div 2 ^ 52 < 2048" using assms by (simp add: div_less_iff_less_mult)
  have "(2048 * 2 ^ 52 + p) div 2 ^ 52 = 2048 + p div 2 ^ 52"
    by (rule div_mult_self3) simp
  then have "(2 ^ 63 + p) div 2 ^ 52 = 2048 + p div 2 ^ 52" by simp
  with d have e: "(2 ^ 63 + p) div 2 ^ 52 mod 2048 = p div 2 ^ 52" by simp
  have f: "(2 ^ 63 + p) mod 2 ^ 52 = p mod 2 ^ 52"
    using mod_mult_self3 [of 2048 "2 ^ 52" p] by simp
  show "f_exp (F64 (word_of_nat p)) = p div 2 ^ 52" "f_frac (F64 (word_of_nat p)) = p mod 2 ^ 52"
    "\<not> f_neg (F64 (word_of_nat p))"
    using u d assms by (simp_all add: f_exp_def f_frac_def f_neg_def)
  show "f_exp (F64 (2 ^ 63 + word_of_nat p)) = p div 2 ^ 52"
    "f_frac (F64 (2 ^ 63 + word_of_nat p)) = p mod 2 ^ 52"
    "f_neg (F64 (2 ^ 63 + word_of_nat p))"
    unfolding f_exp_def f_frac_def f_neg_def f64.sel v using e f by simp_all
qed

text \<open>Every integer of at most 53 bits survives the cast to \<open>f64\<close> and back.\<close>

lemma small_trunc:
  assumes "0 < n" "n < 2 ^ 53" and "f_exp x = nat_pattern n div 2 ^ 52"
    and "f_frac x = nat_pattern n mod 2 ^ 52"
  shows "f_trunc x = n" "f_is_finite x"
proof -
  note flds = nat_pattern_fields [OF assms(1,2)]
  have b: "bitlen n \<le> 53" "0 < bitlen n"
    using bitlen_le [OF assms(2)] bitlen_pos [OF assms(1)] by auto
  show "f_is_finite x" using assms(3) flds(1) b by (simp add: f_is_finite_def)
  have m: "2 ^ 52 + f_frac x = n * 2 ^ (53 - bitlen n)"
    using assms(4) flds(2) by simp
  show "f_trunc x = n"
  proof (cases "bitlen n = 53")
    case True
    with m b show ?thesis
      using assms(3) flds(1) by (simp add: f_trunc_def Let_def)
  next
    case False
    with b have "1075 - (bitlen n + 1022) = 53 - bitlen n" "\<not> 1075 \<le> bitlen n + 1022" by auto
    with m show ?thesis
      using assms(3) flds(1) by (simp add: f_trunc_def Let_def max_def)
  qed
qed

lemma i64_as_f64_as_i64:
  assumes "\<bar>sint i\<bar> < 2 ^ 53"
  shows "f64_as_i64 (i64_as_f64 i) = i" "\<not> f_is_nan (i64_as_f64 i)"
proof -
  let ?n = "nat \<bar>sint i\<bar>"
  have n: "?n < 2 ^ 53" using assms by simp
  have "max (- (2 ^ 63)) (min (2 ^ 63 - 1) (sint i)) = sint i"
    using sint_greater_eq [of i] sint_less [of i] by (simp add: max_def min_def)
  then have clamp: "i64_clamp (sint i) = i"
    by (simp only: i64_clamp_def) simp
  have "f64_as_i64 (i64_as_f64 i) = i \<and> \<not> f_is_nan (i64_as_f64 i)"
  proof (cases "sint i = 0")
    case True
    then have "i = 0" by (simp add: signed_eq_0_iff)
    then show ?thesis
      by (simp add: i64_as_f64_def nat_pattern_def f64_as_i64_def f_is_nan_def f_exp_def f_frac_def
          f_is_finite_def f_trunc_def f_neg_def i64_clamp_def)
  next
    case False
    then have pos: "0 < ?n" by simp
    have less: "nat_pattern ?n < 2 ^ 63"
      using nat_pattern_less [OF pos n] by simp
    note w = word_fields [OF less]
    show ?thesis
    proof (cases "sint i < 0")
      case True
      then have x: "i64_as_f64 i = F64 (2 ^ 63 + word_of_nat (nat_pattern ?n))"
        by (simp add: i64_as_f64_def)
      note t = small_trunc [OF pos n w(4) w(5)]
      then have "\<not> f_is_nan (F64 (2 ^ 63 + word_of_nat (nat_pattern ?n)))"
        by (simp add: f_is_nan_def f_is_finite_def)
      with t w(6) True clamp show ?thesis
        unfolding x by (simp add: f64_as_i64_def)
    next
      case nonneg: False
      then have x: "i64_as_f64 i = F64 (word_of_nat (nat_pattern ?n))"
        by (simp add: i64_as_f64_def)
      note t = small_trunc [OF pos n w(1) w(2)]
      then have "\<not> f_is_nan (F64 (word_of_nat (nat_pattern ?n)))"
        by (simp add: f_is_nan_def f_is_finite_def)
      with t w(3) nonneg clamp show ?thesis
        unfolding x by (simp add: f64_as_i64_def)
    qed
  qed
  then show "f64_as_i64 (i64_as_f64 i) = i" "\<not> f_is_nan (i64_as_f64 i)" by auto
qed

end
