(* ===== verification/Decimal.thy ===== *)
theory Decimal
  imports Prelude
begin

text \<open>
  Decimal text of the integers: what \<open>to_string\<close> of \<open>usize\<close>, \<open>u64\<close> and \<open>i64\<close> prints, and
  what \<open>str::parse::<i64>\<close> and \<open>str::parse::<bool>\<close> read (an optional sign, at least one
  digit, an error on overflow). The identifiers of agents, presets and contexts are such
  texts, so the lemmas here (injectivity, the alphabet, the round trip) carry the
  freshness and key arguments of the other components.
\<close>

definition digit_char :: "nat \<Rightarrow> char" where
  "digit_char d = char_of (48 + d)"

definition char_digit :: "char \<Rightarrow> nat option" where
  "char_digit c = (let n = of_char c :: nat in if 48 \<le> n \<and> n \<le> 57 then Some (n - 48) else None)"

fun dec_nat :: "nat \<Rightarrow> string" where
  "dec_nat n = (if n < 10 then [digit_char n] else dec_nat (n div 10) @ [digit_char (n mod 10)])"

declare dec_nat.simps [simp del]

definition dec_int :: "int \<Rightarrow> string" where
  "dec_int i = (if i < 0 then CHR ''-'' # dec_nat (nat (- i)) else dec_nat (nat i))"

definition usize_to_string :: "usize \<Rightarrow> string" where
  "usize_to_string n = dec_nat (unat n)"

definition i64_to_string :: "i64 \<Rightarrow> string" where
  "i64_to_string i = dec_int (sint i)"

fun parse_digits :: "nat \<Rightarrow> string \<Rightarrow> nat option" where
  "parse_digits acc [] = Some acc"
| "parse_digits acc (c # s) =
    (case char_digit c of None \<Rightarrow> None | Some d \<Rightarrow> parse_digits (10 * acc + d) s)"

definition parse_nat :: "string \<Rightarrow> nat option" where
  "parse_nat s = (if s = [] then None else parse_digits 0 s)"

definition parse_int :: "string \<Rightarrow> int option" where
  "parse_int s =
    (case s of
      [] \<Rightarrow> None
    | c # t \<Rightarrow>
        if c = CHR ''-'' then map_option (\<lambda>n. - int n) (parse_nat t)
        else if c = CHR ''+'' then map_option int (parse_nat t)
        else map_option int (parse_nat s))"

definition parse_i64 :: "string \<Rightarrow> i64 option" where
  "parse_i64 s =
    (case parse_int s of
      None \<Rightarrow> None
    | Some i \<Rightarrow> if - (2 ^ 63) \<le> i \<and> i < 2 ^ 63 then Some (word_of_int i) else None)"

definition parse_bool :: "string \<Rightarrow> bool option" where
  "parse_bool s = (if s = ''true'' then Some True else if s = ''false'' then Some False else None)"

definition bool_to_string :: "bool \<Rightarrow> string" where
  "bool_to_string b = (if b then ''true'' else ''false'')"

section \<open>Digits\<close>

lemma char_digit_digit_char [simp]: "d < 10 \<Longrightarrow> char_digit (digit_char d) = Some d"
  by (simp add: char_digit_def digit_char_def Let_def)

lemma digit_char_inj: "d < 10 \<Longrightarrow> e < 10 \<Longrightarrow> digit_char d = digit_char e \<Longrightarrow> d = e"
  using char_digit_digit_char by fastforce

definition is_digits :: "string \<Rightarrow> bool" where
  "is_digits s \<longleftrightarrow> (\<forall>c \<in> set s. char_digit c \<noteq> None)"

lemma is_digits_append [simp]: "is_digits (s @ t) \<longleftrightarrow> is_digits s \<and> is_digits t"
  by (auto simp: is_digits_def)

lemma dec_nat_digits [simp]: "is_digits (dec_nat n)"
  by (induction n rule: dec_nat.induct) (subst dec_nat.simps, auto simp: is_digits_def)

lemma dec_nat_not_Nil [simp]: "dec_nat n \<noteq> []"
  by (subst dec_nat.simps) simp

lemma digits_no_char:
  "is_digits s \<Longrightarrow> char_digit c = None \<Longrightarrow> c \<notin> set s"
  by (auto simp: is_digits_def)

lemma parse_digits_append:
  "parse_digits acc (s @ t) = Option.bind (parse_digits acc s) (\<lambda>a. parse_digits a t)"
  by (induction s arbitrary: acc) (auto split: option.splits)

lemma parse_digits_dec_nat [simp]: "parse_digits 0 (dec_nat n) = Some n"
proof (induction n rule: dec_nat.induct)
  case (1 n)
  show ?case
  proof (cases "n < 10")
    case True
    then show ?thesis by (subst dec_nat.simps) simp
  next
    case False
    with 1 show ?thesis by (subst dec_nat.simps) (simp add: parse_digits_append)
  qed
qed

lemma parse_nat_dec_nat [simp]: "parse_nat (dec_nat n) = Some n"
  by (simp add: parse_nat_def)

lemma dec_nat_inj [simp]: "dec_nat m = dec_nat n \<longleftrightarrow> m = n"
  by (metis option.inject parse_nat_dec_nat)

lemma dec_nat_hd_digit: "dec_nat n = c # s \<Longrightarrow> char_digit c \<noteq> None"
  by (metis dec_nat_digits is_digits_def list.set_intros(1))

lemma parse_int_dec_int [simp]: "parse_int (dec_int i) = Some i"
proof (cases "i < 0")
  case True
  then show ?thesis by (simp add: dec_int_def parse_int_def)
next
  case False
  obtain c s where cs: "dec_nat (nat i) = c # s" by (cases "dec_nat (nat i)") auto
  then have "c \<noteq> CHR ''-''" "c \<noteq> CHR ''+''"
    using dec_nat_hd_digit [OF cs] by (auto simp: char_digit_def Let_def)
  then have "parse_int (c # s) = map_option int (parse_nat (c # s))"
    by (simp add: parse_int_def)
  with False show ?thesis by (simp add: dec_int_def flip: cs)
qed

lemma dec_int_inj [simp]: "dec_int i = dec_int j \<longleftrightarrow> i = j"
  by (metis option.inject parse_int_dec_int)

lemma usize_to_string_inj [simp]: "usize_to_string m = usize_to_string n \<longleftrightarrow> m = n"
  by (simp add: usize_to_string_def word_unat_eq_iff)

lemma usize_to_string_not_Nil [simp]: "usize_to_string n \<noteq> []"
  by (simp add: usize_to_string_def)

lemma i64_to_string_inj [simp]: "i64_to_string i = i64_to_string j \<longleftrightarrow> i = j"
  by (auto simp: i64_to_string_def intro: signed_word_eqI)

lemma parse_i64_to_string [simp]: "parse_i64 (i64_to_string i) = Some i"
proof -
  have "- (2 ^ 63) \<le> sint i" "sint i < 2 ^ 63"
    using sint_greater_eq [of i] sint_less [of i] by simp_all
  then show ?thesis by (simp add: parse_i64_def i64_to_string_def)
qed

lemma parse_bool_to_string [simp]: "parse_bool (bool_to_string b) = Some b"
  by (simp add: parse_bool_def bool_to_string_def)

end
