(* ===== verification/Json.thy ===== *)
theory Json
  imports Containers Floats Decimal
begin

text \<open>
  \<open>serde_json::Value\<close> as the sources use it, and the record \<open>host\<close> of what the program
  takes from other crates and from the decimal float routines of the standard library.

  A JSON object is a \<open>BTreeMap\<close>: an association list in strictly increasing key order
  (\<open>json_wf\<close>). A number is an unsigned or a negative integer of 64 bits or a finite float.
  The field readers at the end are what \<open>derive(Deserialize)\<close> generates for a struct: it
  reads an object by field name and an array by field position.
\<close>

datatype json_number = PosInt u64 | NegInt i64 | Flt f64

datatype json =
    JNull
  | JBool bool
  | JNumber json_number
  | JString string
  | JArray "json list"
  | JObject "(string \<times> json) list"

record photon_image =
  raw_pixels :: "u8 list"
  img_width :: u32
  img_height :: u32

text \<open>\<open>h_img_decode\<close> and \<open>h_img_encode\<close> are \<open>PhotonImage::new_from_base64\<close> and
  \<open>get_base64\<close>; \<open>h_parse_f64\<close> and \<open>h_show_f64\<close> are \<open>str::parse::<f64>\<close> and
  \<open>f64::to_string\<close>; \<open>h_json_text\<close> and \<open>h_json_parse\<close> are \<open>serde_json::to_string\<close> and
  \<open>serde_json::from_str\<close>; \<open>h_serde_msg\<close> is the text of a deserialization error of the named
  type on a value. The crate panics on a text that is no picture: \<open>h_img_panics\<close> says on which
  ones, and \<open>h_img_decode\<close> is the picture on the others. The reader of messages hands the
  crate a text it has not checked, and follows the panic (\<open>message_from_json\<close>); the readers of
  values trim the prefix of a data URL first, and are modelled for texts that are pictures.\<close>

record host =
  h_img_decode :: "string \<Rightarrow> photon_image"
  h_img_panics :: "string \<Rightarrow> bool"
  h_img_encode :: "photon_image \<Rightarrow> string"
  h_parse_f64 :: "string \<Rightarrow> f64 option"
  h_show_f64 :: "f64 \<Rightarrow> string"
  h_json_text :: "json \<Rightarrow> string"
  h_json_parse :: "string \<Rightarrow> json option"
  h_serde_msg :: "string \<Rightarrow> json \<Rightarrow> string"

definition number_of_i64 :: "i64 \<Rightarrow> json_number" where
  "number_of_i64 i = (if sint i < 0 then NegInt i else PosInt i)"

definition number_as_i64 :: "json_number \<Rightarrow> i64 option" where
  "number_as_i64 n =
    (case n of
      PosInt u \<Rightarrow> if unat u < 2 ^ 63 then Some u else None
    | NegInt i \<Rightarrow> Some i
    | Flt x \<Rightarrow> None)"

definition number_as_u64 :: "json_number \<Rightarrow> u64 option" where
  "number_as_u64 n = (case n of PosInt u \<Rightarrow> Some u | _ \<Rightarrow> None)"

definition number_as_f64 :: "json_number \<Rightarrow> f64 option" where
  "number_as_f64 n =
    (case n of
      PosInt u \<Rightarrow> Some (F64 (word_of_nat (nat_pattern (unat u))))
    | NegInt i \<Rightarrow> Some (i64_as_f64 i)
    | Flt x \<Rightarrow> Some x)"

definition number_from_f64 :: "f64 \<Rightarrow> json_number option" where
  "number_from_f64 x = (if f_is_finite x then Some (Flt x) else None)"

definition json_of_f64 :: "f64 \<Rightarrow> json" where
  "json_of_f64 x = (case number_from_f64 x of None \<Rightarrow> JNull | Some n \<Rightarrow> JNumber n)"

definition json_of_u64 :: "u64 \<Rightarrow> json" where
  "json_of_u64 u = JNumber (PosInt u)"

definition json_as_str :: "json \<Rightarrow> string option" where
  "json_as_str j = (case j of JString s \<Rightarrow> Some s | _ \<Rightarrow> None)"

definition json_as_bool :: "json \<Rightarrow> bool option" where
  "json_as_bool j = (case j of JBool b \<Rightarrow> Some b | _ \<Rightarrow> None)"

definition json_as_u64 :: "json \<Rightarrow> u64 option" where
  "json_as_u64 j = (case j of JNumber n \<Rightarrow> number_as_u64 n | _ \<Rightarrow> None)"

definition json_as_i64 :: "json \<Rightarrow> i64 option" where
  "json_as_i64 j = (case j of JNumber n \<Rightarrow> number_as_i64 n | _ \<Rightarrow> None)"

definition json_get :: "json \<Rightarrow> string \<Rightarrow> json option" where
  "json_get j k = (case j of JObject m \<Rightarrow> map_of m k | _ \<Rightarrow> None)"

fun number_wf :: "json_number \<Rightarrow> bool" where
  "number_wf (PosInt u) = True"
| "number_wf (NegInt i) = (sint i < 0)"
| "number_wf (Flt x) = f_is_finite x"

fun json_wf :: "json \<Rightarrow> bool" where
  "json_wf (JNumber n) = number_wf n"
| "json_wf (JArray js) = list_all json_wf js"
| "json_wf (JObject m) = (sorted_wrt (<) (keys_of m) \<and> list_all (\<lambda>(k, j). json_wf j) m)"
| "json_wf j = True"

section \<open>Field readers\<close>

text \<open>\<open>struct_fields names req j\<close> gives the fields a derived \<open>Deserialize\<close> finds in \<open>j\<close>: all
  entries of an object (unknown ones are ignored), or the elements of an array in the order
  of \<open>names\<close>, of which the first \<open>req\<close> have no default and must be present.\<close>

definition struct_fields :: "string list \<Rightarrow> nat \<Rightarrow> json \<Rightarrow> (string \<Rightarrow> json option) option" where
  "struct_fields names req j =
    (case j of
      JObject m \<Rightarrow> Some (map_of m)
    | JArray js \<Rightarrow>
        if req \<le> length js \<and> length js \<le> length names then Some (map_of (zip names js)) else None
    | _ \<Rightarrow> None)"

definition required :: "(json \<Rightarrow> 'a option) \<Rightarrow> json option \<Rightarrow> 'a option" where
  "required f x = Option.bind x f"

definition defaulted :: "'a \<Rightarrow> (json \<Rightarrow> 'a option) \<Rightarrow> json option \<Rightarrow> 'a option" where
  "defaulted d f x = (case x of None \<Rightarrow> Some d | Some j \<Rightarrow> f j)"

text \<open>A field of type \<open>Option<T>\<close>: missing and \<open>null\<close> are \<open>None\<close>.\<close>

definition optional :: "(json \<Rightarrow> 'a option) \<Rightarrow> json option \<Rightarrow> 'a option option" where
  "optional f x =
    (case x of None \<Rightarrow> Some None | Some JNull \<Rightarrow> Some None | Some j \<Rightarrow> map_option Some (f j))"

text \<open>An entry a serializer skips when the value is absent.\<close>

definition opt_entry :: "string \<Rightarrow> ('a \<Rightarrow> json) \<Rightarrow> 'a option \<Rightarrow> (string \<times> json) list" where
  "opt_entry k f x = (case x of None \<Rightarrow> [] | Some v \<Rightarrow> [(k, f v)])"

definition flag_entry :: "string \<Rightarrow> bool \<Rightarrow> (string \<times> json) list" where
  "flag_entry k b = (if b then [(k, JBool True)] else [])"

definition json_object :: "(string \<times> json) list \<Rightarrow> json" where
  "json_object kvs = JObject (bt_from_iter kvs)"

lemma number_as_i64_of_i64 [simp]: "number_as_i64 (number_of_i64 i) = Some i"
proof -
  have "unat i < 2 ^ 63" if "0 \<le> sint i"
  proof -
    have b: "sint i < 2 ^ 63" using sint_less [of i] by simp
    with that have "uint i = sint i"
      by (simp add: uint_sint take_bit_int_eq_self)
    with b show ?thesis by (simp add: unat_eq_nat_uint nat_less_iff)
  qed
  then show ?thesis by (auto simp: number_as_i64_def number_of_i64_def)
qed

lemma number_as_Flt [simp]:
  "number_as_i64 (Flt x) = None" "number_as_f64 (Flt x) = Some x"
  by (simp_all add: number_as_i64_def number_as_f64_def)

lemma number_wf_of_i64 [simp]: "number_wf (number_of_i64 i)"
  by (simp add: number_of_i64_def)

lemma number_wf_from_f64: "number_from_f64 x = Some n \<Longrightarrow> number_wf n"
  by (auto simp: number_from_f64_def split: if_splits)

lemma json_wf_of_f64 [simp]: "json_wf (json_of_f64 x)"
  by (auto simp: json_of_f64_def number_from_f64_def)

lemma opt_entry_simps [simp]: "opt_entry k f None = []" "opt_entry k f (Some v) = [(k, f v)]"
  by (simp_all add: opt_entry_def)

lemma field_readers [simp]:
  "required f None = None" "required f (Some j) = f j"
  "defaulted d f None = Some d" "defaulted d f (Some j) = f j"
  "optional f None = Some None" "optional f (Some JNull) = Some None"
  "optional g (Some (JString s)) = map_option Some (g (JString s))"
  by (simp_all add: required_def defaulted_def optional_def)

lemma json_as_simps [simp]:
  "json_as_str (JString s) = Some s" "json_as_bool (JBool b) = Some b"
  "json_as_u64 (json_of_u64 u) = Some u" "json_as_u64 (JNumber (PosInt u)) = Some u"
  by (simp_all add: json_as_str_def json_as_bool_def json_as_u64_def json_of_u64_def
      number_as_u64_def)

lemma map_of_bt_from_iter_get [simp]:
  "distinct (keys_of kvs) \<Longrightarrow> json_get (json_object kvs) k = map_of kvs k"
  by (simp add: json_get_def json_object_def)

lemma map_of_opt_entry [simp]:
  "map_of (opt_entry k f x @ kvs) k' = (if k = k' \<and> x \<noteq> None then Some (f (the x)) else map_of kvs k')"
  by (cases x) auto

lemma map_of_opt_entry_single [simp]:
  "map_of (opt_entry k f x) k' = (if k = k' \<and> x \<noteq> None then Some (f (the x)) else None)"
  by (cases x) auto

lemma map_of_flag_entry [simp]:
  "map_of (flag_entry k b @ kvs) k' = (if k = k' \<and> b then Some (JBool True) else map_of kvs k')"
  by (auto simp: flag_entry_def)

lemma keys_entries [simp]:
  "fst ` set (opt_entry k f x) = (if x = None then {} else {k})"
  "distinct (keys_of (opt_entry k f x))"
  "fst ` set (flag_entry k b) = (if b then {k} else {})"
  "distinct (keys_of (flag_entry k b))"
  by (auto simp: flag_entry_def opt_entry_def split: option.splits)

end
