(* ===== verification/Message.thy ===== *)
theory Message
  imports Json
begin

text \<open>
  llm.rs, the data: content blocks, messages, tool calls and token usage, their
  constructors and readers, and their JSON form (the hand-written \<open>Serialize\<close> and
  \<open>Deserialize\<close> of \<open>Message\<close> and the derived ones of the other types). The conversions
  from and to \<open>AgentValue\<close> are in the theory Coercion, the token estimates and the streaming
  events in the theory Llm.

  \<open>message_from_json\<close> has the error text as its left value: it is what serde's
  \<open>custom\<close> error prints. It is \<open>None\<close> when the picture crate panics. The lemmas show that a
  message without a picture comes back from its JSON up to the content form (block lists of
  text only become plain text), and what becomes of a picture: the writer puts the data URL of
  \<open>get_base64\<close> there, and the reader hands that URL, prefix and all, to \<open>new_from_base64\<close>,
  unlike the readers of value.rs and of \<open>TryFrom<AgentValue>\<close>, which trim the prefix.
\<close>

datatype content_block =
    TextBlock string
  | ThinkingBlock string "string option" bool
  | ImageBlock string string

datatype message_content = Text string | Blocks "content_block list"

record usage =
  input_tokens :: u64
  output_tokens :: u64
  cache_read_tokens :: u64
  cache_write_tokens :: u64

record tool_call_function =
  fn_name :: string
  fn_parameters :: json
  fn_id :: "string option"
  fn_parse_error :: "string option"

record tool_call =
  tc_function :: tool_call_function

record message =
  msg_id :: "string option"
  msg_role :: string
  msg_content :: message_content
  msg_tokens :: "usize option"
  msg_streaming :: bool
  msg_tool_calls :: "tool_call list option"
  msg_tool_name :: "string option"
  msg_is_error :: "bool option"
  msg_stop_reason :: "string option"
  msg_usage :: "usage option"
  msg_image :: "photon_image option"

fun block_text :: "content_block \<Rightarrow> string option" where
  "block_text (TextBlock t) = Some t"
| "block_text b = None"

fun is_text_block :: "content_block \<Rightarrow> bool" where
  "is_text_block (TextBlock t) = True"
| "is_text_block b = False"

definition content_text :: "message_content \<Rightarrow> string" where
  "content_text c =
    (case c of Text s \<Rightarrow> s | Blocks bs \<Rightarrow> concat (List.map_filter block_text bs))"

definition absorb_legacy_thinking :: "message_content \<Rightarrow> string \<Rightarrow> message_content" where
  "absorb_legacy_thinking c thinking =
    (let blocks = (case c of
        Text s \<Rightarrow> if s = [] then [] else [TextBlock s]
      | Blocks bs \<Rightarrow> bs)
     in Blocks (ThinkingBlock thinking None False # blocks))"

definition new_message :: "string \<Rightarrow> string \<Rightarrow> message" where
  "new_message role content =
    \<lparr>msg_id = None, msg_role = role, msg_content = Text content, msg_tokens = None,
     msg_streaming = False, msg_tool_calls = None, msg_tool_name = None, msg_is_error = None,
     msg_stop_reason = None, msg_usage = None, msg_image = None\<rparr>"

definition assistant_message :: "string \<Rightarrow> message" where
  "assistant_message content = new_message ''assistant'' content"

definition system_message :: "string \<Rightarrow> message" where
  "system_message content = new_message ''system'' content"

definition user_message :: "string \<Rightarrow> message" where
  "user_message content = new_message ''user'' content"

definition tool_message :: "string \<Rightarrow> string \<Rightarrow> message" where
  "tool_message name content = (new_message ''tool'' content)\<lparr>msg_tool_name := Some name\<rparr>"

definition tool_message_with_content :: "string \<Rightarrow> message_content \<Rightarrow> message" where
  "tool_message_with_content name content =
    (new_message ''tool'' [])\<lparr>msg_content := content, msg_tool_name := Some name\<rparr>"

definition with_image :: "photon_image \<Rightarrow> message \<Rightarrow> message" where
  "with_image img m = m\<lparr>msg_image := Some img\<rparr>"

definition message_text :: "message \<Rightarrow> string" where
  "message_text m = content_text (msg_content m)"

fun thinking_part :: "content_block \<Rightarrow> string option" where
  "thinking_part (ThinkingBlock t sig redacted) = Some (if redacted then ''[redacted]'' else t)"
| "thinking_part b = None"

fun join_with :: "string \<Rightarrow> string list \<Rightarrow> string" where
  "join_with sep [] = []"
| "join_with sep [s] = s"
| "join_with sep (s # t # ss) = s @ sep @ join_with sep (t # ss)"

definition message_thinking :: "message \<Rightarrow> string option" where
  "message_thinking m =
    (case msg_content m of
      Text s \<Rightarrow> None
    | Blocks bs \<Rightarrow>
        (let parts = List.map_filter thinking_part bs
         in if parts = [] then None else Some (join_with [CHR 0x0A] parts)))"

definition message_eq :: "message \<Rightarrow> message \<Rightarrow> bool" where
  "message_eq m n \<longleftrightarrow> msg_id m = msg_id n \<and> msg_role m = msg_role n \<and> msg_content m = msg_content n"

section \<open>JSON form\<close>

fun block_to_json :: "content_block \<Rightarrow> json" where
  "block_to_json (TextBlock t) =
    json_object [(''type'', JString ''text''), (''text'', JString t)]"
| "block_to_json (ThinkingBlock t sig redacted) =
    json_object ([(''type'', JString ''thinking''), (''thinking'', JString t)] @
      opt_entry ''signature'' JString sig @
      flag_entry ''redacted'' redacted)"
| "block_to_json (ImageBlock d mime) =
    json_object [(''type'', JString ''image''), (''data'', JString d), (''mime_type'', JString mime)]"

text \<open>An internally tagged enum: the tag is the field \<open>type\<close> of an object, or the first
  element of an array whose rest holds the fields of the variant.\<close>

definition tagged :: "json \<Rightarrow> (string \<times> json) option" where
  "tagged j =
    (case j of
      JObject m \<Rightarrow>
        Option.bind (Option.bind (map_of m ''type'') json_as_str) (\<lambda>t. Some (t, j))
    | JArray (JString t # js) \<Rightarrow> Some (t, JArray js)
    | _ \<Rightarrow> None)"

definition block_from_json :: "json \<Rightarrow> content_block option" where
  "block_from_json j = do {
    (t, body) \<leftarrow> tagged j;
    if t = ''text'' then do {
      f \<leftarrow> struct_fields [''text''] 1 body;
      x \<leftarrow> required json_as_str (f ''text'');
      Some (TextBlock x) }
    else if t = ''thinking'' then do {
      f \<leftarrow> struct_fields [''thinking'', ''signature'', ''redacted''] 1 body;
      x \<leftarrow> required json_as_str (f ''thinking'');
      s \<leftarrow> optional json_as_str (f ''signature'');
      r \<leftarrow> defaulted False json_as_bool (f ''redacted'');
      Some (ThinkingBlock x s r) }
    else if t = ''image'' then do {
      f \<leftarrow> struct_fields [''data'', ''mime_type''] 2 body;
      d \<leftarrow> required json_as_str (f ''data'');
      m \<leftarrow> required json_as_str (f ''mime_type'');
      Some (ImageBlock d m) }
    else None }"

definition usage_to_json :: "usage \<Rightarrow> json" where
  "usage_to_json u = json_object
    [(''input_tokens'', json_of_u64 (input_tokens u)), (''output_tokens'', json_of_u64 (output_tokens u)),
     (''cache_read_tokens'', json_of_u64 (cache_read_tokens u)),
     (''cache_write_tokens'', json_of_u64 (cache_write_tokens u))]"

definition usage_from_json :: "json \<Rightarrow> usage option" where
  "usage_from_json j = do {
    f \<leftarrow> struct_fields
      [''input_tokens'', ''output_tokens'', ''cache_read_tokens'', ''cache_write_tokens''] 0 j;
    i \<leftarrow> defaulted 0 json_as_u64 (f ''input_tokens'');
    out \<leftarrow> defaulted 0 json_as_u64 (f ''output_tokens'');
    r \<leftarrow> defaulted 0 json_as_u64 (f ''cache_read_tokens'');
    w \<leftarrow> defaulted 0 json_as_u64 (f ''cache_write_tokens'');
    Some \<lparr>input_tokens = i, output_tokens = out, cache_read_tokens = r, cache_write_tokens = w\<rparr> }"

definition tool_call_to_json :: "tool_call \<Rightarrow> json" where
  "tool_call_to_json c =
    (let f = tc_function c
     in json_object [(''function'', json_object (
       [(''name'', JString (fn_name f)), (''parameters'', fn_parameters f)] @
       opt_entry ''id'' JString (fn_id f) @ opt_entry ''parse_error'' JString (fn_parse_error f)))])"

definition tool_call_function_from_json :: "json \<Rightarrow> tool_call_function option" where
  "tool_call_function_from_json j = do {
    f \<leftarrow> struct_fields [''name'', ''parameters'', ''id'', ''parse_error''] 3 j;
    n \<leftarrow> required json_as_str (f ''name'');
    p \<leftarrow> f ''parameters'';
    i \<leftarrow> optional json_as_str (f ''id'');
    e \<leftarrow> optional json_as_str (f ''parse_error'');
    Some \<lparr>fn_name = n, fn_parameters = p, fn_id = i, fn_parse_error = e\<rparr> }"

definition tool_call_from_json :: "json \<Rightarrow> tool_call option" where
  "tool_call_from_json j = do {
    f \<leftarrow> struct_fields [''function''] 1 j;
    x \<leftarrow> required tool_call_function_from_json (f ''function'');
    Some \<lparr>tc_function = x\<rparr> }"

definition vec_from_json :: "(json \<Rightarrow> 'a option) \<Rightarrow> json \<Rightarrow> 'a list option" where
  "vec_from_json f j = (case j of JArray js \<Rightarrow> collect_options (map f js) | _ \<Rightarrow> None)"

definition content_to_json :: "message_content \<Rightarrow> json" where
  "content_to_json c =
    (case c of
      Text s \<Rightarrow> JString s
    | Blocks bs \<Rightarrow>
        if list_all is_text_block bs then JString (content_text c)
        else JArray (map block_to_json bs))"

definition message_to_json :: "host \<Rightarrow> message \<Rightarrow> json" where
  "message_to_json H m = json_object (
    opt_entry ''id'' JString (msg_id m) @
    [(''role'', JString (msg_role m)), (''content'', content_to_json (msg_content m))] @
    opt_entry ''tokens'' json_of_u64 (msg_tokens m) @
    flag_entry ''streaming'' (msg_streaming m) @
    opt_entry ''tool_calls'' (\<lambda>cs. JArray (map tool_call_to_json cs)) (msg_tool_calls m) @
    opt_entry ''tool_name'' JString (msg_tool_name m) @
    opt_entry ''is_error'' JBool (msg_is_error m) @
    opt_entry ''stop_reason'' JString (msg_stop_reason m) @
    opt_entry ''usage'' usage_to_json (msg_usage m) @
    opt_entry ''image'' (\<lambda>i. JString (h_img_encode H i)) (msg_image m))"

definition role_from_json :: "json option \<Rightarrow> string + string" where
  "role_from_json x =
    (case x of None \<Rightarrow> Inr ''user'' | Some j \<Rightarrow> ok_or ''role must be a string'' (json_as_str j))"

definition content_from_json :: "host \<Rightarrow> json option \<Rightarrow> string + message_content" where
  "content_from_json H x =
    (case x of
      None \<Rightarrow> Inr (Text [])
    | Some (JString s) \<Rightarrow> Inr (Text s)
    | Some (JArray js) \<Rightarrow>
        map_ok Blocks (ok_or (''invalid content blocks: '' @ h_serde_msg H ''Vec<ContentBlock>'' (JArray js))
          (vec_from_json block_from_json (JArray js)))
    | Some j \<Rightarrow> Inl ''content must be a string or an array of content blocks'')"

definition tool_calls_from_json :: "host \<Rightarrow> json option \<Rightarrow> string + tool_call list option" where
  "tool_calls_from_json H x =
    (case x of
      None \<Rightarrow> Inr None
    | Some j \<Rightarrow> map_ok Some (ok_or (h_serde_msg H ''Vec<ToolCall>'' j) (vec_from_json tool_call_from_json j)))"

text \<open>\<open>None\<close>: the picture crate panics on the text.\<close>

definition image_from_json :: "host \<Rightarrow> json option \<Rightarrow> (string + photon_image option) option" where
  "image_from_json H x =
    (case x of
      None \<Rightarrow> Some (Inr None)
    | Some j \<Rightarrow>
        (case json_as_str j of
          None \<Rightarrow> Some (Inl ''image must be a string'')
        | Some s \<Rightarrow> if h_img_panics H s then None else Some (Inr (Some (h_img_decode H s)))))"

definition absorb_thinking :: "string option \<Rightarrow> message_content \<Rightarrow> message_content" where
  "absorb_thinking x c = (case x of None \<Rightarrow> c | Some t \<Rightarrow> absorb_legacy_thinking c t)"

definition message_from_json :: "host \<Rightarrow> json \<Rightarrow> (string + message) option" where
  "message_from_json H j =
    (case j of
      JObject m \<Rightarrow>
        (case and_then (role_from_json (map_of m ''role'')) (\<lambda>role.
            and_then (content_from_json H (map_of m ''content'')) (\<lambda>content.
            and_then (tool_calls_from_json H (map_of m ''tool_calls'')) (\<lambda>calls.
              Inr \<lparr>msg_id = Option.bind (map_of m ''id'') json_as_str, msg_role = role,
                msg_content =
                  absorb_thinking (Option.bind (map_of m ''thinking'') json_as_str) content,
                msg_tokens = Option.bind (map_of m ''tokens'') json_as_u64,
                msg_streaming = unwrap_or (Option.bind (map_of m ''streaming'') json_as_bool) False,
                msg_tool_calls = calls,
                msg_tool_name = Option.bind (map_of m ''tool_name'') json_as_str,
                msg_is_error = Option.bind (map_of m ''is_error'') json_as_bool,
                msg_stop_reason = Option.bind (map_of m ''stop_reason'') json_as_str,
                msg_usage = Option.bind (map_of m ''usage'') usage_from_json,
                msg_image = None\<rparr>))) of
          Inl e \<Rightarrow> Some (Inl e)
        | Inr msg \<Rightarrow>
            map_option (map_ok (\<lambda>img. msg\<lparr>msg_image := img\<rparr>)) (image_from_json H (map_of m ''image'')))
    | _ \<Rightarrow> Some (Inl (h_serde_msg H ''Map'' j)))"

section \<open>Round trips\<close>

lemma struct_fields_object [simp]: "struct_fields ns r (json_object kvs) = Some (json_get (json_object kvs))"
  by (auto simp: struct_fields_def json_object_def json_get_def)

lemma tagged_object [simp]:
  "json_get (json_object kvs) ''type'' = Some (JString t) \<Longrightarrow> tagged (json_object kvs) = Some (t, json_object kvs)"
  by (simp add: tagged_def json_object_def json_get_def)

lemma block_round_trip [simp]: "block_from_json (block_to_json b) = Some b"
proof (cases b)
  case (ThinkingBlock t sig redacted)
  then show ?thesis
    by (cases sig; cases redacted) (simp_all add: block_from_json_def flag_entry_def)
qed (simp_all add: block_from_json_def)

lemma usage_round_trip [simp]: "usage_from_json (usage_to_json u) = Some u"
  by (cases u) (simp add: usage_from_json_def usage_to_json_def)

lemma tool_call_round_trip [simp]: "tool_call_from_json (tool_call_to_json c) = Some c"
proof -
  obtain f where c: "c = \<lparr>tc_function = f\<rparr>" by (cases c)
  show ?thesis
    by (cases f; cases "fn_id f"; cases "fn_parse_error f")
      (simp_all add: c tool_call_from_json_def tool_call_to_json_def Let_def
        tool_call_function_from_json_def)
qed

lemma vec_round_trip:
  "(\<And>x. x \<in> set xs \<Longrightarrow> g (f x) = Some x) \<Longrightarrow> vec_from_json g (JArray (map f xs)) = Some xs"
  by (induction xs) (auto simp: vec_from_json_def)

lemma content_text_all_text:
  "list_all is_text_block bs \<Longrightarrow> content_text (Blocks bs) = concat (map (\<lambda>b. the (block_text b)) bs)"
proof (induction bs)
  case (Cons b bs)
  then show ?case by (cases b) (auto simp: content_text_def List.map_filter_def)
qed (simp add: content_text_def List.map_filter_def)

text \<open>What a message looks like after it was written and read: text-only blocks have become
  plain text.\<close>

definition flatten_content :: "message_content \<Rightarrow> message_content" where
  "flatten_content c =
    (case c of Text s \<Rightarrow> c
     | Blocks bs \<Rightarrow> if list_all is_text_block bs then Text (content_text c) else c)"

lemma content_round_trip: "content_from_json H (Some (content_to_json c)) = Inr (flatten_content c)"
  by (auto simp: content_from_json_def content_to_json_def flatten_content_def vec_round_trip
      split: message_content.splits)

lemma content_text_flatten [simp]: "content_text (flatten_content c) = content_text c"
  by (auto simp: flatten_content_def content_text_def split: message_content.splits)

text \<open>What \<open>message_from_json\<close> makes of the picture of a message it reads: it asks the crate for the
  whole data URL.\<close>

definition reread_image :: "host \<Rightarrow> photon_image option \<Rightarrow> photon_image option option" where
  "reread_image H x =
    (case x of
      None \<Rightarrow> Some None
    | Some i \<Rightarrow>
        if h_img_panics H (h_img_encode H i) then None else Some (Some (h_img_decode H (h_img_encode H i))))"

lemma reread_None [simp]: "reread_image H None = Some None"
  by (simp add: reread_image_def)

lemma message_round_trip:
  "message_from_json H (message_to_json H m) =
    map_option (\<lambda>img. Inr (m\<lparr>msg_content := flatten_content (msg_content m), msg_image := img\<rparr>))
      (reread_image H (msg_image m))"
proof -
  define kvs where "kvs = opt_entry ''id'' JString (msg_id m) @
    [(''role'', JString (msg_role m)), (''content'', content_to_json (msg_content m))] @
    opt_entry ''tokens'' json_of_u64 (msg_tokens m) @
    flag_entry ''streaming'' (msg_streaming m) @
    opt_entry ''tool_calls'' (\<lambda>cs. JArray (map tool_call_to_json cs)) (msg_tool_calls m) @
    opt_entry ''tool_name'' JString (msg_tool_name m) @
    opt_entry ''is_error'' JBool (msg_is_error m) @
    opt_entry ''stop_reason'' JString (msg_stop_reason m) @
    opt_entry ''usage'' usage_to_json (msg_usage m) @
    opt_entry ''image'' (\<lambda>i. JString (h_img_encode H i)) (msg_image m)"
  have d: "distinct (keys_of kvs)"
    by (simp add: kvs_def)
  have look: "map_of (bt_from_iter kvs) k = map_of kvs k" for k
    using d by simp
  have get: "map_of kvs ''id'' = map_option JString (msg_id m)"
    "map_of kvs ''role'' = Some (JString (msg_role m))"
    "map_of kvs ''content'' = Some (content_to_json (msg_content m))"
    "map_of kvs ''thinking'' = None"
    "map_of kvs ''tokens'' = map_option json_of_u64 (msg_tokens m)"
    "map_of kvs ''streaming'' = (if msg_streaming m then Some (JBool True) else None)"
    "map_of kvs ''tool_calls'' = map_option (\<lambda>cs. JArray (map tool_call_to_json cs)) (msg_tool_calls m)"
    "map_of kvs ''tool_name'' = map_option JString (msg_tool_name m)"
    "map_of kvs ''is_error'' = map_option JBool (msg_is_error m)"
    "map_of kvs ''stop_reason'' = map_option JString (msg_stop_reason m)"
    "map_of kvs ''usage'' = map_option usage_to_json (msg_usage m)"
    "map_of kvs ''image'' = map_option (\<lambda>i. JString (h_img_encode H i)) (msg_image m)"
    unfolding kvs_def by (simp_all del: map_of_append) auto
  have calls: "tool_calls_from_json H (map_option (\<lambda>cs. JArray (map tool_call_to_json cs)) x) = Inr x" for x
    by (cases x) (simp_all add: tool_calls_from_json_def vec_round_trip)
  have img: "image_from_json H (map_option (\<lambda>i. JString (h_img_encode H i)) (msg_image m)) =
      map_option Inr (reread_image H (msg_image m))"
    by (cases "msg_image m") (simp_all add: image_from_json_def reread_image_def)
  have opt: "Option.bind (map_option f x) g = x" if "\<And>y. g (f y) = Some y"
    for f :: "'b \<Rightarrow> json" and g :: "json \<Rightarrow> 'b option" and x
    using that by (cases x) auto
  have j: "message_to_json H m = JObject (bt_from_iter kvs)"
    unfolding message_to_json_def json_object_def kvs_def by (rule refl)
  have vals: "Option.bind (map_option JString x) json_as_str = x"
    "Option.bind (map_option json_of_u64 n) json_as_u64 = n"
    "Option.bind (map_option JBool b) json_as_bool = b"
    "Option.bind (map_option usage_to_json u) usage_from_json = u" for x n b u
    by (simp_all add: opt)
  have flag: "unwrap_or (Option.bind (if b then Some (JBool True) else None) json_as_bool) False = b" for b
    by simp
  show ?thesis
    unfolding j message_from_json_def json.case look get calls img vals flag role_from_json_def
      content_round_trip absorb_thinking_def
    by (cases "reread_image H (msg_image m)") simp_all
qed

end
