(* ===== verification/Errors.thy ===== *)
theory Errors
  imports Prelude
begin

text \<open>
  error.rs: the error type every operation of the program returns, the text its
  \<open>Display\<close> instance prints (the \<open>#[error]\<close> attributes) and the retry classification.
  A \<open>Duration\<close> is its seconds and nanoseconds.
\<close>

type_synonym duration = "u64 \<times> u32"

datatype agent_error =
    InvalidArrayValue string
  | InvalidDefinition string string
  | InvalidPin string
  | InvalidPresetName string
  | InvalidValue string
  | MissingDefinition string string
  | RenamePresetFailed string
  | UnknownDefKind string
  | UnknownDefName string
  | NotImplemented string
  | AgentAlreadyExists string
  | AgentCreationFailed string
  | AgentNotFound string
  | SourceAgentNotFound string
  | DuplicateId string
  | EmptySourceHandle
  | EmptyTargetHandle
  | ConnectionAlreadyExists
  | ConnectionNotFound string
  | PresetNotFound string
  | PresetNameExists string
  | AgentDefinitionNotFound string
  | AgentTxNotFound string
  | SendMessageFailed string
  | SerializationError string
  | TxNotInitialized
  | IoError string
  | JsonParseError string
  | InvalidFileExtension
  | EmptyFileName
  | FileSystemError
  | InvalidConfig string
  | NoConfig
  | UnknownConfig string
  | NoGlobalConfig
  | PinNotFound string
  | RateLimited string "duration option"
  | Overloaded string
  | Timeout string
  | ContextOverflow string
  | Cancelled
  | Other string

type_synonym 'a result = "agent_error + 'a"

fun error_text :: "agent_error \<Rightarrow> string" where
  "error_text (InvalidArrayValue s) = ''Invalid '' @ s @ '' value in array''"
| "error_text (InvalidDefinition a b) = a @ '': Agent definition \"'' @ b @ ''\" is invalid''"
| "error_text (InvalidPin s) = ''Invalid port: '' @ s"
| "error_text (InvalidPresetName s) = ''Invalid preset name: '' @ s"
| "error_text (InvalidValue s) = ''Invalid '' @ s @ '' value''"
| "error_text (MissingDefinition a b) = a @ '': Agent definition \"'' @ b @ ''\" is missing''"
| "error_text (RenamePresetFailed s) = ''Failed to rename preset: '' @ s"
| "error_text (UnknownDefKind s) = ''Unknown agent def kind: '' @ s"
| "error_text (UnknownDefName s) = ''Unknown agent def name: '' @ s"
| "error_text (NotImplemented s) = ''Agent definition \"'' @ s @ ''\" is not implemented''"
| "error_text (AgentAlreadyExists s) = ''Agent '' @ s @ '' already exists''"
| "error_text (AgentCreationFailed s) = ''Failed to create agent '' @ s"
| "error_text (AgentNotFound s) = ''Agent '' @ s @ '' not found''"
| "error_text (SourceAgentNotFound s) = ''Source agent '' @ s @ '' not found''"
| "error_text (DuplicateId s) = ''Duplicate id: '' @ s"
| "error_text EmptySourceHandle = ''Source handle is empty''"
| "error_text EmptyTargetHandle = ''Target handle is empty''"
| "error_text ConnectionAlreadyExists = ''Connection already exists''"
| "error_text (ConnectionNotFound s) = ''Connection '' @ s @ '' not found''"
| "error_text (PresetNotFound s) = ''Preset '' @ s @ '' not found''"
| "error_text (PresetNameExists s) = ''Preset name \"'' @ s @ ''\" already exists''"
| "error_text (AgentDefinitionNotFound s) = ''Agent '' @ s @ '' definition not found''"
| "error_text (AgentTxNotFound s) = ''Agent tx for '' @ s @ '' not found''"
| "error_text (SendMessageFailed s) = ''Failed to send message: '' @ s"
| "error_text (SerializationError s) = ''Failed to serialize/deserialize: '' @ s"
| "error_text TxNotInitialized = ''Message sender not initialized''"
| "error_text (IoError s) = ''IO error: '' @ s"
| "error_text (JsonParseError s) = ''JSON parsing error: '' @ s"
| "error_text InvalidFileExtension = ''Invalid file extension: expected JSON''"
| "error_text EmptyFileName = ''Empty file name''"
| "error_text FileSystemError = ''Failed to get file stem from path''"
| "error_text (InvalidConfig s) = ''Configuration error: '' @ s"
| "error_text NoConfig = ''No configuration available''"
| "error_text (UnknownConfig s) = ''Unknown configuration: '' @ s"
| "error_text NoGlobalConfig = ''No global configuration available''"
| "error_text (PinNotFound s) = ''Pin not found: '' @ s"
| "error_text (RateLimited s r) = ''Rate limited: '' @ s"
| "error_text (Overloaded s) = ''Provider overloaded: '' @ s"
| "error_text (Timeout s) = ''Request timed out: '' @ s"
| "error_text (ContextOverflow s) = ''Context overflow: '' @ s"
| "error_text Cancelled = ''Cancelled''"
| "error_text (Other s) = ''Agent error: '' @ s"

fun is_retryable :: "agent_error \<Rightarrow> bool" where
  "is_retryable (RateLimited s r) = True"
| "is_retryable (Overloaded s) = True"
| "is_retryable (Timeout s) = True"
| "is_retryable e = False"

end
