(* ===== verification/Value.thy ===== *)
theory Value
  imports Message Errors
begin

text \<open>
  value.rs, the data: \<open>AgentValue\<close>, its constructors, type tests, readers, \<open>get\<close>/\<open>set\<close>
  by key, equality, and its two JSON forms (\<open>to_json\<close> and the \<open>Serialize\<close> instance) with
  \<open>from_json\<close>.

  An \<open>Object\<close> is an \<open>im::HashMap\<close>: the association list is its entries in the (unspecified)
  iteration order, with distinct keys (\<open>value_wf\<close>); the order is observable nowhere, which
  the lemmas on \<open>to_json\<close> and \<open>value_eq\<close> show. Images and messages are the records of the
  theories Json and Message, a \<open>Tensor\<close> is a list of \<open>f32\<close> patterns.
\<close>

datatype agent_value =
    Unit
  | Boolean bool
  | Integer i64
  | Number f64
  | String string
  | Image photon_image
  | Array "agent_value list"
  | Object "(string \<times> agent_value) list"
  | Tensor "f32 list"
  | Message message
  | Error agent_error

type_synonym value_map = "(string \<times> agent_value) list"

lemma size_object_entry [termination_simp]:
  "(k, v) \<in> set m \<Longrightarrow> size v < Suc (size_list (size_prod (\<lambda>x. 0) size) m)"
  by (induction m) auto

lemma size_object_snd [termination_simp]:
  "kv \<in> set m \<Longrightarrow> size (snd kv) < Suc (size_list (size_prod (\<lambda>x. 0) size) m)"
  by (cases kv) (auto intro: size_object_entry)

lemma size_zip_fst [termination_simp]:
  "(x, y) \<in> set (zip xs ys) \<Longrightarrow> size x < Suc (size_list size xs)"
  by (auto dest!: set_zip_leftD simp: less_Suc_eq_le size_list_estimation')

fun value_wf :: "agent_value \<Rightarrow> bool" where
  "value_wf (Array vs) = list_all value_wf vs"
| "value_wf (Object m) = (distinct (keys_of m) \<and> list_all (\<lambda>kv. value_wf (snd kv)) m)"
| "value_wf v = True"

section \<open>Type tests and readers\<close>

fun is_unit :: "agent_value \<Rightarrow> bool" where
  "is_unit Unit = True" | "is_unit v = False"

fun is_boolean :: "agent_value \<Rightarrow> bool" where
  "is_boolean (Boolean b) = True" | "is_boolean v = False"

fun is_integer :: "agent_value \<Rightarrow> bool" where
  "is_integer (Integer i) = True" | "is_integer v = False"

fun is_number :: "agent_value \<Rightarrow> bool" where
  "is_number (Number n) = True" | "is_number v = False"

fun is_string :: "agent_value \<Rightarrow> bool" where
  "is_string (String s) = True" | "is_string v = False"

fun is_image :: "agent_value \<Rightarrow> bool" where
  "is_image (Image i) = True" | "is_image v = False"

fun is_array :: "agent_value \<Rightarrow> bool" where
  "is_array (Array a) = True" | "is_array v = False"

fun is_object :: "agent_value \<Rightarrow> bool" where
  "is_object (Object m) = True" | "is_object v = False"

fun is_tensor :: "agent_value \<Rightarrow> bool" where
  "is_tensor (Tensor t) = True" | "is_tensor v = False"

fun is_message :: "agent_value \<Rightarrow> bool" where
  "is_message (Message m) = True" | "is_message v = False"

fun as_bool :: "agent_value \<Rightarrow> bool option" where
  "as_bool (Boolean b) = Some b" | "as_bool v = None"

fun as_i64 :: "agent_value \<Rightarrow> i64 option" where
  "as_i64 (Integer i) = Some i"
| "as_i64 (Number n) = Some (f64_as_i64 n)"
| "as_i64 v = None"

fun as_f64 :: "agent_value \<Rightarrow> f64 option" where
  "as_f64 (Integer i) = Some (i64_as_f64 i)"
| "as_f64 (Number n) = Some n"
| "as_f64 v = None"

fun as_str :: "agent_value \<Rightarrow> string option" where
  "as_str (String s) = Some s" | "as_str v = None"

fun as_image :: "agent_value \<Rightarrow> photon_image option" where
  "as_image (Image i) = Some i" | "as_image v = None"

fun as_message :: "agent_value \<Rightarrow> message option" where
  "as_message (Message m) = Some m" | "as_message v = None"

fun as_object :: "agent_value \<Rightarrow> value_map option" where
  "as_object (Object m) = Some m" | "as_object v = None"

fun as_array :: "agent_value \<Rightarrow> agent_value list option" where
  "as_array (Array a) = Some a" | "as_array v = None"

fun as_tensor :: "agent_value \<Rightarrow> f32 list option" where
  "as_tensor (Tensor t) = Some t" | "as_tensor v = None"

text \<open>Readers by key, which answer only for an object.\<close>

definition value_get :: "agent_value \<Rightarrow> string \<Rightarrow> agent_value option" where
  "value_get v k = Option.bind (as_object v) (\<lambda>m. map_of m k)"

definition value_get_bool :: "agent_value \<Rightarrow> string \<Rightarrow> bool option" where
  "value_get_bool v k = Option.bind (value_get v k) as_bool"

definition value_get_i64 :: "agent_value \<Rightarrow> string \<Rightarrow> i64 option" where
  "value_get_i64 v k = Option.bind (value_get v k) as_i64"

definition value_get_f64 :: "agent_value \<Rightarrow> string \<Rightarrow> f64 option" where
  "value_get_f64 v k = Option.bind (value_get v k) as_f64"

definition value_get_str :: "agent_value \<Rightarrow> string \<Rightarrow> string option" where
  "value_get_str v k = Option.bind (value_get v k) as_str"

definition value_get_image :: "agent_value \<Rightarrow> string \<Rightarrow> photon_image option" where
  "value_get_image v k = Option.bind (value_get v k) as_image"

definition value_get_object :: "agent_value \<Rightarrow> string \<Rightarrow> value_map option" where
  "value_get_object v k = Option.bind (value_get v k) as_object"

definition value_get_array :: "agent_value \<Rightarrow> string \<Rightarrow> agent_value list option" where
  "value_get_array v k = Option.bind (value_get v k) as_array"

definition value_get_tensor :: "agent_value \<Rightarrow> string \<Rightarrow> f32 list option" where
  "value_get_tensor v k = Option.bind (value_get v k) as_tensor"

definition value_get_message :: "agent_value \<Rightarrow> string \<Rightarrow> message option" where
  "value_get_message v k = Option.bind (value_get v k) as_message"

text \<open>\<open>set\<close> changes the value in place; on anything but an object it fails and the value
  stays. The entry order after \<open>im::HashMap::insert\<close> is one of those the map may have.\<close>

definition value_set :: "string \<Rightarrow> agent_value \<Rightarrow> agent_value \<Rightarrow> agent_value result" where
  "value_set k x v =
    (case as_object v of
      Some m \<Rightarrow> Inr (Object (im_insert k x m))
    | None \<Rightarrow> Inl (InvalidValue ''set can only be called on Object AgentValue''))"

section \<open>Equality\<close>

fun value_eq :: "agent_value \<Rightarrow> agent_value \<Rightarrow> bool" where
  "value_eq Unit w = is_unit w"
| "value_eq (Boolean b) w = (as_bool w = Some b)"
| "value_eq (Integer i) w = (w = Integer i)"
| "value_eq (Number x) w = (case w of Number y \<Rightarrow> f_eq x y | _ \<Rightarrow> False)"
| "value_eq (String s) w = (as_str w = Some s)"
| "value_eq (Image i) w = (case w of
      Image j \<Rightarrow> img_width i = img_width j \<and> img_height i = img_height j \<and> raw_pixels i = raw_pixels j
    | _ \<Rightarrow> False)"
| "value_eq (Array xs) w = (case w of
      Array ys \<Rightarrow> length xs = length ys \<and> list_all (\<lambda>(x, y). value_eq x y) (zip xs ys)
    | _ \<Rightarrow> False)"
| "value_eq (Object m) w = (case w of
      Object n \<Rightarrow> length m = length n \<and>
        list_all (\<lambda>kv. case map_of n (fst kv) of None \<Rightarrow> False | Some u \<Rightarrow> value_eq (snd kv) u) m
    | _ \<Rightarrow> False)"
| "value_eq (Tensor t) w = (case w of Tensor u \<Rightarrow> list_all2 f32_eq t u | _ \<Rightarrow> False)"
| "value_eq (Message m) w = (case w of Message n \<Rightarrow> message_eq m n | _ \<Rightarrow> False)"
| "value_eq (Error e) w = False"

section \<open>JSON\<close>

definition IMAGE_BASE64_PREFIX :: string where
  "IMAGE_BASE64_PREFIX = ''data:image/png;base64,''"

fun from_json :: "host \<Rightarrow> json \<Rightarrow> agent_value result" where
  "from_json H JNull = Inr Unit"
| "from_json H (JBool b) = Inr (Boolean b)"
| "from_json H (JNumber n) =
    (case number_as_i64 n of
      Some i \<Rightarrow> Inr (Integer i)
    | None \<Rightarrow>
        (case number_as_f64 n of
          Some x \<Rightarrow> Inr (Number x)
        | None \<Rightarrow> Inl (InvalidValue ''Invalid numeric value for AgentValue'')))"
| "from_json H (JString s) =
    (if starts_with IMAGE_BASE64_PREFIX s
     then Inr (Image (h_img_decode H (trim_start_matches IMAGE_BASE64_PREFIX s)))
     else Inr (String s))"
| "from_json H (JArray js) = map_ok Array (collect_results (map (from_json H) js))"
| "from_json H (JObject m) =
    map_ok (\<lambda>kvs. Object (im_from_iter kvs))
      (collect_results (map (\<lambda>kj. map_ok (Pair (fst kj)) (from_json H (snd kj))) m))"

definition tensor_number :: "f32 \<Rightarrow> json_number" where
  "tensor_number x = unwrap_or (number_from_f64 (f32_as_f64 x)) (PosInt 0)"

fun to_json :: "host \<Rightarrow> agent_value \<Rightarrow> json" where
  "to_json H Unit = JNull"
| "to_json H (Boolean b) = JBool b"
| "to_json H (Integer i) = JNumber (number_of_i64 i)"
| "to_json H (Number x) = json_of_f64 x"
| "to_json H (String s) = JString s"
| "to_json H (Image i) = JString (h_img_encode H i)"
| "to_json H (Array vs) = JArray (map (to_json H) vs)"
| "to_json H (Object m) =
    json_object (map (\<lambda>kv. (fst kv, to_json H (snd kv))) (sort_key fst m))"
| "to_json H (Tensor t) = JArray (map (\<lambda>x. JNumber (tensor_number x)) t)"
| "to_json H (Message m) = message_to_json H m"
| "to_json H (Error e) = JNull"

text \<open>The \<open>Serialize\<close> instance, run by the serializer into \<open>serde_json::Value\<close>.\<close>

fun serialize_value :: "host \<Rightarrow> agent_value \<Rightarrow> json" where
  "serialize_value H Unit = JNull"
| "serialize_value H (Boolean b) = JBool b"
| "serialize_value H (Integer i) = JNumber (number_of_i64 i)"
| "serialize_value H (Number x) = json_of_f64 x"
| "serialize_value H (String s) = JString s"
| "serialize_value H (Image i) = JString (h_img_encode H i)"
| "serialize_value H (Array vs) = JArray (map (serialize_value H) vs)"
| "serialize_value H (Object m) =
    json_object (map (\<lambda>kv. (fst kv, serialize_value H (snd kv))) (sort_key fst m))"
| "serialize_value H (Tensor t) = JArray (map (\<lambda>x. json_of_f64 (f32_as_f64 x)) t)"
| "serialize_value H (Message m) = message_to_json H m"
| "serialize_value H (Error e) = JNull"

definition deserialize_value :: "host \<Rightarrow> json \<Rightarrow> string + agent_value" where
  "deserialize_value H j =
    map_err (\<lambda>e. ''Failed to deserialize AgentValue: '' @ error_text e) (from_json H j)"

section \<open>Equality is a partial equivalence\<close>

text \<open>The values a comparison can find equal to themselves: no NaN and no error inside.\<close>

fun comparable :: "agent_value \<Rightarrow> bool" where
  "comparable (Number x) = (\<not> f_is_nan x)"
| "comparable (Array vs) = list_all comparable vs"
| "comparable (Object m) = list_all (\<lambda>kv. comparable (snd kv)) m"
| "comparable (Tensor t) = list_all (\<lambda>x. \<not> f32_is_nan x) t"
| "comparable (Error e) = False"
| "comparable v = True"

lemma is_unit_iff [simp]: "is_unit v \<longleftrightarrow> v = Unit"
  by (cases v) auto

lemma as_bool_iff [simp]: "as_bool v = Some b \<longleftrightarrow> v = Boolean b"
  by (cases v) auto

lemma as_str_iff [simp]: "as_str v = Some s \<longleftrightarrow> v = String s"
  by (cases v) auto

lemma image_eq_iff: "img_width i = img_width j \<and> img_height i = img_height j \<and> raw_pixels i = raw_pixels j
    \<longleftrightarrow> i = (j :: photon_image)"
  by (cases i; cases j) auto

lemma message_eq_sym: "message_eq m n = message_eq n m"
  by (auto simp: message_eq_def)

lemma message_eq_refl [simp]: "message_eq m m"
  by (simp add: message_eq_def)

lemma value_eq_Array [simp]: "value_eq (Array xs) (Array ys) \<longleftrightarrow> list_all2 value_eq xs ys"
  by (auto simp: list_all2_iff list_all_iff)

lemma value_eq_Object [simp]:
  "value_eq (Object m) (Object n) \<longleftrightarrow>
    length m = length n \<and> (\<forall>kv \<in> set m. \<exists>u. map_of n (fst kv) = Some u \<and> value_eq (snd kv) u)"
  by (auto simp: list_all_iff split: option.splits)

declare value_eq.simps(7,8) [simp del]

lemma value_eq_refl_iff: "value_wf v \<Longrightarrow> value_eq v v \<longleftrightarrow> comparable v"
proof (induction v rule: value_wf.induct)
  case (2 m)
  then have "value_eq (snd kv) (snd kv) = comparable (snd kv)" if "kv \<in> set m" for kv
    using that by (auto simp: list_all_iff)
  moreover have "map_of m (fst kv) = Some (snd kv)" if "kv \<in> set m" for kv
    using 2 that by simp
  ultimately have "value_eq (Object m) (Object m) \<longleftrightarrow> (\<forall>kv \<in> set m. comparable (snd kv))"
    by simp
  then show ?case by (simp add: list_all_iff)
qed (auto simp: image_eq_iff list_all2_same list_all_iff)

text \<open>Two maps of one size, one of which has all keys of the other, have the same keys.\<close>

lemma same_keys:
  assumes "distinct (keys_of m)" "distinct (keys_of n)" "length m = length n"
    and "fst ` set m \<subseteq> fst ` set n"
  shows "fst ` set n = fst ` set m"
proof -
  have "card (fst ` set m) = card (fst ` set n)"
    using assms(1-3) by (metis distinct_card length_map list.set_map)
  then show ?thesis using assms(4) by (metis card_subset_eq finite_imageI finite_set)
qed

lemma value_eq_symI: "value_wf v \<Longrightarrow> value_wf w \<Longrightarrow> value_eq v w \<Longrightarrow> value_eq w v"
proof (induction v arbitrary: w)
  case (Array xs)
  then obtain ys where w: "w = Array ys" by (cases w) (auto simp: value_eq.simps(7))
  have "list_all2 value_eq ys xs"
    using Array.prems w
    by (auto simp: list_all2_conv_all_nth list_all_iff intro: Array.IH)
  then show ?case using w by simp
next
  case (Object m)
  then obtain n where w: "w = Object n" by (cases w) (auto simp: value_eq.simps(8))
  have len: "length m = length n" using Object.prems w by simp
  have ex: "\<exists>u. map_of n k = Some u \<and> value_eq v u" if "(k, v) \<in> set m" for k v
    using Object.prems(3) that w by fastforce
  have sub: "fst ` set m \<subseteq> fst ` set n"
    using ex by (force dest: map_of_SomeD)
  have keys: "fst ` set n = fst ` set m"
    using same_keys [OF _ _ len sub] Object.prems w by auto
  have "\<exists>v. map_of m k = Some v \<and> value_eq u v" if ku: "(k, u) \<in> set n" for k u
  proof -
    from ku keys obtain v where kv: "(k, v) \<in> set m" by force
    then have m: "map_of m k = Some v" using Object.prems by simp
    from ku have "map_of n k = Some u" using Object.prems w by simp
    with ex [OF kv] have "value_eq v u" by simp
    moreover have "value_wf v" "value_wf u"
      using kv ku Object.prems w by (auto simp: list_all_iff)
    ultimately show ?thesis using m Object.IH [OF kv, of v u] by (auto simp: snds.simps)
  qed
  then show ?case using w len by auto
next
  case (Tensor t)
  then show ?case
    by (cases w) (auto simp: list_all2_conv_all_nth f32_eq_sym)
next
  case (Image i)
  then show ?case by (cases w) (auto simp: image_eq_iff)
qed (auto split: agent_value.splits simp: f_eq_sym message_eq_sym)

lemma value_eq_sym: "value_wf v \<Longrightarrow> value_wf w \<Longrightarrow> value_eq v w \<longleftrightarrow> value_eq w v"
  using value_eq_symI by blast

section \<open>Reading JSON\<close>

lemma from_json_ok: "\<exists>v. from_json H j = Inr v"
proof (induction j)
  case (JNumber n)
  then show ?case by (cases n) (auto simp: number_as_i64_def number_as_f64_def)
next
  case (JArray js)
  then obtain vs where "collect_results (map (from_json H) js) = Inr vs"
    using collect_results_ok by metis
  then show ?case by simp
next
  case (JObject m)
  have "\<exists>x. map_ok (Pair (fst kj)) (from_json H (snd kj)) = Inr x" if kj: "kj \<in> set m" for kj
  proof -
    obtain v where "from_json H (snd kj) = Inr v"
      using JObject [OF kj, of "snd kj"] by (cases kj) (auto simp: snds.simps)
    then show ?thesis by simp
  qed
  then obtain kvs where "collect_results (map (\<lambda>kj. map_ok (Pair (fst kj)) (from_json H (snd kj))) m) = Inr kvs"
    using collect_results_ok [of m "\<lambda>kj. map_ok (Pair (fst kj)) (from_json H (snd kj))"] by blast
  then show ?case by simp
qed auto

section \<open>The order of the entries of an object\<close>

text \<open>\<open>canon\<close> puts the entries of every object inside a value into key order: two values
  with the same \<open>canon\<close> are the same up to the iteration order of their maps.\<close>

fun canon :: "agent_value \<Rightarrow> agent_value" where
  "canon (Array vs) = Array (map canon vs)"
| "canon (Object m) = Object (map (\<lambda>kv. (fst kv, canon (snd kv))) (sort_key fst m))"
| "canon v = v"

lemma fst_pair_comp [simp]: "fst \<circ> (\<lambda>kv. (fst kv, f kv)) = fst"
  by auto

lemma keys_map_snd [simp]: "keys_of (map (\<lambda>kv. (fst kv, f (snd kv))) m) = keys_of m"
  by (induction m) auto

lemma sort_key_map_snd [simp]:
  "sort_key fst (map (\<lambda>kv. (fst kv, f (snd kv))) m) = map (\<lambda>kv. (fst kv, f (snd kv))) (sort_key fst m)"
proof (induction m)
  case (Cons kv m)
  have "insort_key fst (fst kv, f (snd kv)) (map (\<lambda>kv. (fst kv, f (snd kv))) xs) =
      map (\<lambda>kv. (fst kv, f (snd kv))) (insort_key fst kv xs)" for xs
    by (induction xs) auto
  with Cons show ?case by simp
qed simp

lemma sort_key_idem [simp]: "sort_key f (sort_key f xs) = sort_key f xs"
  by (simp add: sort_key_id_if_sorted)

lemma canon_Object_perm:
  assumes "distinct (keys_of m)" "distinct (keys_of n)" "set m = set n"
  shows "canon (Object m) = canon (Object n)"
  using sort_entries_eqI [OF assms] by simp

lemma json_object_cong:
  "(\<And>kv. kv \<in> set m \<Longrightarrow> f kv = g kv) \<Longrightarrow>
    json_object (map f (sort_key fst m)) = json_object (map g (sort_key fst m))"
  by (rule arg_cong [where f = json_object]) simp

lemma to_json_canon: "to_json H (canon v) = to_json H v"
  by (induction v rule: canon.induct) (auto simp: comp_def intro!: json_object_cong)

section \<open>Round trips\<close>

text \<open>The values JSON represents: finite numbers, strings that are not the data URL of a
  picture, pictures the crate reads back, and arrays and objects of such values.\<close>

fun plain :: "host \<Rightarrow> agent_value \<Rightarrow> bool" where
  "plain H (Number x) = f_is_finite x"
| "plain H (String s) = (\<not> starts_with IMAGE_BASE64_PREFIX s)"
| "plain H (Image i) =
    (starts_with IMAGE_BASE64_PREFIX (h_img_encode H i) \<and>
     h_img_decode H (trim_start_matches IMAGE_BASE64_PREFIX (h_img_encode H i)) = i)"
| "plain H (Array vs) = list_all (plain H) vs"
| "plain H (Object m) = list_all (\<lambda>kv. plain H (snd kv)) m"
| "plain H (Tensor t) = False"
| "plain H (Message m) = False"
| "plain H (Error e) = False"
| "plain H v = True"

lemma json_round_trip:
  "value_wf v \<Longrightarrow> plain H v \<Longrightarrow> from_json H (to_json H v) = Inr (canon v)"
proof (induction v rule: canon.induct)
  case (1 vs)
  then show ?case by (simp add: comp_def list_all_iff cong: map_cong)
next
  case (2 m)
  let ?s = "sort_key fst m" and ?c = "\<lambda>kv. (fst kv, canon (snd kv))"
  have d: "distinct (keys_of m)" using 2 by simp
  then have j: "to_json H (Object m) = JObject (map (\<lambda>kv. (fst kv, to_json H (snd kv))) ?s)"
    by (simp add: json_object_def)
  have e: "map_ok (Pair (fst kv)) (from_json H (to_json H (snd kv))) = Inr (?c kv)"
    if "kv \<in> set ?s" for kv
    using 2 that by (simp add: list_all_iff)
  have eq: "map (\<lambda>kj. map_ok (Pair (fst kj)) (from_json H (snd kj)))
      (map (\<lambda>kv. (fst kv, to_json H (snd kv))) ?s) = map (\<lambda>kv. Inr (?c kv)) ?s"
    using e by simp
  have "im_from_iter (map ?c ?s) = map ?c ?s"
    using d by (simp add: sorted_keys_distinct)
  then show ?case unfolding j from_json.simps eq collect_results_map_Inr by simp
qed (auto simp: json_of_f64_def number_from_f64_def)

text \<open>The two JSON forms differ only on tensor elements that are not finite.\<close>

fun finite_tensors :: "agent_value \<Rightarrow> bool" where
  "finite_tensors (Array vs) = list_all finite_tensors vs"
| "finite_tensors (Object m) = list_all (\<lambda>kv. finite_tensors (snd kv)) m"
| "finite_tensors (Tensor t) = list_all (\<lambda>x. f_is_finite (f32_as_f64 x)) t"
| "finite_tensors v = True"

lemma serialize_eq_to_json: "finite_tensors v \<Longrightarrow> serialize_value H v = to_json H v"
  by (induction v rule: finite_tensors.induct)
    (auto simp: list_all_iff tensor_number_def json_of_f64_def number_from_f64_def
      intro!: json_object_cong)

lemma serialize_tensor_differs:
  assumes "x \<in> set t" "\<not> f_is_finite (f32_as_f64 x)"
  shows "serialize_value H (Tensor t) \<noteq> to_json H (Tensor t)"
  using assms by (auto simp: tensor_number_def json_of_f64_def number_from_f64_def)

section \<open>Setting a key\<close>

lemma value_set_get:
  "value_set k x v = Inr w \<Longrightarrow> value_get w k' = (if k' = k then Some x else value_get v k')"
  by (cases v) (auto simp: value_set_def value_get_def)

lemma value_set_ok_iff: "is_ok (value_set k x v) \<longleftrightarrow> is_object v"
  by (cases v) (auto simp: value_set_def)

lemma value_get_Object [simp]: "value_get (Object m) k = map_of m k"
  by (simp add: value_get_def)

end
