(* ===== verification/Coercion.thy ===== *)
theory Coercion
  imports Value
begin

text \<open>
  value.rs and llm.rs, the conversions: \<open>to_boolean\<close>, \<open>to_integer\<close>, \<open>to_number\<close>,
  \<open>to_string\<close> and \<open>to_message\<close>, their \<open>_value\<close> forms, which convert arrays element by
  element, the \<open>TryFrom<AgentValue>\<close> and \<open>TryFrom<MessageEvent>\<close> conversions of messages,
  and the serde bridge \<open>from_serialize\<close>/\<open>to_deserialize\<close>.

  The five \<open>_value\<close> forms are one scheme, the locale \<open>leaf_coercion\<close>: a leaf type, a
  conversion of leaves, and an early return for an array that is already uniform. The
  lemmas of the locale show that the early return changes nothing, that the result is a
  tree of leaves, and that converting twice is converting once; it is interpreted on the
  five functions.
\<close>

section \<open>Messages from values\<close>

definition value_str :: "value_map \<Rightarrow> string \<Rightarrow> string option" where
  "value_str m k = Option.bind (map_of m k) as_str"

definition content_from_value :: "host \<Rightarrow> agent_value option \<Rightarrow> message_content result" where
  "content_from_value H x =
    (case x of
      None \<Rightarrow> Inl (InvalidValue ''Message object missing 'content' field'')
    | Some (String s) \<Rightarrow> Inr (Text s)
    | Some (Array vs) \<Rightarrow>
        (let j = to_json H (Array vs)
         in map_ok Blocks (ok_or
              (InvalidValue (''Invalid content blocks: '' @ h_serde_msg H ''Vec<ContentBlock>'' j))
              (vec_from_json block_from_json j)))
    | Some v \<Rightarrow>
        Inl (InvalidValue (CHR 0x27 # ''content' field must be a string or an array of content blocks'')))"

definition tool_name_from_value :: "agent_value option \<Rightarrow> string option result" where
  "tool_name_from_value x =
    (case x of
      None \<Rightarrow> Inr None
    | Some v \<Rightarrow>
        map_ok Some (ok_or (InvalidValue (CHR 0x27 # ''tool_name' field must be a string'')) (as_str v)))"

definition tool_call_from_value :: "host \<Rightarrow> agent_value \<Rightarrow> tool_call result" where
  "tool_call_from_value H c =
    (let i = value_get_str c ''id''
     in and_then (ok_or (InvalidValue ''Tool call missing 'function' field'')
          (value_get c ''function'')) (\<lambda>f.
        and_then (ok_or (InvalidValue ''Tool call function missing 'name' field'')
          (value_get_str f ''name'')) (\<lambda>name.
        and_then (ok_or (InvalidValue ''Tool call function missing 'parameters' field'')
          (value_get f ''parameters'')) (\<lambda>params.
        Inr \<lparr>tc_function = \<lparr>fn_name = name, fn_parameters = to_json H params, fn_id = i,
          fn_parse_error = None\<rparr>\<rparr>))))"

definition tool_calls_from_value :: "host \<Rightarrow> agent_value option \<Rightarrow> tool_call list option result" where
  "tool_calls_from_value H x =
    (case x of
      None \<Rightarrow> Inr None
    | Some v \<Rightarrow>
        and_then (ok_or (InvalidValue (CHR 0x27 # ''tool_calls' field must be an array'')) (as_array v)) (\<lambda>vs.
          map_ok Some (collect_results (map (tool_call_from_value H) vs))))"

definition image_from_value :: "host \<Rightarrow> agent_value option \<Rightarrow> photon_image option" where
  "image_from_value H x =
    (case x of
      Some (String s) \<Rightarrow> Some (h_img_decode H (trim_start_matches IMAGE_BASE64_PREFIX s))
    | Some (Image i) \<Rightarrow> Some i
    | _ \<Rightarrow> None)"

definition message_from_object :: "host \<Rightarrow> value_map \<Rightarrow> message result" where
  "message_from_object H m =
    (let role = unwrap_or (value_str m ''role'') ''user''
     in and_then (content_from_value H (map_of m ''content'')) (\<lambda>content.
        and_then (tool_name_from_value (map_of m ''tool_name'')) (\<lambda>tool_name.
        and_then (tool_calls_from_value H (map_of m ''tool_calls'')) (\<lambda>calls.
          Inr ((new_message role [])
            \<lparr>msg_content := absorb_thinking (value_str m ''thinking'') content,
             msg_id := value_str m ''id'',
             msg_streaming := unwrap_or (Option.bind (map_of m ''streaming'') as_bool) False,
             msg_is_error := Option.bind (map_of m ''is_error'') as_bool,
             msg_stop_reason := value_str m ''stop_reason'',
             msg_usage := Option.bind (map_of m ''usage'') (\<lambda>v. usage_from_json (to_json H v)),
             msg_tool_name := tool_name,
             msg_tool_calls := calls,
             msg_image := image_from_value H (map_of m ''image'')\<rparr>)))))"

definition message_try_from :: "host \<Rightarrow> agent_value \<Rightarrow> message result" where
  "message_try_from H v =
    (case v of
      Message m \<Rightarrow> Inr m
    | String s \<Rightarrow> Inr (user_message s)
    | Image i \<Rightarrow> Inr ((user_message [])\<lparr>msg_image := Some i\<rparr>)
    | Object m \<Rightarrow> message_from_object H m
    | _ \<Rightarrow> Inl (InvalidValue ''Cannot convert AgentValue to Message''))"

definition value_of_messages :: "message list \<Rightarrow> agent_value" where
  "value_of_messages ms = Array (map Message ms)"

section \<open>Scalars\<close>

fun to_boolean :: "agent_value \<Rightarrow> bool option" where
  "to_boolean (Boolean b) = Some b"
| "to_boolean (Integer i) = Some (i \<noteq> 0)"
| "to_boolean (Number n) = Some (\<not> f_eq n f_zero)"
| "to_boolean (String s) = parse_bool s"
| "to_boolean v = None"

fun to_integer :: "agent_value \<Rightarrow> i64 option" where
  "to_integer (Integer i) = Some i"
| "to_integer (Boolean b) = Some (if b then 1 else 0)"
| "to_integer (Number n) = Some (f64_as_i64 n)"
| "to_integer (String s) = parse_i64 s"
| "to_integer v = None"

fun to_number :: "host \<Rightarrow> agent_value \<Rightarrow> f64 option" where
  "to_number H (Number n) = Some n"
| "to_number H (Boolean b) = Some (if b then f_one else f_zero)"
| "to_number H (Integer i) = Some (i64_as_f64 i)"
| "to_number H (String s) = h_parse_f64 H s"
| "to_number H v = None"

fun to_string :: "host \<Rightarrow> agent_value \<Rightarrow> string option" where
  "to_string H (String s) = Some s"
| "to_string H (Boolean b) = Some (bool_to_string b)"
| "to_string H (Integer i) = Some (i64_to_string i)"
| "to_string H (Number n) = Some (h_show_f64 H n)"
| "to_string H (Message m) = Some (message_text m)"
| "to_string H v = None"

definition to_message :: "host \<Rightarrow> agent_value \<Rightarrow> message option" where
  "to_message H v = ok (message_try_from H v)"

section \<open>Values and arrays\<close>

fun to_boolean_value :: "agent_value \<Rightarrow> agent_value option" where
  "to_boolean_value (Boolean b) = Some (Boolean b)"
| "to_boolean_value (Array vs) =
    (if list_all is_boolean vs then Some (Array vs)
     else map_option Array (collect_options (map to_boolean_value vs)))"
| "to_boolean_value v = map_option Boolean (to_boolean v)"

fun to_integer_value :: "agent_value \<Rightarrow> agent_value option" where
  "to_integer_value (Integer i) = Some (Integer i)"
| "to_integer_value (Array vs) =
    (if list_all is_integer vs then Some (Array vs)
     else map_option Array (collect_options (map to_integer_value vs)))"
| "to_integer_value v = map_option Integer (to_integer v)"

fun to_number_value :: "host \<Rightarrow> agent_value \<Rightarrow> agent_value option" where
  "to_number_value H (Number n) = Some (Number n)"
| "to_number_value H (Array vs) =
    (if list_all is_number vs then Some (Array vs)
     else map_option Array (collect_options (map (to_number_value H) vs)))"
| "to_number_value H v = map_option Number (to_number H v)"

fun to_string_value :: "host \<Rightarrow> agent_value \<Rightarrow> agent_value option" where
  "to_string_value H (String s) = Some (String s)"
| "to_string_value H (Array vs) =
    (if list_all is_string vs then Some (Array vs)
     else map_option Array (collect_options (map (to_string_value H) vs)))"
| "to_string_value H v = map_option String (to_string H v)"

fun to_message_value :: "host \<Rightarrow> agent_value \<Rightarrow> agent_value option" where
  "to_message_value H (Message m) = Some (Message m)"
| "to_message_value H (Array vs) =
    (if list_all is_message vs then Some (Array vs)
     else map_option Array (collect_options (map (to_message_value H) vs)))"
| "to_message_value H v = map_option Message (ok (message_try_from H v))"

section \<open>The scheme of the coercions\<close>

fun uniform :: "(agent_value \<Rightarrow> bool) \<Rightarrow> agent_value \<Rightarrow> bool" where
  "uniform P (Array vs) = list_all (uniform P) vs"
| "uniform P v = P v"

text \<open>What a coercion promises: an array is converted element by element, all or nothing; any
  other value is converted by \<open>scalar\<close>; what comes back is converted to itself; and exactly the
  values whose leaves all have the wanted type are left alone.\<close>

definition coerces ::
    "(agent_value \<Rightarrow> bool) \<Rightarrow> (agent_value \<Rightarrow> agent_value option) \<Rightarrow> (agent_value \<Rightarrow> agent_value option) \<Rightarrow> bool" where
  "coerces is_leaf scalar conv \<longleftrightarrow>
    (\<forall>vs w. conv (Array vs) = Some w \<longleftrightarrow> (\<exists>ws. w = Array ws \<and> list_all2 (\<lambda>x y. conv x = Some y) vs ws)) \<and>
    (\<forall>v. \<not> is_array v \<longrightarrow> conv v = scalar v) \<and>
    (\<forall>v w. conv v = Some w \<longrightarrow> conv w = Some w \<and> uniform is_leaf w) \<and>
    (\<forall>v. conv v = Some v \<longleftrightarrow> uniform is_leaf v)"

locale leaf_coercion =
  fixes is_leaf :: "agent_value \<Rightarrow> bool"
    and conv :: "agent_value \<Rightarrow> agent_value option"
  assumes conv_leaf: "is_leaf v \<Longrightarrow> conv v = Some v"
    and leaf_not_array: "\<not> is_leaf (Array vs)"
    and conv_array: "conv (Array vs) =
      (if list_all is_leaf vs then Some (Array vs)
       else map_option Array (collect_options (map conv vs)))"
    and conv_other: "\<not> is_array v \<Longrightarrow> conv v = Some w \<Longrightarrow> is_leaf w"
begin

lemma uniform_leaf: "is_leaf v \<Longrightarrow> uniform is_leaf v"
  by (cases v) (auto simp: leaf_not_array)

lemma conv_array_elementwise: "conv (Array vs) = map_option Array (collect_options (map conv vs))"
proof (cases "list_all is_leaf vs")
  case True
  then have "collect_options (map conv vs) = Some vs"
    by (auto simp: collect_options_eq_Some list_all_iff conv_leaf)
  then show ?thesis by (simp add: conv_array)
qed (simp add: conv_array)

lemma conv_uniform: "conv v = Some w \<Longrightarrow> uniform is_leaf w"
proof (induction v arbitrary: w)
  case (Array vs)
  then obtain ws where w: "w = Array ws" and ws: "map conv vs = map Some ws"
    by (auto simp: conv_array_elementwise collect_options_eq_Some)
  have "uniform is_leaf x" if x: "x \<in> set ws" for x
  proof -
    from x have "Some x \<in> set (map conv vs)" by (simp add: ws)
    then obtain v where "v \<in> set vs" "conv v = Some x" by auto
    then show ?thesis by (rule Array.IH)
  qed
  then show ?case by (simp add: w list_all_iff)
qed (auto intro!: uniform_leaf elim!: conv_other [rotated])

lemma uniform_conv: "uniform is_leaf v \<Longrightarrow> conv v = Some v"
proof (induction v)
  case (Array vs)
  then have "map conv vs = map Some vs" by (simp add: list_all_iff)
  then have "collect_options (map conv vs) = Some vs" by (simp only: collect_options_eq_Some)
  then show ?case by (simp add: conv_array_elementwise)
qed (auto simp: conv_leaf)

text \<open>All or nothing: an array is converted exactly when each of its elements is, and then to
  the array of the results.\<close>

lemma conv_array_iff:
  "conv (Array vs) = Some w \<longleftrightarrow> (\<exists>ws. w = Array ws \<and> list_all2 (\<lambda>x y. conv x = Some y) vs ws)"
  by (auto simp: conv_array_elementwise collect_options_eq_Some list_all2_conv_all_nth list_eq_iff_nth_eq)

lemma conv_idem: "conv v = Some w \<Longrightarrow> conv w = Some w"
  by (rule uniform_conv) (rule conv_uniform)

lemma conv_fixed_iff: "conv v = Some v \<longleftrightarrow> uniform is_leaf v"
  using uniform_conv conv_uniform by blast

lemma coercesI: "(\<And>v. \<not> is_array v \<Longrightarrow> conv v = scalar v) \<Longrightarrow> coerces is_leaf scalar conv"
  unfolding coerces_def using conv_array_iff conv_idem conv_uniform conv_fixed_iff by blast

end

interpretation bool_co: leaf_coercion is_boolean to_boolean_value
proof
  show "to_boolean_value v = Some v" if "is_boolean v" for v
    using that by (cases v) auto
  show "is_boolean w" if "\<not> is_array v" "to_boolean_value v = Some w" for v w
    using that by (cases v) auto
qed auto

interpretation int_co: leaf_coercion is_integer to_integer_value
proof
  show "to_integer_value v = Some v" if "is_integer v" for v
    using that by (cases v) auto
  show "is_integer w" if "\<not> is_array v" "to_integer_value v = Some w" for v w
    using that by (cases v) auto
qed auto

interpretation num_co: leaf_coercion is_number "to_number_value H" for H
proof
  show "to_number_value H v = Some v" if "is_number v" for v
    using that by (cases v) auto
  show "is_number w" if "\<not> is_array v" "to_number_value H v = Some w" for v w
    using that by (cases v) auto
qed auto

interpretation str_co: leaf_coercion is_string "to_string_value H" for H
proof
  show "to_string_value H v = Some v" if "is_string v" for v
    using that by (cases v) auto
  show "is_string w" if "\<not> is_array v" "to_string_value H v = Some w" for v w
    using that by (cases v) auto
qed auto

interpretation msg_co: leaf_coercion is_message "to_message_value H" for H
proof
  show "to_message_value H v = Some v" if "is_message v" for v
    using that by (cases v) auto
  show "is_message w" if "\<not> is_array v" "to_message_value H v = Some w" for v w
    using that by (cases v) auto
qed auto

lemma coerces_boolean: "coerces is_boolean (\<lambda>v. map_option Boolean (to_boolean v)) to_boolean_value"
proof (rule bool_co.coercesI)
  show "to_boolean_value v = map_option Boolean (to_boolean v)" if "\<not> is_array v" for v
    using that by (cases v) auto
qed

lemma coerces_integer: "coerces is_integer (\<lambda>v. map_option Integer (to_integer v)) to_integer_value"
proof (rule int_co.coercesI)
  show "to_integer_value v = map_option Integer (to_integer v)" if "\<not> is_array v" for v
    using that by (cases v) auto
qed

lemma coerces_number: "coerces is_number (\<lambda>v. map_option Number (to_number H v)) (to_number_value H)"
proof (rule num_co.coercesI)
  show "to_number_value H v = map_option Number (to_number H v)" if "\<not> is_array v" for v
    using that by (cases v) auto
qed

lemma coerces_string: "coerces is_string (\<lambda>v. map_option String (to_string H v)) (to_string_value H)"
proof (rule str_co.coercesI)
  show "to_string_value H v = map_option String (to_string H v)" if "\<not> is_array v" for v
    using that by (cases v) auto
qed

lemma coerces_message: "coerces is_message (\<lambda>v. map_option Message (to_message H v)) (to_message_value H)"
proof (rule msg_co.coercesI)
  show "to_message_value H v = map_option Message (to_message H v)" if "\<not> is_array v" for v
    using that by (cases v) (auto simp: to_message_def message_try_from_def ok_def)
qed

end
