(* ===== verification/Config.thy ===== *)
theory Config
  imports Coercion
begin

text \<open>
  config.rs: \<open>AgentConfigs\<close>, the insertion-ordered map of an agent's configuration values,
  with its typed readers. Every reader answers \<open>UnknownConfig\<close> both for a missing key and for
  a value of another type; the \<open>_or\<close> forms replace that error by a default.
\<close>

type_synonym agent_configs = "(string, agent_value) index_map"

definition configs_new :: agent_configs where
  "configs_new = []"

definition configs_set :: "string \<Rightarrow> agent_value \<Rightarrow> agent_configs \<Rightarrow> agent_configs" where
  "configs_set k v c = im_insert k v c"

definition configs_contains_key :: "agent_configs \<Rightarrow> string \<Rightarrow> bool" where
  "configs_contains_key c k \<longleftrightarrow> has_key c k"

definition configs_get :: "agent_configs \<Rightarrow> string \<Rightarrow> agent_value result" where
  "configs_get c k = ok_or (UnknownConfig k) (map_of c k)"

definition configs_get_bool :: "agent_configs \<Rightarrow> string \<Rightarrow> bool result" where
  "configs_get_bool c k = ok_or (UnknownConfig k) (Option.bind (map_of c k) as_bool)"

definition configs_get_bool_or :: "agent_configs \<Rightarrow> string \<Rightarrow> bool \<Rightarrow> bool" where
  "configs_get_bool_or c k d = unwrap_or (ok (configs_get_bool c k)) d"

definition configs_get_bool_or_default :: "agent_configs \<Rightarrow> string \<Rightarrow> bool" where
  "configs_get_bool_or_default c k = unwrap_or (ok (configs_get_bool c k)) False"

definition configs_get_integer :: "agent_configs \<Rightarrow> string \<Rightarrow> i64 result" where
  "configs_get_integer c k = ok_or (UnknownConfig k) (Option.bind (map_of c k) as_i64)"

definition configs_get_integer_or :: "agent_configs \<Rightarrow> string \<Rightarrow> i64 \<Rightarrow> i64" where
  "configs_get_integer_or c k d = unwrap_or (ok (configs_get_integer c k)) d"

definition configs_get_integer_or_default :: "agent_configs \<Rightarrow> string \<Rightarrow> i64" where
  "configs_get_integer_or_default c k = unwrap_or (ok (configs_get_integer c k)) 0"

definition configs_get_number :: "agent_configs \<Rightarrow> string \<Rightarrow> f64 result" where
  "configs_get_number c k = ok_or (UnknownConfig k) (Option.bind (map_of c k) as_f64)"

definition configs_get_number_or :: "agent_configs \<Rightarrow> string \<Rightarrow> f64 \<Rightarrow> f64" where
  "configs_get_number_or c k d = unwrap_or (ok (configs_get_number c k)) d"

definition configs_get_number_or_default :: "agent_configs \<Rightarrow> string \<Rightarrow> f64" where
  "configs_get_number_or_default c k = unwrap_or (ok (configs_get_number c k)) f_zero"

definition configs_get_string :: "agent_configs \<Rightarrow> string \<Rightarrow> string result" where
  "configs_get_string c k = ok_or (UnknownConfig k) (Option.bind (map_of c k) as_str)"

definition configs_get_string_or :: "agent_configs \<Rightarrow> string \<Rightarrow> string \<Rightarrow> string" where
  "configs_get_string_or c k d = unwrap_or (Option.bind (map_of c k) as_str) d"

definition configs_get_string_or_default :: "agent_configs \<Rightarrow> string \<Rightarrow> string" where
  "configs_get_string_or_default c k = unwrap_or (Option.bind (map_of c k) as_str) []"

definition configs_get_array :: "agent_configs \<Rightarrow> string \<Rightarrow> agent_value list result" where
  "configs_get_array c k = ok_or (UnknownConfig k) (Option.bind (map_of c k) as_array)"

definition configs_get_array_or ::
    "agent_configs \<Rightarrow> string \<Rightarrow> agent_value list \<Rightarrow> agent_value list" where
  "configs_get_array_or c k d = unwrap_or (Option.bind (map_of c k) as_array) d"

definition configs_get_array_or_default :: "agent_configs \<Rightarrow> string \<Rightarrow> agent_value list" where
  "configs_get_array_or_default c k = unwrap_or (Option.bind (map_of c k) as_array) []"

definition configs_get_object :: "agent_configs \<Rightarrow> string \<Rightarrow> value_map result" where
  "configs_get_object c k = ok_or (UnknownConfig k) (Option.bind (map_of c k) as_object)"

definition configs_get_object_or :: "agent_configs \<Rightarrow> string \<Rightarrow> value_map \<Rightarrow> value_map" where
  "configs_get_object_or c k d = unwrap_or (Option.bind (map_of c k) as_object) d"

definition configs_get_object_or_default :: "agent_configs \<Rightarrow> string \<Rightarrow> value_map" where
  "configs_get_object_or_default c k = unwrap_or (Option.bind (map_of c k) as_object) []"

definition configs_keys :: "agent_configs \<Rightarrow> string list" where
  "configs_keys c = keys_of c"

definition configs_remove :: "string \<Rightarrow> agent_configs \<Rightarrow> agent_configs \<times> agent_value option" where
  "configs_remove k c = (im_shift_remove k c, map_of c k)"

definition configs_retain :: "(string \<Rightarrow> agent_value \<Rightarrow> bool) \<Rightarrow> agent_configs \<Rightarrow> agent_configs" where
  "configs_retain f c = im_retain f c"

definition configs_from_iter :: "(string \<times> agent_value) list \<Rightarrow> agent_configs" where
  "configs_from_iter kvs = fold (\<lambda>(k, v). configs_set k v) kvs configs_new"

lemma configs_simps [simp]:
  "map_of configs_new k = None"
  "map_of (configs_set k v c) = (map_of c)(k \<mapsto> v)"
  "configs_contains_key c k = has_key c k"
  "snd (configs_remove k c) = map_of c k"
  "map_of (fst (configs_remove k c)) = (map_of c)(k := None)"
  by (simp_all add: configs_new_def configs_set_def configs_contains_key_def configs_remove_def)

lemma distinct_configs [simp, intro]:
  "distinct (keys_of configs_new)"
  "distinct (keys_of c) \<Longrightarrow> distinct (keys_of (configs_set k v c))"
  "distinct (keys_of c) \<Longrightarrow> distinct (keys_of (fst (configs_remove k c)))"
  "distinct (keys_of c) \<Longrightarrow> distinct (keys_of (configs_retain f c))"
  by (auto simp: configs_new_def configs_set_def configs_remove_def configs_retain_def)

lemma configs_set_eq: "configs_set = im_insert"
  by (intro ext) (simp add: configs_set_def)

lemma configs_from_iter_eq: "configs_from_iter kvs = im_from_iter kvs"
  by (simp add: configs_from_iter_def im_from_iter_def configs_new_def configs_set_eq)

lemma distinct_configs_from_iter [simp]: "distinct (keys_of (configs_from_iter kvs))"
  by (simp add: configs_from_iter_eq)

lemma distinct_fold_configs_set:
  "distinct (keys_of c) \<Longrightarrow> distinct (keys_of (fold (\<lambda>(k, v). configs_set k v) kvs c))"
  by (simp add: configs_set_eq distinct_fold_im_insert)

lemma lookup_fold_configs_set:
  "map_of (fold (\<lambda>(k, v). configs_set k v) kvs c) = map_of c ++ map_of (rev kvs)"
  by (induction kvs arbitrary: c) (auto simp: map_add_def fun_eq_iff split: option.splits)

text \<open>A typed reader answers the value of its key or \<open>UnknownConfig\<close> with that key.\<close>

lemma configs_get_cases:
  "configs_get_bool c k = (case map_of c k of Some (Boolean b) \<Rightarrow> Inr b | _ \<Rightarrow> Inl (UnknownConfig k))"
  "configs_get_string c k = (case map_of c k of Some (String s) \<Rightarrow> Inr s | _ \<Rightarrow> Inl (UnknownConfig k))"
  "configs_get_integer c k = (case map_of c k of Some (Integer i) \<Rightarrow> Inr i
    | Some (Number n) \<Rightarrow> Inr (f64_as_i64 n) | _ \<Rightarrow> Inl (UnknownConfig k))"
  by (auto simp: configs_get_bool_def configs_get_string_def configs_get_integer_def
      split: option.splits agent_value.splits)

end
