(* ===== verification/Spec.thy ===== *)
theory Spec
  imports Config
begin

text \<open>
  spec.rs and the data of definition.rs: the serializable specifications of agents,
  connections and presets, and \<open>AgentSpec::update\<close>, which applies a JSON patch.

  \<open>update\<close> mutates its receiver field by field and may stop at an error with the earlier
  fields already changed, so \<open>spec_update\<close> returns the specification in either case. The
  patch is a \<open>serde_json\<close> object and is applied in key order.
\<close>

record agent_config_spec =
  cs_value :: agent_value
  cs_type :: "string option"
  cs_title :: "string option"
  cs_hide_title :: bool
  cs_description :: "string option"
  cs_hidden :: bool
  cs_readonly :: bool
  cs_detail :: bool

type_synonym agent_config_specs = "(string, agent_config_spec) index_map"

record agent_spec =
  s_id :: string
  s_def_name :: string
  s_inputs :: "string list option"
  s_outputs :: "string list option"
  s_configs :: "agent_configs option"
  s_config_specs :: "agent_config_specs option"
  s_disabled :: bool
  s_extensions :: "(string, json) index_map"

record connection_spec =
  c_source :: string
  c_source_handle :: string
  c_target :: string
  c_target_handle :: string

record preset_spec =
  p_agents :: "agent_spec list"
  p_connections :: "connection_spec list"
  p_extensions :: "(string, json) index_map"

definition preset_spec_default :: preset_spec where
  "preset_spec_default = \<lparr>p_agents = [], p_connections = [], p_extensions = []\<rparr>"

definition preset_add_agent :: "agent_spec \<Rightarrow> preset_spec \<Rightarrow> preset_spec" where
  "preset_add_agent a p = p\<lparr>p_agents := p_agents p @ [a]\<rparr>"

definition preset_remove_agent :: "string \<Rightarrow> preset_spec \<Rightarrow> preset_spec" where
  "preset_remove_agent i p = p\<lparr>p_agents := filter (\<lambda>a. s_id a \<noteq> i) (p_agents p)\<rparr>"

definition preset_add_connection :: "connection_spec \<Rightarrow> preset_spec \<Rightarrow> preset_spec" where
  "preset_add_connection c p = p\<lparr>p_connections := p_connections p @ [c]\<rparr>"

definition preset_remove_connection ::
    "connection_spec \<Rightarrow> preset_spec \<Rightarrow> preset_spec \<times> connection_spec option" where
  "preset_remove_connection c p =
    (if c \<in> set (p_connections p)
     then (p\<lparr>p_connections := remove1 c (p_connections p)\<rparr>, Some c)
     else (p, None))"

section \<open>Patches\<close>

definition string_list :: "json list \<Rightarrow> string list" where
  "string_list js = List.map_filter json_as_str js"

text \<open>\<open>serde_json::from_value::<AgentConfigs>\<close>: an object whose values are read by
  \<open>AgentValue\<close>'s \<open>Deserialize\<close>.\<close>

definition configs_from_json :: "host \<Rightarrow> json \<Rightarrow> string + agent_configs" where
  "configs_from_json H j =
    (case j of
      JObject m \<Rightarrow>
        map_ok im_from_iter
          (collect_results (map (\<lambda>kj. map_ok (Pair (fst kj)) (deserialize_value H (snd kj))) m))
    | _ \<Rightarrow> Inl (h_serde_msg H ''AgentConfigs'' j))"

definition merge_configs :: "agent_configs \<Rightarrow> agent_configs option \<Rightarrow> agent_configs" where
  "merge_configs patch old =
    (case old of
      Some c \<Rightarrow> fold (\<lambda>(k, v). configs_set k v) patch c
    | None \<Rightarrow> patch)"

definition spec_update_field ::
    "host \<Rightarrow> string \<Rightarrow> json \<Rightarrow> agent_spec \<Rightarrow> agent_error + agent_spec" where
  "spec_update_field H k j s =
    (if k = ''id'' then
       Inr (case json_as_str j of Some x \<Rightarrow> s\<lparr>s_id := x\<rparr> | None \<Rightarrow> s)
     else if k = ''def_name'' then
       Inr (case json_as_str j of Some x \<Rightarrow> s\<lparr>s_def_name := x\<rparr> | None \<Rightarrow> s)
     else if k = ''inputs'' then
       Inr (case j of JArray js \<Rightarrow> s\<lparr>s_inputs := Some (string_list js)\<rparr> | _ \<Rightarrow> s)
     else if k = ''outputs'' then
       Inr (case j of JArray js \<Rightarrow> s\<lparr>s_outputs := Some (string_list js)\<rparr> | _ \<Rightarrow> s)
     else if k = ''configs'' then
       map_ok (\<lambda>patch. s\<lparr>s_configs := Some (merge_configs patch (s_configs s))\<rparr>)
         (map_err SerializationError (configs_from_json H j))
     else if k = ''disabled'' then
       Inr (case json_as_bool j of Some b \<Rightarrow> s\<lparr>s_disabled := b\<rparr> | None \<Rightarrow> s)
     else if j = JNull then
       Inr (s\<lparr>s_extensions := im_shift_remove k (s_extensions s)\<rparr>)
     else
       Inr (s\<lparr>s_extensions := im_insert k j (s_extensions s)\<rparr>))"

fun spec_update_fields ::
    "host \<Rightarrow> (string \<times> json) list \<Rightarrow> agent_spec \<Rightarrow> agent_spec \<times> unit result" where
  "spec_update_fields H [] s = (s, Inr ())"
| "spec_update_fields H ((k, j) # m) s =
    (case spec_update_field H k j s of
      Inl e \<Rightarrow> (s, Inl e)
    | Inr s' \<Rightarrow> spec_update_fields H m s')"

definition spec_update :: "host \<Rightarrow> json \<Rightarrow> agent_spec \<Rightarrow> agent_spec \<times> unit result" where
  "spec_update H j s =
    (case j of
      JObject m \<Rightarrow> spec_update_fields H m s
    | _ \<Rightarrow> (s, Inl (SerializationError ''Expected JSON object'')))"

definition spec_wf :: "agent_spec \<Rightarrow> bool" where
  "spec_wf s \<longleftrightarrow>
    (case s_configs s of None \<Rightarrow> True | Some c \<Rightarrow> distinct (keys_of c)) \<and>
    (case s_config_specs s of None \<Rightarrow> True | Some c \<Rightarrow> distinct (keys_of c)) \<and>
    distinct (keys_of (s_extensions s))"

lemma configs_from_json_ok: "is_ok (configs_from_json H j) \<longleftrightarrow> (\<exists>m. j = JObject m)"
proof (cases j)
  case (JObject m)
  have "\<exists>x. map_ok (Pair (fst kj)) (deserialize_value H (snd kj)) = Inr x" for kj
    using from_json_ok [of H "snd kj"] by (auto simp: deserialize_value_def)
  then obtain vs where
    "collect_results (map (\<lambda>kj. map_ok (Pair (fst kj)) (deserialize_value H (snd kj))) m) = Inr vs"
    using collect_results_ok [of m "\<lambda>kj. map_ok (Pair (fst kj)) (deserialize_value H (snd kj))"]
    by blast
  then show ?thesis by (simp add: configs_from_json_def JObject)
qed (auto simp: configs_from_json_def)

lemma configs_from_json_distinct: "configs_from_json H j = Inr c \<Longrightarrow> distinct (keys_of c)"
  by (auto simp: configs_from_json_def map_ok_eq_Inr split: json.splits)

lemma merge_configs_distinct:
  assumes "distinct (keys_of patch)" "\<And>c. old = Some c \<Longrightarrow> distinct (keys_of c)"
  shows "distinct (keys_of (merge_configs patch old))"
  using assms by (auto simp: merge_configs_def distinct_fold_configs_set split: option.splits)

lemma spec_update_field_wf: "spec_wf s \<Longrightarrow> spec_update_field H k j s = Inr s' \<Longrightarrow> spec_wf s'"
  by (auto simp: spec_update_field_def spec_wf_def map_ok_eq_Inr map_err_eq_Inr
      intro!: merge_configs_distinct
      dest: configs_from_json_distinct split: if_splits option.splits json.splits)

end
