(* ===== verification/Definition.thy ===== *)
theory Definition
  imports Spec
begin

text \<open>
  id.rs and definition.rs: the identifier counter, the renumbering of a loaded graph
  (\<open>update_ids\<close>), agent definitions with their builders, \<open>to_spec\<close> and \<open>reconcile_spec\<close>.

  \<open>ID_COUNTER\<close> is a global atomic: the operations take it and return it. A definition's
  factory function \<open>new_boxed\<close> is modelled by the name of the implementation it builds (the
  behaviours themselves are a parameter of the theory World).
\<close>

section \<open>Identifiers\<close>

definition new_id :: "usize \<Rightarrow> string \<times> usize" where
  "new_id n = (usize_to_string n, n + 1)"

text \<open>The loop over the agents threads the counter and the map from old to new ids; a
  duplicate old id maps to the id of its last occurrence.\<close>

fun update_agent_ids :: "usize \<Rightarrow> (string, string) index_map \<Rightarrow> agent_spec list \<Rightarrow>
    agent_spec list \<times> (string, string) index_map \<times> usize" where
  "update_agent_ids n ids [] = ([], ids, n)"
| "update_agent_ids n ids (a # as) =
    (let (i, n') = new_id n;
         (bs, ids', n'') = update_agent_ids n' (im_insert (s_id a) i ids) as
     in (a\<lparr>s_id := i\<rparr> # bs, ids', n''))"

definition renamed :: "(string, string) index_map \<Rightarrow> string \<Rightarrow> string" where
  "renamed ids i = unwrap_or (map_of ids i) i"

definition update_ids :: "usize \<Rightarrow> agent_spec list \<Rightarrow> connection_spec list \<Rightarrow>
    agent_spec list \<times> connection_spec list \<times> usize" where
  "update_ids n as cs =
    (let (bs, ids, n') = update_agent_ids n [] as
     in (bs, map (\<lambda>c. c\<lparr>c_source := renamed ids (c_source c), c_target := renamed ids (c_target c)\<rparr>) cs,
         n'))"

section \<open>Definitions\<close>

record agent_definition =
  d_kind :: string
  d_name :: string
  d_title :: "string option"
  d_hide_title :: bool
  d_description :: "string option"
  d_category :: "string option"
  d_inputs :: "string list option"
  d_outputs :: "string list option"
  d_configs :: "agent_config_specs option"
  d_global_configs :: "agent_config_specs option"
  d_hints :: "(string, json) index_map"
  d_native_thread :: bool
  d_new_boxed :: "string option"

definition definition_new :: "string \<Rightarrow> string \<Rightarrow> string option \<Rightarrow> agent_definition" where
  "definition_new kind name boxed =
    \<lparr>d_kind = kind, d_name = name, d_title = None, d_hide_title = False, d_description = None,
     d_category = None, d_inputs = None, d_outputs = None, d_configs = None,
     d_global_configs = None, d_hints = [], d_native_thread = False, d_new_boxed = boxed\<rparr>"

definition config_spec_new :: "agent_value \<Rightarrow> string \<Rightarrow> agent_config_spec" where
  "config_spec_new v t =
    \<lparr>cs_value = v, cs_type = Some t, cs_title = None, cs_hide_title = False,
     cs_description = None, cs_hidden = False, cs_readonly = False, cs_detail = False\<rparr>"

definition cs_with_title :: "string \<Rightarrow> agent_config_spec \<Rightarrow> agent_config_spec" where
  "cs_with_title t s = s\<lparr>cs_title := Some t\<rparr>"

definition cs_with_hide_title :: "agent_config_spec \<Rightarrow> agent_config_spec" where
  "cs_with_hide_title s = s\<lparr>cs_hide_title := True\<rparr>"

definition cs_with_description :: "string \<Rightarrow> agent_config_spec \<Rightarrow> agent_config_spec" where
  "cs_with_description t s = s\<lparr>cs_description := Some t\<rparr>"

definition cs_with_hidden :: "agent_config_spec \<Rightarrow> agent_config_spec" where
  "cs_with_hidden s = s\<lparr>cs_hidden := True\<rparr>"

definition cs_with_readonly :: "agent_config_spec \<Rightarrow> agent_config_spec" where
  "cs_with_readonly s = s\<lparr>cs_readonly := True\<rparr>"

definition cs_with_detail :: "agent_config_spec \<Rightarrow> agent_config_spec" where
  "cs_with_detail s = s\<lparr>cs_detail := True\<rparr>"

definition with_title :: "string \<Rightarrow> agent_definition \<Rightarrow> agent_definition" where
  "with_title t d = d\<lparr>d_title := Some t\<rparr>"

definition with_hide_title :: "agent_definition \<Rightarrow> agent_definition" where
  "with_hide_title d = d\<lparr>d_hide_title := True\<rparr>"

definition with_description :: "string \<Rightarrow> agent_definition \<Rightarrow> agent_definition" where
  "with_description t d = d\<lparr>d_description := Some t\<rparr>"

definition with_category :: "string \<Rightarrow> agent_definition \<Rightarrow> agent_definition" where
  "with_category t d = d\<lparr>d_category := Some t\<rparr>"

definition with_inputs :: "string list \<Rightarrow> agent_definition \<Rightarrow> agent_definition" where
  "with_inputs ps d = d\<lparr>d_inputs := Some ps\<rparr>"

definition with_outputs :: "string list \<Rightarrow> agent_definition \<Rightarrow> agent_definition" where
  "with_outputs ps d = d\<lparr>d_outputs := Some ps\<rparr>"

definition with_configs :: "(string \<times> agent_config_spec) list \<Rightarrow> agent_definition \<Rightarrow> agent_definition" where
  "with_configs cs d = d\<lparr>d_configs := Some (im_from_iter cs)\<rparr>"

definition with_global_configs ::
    "(string \<times> agent_config_spec) list \<Rightarrow> agent_definition \<Rightarrow> agent_definition" where
  "with_global_configs cs d = d\<lparr>d_global_configs := Some (im_from_iter cs)\<rparr>"

definition insert_config_entry ::
    "string \<Rightarrow> agent_config_spec \<Rightarrow> agent_definition \<Rightarrow> agent_definition" where
  "insert_config_entry k e d =
    (case d_configs d of
      Some m \<Rightarrow> d\<lparr>d_configs := Some (im_insert k e m)\<rparr>
    | None \<Rightarrow> d\<lparr>d_configs := Some [(k, e)]\<rparr>)"

definition insert_global_config_entry ::
    "string \<Rightarrow> agent_config_spec \<Rightarrow> agent_definition \<Rightarrow> agent_definition" where
  "insert_global_config_entry k e d =
    (case d_global_configs d of
      Some m \<Rightarrow> d\<lparr>d_global_configs := Some (im_insert k e m)\<rparr>
    | None \<Rightarrow> d\<lparr>d_global_configs := Some [(k, e)]\<rparr>)"

definition config_type_with :: "string \<Rightarrow> agent_value \<Rightarrow> string \<Rightarrow>
    (agent_config_spec \<Rightarrow> agent_config_spec) \<Rightarrow> agent_definition \<Rightarrow> agent_definition" where
  "config_type_with k v t f d = insert_config_entry k (f (config_spec_new v t)) d"

definition global_config_type_with :: "string \<Rightarrow> agent_value \<Rightarrow> string \<Rightarrow>
    (agent_config_spec \<Rightarrow> agent_config_spec) \<Rightarrow> agent_definition \<Rightarrow> agent_definition" where
  "global_config_type_with k v t f d = insert_global_config_entry k (f (config_spec_new v t)) d"

text \<open>The typed builders. Each has a form with a callback and a form without.\<close>

definition unit_config_with where
  "unit_config_with k f = config_type_with k Unit ''unit'' f"
definition unit_config where
  "unit_config k = unit_config_with k (\<lambda>e. e)"
definition boolean_config_with where
  "boolean_config_with k b f = config_type_with k (Boolean b) ''boolean'' f"
definition boolean_config where
  "boolean_config k b = boolean_config_with k b (\<lambda>e. e)"
definition boolean_config_default where
  "boolean_config_default k = boolean_config k False"
definition integer_config_with where
  "integer_config_with k i f = config_type_with k (Integer i) ''integer'' f"
definition integer_config where
  "integer_config k i = integer_config_with k i (\<lambda>e. e)"
definition integer_config_default where
  "integer_config_default k = integer_config k 0"
definition number_config_with where
  "number_config_with k x f = config_type_with k (Number x) ''number'' f"
definition number_config where
  "number_config k x = number_config_with k x (\<lambda>e. e)"
definition number_config_default where
  "number_config_default k = number_config k f_zero"
definition string_config_with where
  "string_config_with k s f = config_type_with k (String s) ''string'' f"
definition string_config where
  "string_config k s = string_config_with k s (\<lambda>e. e)"
definition string_config_default where
  "string_config_default k = string_config k []"
definition text_config_with where
  "text_config_with k s f = config_type_with k (String s) ''text'' f"
definition text_config where
  "text_config k s = text_config_with k s (\<lambda>e. e)"
definition text_config_default where
  "text_config_default k = text_config k []"
definition array_config_with where
  "array_config_with k v f = config_type_with k v ''array'' f"
definition array_config where
  "array_config k v = array_config_with k v (\<lambda>e. e)"
definition array_config_default where
  "array_config_default k = array_config k (Array [])"
definition object_config_with where
  "object_config_with k v f = config_type_with k v ''object'' f"
definition object_config where
  "object_config k v = object_config_with k v (\<lambda>e. e)"
definition object_config_default where
  "object_config_default k = object_config k (Object [])"
definition custom_config_with where
  "custom_config_with k v t f = config_type_with k v t f"

definition boolean_global_config_with where
  "boolean_global_config_with k b f = global_config_type_with k (Boolean b) ''boolean'' f"
definition boolean_global_config where
  "boolean_global_config k b = boolean_global_config_with k b (\<lambda>e. e)"
definition integer_global_config_with where
  "integer_global_config_with k i f = global_config_type_with k (Integer i) ''integer'' f"
definition integer_global_config where
  "integer_global_config k i = integer_global_config_with k i (\<lambda>e. e)"
definition number_global_config_with where
  "number_global_config_with k x f = global_config_type_with k (Number x) ''number'' f"
definition number_global_config where
  "number_global_config k x = number_global_config_with k x (\<lambda>e. e)"
definition string_global_config_with where
  "string_global_config_with k s f = global_config_type_with k (String s) ''string'' f"
definition string_global_config where
  "string_global_config k s = string_global_config_with k s (\<lambda>e. e)"
definition text_global_config_with where
  "text_global_config_with k s f = global_config_type_with k (String s) ''text'' f"
definition text_global_config where
  "text_global_config k s = text_global_config_with k s (\<lambda>e. e)"
definition array_global_config_with where
  "array_global_config_with k v f = global_config_type_with k v ''array'' f"
definition array_global_config where
  "array_global_config k v = array_global_config_with k v (\<lambda>e. e)"
definition array_global_config_default where
  "array_global_config_default k = array_global_config k (Array [])"
definition object_global_config_with where
  "object_global_config_with k v f = global_config_type_with k v ''object'' f"
definition object_global_config where
  "object_global_config k v = object_global_config_with k v (\<lambda>e. e)"
definition custom_global_config_with where
  "custom_global_config_with k v t f = global_config_type_with k v t f"

definition use_native_thread :: "agent_definition \<Rightarrow> agent_definition" where
  "use_native_thread d = d\<lparr>d_native_thread := True\<rparr>"

definition with_hint :: "string \<Rightarrow> json \<Rightarrow> agent_definition \<Rightarrow> agent_definition" where
  "with_hint k j d = d\<lparr>d_hints := im_insert k j (d_hints d)\<rparr>"

section \<open>Specifications from definitions\<close>

definition default_configs :: "agent_config_specs \<Rightarrow> agent_configs" where
  "default_configs ds = configs_from_iter (map (\<lambda>(k, c). (k, cs_value c)) ds)"

definition to_spec :: "usize \<Rightarrow> agent_definition \<Rightarrow> agent_spec \<times> usize" where
  "to_spec n d =
    (let (i, n') = new_id n
     in (\<lparr>s_id = i, s_def_name = d_name d, s_inputs = d_inputs d, s_outputs = d_outputs d,
          s_configs = map_option default_configs (d_configs d), s_config_specs = d_configs d,
          s_disabled = False, s_extensions = []\<rparr>, n'))"

definition stale_keys :: "agent_config_specs option \<Rightarrow> agent_configs \<Rightarrow> string list" where
  "stale_keys ds c =
    filter (\<lambda>k. \<not> starts_with ''_'' k \<and> \<not> (case ds of None \<Rightarrow> False | Some m \<Rightarrow> k \<in> set (keys_of m)))
      (configs_keys c)"

definition rename_stale :: "string \<Rightarrow> agent_configs \<Rightarrow> agent_configs" where
  "rename_stale k c =
    (let (c', x) = configs_remove k c
     in case x of None \<Rightarrow> c' | Some v \<Rightarrow> configs_set (''_'' @ k) v c')"

definition fill_default :: "string \<times> agent_config_spec \<Rightarrow> agent_configs \<Rightarrow> agent_configs" where
  "fill_default kc c =
    (if configs_contains_key c (fst kc) then c else configs_set (fst kc) (cs_value (snd kc)) c)"

definition take_def_key ::
    "agent_configs \<Rightarrow> string \<times> agent_config_spec \<Rightarrow> agent_configs \<Rightarrow> agent_configs" where
  "take_def_key c kc r =
    (case configs_get c (fst kc) of Inr v \<Rightarrow> configs_set (fst kc) v r | Inl e \<Rightarrow> r)"

definition take_rest :: "string \<times> agent_value \<Rightarrow> agent_configs \<Rightarrow> agent_configs" where
  "take_rest kv r = (if configs_contains_key r (fst kv) then r else configs_set (fst kv) (snd kv) r)"

definition reorder_configs :: "agent_config_specs \<Rightarrow> agent_configs \<Rightarrow> agent_configs" where
  "reorder_configs ds c = fold take_rest c (fold (take_def_key c) ds configs_new)"

definition reconcile_configs ::
    "agent_config_specs option \<Rightarrow> agent_configs option \<Rightarrow> agent_configs option" where
  "reconcile_configs ds sc =
    (let filled = (case sc of
        Some c \<Rightarrow>
          (let c' = fold rename_stale (stale_keys ds c) c
           in Some (case ds of None \<Rightarrow> c' | Some m \<Rightarrow> fold fill_default m c'))
      | None \<Rightarrow> map_option default_configs ds)
     in case (filled, ds) of
          (Some c, Some m) \<Rightarrow> Some (reorder_configs m c)
        | _ \<Rightarrow> filled)"

definition reconcile_spec :: "agent_definition \<Rightarrow> agent_spec \<Rightarrow> agent_spec" where
  "reconcile_spec d s = s\<lparr>
    s_inputs := (case d_inputs d of Some i \<Rightarrow> Some i | None \<Rightarrow> s_inputs s),
    s_outputs := (case d_outputs d of Some i \<Rightarrow> Some i | None \<Rightarrow> s_outputs s),
    s_config_specs := d_configs d,
    s_configs := reconcile_configs (d_configs d) (s_configs s)\<rparr>"

section \<open>Renumbering\<close>

lemma update_agent_ids_props:
  "update_agent_ids n ids as = (bs, ids', n') \<Longrightarrow>
    bs = map2 (\<lambda>a i. a\<lparr>s_id := usize_to_string (n + word_of_nat i)\<rparr>) as [0..<length as] \<and>
    n' = n + word_of_nat (length as) \<and>
    ids' = fold (\<lambda>(k, v). im_insert k v) (zip (map s_id as) (map s_id bs)) ids"
proof (induction as arbitrary: n ids bs ids' n')
  case (Cons a as)
  obtain bs' ids'' m where r:
    "update_agent_ids (n + 1) (im_insert (s_id a) (usize_to_string n) ids) as = (bs', ids'', m)"
    by (cases "update_agent_ids (n + 1) (im_insert (s_id a) (usize_to_string n) ids) as") auto
  have shift: "map2 (\<lambda>a i. a\<lparr>s_id := usize_to_string (n + 1 + word_of_nat i)\<rparr>) as [0..<length as] =
      map2 (\<lambda>a i. a\<lparr>s_id := usize_to_string (n + word_of_nat i)\<rparr>) as [Suc 0..<Suc (length as)]"
    by (rule nth_equalityI) (auto simp: add.assoc simp del: upt_Suc)
  from Cons.IH [OF r] Cons.prems r show ?case
    unfolding shift by (auto simp: new_id_def upt_conv_Cons ac_simps simp del: upt_Suc)
qed auto

lemma update_agent_ids_id:
  assumes "update_agent_ids n ids as = (bs, ids', n')" "i < length as"
  shows "s_id (bs ! i) = usize_to_string (n + word_of_nat i)" "length bs = length as"
    "bs ! i = (as ! i)\<lparr>s_id := usize_to_string (n + word_of_nat i)\<rparr>"
  using update_agent_ids_props [OF assms(1)] assms(2) by auto

lemma word_of_nat_inj_less:
  "i < 2 ^ 64 \<Longrightarrow> j < 2 ^ 64 \<Longrightarrow> (word_of_nat i :: usize) = word_of_nat j \<longleftrightarrow> i = j"
  by (auto simp: word_of_nat_eq_iff take_bit_nat_eq_self)

lemma update_agent_ids_distinct:
  assumes "update_agent_ids n ids as = (bs, ids', n')" "length as < 2 ^ 64"
  shows "distinct (map s_id bs)"
proof -
  have "map s_id bs = map (\<lambda>i. usize_to_string (n + word_of_nat i)) [0..<length as]"
    using update_agent_ids_id [OF assms(1)] update_agent_ids_props [OF assms(1)]
    by (intro nth_equalityI) auto
  moreover have "inj_on (\<lambda>i. usize_to_string (n + word_of_nat i)) {0..<length as}"
    using assms(2) by (auto simp: inj_on_def word_of_nat_inj_less)
  ultimately show ?thesis by (simp add: distinct_map)
qed

lemma update_ids_lookup:
  assumes "update_agent_ids n [] as = (bs, ids, n')"
  shows "map_of ids = map_of (rev (zip (map s_id as) (map s_id bs)))"
proof -
  have "ids = fold (\<lambda>(k, v). im_insert k v) (zip (map s_id as) (map s_id bs)) []"
    using update_agent_ids_props [OF assms] by simp
  then show ?thesis using shift.lookup_fold [of "[]"] by simp
qed

text \<open>With distinct old ids the renaming is the graph isomorphism that sends the id of the
  i-th agent to its new id, and leaves every other endpoint alone.\<close>

lemma renamed_agent:
  assumes r: "update_agent_ids n [] as = (bs, ids, n')" and i: "i < length as"
    and d: "distinct (map s_id as)"
  shows "renamed ids (s_id (as ! i)) = s_id (bs ! i)"
proof -
  have len: "length bs = length as" using update_agent_ids_props [OF r] by simp
  have "distinct (keys_of (zip (map s_id as) (map s_id bs)))"
    using d len by simp
  moreover have "(s_id (as ! i), s_id (bs ! i)) \<in> set (zip (map s_id as) (map s_id bs))"
    unfolding set_zip using i len by (auto intro!: exI [of _ i])
  ultimately have "map_of ids (s_id (as ! i)) = Some (s_id (bs ! i))"
    unfolding update_ids_lookup [OF r] by (simp add: map_of_rev_distinct)
  then show ?thesis by (simp add: renamed_def)
qed

lemma renamed_other:
  assumes r: "update_agent_ids n [] as = (bs, ids, n')" and "x \<notin> s_id ` set as"
  shows "renamed ids x = x"
proof -
  have "length bs = length as" using update_agent_ids_props [OF r] by simp
  then have "x \<notin> fst ` set (rev (zip (map s_id as) (map s_id bs)))"
    using assms(2) by (auto dest!: set_zip_leftD)
  then have "map_of ids x = None"
    unfolding update_ids_lookup [OF r] by (simp add: map_of_eq_None_iff)
  then show ?thesis by (simp add: renamed_def)
qed

section \<open>Reconciliation\<close>

text \<open>The keys of the stage that renames stale keys.\<close>

lemma distinct_rename_stale [simp]:
  "distinct (keys_of c) \<Longrightarrow> distinct (keys_of (rename_stale k c))"
  by (auto simp: rename_stale_def configs_remove_def split: option.splits)

lemma distinct_fold_rename [simp]:
  "distinct (keys_of c) \<Longrightarrow> distinct (keys_of (fold rename_stale ks c))"
  by (induction ks arbitrary: c) auto

lemma lookup_rename_stale:
  "map_of (rename_stale k c) = (case map_of c k of
     None \<Rightarrow> (map_of c)(k := None) | Some v \<Rightarrow> ((map_of c)(k := None))(''_'' @ k \<mapsto> v))"
  by (auto simp: rename_stale_def configs_remove_def split: option.splits)

text \<open>Renaming keys that do not start with an underscore leaves the other such keys alone and
  adds only keys that do.\<close>

lemma lookup_fold_rename_plain:
  "\<not> starts_with ''_'' k \<Longrightarrow>
    map_of (fold rename_stale ks c) k = (if k \<in> set ks then None else map_of c k)"
proof (induction ks arbitrary: c)
  case (Cons k' ks)
  have "map_of (rename_stale k' c) k = (if k' = k then None else map_of c k)"
    using Cons.prems by (auto simp: lookup_rename_stale split: option.splits)
  with Cons show ?case by auto
qed simp

text \<open>The value of a renamed key is parked under the key with an underscore in front, over what may
  have been parked there; the other keys with an underscore keep their value.\<close>

lemma lookup_fold_rename_parked:
  assumes "distinct ks" and "\<forall>k \<in> set ks. \<not> starts_with ''_'' k"
  shows "map_of (fold rename_stale ks c) (CHR ''_'' # k) =
    (if k \<in> set ks \<and> has_key c k then map_of c k else map_of c (CHR ''_'' # k))"
  using assms
proof (induction ks arbitrary: c)
  case (Cons k' ks)
  have k': "\<not> starts_with ''_'' k'" "k' \<notin> set ks" using Cons.prems by simp_all
  have IH: "map_of (fold rename_stale ks (rename_stale k' c)) (CHR ''_'' # k) =
      (if k \<in> set ks \<and> has_key (rename_stale k' c) k then map_of (rename_stale k' c) k
       else map_of (rename_stale k' c) (CHR ''_'' # k))"
    using Cons.prems by (intro Cons.IH) simp_all
  have under: "map_of (rename_stale k' c) (CHR ''_'' # k) =
      (if k = k' \<and> has_key c k then map_of c k else map_of c (CHR ''_'' # k))"
    using k' by (auto simp: lookup_rename_stale split: option.splits)
  have plain: "map_of (rename_stale k' c) k = map_of c k" if "k \<in> set ks"
    using that k' Cons.prems by (auto simp: lookup_rename_stale split: option.splits)
  show ?case
    unfolding fold_Cons comp_def IH using under plain k' by (cases "k \<in> set ks") auto
qed simp

definition def_ok :: "agent_config_specs \<Rightarrow> bool" where
  "def_ok ds \<longleftrightarrow> distinct (keys_of ds) \<and> (\<forall>k \<in> set (keys_of ds). \<not> starts_with ''_'' k)"

lemma stale_keys_iff:
  "k \<in> set (stale_keys (Some ds) c) \<longleftrightarrow>
    k \<in> set (keys_of c) \<and> \<not> starts_with ''_'' k \<and> k \<notin> set (keys_of ds)"
  "k \<in> set (stale_keys None c) \<longleftrightarrow> k \<in> set (keys_of c) \<and> \<not> starts_with ''_'' k"
  by (auto simp: stale_keys_def configs_keys_def)

lemma key_iff_lookup: "k \<in> set (keys_of c) \<longleftrightarrow> has_key c k"
  by (auto simp: map_of_eq_None_iff)

lemma rename_stage_keys:
  assumes "k \<in> set (keys_of (fold rename_stale (stale_keys ds c) c))" "\<not> starts_with ''_'' k"
  shows "\<exists>m. ds = Some m \<and> k \<in> set (keys_of m)"
proof -
  have "has_key (fold rename_stale (stale_keys ds c) c) k"
    using assms(1) key_iff_lookup by metis
  then have "k \<notin> set (stale_keys ds c)" "has_key c k"
    using lookup_fold_rename_plain [OF assms(2), of "stale_keys ds c" c] by (auto split: if_splits)
  moreover from this(2) have "k \<in> set (keys_of c)" using key_iff_lookup by metis
  ultimately show ?thesis
    using assms(2) by (cases ds) (auto simp only: stale_keys_iff)
qed

lemma rename_stage_def_key:
  assumes "def_ok ds" "k \<in> set (keys_of ds)"
  shows "map_of (fold rename_stale (stale_keys (Some ds) c) c) k = map_of c k"
  using assms by (subst lookup_fold_rename_plain) (auto simp: def_ok_def stale_keys_iff)

lemma lookup_fill:
  "map_of (fold fill_default ds c) k =
    (case map_of c k of Some v \<Rightarrow> Some v | None \<Rightarrow> map_option cs_value (map_of ds k))"
  by (induction ds arbitrary: c) (auto simp: fill_default_def split: option.splits)

lemma distinct_fill: "distinct (keys_of c) \<Longrightarrow> distinct (keys_of (fold fill_default ds c))"
  by (induction ds arbitrary: c) (auto simp: fill_default_def)

lemma fill_present: "fst ` set ds \<subseteq> fst ` set c \<Longrightarrow> fold fill_default ds c = c"
  by (induction ds) (auto simp: fill_default_def map_of_eq_None_iff)

lemma fold_take_def_key:
  assumes "distinct (keys_of ds)" "fst ` set ds \<subseteq> fst ` set c" "fst ` set ds \<inter> fst ` set r = {}"
  shows "fold (take_def_key c) ds r = r @ map (\<lambda>kc. (fst kc, the (map_of c (fst kc)))) ds"
  using assms
proof (induction ds arbitrary: r)
  case (Cons kc ds)
  then obtain v where v: "map_of c (fst kc) = Some v"
    by (metis image_subset_iff list.set_intros(1) map_of_eq_None_iff not_None_eq)
  then have "take_def_key c kc r = r @ [(fst kc, v)]"
    using Cons.prems by (auto simp: take_def_key_def configs_get_def configs_set_def im_insert_fresh)
  then show ?case using Cons v by auto
qed simp

lemma fold_take_rest:
  assumes "distinct (keys_of c)"
  shows "fold take_rest c r = r @ filter (\<lambda>kv. fst kv \<notin> fst ` set r) c"
  using assms
proof (induction c arbitrary: r)
  case (Cons kv c)
  show ?case
  proof (cases "fst kv \<in> fst ` set r")
    case True
    then have "take_rest kv r = r" by (auto simp: take_rest_def map_of_eq_None_iff)
    with Cons True show ?thesis by simp
  next
    case False
    then have t: "take_rest kv r = r @ [kv]"
      by (auto simp: take_rest_def configs_set_def im_insert_fresh map_of_eq_None_iff)
    have "filter (\<lambda>e. fst e \<notin> fst ` set (r @ [kv])) c = filter (\<lambda>e. fst e \<notin> fst ` set r) c"
      using Cons.prems by (intro filter_cong) (auto simp: image_iff)
    with Cons False t show ?thesis by simp
  qed
qed simp

lemma map_of_tabulate:
  "k \<in> fst ` set ds \<Longrightarrow> map_of (map (\<lambda>kc. (fst kc, f (fst kc))) ds) k = Some (f k)"
  by (induction ds) auto

lemma map_of_filter_keys: "map_of (filter (\<lambda>kv. fst kv \<notin> A) c) k = (if k \<in> A then None else map_of c k)"
  by (induction c) auto

lemma reorder_eq:
  assumes "distinct (keys_of ds)" "distinct (keys_of c)" "fst ` set ds \<subseteq> fst ` set c"
  shows "reorder_configs ds c =
    map (\<lambda>kc. (fst kc, the (map_of c (fst kc)))) ds @ filter (\<lambda>kv. fst kv \<notin> fst ` set ds) c"
  using assms
  by (simp add: reorder_configs_def configs_new_def fold_take_def_key fold_take_rest image_image)

lemma reorder_fixed:
  assumes "distinct (keys_of ds)" "distinct (keys_of (a @ b))" "keys_of a = keys_of ds"
  shows "reorder_configs ds (a @ b) = a @ b"
proof -
  have sub: "fst ` set ds \<subseteq> fst ` set (a @ b)"
    using arg_cong [OF assms(3), of set] by (auto simp: image_Un)
  have "map (\<lambda>kc. (fst kc, the (map_of (a @ b) (fst kc)))) ds =
      map (\<lambda>k. (k, the (map_of (a @ b) k))) (keys_of a)"
    by (simp add: assms(3) comp_def)
  also have "\<dots> = map (\<lambda>k. (k, the (map_of a k))) (keys_of a)"
    using assms(2) by (intro map_cong)
      (auto simp: map_add_def map_of_eq_None_iff image_iff split: option.splits)
  also have "\<dots> = a" using assms(2) by (intro alist_from_keys) simp
  finally have 1: "map (\<lambda>kc. (fst kc, the (map_of (a @ b) (fst kc)))) ds = a" .
  have "filter (\<lambda>kv. fst kv \<notin> fst ` set ds) a = []"
    using arg_cong [OF assms(3), of set] by (force simp: filter_empty_conv)
  moreover have "filter (\<lambda>kv. fst kv \<notin> fst ` set ds) b = b"
    using assms(2) arg_cong [OF assms(3), of set] by (force simp: filter_id_conv)
  ultimately show ?thesis using reorder_eq [OF assms(1,2) sub] 1 by simp
qed

text \<open>What reconciliation against a definition produces: the definition's keys in its order,
  each with the old value or the default, then only keys that start with an underscore.\<close>

lemma reconcile_shape:
  assumes ok: "def_ok ds" and d: "\<And>c. sc = Some c \<Longrightarrow> distinct (keys_of c)"
  obtains a b where "reconcile_configs (Some ds) sc = Some (a @ b)" "keys_of a = keys_of ds"
    "distinct (keys_of (a @ b))" "\<forall>k \<in> set (keys_of b). starts_with ''_'' k"
    "\<And>k. k \<in> set (keys_of ds) \<Longrightarrow> map_of a k =
      Some (case Option.bind sc (\<lambda>c. map_of c k) of Some v \<Rightarrow> v | None \<Rightarrow> cs_value (the (map_of ds k)))"
    "\<And>k. map_of b (CHR ''_'' # k) =
      (if k \<notin> set (keys_of ds) \<and> \<not> starts_with ''_'' k \<and> Option.bind sc (\<lambda>c. map_of c k) \<noteq> None
       then Option.bind sc (\<lambda>c. map_of c k) else Option.bind sc (\<lambda>c. map_of c (CHR ''_'' # k)))"
proof -
  have dd: "distinct (keys_of ds)" using ok by (simp add: def_ok_def)
  define c1 where "c1 = (case sc of
      Some c \<Rightarrow> fold fill_default ds (fold rename_stale (stale_keys (Some ds) c) c)
    | None \<Rightarrow> default_configs ds)"
  have r: "reconcile_configs (Some ds) sc = Some (reorder_configs ds c1)"
    by (simp add: reconcile_configs_def c1_def Let_def split: option.splits)
  have d1: "distinct (keys_of c1)"
    by (auto simp: c1_def default_configs_def d distinct_fill split: option.splits)
  have def1: "default_configs ds = map (\<lambda>(k, c). (k, cs_value c)) ds"
    using dd by (simp add: default_configs_def configs_from_iter_eq comp_def case_prod_beta)
  have look: "map_of c1 k = Some (case Option.bind sc (\<lambda>c. map_of c k) of
      Some v \<Rightarrow> v | None \<Rightarrow> cs_value (the (map_of ds k)))" if "k \<in> set (keys_of ds)" for k
  proof -
    from that [unfolded key_iff_lookup] obtain x where "map_of ds k = Some x" by auto
    then show ?thesis
      using rename_stage_def_key [OF ok that]
      by (cases sc) (simp_all add: c1_def lookup_fill def1 map_of_map split: option.splits)
  qed
  have sub: "fst ` set ds \<subseteq> fst ` set c1"
  proof -
    have "set (keys_of ds) \<subseteq> set (keys_of c1)"
      using look unfolding key_iff_lookup [of _ c1] by (intro subsetI) (simp only: key_iff_lookup [of _ c1] option.distinct(2) not_False_eq_True)
    then show ?thesis by simp
  qed
  let ?a = "map (\<lambda>kc. (fst kc, the (map_of c1 (fst kc)))) ds"
  let ?b = "filter (\<lambda>kv. fst kv \<notin> fst ` set ds) c1"
  have keys: "keys_of ?a = keys_of ds" by (simp add: comp_def)
  have under: "\<forall>k \<in> set (keys_of ?b). starts_with ''_'' k"
  proof
    fix k assume "k \<in> set (keys_of ?b)"
    then have k: "has_key c1 k" "k \<notin> set (keys_of ds)"
      by (auto simp: map_of_eq_None_iff)
    then have n: "map_of ds k = None" by (simp add: map_of_eq_None_iff)
    show "starts_with ''_'' k"
    proof (rule ccontr)
      assume u: "\<not> starts_with ''_'' k"
      show False
      proof (cases sc)
        case None
        with k n show False by (simp add: c1_def def1 map_of_map)
      next
        case (Some c)
        with k n have "k \<in> set (keys_of (fold rename_stale (stale_keys (Some ds) c) c))"
          unfolding key_iff_lookup by (simp add: c1_def lookup_fill split: option.splits)
        from rename_stage_keys [OF this u] k(2) show False by simp
      qed
    qed
  qed
  have dist: "distinct (keys_of (?a @ ?b))"
    using dd d1 by (auto simp: comp_def distinct_map_filterI image_iff)
  have look': "map_of ?a k = map_of c1 k" if "k \<in> set (keys_of ds)" for k
    using look [OF that] that map_of_tabulate [of k ds "\<lambda>k. the (map_of c1 k)"] by simp
  have parked: "map_of ?b (CHR ''_'' # k) =
      (if k \<notin> set (keys_of ds) \<and> \<not> starts_with ''_'' k \<and> Option.bind sc (\<lambda>c. map_of c k) \<noteq> None
       then Option.bind sc (\<lambda>c. map_of c k) else Option.bind sc (\<lambda>c. map_of c (CHR ''_'' # k)))" for k
  proof -
    have "starts_with ''_'' (CHR ''_'' # k)" by simp
    then have nd: "CHR ''_'' # k \<notin> set (keys_of ds)" using ok unfolding def_ok_def by blast
    then have "map_of ?b (CHR ''_'' # k) = map_of c1 (CHR ''_'' # k)" by (simp add: map_of_filter_keys)
    moreover have "map_of ds (CHR ''_'' # k) = None" using nd by (simp add: map_of_eq_None_iff)
    ultimately show ?thesis
    proof (cases sc)
      case (Some c)
      have st: "distinct (stale_keys (Some ds) c)" "\<forall>k \<in> set (stale_keys (Some ds) c). \<not> starts_with ''_'' k"
        using d [OF Some] by (simp_all add: stale_keys_def configs_keys_def del: starts_with_Cons)
      have k: "k \<in> set (stale_keys (Some ds) c) \<and> has_key c k \<longleftrightarrow>
          k \<notin> set (keys_of ds) \<and> \<not> starts_with ''_'' k \<and> has_key c k"
        using key_iff_lookup [of k c] by (simp only: stale_keys_iff) blast
      show ?thesis
        using \<open>map_of ?b (CHR ''_'' # k) = map_of c1 (CHR ''_'' # k)\<close> \<open>map_of ds (CHR ''_'' # k) = None\<close>
        by (simp add: c1_def Some lookup_fill lookup_fold_rename_parked [OF st] k
            del: map_of_eq_Some_iff not_None_eq starts_with_Cons split: option.split)
    qed (simp add: c1_def def1 map_of_map)
  qed
  have shape: "reconcile_configs (Some ds) sc = Some (?a @ ?b)" using r reorder_eq [OF dd d1 sub] by simp
  show ?thesis
    by (rule that [OF shape keys dist under _ parked]) (simp only: look look')
qed

lemma stale_keys_NilI:
  assumes "\<And>k. k \<in> set (keys_of c) \<Longrightarrow> \<not> starts_with ''_'' k \<Longrightarrow>
    \<exists>m. ds = Some m \<and> k \<in> set (keys_of m)"
  shows "stale_keys ds c = []"
proof -
  have "k \<notin> set (stale_keys ds c)" for k
    using assms [of k] by (cases ds) (auto simp only: stale_keys_iff)
  then show ?thesis by (metis list.set_intros(1) neq_Nil_conv)
qed

lemma reconcile_configs_idem:
  assumes "\<And>m. ds = Some m \<Longrightarrow> def_ok m" and "\<And>c. sc = Some c \<Longrightarrow> distinct (keys_of c)"
  shows "reconcile_configs ds (reconcile_configs ds sc) = reconcile_configs ds sc"
proof (cases ds)
  case None
  show ?thesis
  proof (cases sc)
    case (Some c)
    let ?c = "fold rename_stale (stale_keys None c) c"
    have "stale_keys None ?c = []"
      by (rule stale_keys_NilI) (rule rename_stage_keys)
    then show ?thesis by (simp add: reconcile_configs_def None Some)
  qed (simp add: reconcile_configs_def None)
next
  case (Some m)
  with assms have ok: "def_ok m" by simp
  then have d: "distinct (keys_of m)" by (simp add: def_ok_def)
  from reconcile_shape [OF ok, of sc] assms(2) obtain a b where
    r: "reconcile_configs (Some m) sc = Some (a @ b)" "keys_of a = keys_of m"
      "distinct (keys_of (a @ b))" "\<forall>k \<in> set (keys_of b). starts_with ''_'' k"
    by metis
  have sub: "fst ` set m \<subseteq> fst ` set (a @ b)"
    using arg_cong [OF r(2), of set] by (auto simp: image_Un)
  have "stale_keys (Some m) (a @ b) = []"
    by (rule stale_keys_NilI)
      (use r(4) arg_cong [OF r(2), of set] in \<open>auto simp del: starts_with_Cons\<close>)
  then have "reconcile_configs (Some m) (Some (a @ b)) = Some (reorder_configs m (a @ b))"
    by (simp add: reconcile_configs_def fill_present [OF sub])
  with r reorder_fixed [OF d r(3,2)] Some show ?thesis by simp
qed

lemma reconcile_spec_idem:
  assumes "\<And>m. d_configs d = Some m \<Longrightarrow> def_ok m" and "spec_wf s"
  shows "reconcile_spec d (reconcile_spec d s) = reconcile_spec d s"
proof -
  have "reconcile_configs (d_configs d) (reconcile_configs (d_configs d) (s_configs s)) =
      reconcile_configs (d_configs d) (s_configs s)"
    by (rule reconcile_configs_idem) (use assms in \<open>auto simp: spec_wf_def\<close>)
  then show ?thesis by (simp add: reconcile_spec_def split: option.splits)
qed

end
