(* ===== verification/Context.thy ===== *)
theory Context
  imports Config
begin

text \<open>
  context.rs: \<open>AgentContext\<close>, the event-scoped context with its variables and its stack of
  frames, and the key that identifies a flow together with its map frames.

  A context is immutable: every operation returns a new one. The counter of context ids is
  a global atomic, threaded explicitly. The cancellation token is a name into the token
  store of the theory Tokens; \<open>fired\<close> says which tokens are cancelled. An empty frame
  vector occurs only as the value the source can hold but never builds (\<open>Some []\<close>).
\<close>

record frame =
  fr_name :: string
  fr_data :: agent_value

record agent_context =
  ctx_id :: usize
  ctx_vars :: "value_map option"
  ctx_frames :: "frame list option"
  ctx_cancel :: "nat option"

definition FRAME_MAP :: string where "FRAME_MAP = ''map''"
definition FRAME_KEY_INDEX :: string where "FRAME_KEY_INDEX = ''index''"
definition FRAME_KEY_LENGTH :: string where "FRAME_KEY_LENGTH = ''length''"

definition ctx_new_id :: "usize \<Rightarrow> usize \<times> usize" where
  "ctx_new_id n = (n, n + 1)"

definition ctx_new :: "usize \<Rightarrow> agent_context \<times> usize" where
  "ctx_new n =
    (let (i, n') = ctx_new_id n
     in (\<lparr>ctx_id = i, ctx_vars = None, ctx_frames = None, ctx_cancel = None\<rparr>, n'))"

definition ctx_get_var :: "agent_context \<Rightarrow> string \<Rightarrow> agent_value option" where
  "ctx_get_var c k = Option.bind (ctx_vars c) (\<lambda>m. map_of m k)"

definition ctx_with_var :: "string \<Rightarrow> agent_value \<Rightarrow> agent_context \<Rightarrow> agent_context" where
  "ctx_with_var k v c = c\<lparr>ctx_vars := Some (im_insert k v (unwrap_or (ctx_vars c) []))\<rparr>"

definition ctx_with_cancel_token :: "nat \<Rightarrow> agent_context \<Rightarrow> agent_context" where
  "ctx_with_cancel_token t c = c\<lparr>ctx_cancel := Some t\<rparr>"

definition ctx_is_cancelled :: "(nat \<Rightarrow> bool) \<Rightarrow> agent_context \<Rightarrow> bool" where
  "ctx_is_cancelled fired c = (case ctx_cancel c of None \<Rightarrow> False | Some t \<Rightarrow> fired t)"

section \<open>Frames\<close>

definition map_frame_data :: "usize \<Rightarrow> usize \<Rightarrow> agent_value" where
  "map_frame_data i len =
    (let d0 = Object [];
         d1 = (case value_set FRAME_KEY_INDEX (Integer i) d0 of Inr v \<Rightarrow> v | Inl e \<Rightarrow> d0)
     in (case value_set FRAME_KEY_LENGTH (Integer len) d1 of Inr v \<Rightarrow> v | Inl e \<Rightarrow> d1))"

definition read_map_frame :: "frame \<Rightarrow> (usize \<times> usize) result" where
  "read_map_frame f =
    and_then (ok_or (InvalidValue ''map frame missing integer index'')
      (value_get_i64 (fr_data f) FRAME_KEY_INDEX)) (\<lambda>idx.
    and_then (ok_or (InvalidValue ''map frame missing integer length'')
      (value_get_i64 (fr_data f) FRAME_KEY_LENGTH)) (\<lambda>len.
    if sint idx < 0 \<or> sint len < 1 then Inl (InvalidValue ''Invalid map frame values'')
    else if unat len \<le> unat idx then Inl (InvalidValue ''map frame index is out of bounds'')
    else Inr (idx, len)))"

definition push_frame :: "string \<Rightarrow> agent_value \<Rightarrow> agent_context \<Rightarrow> agent_context" where
  "push_frame name d c =
    c\<lparr>ctx_frames := Some (unwrap_or (ctx_frames c) [] @ [\<lparr>fr_name = name, fr_data = d\<rparr>])\<rparr>"

definition push_map_frame :: "usize \<Rightarrow> usize \<Rightarrow> agent_context \<Rightarrow> agent_context result" where
  "push_map_frame i len c =
    (if len = 0 then Inl (InvalidValue ''map frame length must be positive'')
     else if unat len \<le> unat i then Inl (InvalidValue ''map frame index is out of bounds'')
     else Inr (push_frame FRAME_MAP (map_frame_data i len) c))"

definition current_map_frame :: "agent_context \<Rightarrow> (usize \<times> usize) option result" where
  "current_map_frame c =
    (case ctx_frames c of
      None \<Rightarrow> Inr None
    | Some fs \<Rightarrow>
        if fs = [] then Inr None
        else if fr_name (last fs) \<noteq> FRAME_MAP then Inr None
        else map_ok Some (read_map_frame (last fs)))"

definition pop_frame :: "agent_context \<Rightarrow> frame option \<times> agent_context" where
  "pop_frame c =
    (case ctx_frames c of
      Some fs \<Rightarrow>
        if fs = [] then (None, c)
        else (Some (last fs),
          c\<lparr>ctx_frames := (if butlast fs = [] then None else Some (butlast fs))\<rparr>)
    | None \<Rightarrow> (None, c))"

definition pop_map_frame :: "agent_context \<Rightarrow> agent_context result" where
  "pop_map_frame c =
    (case pop_frame c of
      (Some f, c') \<Rightarrow>
        if fr_name f = FRAME_MAP then Inr c'
        else Inl (InvalidValue (''Unexpected frame '' @ [CHR 0x27] @ fr_name f @ [CHR 0x27] @ '', expected map''))
    | (None, c') \<Rightarrow> Inl (InvalidValue ''Missing map frame in context''))"

definition map_frame_indices :: "agent_context \<Rightarrow> (usize \<times> usize) list result" where
  "map_frame_indices c =
    (case ctx_frames c of
      None \<Rightarrow> Inr []
    | Some fs \<Rightarrow> collect_results (map read_map_frame (filter (\<lambda>f. fr_name f = FRAME_MAP) fs)))"

definition index_text :: "usize \<times> usize \<Rightarrow> string" where
  "index_text il = usize_to_string (fst il) @ '':'' @ usize_to_string (snd il)"

definition ctx_key :: "agent_context \<Rightarrow> string result" where
  "ctx_key c =
    map_ok (\<lambda>ils.
      if ils = [] then usize_to_string (ctx_id c)
      else usize_to_string (ctx_id c) @ '':'' @ join_with '','' (map index_text ils))
    (map_frame_indices c)"

section \<open>Reading back a frame\<close>

definition ctx_wf :: "agent_context \<Rightarrow> bool" where
  "ctx_wf c \<longleftrightarrow> ctx_frames c \<noteq> Some [] \<and>
    (case ctx_vars c of None \<Rightarrow> True | Some m \<Rightarrow> distinct (keys_of m))"

lemma map_frame_data_eq [simp]:
  "map_frame_data i len = Object [(''index'', Integer i), (''length'', Integer len)]"
  by (simp add: map_frame_data_def value_set_def FRAME_KEY_INDEX_def FRAME_KEY_LENGTH_def im_insert_def)

lemma usize_signed:
  assumes "unat (n :: usize) < 2 ^ 63"
  shows "sint n = uint n"
proof -
  have "int (unat n) < int (2 ^ 63)" using assms by (simp only: of_nat_less_iff)
  then have "uint n < 2 ^ 63" by simp
  moreover have "- (2 ^ 63) \<le> uint n" by (rule order_trans [of _ 0]) simp_all
  ultimately show ?thesis by (simp add: sint_uint signed_take_bit_int_eq_self)
qed

lemma usize_pos: "unat i < unat (n :: usize) \<Longrightarrow> 1 \<le> uint n"
proof -
  assume "unat i < unat n"
  then have "1 \<le> int (unat n)" by linarith
  then show ?thesis by simp
qed

lemma read_pushed_frame:
  assumes "i < len" "unat len < 2 ^ 63"
  shows "read_map_frame \<lparr>fr_name = n, fr_data = map_frame_data i len\<rparr> = Inr (i, len)"
proof -
  have i: "unat i < unat len" using assms(1) by (simp add: word_less_nat_alt)
  have "sint i = uint i" "sint len = uint len"
    using assms(2) i usize_signed [of i] usize_signed [of len] by simp_all
  then show ?thesis
    using i usize_pos [OF i]
    by (simp add: read_map_frame_def value_get_i64_def FRAME_KEY_INDEX_def FRAME_KEY_LENGTH_def)
qed

lemma push_map_frame_current:
  assumes "push_map_frame i len c = Inr c'" "unat len < 2 ^ 63"
  shows "current_map_frame c' = Inr (Some (i, len))"
proof -
  from assms(1) have i: "i < len" and c': "c' = push_frame FRAME_MAP (map_frame_data i len) c"
    by (auto simp: push_map_frame_def word_less_nat_alt split: if_splits)
  show ?thesis
    using read_pushed_frame [OF i assms(2)]
    by (simp add: c' current_map_frame_def push_frame_def del: map_frame_data_eq)
qed

text \<open>A length of \<open>2 ^ 63\<close> or more becomes negative in the cast to \<open>i64\<close>, and the frame that
  was pushed without complaint cannot be read.\<close>

lemma push_map_frame_overflow:
  assumes "push_map_frame i len c = Inr c'" "2 ^ 63 \<le> unat len"
  shows "current_map_frame c' = Inl (InvalidValue ''Invalid map frame values'')"
proof -
  from assms(1) have c': "c' = push_frame FRAME_MAP (map_frame_data i len) c"
    by (auto simp: push_map_frame_def split: if_splits)
  have "sint len < 0"
  proof (rule ccontr)
    assume "\<not> sint len < 0"
    then have "uint len = sint len"
      using sint_less [of len] by (simp add: uint_sint take_bit_int_eq_self)
    then have "uint len < 2 ^ 63" using sint_less [of len] by simp
    moreover have "int (2 ^ 63) \<le> int (unat len)" using assms(2) by (simp only: of_nat_le_iff)
    ultimately show False by simp
  qed
  then show ?thesis
    by (simp add: c' current_map_frame_def push_frame_def read_map_frame_def value_get_i64_def
        FRAME_KEY_INDEX_def FRAME_KEY_LENGTH_def)
qed

lemma pop_push_frame:
  assumes "ctx_wf c"
  shows "pop_frame (push_frame n d c) = (Some \<lparr>fr_name = n, fr_data = d\<rparr>, c)"
  using assms
  by (cases "ctx_frames c") (auto simp: pop_frame_def push_frame_def ctx_wf_def)

lemma pop_push_map_frame:
  assumes "ctx_wf c" "push_map_frame i len c = Inr c'"
  shows "pop_map_frame c' = Inr c"
  using assms pop_push_frame [OF assms(1)]
  by (auto simp: push_map_frame_def pop_map_frame_def split: if_splits)

section \<open>Keys\<close>

lemma split_at_sep:
  "c \<notin> set a \<Longrightarrow> c \<notin> set b \<Longrightarrow> a @ c # x = b @ c # y \<longleftrightarrow> a = b \<and> x = y"
proof (induction a arbitrary: b)
  case Nil
  then show ?case by (cases b) auto
next
  case (Cons d a)
  then show ?case by (cases b) auto
qed

lemma join_with_Cons: "join_with sep (s # ss) = (if ss = [] then s else s @ sep @ join_with sep ss)"
  by (cases ss) auto

lemma join_with_inj:
  assumes "\<forall>s \<in> set ss. c \<notin> set s" "\<forall>t \<in> set ts. c \<notin> set t" "ss \<noteq> []" "ts \<noteq> []"
    and "join_with [c] ss = join_with [c] ts"
  shows "ss = ts"
  using assms
proof (induction ss arbitrary: ts)
  case (Cons s ss)
  obtain t ts' where ts: "ts = t # ts'" using Cons.prems by (cases ts) auto
  have no: "c \<notin> set s" "c \<notin> set t" using Cons.prems ts by auto
  have eq: "join_with [c] (s # ss) = join_with [c] (t # ts')" using Cons.prems ts by simp
  show ?case
  proof (cases "ss = [] \<or> ts' = []")
    case True
    then have "ss = [] \<and> ts' = []"
      using eq no by (auto simp: join_with_Cons split: if_splits)
    with eq ts show ?thesis by simp
  next
    case False
    then have "s = t \<and> join_with [c] ss = join_with [c] ts'"
      using eq split_at_sep [OF no] by (simp add: join_with_Cons)
    with Cons.IH [of ts'] Cons.prems False ts show ?thesis by simp
  qed
qed simp

lemma usize_text_no_char: "char_digit c = None \<Longrightarrow> c \<notin> set (usize_to_string n)"
  by (simp add: usize_to_string_def digits_no_char)

lemma sep_no_digit [simp]: "char_digit CHR '':'' = None" "char_digit CHR '','' = None"
  by (simp_all add: char_digit_def Let_def)

lemma index_text_inj: "index_text a = index_text b \<longleftrightarrow> a = b"
  by (cases a; cases b)
    (auto simp: index_text_def split_at_sep usize_text_no_char)

lemma index_text_no_comma: "CHR '','' \<notin> set (index_text il)"
  by (auto simp: index_text_def dest: usize_text_no_char [THEN notE, rotated])

lemma ctx_key_inj:
  assumes "ctx_key c = Inr k" "ctx_key d = Inr k"
  shows "ctx_id c = ctx_id d \<and> map_frame_indices c = map_frame_indices d"
proof -
  obtain xs ys where x: "map_frame_indices c = Inr xs" and y: "map_frame_indices d = Inr ys"
    using assms by (auto simp: ctx_key_def map_ok_eq_Inr)
  let ?k = "\<lambda>e zs. if zs = [] then usize_to_string (ctx_id e)
      else usize_to_string (ctx_id e) @ CHR '':'' # join_with '','' (map index_text zs)"
  have kc: "?k c xs = k" using assms(1) by (auto simp: ctx_key_def x split: if_splits)
  have kd: "?k d ys = k" using assms(2) by (auto simp: ctx_key_def y split: if_splits)
  have eq: "?k c xs = ?k d ys" by (rule trans [OF kc kd [symmetric]])
  have no: "CHR '':'' \<notin> set (usize_to_string (ctx_id e))" for e
    by (simp add: usize_text_no_char)
  have none: "a @ CHR '':'' # b \<noteq> usize_to_string n" for a b n
    using usize_text_no_char [of "CHR '':''" n] by (metis in_set_conv_decomp sep_no_digit(1))
  have "xs = [] \<longleftrightarrow> ys = []"
    using eq none none [symmetric] by (auto split: if_splits)
  then consider "xs = [] \<and> ys = []" | "xs \<noteq> [] \<and> ys \<noteq> []" by blast
  then show ?thesis
  proof cases
    case 1
    with eq x y show ?thesis by simp
  next
    case 2
    with eq split_at_sep [OF no no] have i: "usize_to_string (ctx_id c) = usize_to_string (ctx_id d)"
      and j: "join_with '','' (map index_text xs) = join_with '','' (map index_text ys)"
      by auto
    have "map index_text xs = map index_text ys"
      by (rule join_with_inj [OF _ _ _ _ j]) (use 2 index_text_no_comma in auto)
    then have "xs = ys" by (metis index_text_inj inj_map_eq_map injI)
    with i x y show ?thesis by simp
  qed
qed

end
