(* ===== verification/Tokens.thy ===== *)
theory Tokens
  imports Containers
begin

text \<open>
  The cancellation tokens of tokio_util as the orchestrator uses them: a store of tokens,
  each a fired flag and an optional parent. Firing a token fires it for all tokens below
  it, now and later, so whether a token is cancelled is read up the chain of parents, and a
  child of a fired token is born cancelled. A fired token cannot be reset. The operations
  of modular_agent.rs on its three token tables are in the theories World and Lifecycle.
\<close>

record token =
  tk_fired :: bool
  tk_parent :: "nat option"

type_synonym token_store = "token list"

function cancelled :: "token_store \<Rightarrow> nat \<Rightarrow> bool" where
  "cancelled ts t =
    (t < length ts \<and>
      (tk_fired (ts ! t) \<or>
       (case tk_parent (ts ! t) of None \<Rightarrow> False | Some p \<Rightarrow> if p < t then cancelled ts p else False)))"
  by pat_completeness auto
termination by (relation "measure snd") auto

declare cancelled.simps [simp del]

definition new_token :: "token_store \<Rightarrow> token_store \<times> nat" where
  "new_token ts = (ts @ [\<lparr>tk_fired = False, tk_parent = None\<rparr>], length ts)"

definition child_token :: "token_store \<Rightarrow> nat \<Rightarrow> token_store \<times> nat" where
  "child_token ts p = (ts @ [\<lparr>tk_fired = False, tk_parent = Some p\<rparr>], length ts)"

definition cancel :: "token_store \<Rightarrow> nat \<Rightarrow> token_store" where
  "cancel ts t = ts[t := (ts ! t)\<lparr>tk_fired := True\<rparr>]"

text \<open>\<open>t\<close> is \<open>p\<close> or below it.\<close>

function below :: "token_store \<Rightarrow> nat \<Rightarrow> nat \<Rightarrow> bool" where
  "below ts p t =
    (t < length ts \<and>
      (t = p \<or> (case tk_parent (ts ! t) of None \<Rightarrow> False | Some q \<Rightarrow> if q < t then below ts p q else False)))"
  by pat_completeness auto
termination by (relation "measure (\<lambda>(ts, p, t). t)") auto

declare below.simps [simp del]

lemma cancelled_append:
  "t < length ts \<Longrightarrow> cancelled (ts @ us) t = cancelled ts t"
proof (induction ts t rule: cancelled.induct)
  case (1 ts t)
  show ?case
    by (subst cancelled.simps, subst (2) cancelled.simps)
      (use 1 in \<open>auto simp: nth_append split: option.splits\<close>)
qed

lemma cancelled_new_token [simp]:
  "\<not> cancelled (fst (new_token ts)) (snd (new_token ts))"
  by (simp add: new_token_def cancelled.simps)

lemma cancelled_child:
  assumes "p < length ts"
  shows "cancelled (fst (child_token ts p)) (snd (child_token ts p)) = cancelled ts p"
  using assms by (subst cancelled.simps) (simp add: child_token_def cancelled_append)

lemma length_cancel [simp]: "length (cancel ts t) = length ts"
  by (simp add: cancel_def)

lemma parent_cancel [simp]: "u < length ts \<Longrightarrow> tk_parent (cancel ts t ! u) = tk_parent (ts ! u)"
  by (cases "u = t") (auto simp: cancel_def)

lemma fired_cancel: "u < length ts \<Longrightarrow> tk_fired (cancel ts t ! u) \<longleftrightarrow> u = t \<or> tk_fired (ts ! u)"
  by (cases "u = t") (auto simp: cancel_def)

text \<open>Firing a token cancels exactly the tokens below it.\<close>

lemma cancelled_cancel: "cancelled (cancel ts t) u \<longleftrightarrow> below ts t u \<or> cancelled ts u"
proof (induction ts u rule: cancelled.induct)
  case (1 ts u)
  show ?case
  proof (cases "u < length ts")
    case True
    show ?thesis
      by (subst cancelled.simps, subst (2) cancelled.simps, subst below.simps)
        (use 1 True in \<open>auto simp: fired_cancel split: option.splits\<close>)
  qed (simp add: cancelled.simps below.simps)
qed

lemma cancel_mono: "cancelled ts u \<Longrightarrow> cancelled (cancel ts t) u"
  by (simp add: cancelled_cancel)

lemma below_refl [simp]: "t < length ts \<Longrightarrow> below ts t t"
  by (simp add: below.simps)

lemma cancelled_cancel_self: "t < length ts \<Longrightarrow> cancelled (cancel ts t) t"
  by (simp add: cancelled_cancel)

lemma below_child:
  assumes "p < length ts"
  shows "below (fst (child_token ts p)) p (snd (child_token ts p))"
proof -
  have "below (ts @ us) p p" for us using assms by (simp add: below.simps)
  then show ?thesis using assms by (subst below.simps) (simp add: child_token_def)
qed

end
