(* ===== verification/World.thy ===== *)
theory World
  imports Definition Context Tokens
begin

text \<open>
  The state of a running \<open>ModularAgent\<close> (modular_agent.rs) and of the agents it holds
  (agent.rs), with the operations on one agent.

  The fields of \<open>ModularAgent\<close> are the fields of the record \<open>world\<close>. What the code shares
  through \<open>Arc\<close> (agents, presets, channels) lives in a store and the tables hold its index.
  The two id counters and the generation counter are global atomics. The event channel to
  observers is the list of the envelopes sent so far; the handle's \<open>origin\<close> is an argument
  of the operations that emit.

  An agent's behaviour (its \<open>AsAgent\<close> callbacks) is code of other crates, apart from the
  four agents of external_agent.rs: a record \<open>impl\<close> of functions on the world and the
  agent, and a table of them by name is a parameter of the model. A bounded channel is its
  queue and a closed flag: \<open>send\<close> is the completed send of a task that may have waited for
  room, \<open>try_send\<close> fails when the queue is full.
\<close>

section \<open>State\<close>

datatype agent_status = Init | Start | Stop

datatype agent_message =
    Input agent_context string agent_value
  | ConfigMsg string agent_value
  | ConfigsMsg agent_configs
  | StopMsg

datatype agent_event_message =
    AgentOut string agent_context string agent_value
  | ExternalOutputMsg string agent_context agent_value

datatype ma_event =
    AgentConfigUpdated string string agent_value
  | AgentErrorEvent string string
  | AgentIn string string
  | AgentSpecUpdated string
  | PresetStructureChanged string
  | PresetAdded string "string option"
  | PresetRemoved string "string option"
  | PresetRenamed string "string option" string
  | PresetSaved string string
  | ExternalOutput string agent_value

record event_envelope =
  ev_origin :: "string option"
  ev_event :: ma_event

record 'm chan =
  ch_queue :: "'m list"
  ch_closed :: bool

text \<open>The private state of an agent: the channel or variable name of the built-in agents of
  external_agent.rs, or the state of another implementation.\<close>

datatype 'u agent_state = Channel "string option" | User 'u

record 'u agent =
  a_id :: string
  a_spec :: agent_spec
  a_preset_id :: string
  a_status :: agent_status
  a_impl :: string
  a_state :: "'u agent_state"

record preset =
  pr_id :: string
  pr_name :: "string option"
  pr_running :: bool
  pr_spec :: preset_spec

datatype loop_phase = Starting | Running | Finished

record agent_loop =
  lp_agent_id :: string
  lp_obj :: nat
  lp_chan :: nat
  lp_preset_id :: string
  lp_generation :: u64
  lp_token :: nat
  lp_phase :: loop_phase

type_synonym connection_target = "string \<times> string \<times> string"

record 'u world =
  w_ids :: usize
  w_ctx_ids :: usize
  w_generation :: u64
  w_objs :: "'u agent list"
  w_agents :: "(string, nat) index_map"
  w_chans :: "agent_message chan list"
  w_agent_txs :: "(string, nat) index_map"
  w_external_input_agents :: "(string, string list) index_map"
  w_external_values :: "(string, agent_value) index_map"
  w_connections :: "(string, connection_target list) index_map"
  w_defs :: "(string, agent_definition) index_map"
  w_preset_objs :: "preset list"
  w_presets :: "(string, nat) index_map"
  w_preset_names :: "(string, string) index_map"
  w_global_configs_map :: "(string, agent_configs) index_map"
  w_tokens :: token_store
  w_preset_tokens :: "(string, nat) index_map"
  w_agent_tokens :: "(string, u64 \<times> nat) index_map"
  w_context_tokens :: "(usize, nat) index_map"
  w_main_chans :: "agent_event_message chan list"
  w_tx :: "nat option"
  w_loops :: "agent_loop list"
  w_events :: "event_envelope list"

record 'u impl =
  i_new :: "'u world \<Rightarrow> string \<Rightarrow> agent_spec \<Rightarrow> 'u world \<times> 'u agent result"
  i_configs_changed :: "'u world \<Rightarrow> 'u agent \<Rightarrow> 'u world \<times> 'u agent \<times> unit result"
  i_start :: "'u world \<Rightarrow> 'u agent \<Rightarrow> 'u world \<times> 'u agent \<times> unit result"
  i_stop :: "'u world \<Rightarrow> 'u agent \<Rightarrow> 'u world \<times> 'u agent \<times> unit result"
  i_process :: "'u world \<Rightarrow> 'u agent \<Rightarrow> agent_context \<Rightarrow> string \<Rightarrow> agent_value \<Rightarrow>
    'u world \<times> 'u agent \<times> unit result"

type_synonym 'u impls = "string \<Rightarrow> 'u impl"

definition MESSAGE_LIMIT :: nat where "MESSAGE_LIMIT = 1024"
definition MAIN_LIMIT :: nat where "MAIN_LIMIT = 4096"
definition CONTEXT_TOKEN_PRUNE_THRESHOLD :: nat where "CONTEXT_TOKEN_PRUNE_THRESHOLD = 1024"

text \<open>\<open>ModularAgent::new\<close>, with the counters at their initial values.\<close>

definition world_new :: "'u world" where
  "world_new =
    \<lparr>w_ids = 1, w_ctx_ids = 1, w_generation = 1, w_objs = [], w_agents = [], w_chans = [],
     w_agent_txs = [], w_external_input_agents = [], w_external_values = [],
     w_connections = [], w_defs = [], w_preset_objs = [], w_presets = [], w_preset_names = [],
     w_global_configs_map = [], w_tokens = [], w_preset_tokens = [], w_agent_tokens = [],
     w_context_tokens = [], w_main_chans = [], w_tx = None, w_loops = [], w_events = []\<rparr>"

definition world_new_id :: "'u world \<Rightarrow> 'u world \<times> string" where
  "world_new_id w = (let (i, n) = new_id (w_ids w) in (w\<lparr>w_ids := n\<rparr>, i))"

definition world_new_ctx :: "'u world \<Rightarrow> 'u world \<times> agent_context" where
  "world_new_ctx w = (let (c, n) = ctx_new (w_ctx_ids w) in (w\<lparr>w_ctx_ids := n\<rparr>, c))"

section \<open>Channels\<close>

definition chan_new :: "'m chan" where
  "chan_new = \<lparr>ch_queue = [], ch_closed = False\<rparr>"

definition chan_send :: "'m \<Rightarrow> 'm chan \<Rightarrow> 'm chan option" where
  "chan_send m c = (if ch_closed c then None else Some (c\<lparr>ch_queue := ch_queue c @ [m]\<rparr>))"

definition chan_try_send :: "nat \<Rightarrow> 'm \<Rightarrow> 'm chan \<Rightarrow> 'm chan option" where
  "chan_try_send limit m c =
    (if ch_closed c \<or> limit \<le> length (ch_queue c) then None
     else Some (c\<lparr>ch_queue := ch_queue c @ [m]\<rparr>))"

section \<open>Events\<close>

definition notify :: "string option \<Rightarrow> ma_event \<Rightarrow> 'u world \<Rightarrow> 'u world" where
  "notify org e w = w\<lparr>w_events := w_events w @ [\<lparr>ev_origin = org, ev_event = e\<rparr>]\<rparr>"

definition emit_configs_updated ::
    "string option \<Rightarrow> string \<Rightarrow> agent_configs \<Rightarrow> 'u world \<Rightarrow> 'u world" where
  "emit_configs_updated org i c w = fold (\<lambda>(k, v). notify org (AgentConfigUpdated i k v)) c w"

section \<open>The main channel\<close>

definition tx_not_sent :: "string \<Rightarrow> agent_error" where
  "tx_not_sent s = SendMessageFailed (''Failed to '' @ s @ '' message'')"

definition main_send :: "string \<Rightarrow> agent_event_message \<Rightarrow> 'u world \<Rightarrow> 'u world \<times> unit result" where
  "main_send what m w =
    (case w_tx w of
      None \<Rightarrow> (w, Inl TxNotInitialized)
    | Some t \<Rightarrow>
        (case chan_send m (w_main_chans w ! t) of
          None \<Rightarrow> (w, Inl (tx_not_sent what))
        | Some c \<Rightarrow> (w\<lparr>w_main_chans := (w_main_chans w)[t := c]\<rparr>, Inr ())))"

definition send_agent_out ::
    "string \<Rightarrow> agent_context \<Rightarrow> string \<Rightarrow> agent_value \<Rightarrow> 'u world \<Rightarrow> 'u world \<times> unit result" where
  "send_agent_out i ctx port v w = main_send ''send AgentOut'' (AgentOut i ctx port v) w"

definition try_send_agent_out ::
    "string \<Rightarrow> agent_context \<Rightarrow> string \<Rightarrow> agent_value \<Rightarrow> 'u world \<Rightarrow> 'u world \<times> unit result" where
  "try_send_agent_out i ctx port v w =
    (case w_tx w of
      None \<Rightarrow> (w, Inl TxNotInitialized)
    | Some t \<Rightarrow>
        (case chan_try_send MAIN_LIMIT (AgentOut i ctx port v) (w_main_chans w ! t) of
          None \<Rightarrow> (w, Inl (tx_not_sent ''try_send AgentOut''))
        | Some c \<Rightarrow> (w\<lparr>w_main_chans := (w_main_chans w)[t := c]\<rparr>, Inr ())))"

definition send_external_output ::
    "string \<Rightarrow> agent_context \<Rightarrow> agent_value \<Rightarrow> 'u world \<Rightarrow> 'u world \<times> unit result" where
  "send_external_output name ctx v w =
    main_send ''send ExternalOutput'' (ExternalOutputMsg name ctx v) w"

section \<open>One agent\<close>

text \<open>\<open>AgentData::new\<close> strips the configuration keys that start with an underscore.\<close>

definition agent_data_new :: "string \<Rightarrow> 'u agent_state \<Rightarrow> string \<Rightarrow> agent_spec \<Rightarrow> 'u agent" where
  "agent_data_new impl st i s =
    \<lparr>a_id = i,
     a_spec = s\<lparr>s_configs := map_option (configs_retain (\<lambda>k v. \<not> starts_with ''_'' k)) (s_configs s)\<rparr>,
     a_preset_id = [], a_status = Init, a_impl = impl, a_state = st\<rparr>"

definition agent_configs_changed ::
    "'u impls \<Rightarrow> 'u world \<Rightarrow> 'u agent \<Rightarrow> 'u world \<times> 'u agent \<times> unit result" where
  "agent_configs_changed I w a = i_configs_changed (I (a_impl a)) w a"

definition agent_update_spec ::
    "host \<Rightarrow> 'u impls \<Rightarrow> json \<Rightarrow> 'u world \<Rightarrow> 'u agent \<Rightarrow> 'u world \<times> 'u agent \<times> unit result" where
  "agent_update_spec H I j w a =
    (case spec_update H j (a_spec a) of
      (s, Inl e) \<Rightarrow> (w, a\<lparr>a_spec := s\<rparr>, Inl e)
    | (s, Inr _) \<Rightarrow>
        if json_get j ''configs'' \<noteq> None then agent_configs_changed I w (a\<lparr>a_spec := s\<rparr>)
        else (w, a\<lparr>a_spec := s\<rparr>, Inr ()))"

definition agent_set_config :: "'u impls \<Rightarrow> string \<Rightarrow> agent_value \<Rightarrow> 'u world \<Rightarrow> 'u agent \<Rightarrow>
    'u world \<times> 'u agent \<times> unit result" where
  "agent_set_config I k v w a =
    (case s_configs (a_spec a) of
      None \<Rightarrow> (w, a, Inr ())
    | Some c \<Rightarrow>
        agent_configs_changed I w (a\<lparr>a_spec := (a_spec a)\<lparr>s_configs := Some (configs_set k v c)\<rparr>\<rparr>))"

definition agent_set_configs :: "'u impls \<Rightarrow> agent_configs \<Rightarrow> 'u world \<Rightarrow> 'u agent \<Rightarrow>
    'u world \<times> 'u agent \<times> unit result" where
  "agent_set_configs I c w a =
    agent_configs_changed I w (a\<lparr>a_spec := (a_spec a)\<lparr>s_configs := Some c\<rparr>\<rparr>)"

definition agent_start :: "'u impls \<Rightarrow> 'u world \<Rightarrow> 'u agent \<Rightarrow> 'u world \<times> 'u agent \<times> unit result" where
  "agent_start I w a =
    (case i_start (I (a_impl a)) w (a\<lparr>a_status := Start\<rparr>) of
      (w', a', Inl e) \<Rightarrow> (notify None (AgentErrorEvent (a_id a') (error_text e)) w', a', Inl e)
    | (w', a', Inr _) \<Rightarrow> (w', a', Inr ()))"

definition agent_stop :: "'u impls \<Rightarrow> 'u world \<Rightarrow> 'u agent \<Rightarrow> 'u world \<times> 'u agent \<times> unit result" where
  "agent_stop I w a =
    (case i_stop (I (a_impl a)) w (a\<lparr>a_status := Stop\<rparr>) of
      (w', a', Inl e) \<Rightarrow> (w', a', Inl e)
    | (w', a', Inr _) \<Rightarrow> (w', a'\<lparr>a_status := Init\<rparr>, Inr ()))"

definition agent_process :: "'u impls \<Rightarrow> agent_context \<Rightarrow> string \<Rightarrow> agent_value \<Rightarrow> 'u world \<Rightarrow>
    'u agent \<Rightarrow> 'u world \<times> 'u agent \<times> unit result" where
  "agent_process I ctx port v w a =
    (case i_process (I (a_impl a)) w a ctx port v of
      (w', a', Inl e) \<Rightarrow>
        (fst (send_agent_out (a_id a') ctx ''err'' (Error e)
          (notify None (AgentErrorEvent (a_id a') (error_text e)) w')), a', Inl e)
    | (w', a', Inr _) \<Rightarrow> (w', a', Inr ()))"

text \<open>\<open>agent_new\<close>: look the definition up, reconcile the specification, build the agent.\<close>

definition agent_new ::
    "'u impls \<Rightarrow> string \<Rightarrow> agent_spec \<Rightarrow> 'u world \<Rightarrow> 'u world \<times> 'u agent result" where
  "agent_new I i s w =
    (case map_of (w_defs w) (s_def_name s) of
      None \<Rightarrow> (w, Inl (UnknownDefName (s_def_name s)))
    | Some d \<Rightarrow>
        (case d_new_boxed d of
          None \<Rightarrow> (w, Inl (UnknownDefKind (d_kind d)))
        | Some impl \<Rightarrow>
            (case i_new (I impl) w i (reconcile_spec d s) of
              (w', Inl e) \<Rightarrow> (w', Inl e)
            | (w', Inr a) \<Rightarrow> (w', Inr (a\<lparr>a_status := Init\<rparr>)))))"

text \<open>An operation on the agent behind a handle, under its lock.\<close>

definition with_obj :: "nat \<Rightarrow> ('u world \<Rightarrow> 'u agent \<Rightarrow> 'u world \<times> 'u agent \<times> 'r) \<Rightarrow> 'u world \<Rightarrow>
    'u world \<times> 'r" where
  "with_obj h f w =
    (let (w', a', r) = f w (w_objs w ! h) in (w'\<lparr>w_objs := (w_objs w')[h := a']\<rparr>, r))"

section \<open>The contract of the agents\<close>

text \<open>\<open>core_of\<close> is what the orchestrator owns: the tables and stores only its own operations
  edit. A callback may register channels, send to the main channel, emit events and create
  contexts.\<close>

definition core_of :: "'u world \<Rightarrow> _" where
  "core_of w =
    (w_ids w, w_objs w, w_agents w, w_chans w, w_agent_txs w, w_connections w, w_defs w,
     w_preset_objs w, w_presets w, w_preset_names w, w_tokens w, w_preset_tokens w,
     w_agent_tokens w, w_loops w)"

definition ident_of :: "'u agent \<Rightarrow> _" where
  "ident_of a = (a_id a, a_impl a, a_preset_id a, a_status a)"

text \<open>The promise of an implementation: its constructor keeps the id it is given
  (\<open>AgentData::new\<close>), its callbacks leave the core of the orchestrator alone and keep the
  identity and the status of the agent, which the trait \<open>Agent\<close> manages.\<close>

locale agent_contract =
  fixes I :: "'u impls"
  assumes new_core: "i_new (I n) w i s = (w', x) \<Longrightarrow> core_of w' = core_of w"
    and new_ident: "i_new (I n) w i s = (w', Inr a) \<Longrightarrow> a_id a = i \<and> s_id (a_spec a) = s_id s"
    and changed_core: "i_configs_changed (I n) w a = (w', a', r) \<Longrightarrow>
      core_of w' = core_of w \<and> ident_of a' = ident_of a"
    and start_core: "i_start (I n) w a = (w', a', r) \<Longrightarrow>
      core_of w' = core_of w \<and> ident_of a' = ident_of a"
    and stop_core: "i_stop (I n) w a = (w', a', r) \<Longrightarrow>
      core_of w' = core_of w \<and> ident_of a' = ident_of a"
    and process_core: "i_process (I n) w a ctx port v = (w', a', r) \<Longrightarrow>
      core_of w' = core_of w \<and> ident_of a' = ident_of a"

lemma core_of_eq: "core_of w' = core_of w \<longleftrightarrow>
    w_ids w' = w_ids w \<and> w_objs w' = w_objs w \<and> w_agents w' = w_agents w \<and>
    w_chans w' = w_chans w \<and> w_agent_txs w' = w_agent_txs w \<and>
    w_connections w' = w_connections w \<and> w_defs w' = w_defs w \<and>
    w_preset_objs w' = w_preset_objs w \<and> w_presets w' = w_presets w \<and>
    w_preset_names w' = w_preset_names w \<and> w_tokens w' = w_tokens w \<and>
    w_preset_tokens w' = w_preset_tokens w \<and> w_agent_tokens w' = w_agent_tokens w \<and>
    w_loops w' = w_loops w"
  by (simp add: core_of_def)

lemma core_notify [simp]: "core_of (notify org e w) = core_of w"
  by (simp add: core_of_def notify_def)

lemma core_main_send [simp]: "core_of (fst (main_send what m w)) = core_of w"
  by (simp add: core_of_def main_send_def split: option.splits)

lemma core_send_agent_out [simp]: "core_of (fst (send_agent_out i ctx port v w)) = core_of w"
  by (simp add: send_agent_out_def)

lemma core_send_external_output [simp]: "core_of (fst (send_external_output n ctx v w)) = core_of w"
  by (simp add: send_external_output_def)

text \<open>An operation under the lock of an agent changes the store of agents at most at that
  agent.\<close>

definition obj_frame :: "nat \<Rightarrow> 'u world \<Rightarrow> 'u world \<Rightarrow> bool" where
  "obj_frame h w w' \<longleftrightarrow> core_of (w'\<lparr>w_objs := w_objs w\<rparr>) = core_of w \<and>
    (\<exists>a. w_objs w' = (w_objs w)[h := a] \<and> a_id a = a_id (w_objs w ! h) \<and>
      a_preset_id a = a_preset_id (w_objs w ! h))"

lemma with_obj_frame:
  assumes "\<And>w' a' r. f w (w_objs w ! h) = (w', a', r) \<Longrightarrow>
    core_of w' = core_of w \<and> a_id a' = a_id (w_objs w ! h) \<and> a_preset_id a' = a_preset_id (w_objs w ! h)"
  shows "obj_frame h w (fst (with_obj h f w))"
proof -
  obtain w' a' r where f: "f w (w_objs w ! h) = (w', a', r)"
    by (cases "f w (w_objs w ! h)")
  then show ?thesis
    using assms [OF f] by (auto simp: obj_frame_def with_obj_def core_of_eq)
qed

context agent_contract
begin

lemma configs_changed_frame:
  "agent_configs_changed I w a = (w', a', r) \<Longrightarrow> core_of w' = core_of w \<and> ident_of a' = ident_of a"
  unfolding agent_configs_changed_def by (rule changed_core)

lemma set_config_frame:
  "agent_set_config I k v w a = (w', a', r) \<Longrightarrow> core_of w' = core_of w \<and> ident_of a' = ident_of a"
  by (auto simp: agent_set_config_def ident_of_def split: option.splits dest!: configs_changed_frame)

lemma set_configs_frame:
  "agent_set_configs I c w a = (w', a', r) \<Longrightarrow> core_of w' = core_of w \<and> ident_of a' = ident_of a"
  by (auto simp: agent_set_configs_def ident_of_def dest!: configs_changed_frame)

lemma agent_start_frame:
  "agent_start I w a = (w', a', r) \<Longrightarrow>
    core_of w' = core_of w \<and> a_id a' = a_id a \<and> a_preset_id a' = a_preset_id a \<and> a_status a' = Start"
  by (auto simp: agent_start_def ident_of_def split: prod.splits sum.splits dest!: start_core)

lemma agent_stop_frame:
  "agent_stop I w a = (w', a', r) \<Longrightarrow>
    core_of w' = core_of w \<and> a_id a' = a_id a \<and> a_preset_id a' = a_preset_id a \<and>
    a_status a' = (if is_ok r then Init else Stop)"
  by (auto simp: agent_stop_def ident_of_def split: prod.splits sum.splits dest!: stop_core)

lemma agent_process_frame:
  "agent_process I ctx port v w a = (w', a', r) \<Longrightarrow> core_of w' = core_of w \<and> ident_of a' = ident_of a"
  by (auto simp: agent_process_def split: prod.splits sum.splits dest!: process_core)

lemma agent_new_frame: "agent_new I i s w = (w', r) \<Longrightarrow> core_of w' = core_of w"
  by (auto simp: agent_new_def split: option.splits prod.splits sum.splits dest!: new_core)

lemma agent_new_ident: "agent_new I i s w = (w', Inr a) \<Longrightarrow> a_id a = i \<and> s_id (a_spec a) = s_id s"
  by (auto simp: agent_new_def reconcile_spec_def split: option.splits prod.splits sum.splits
      dest!: new_ident)

lemma with_stop_frame: "obj_frame h w (fst (with_obj h (agent_stop I) w))"
  by (rule with_obj_frame) (use agent_stop_frame in blast)

lemma with_set_config_frame: "obj_frame h w (fst (with_obj h (agent_set_config I k v) w))"
  by (rule with_obj_frame) (use set_config_frame in \<open>fastforce simp: ident_of_def\<close>)

end

end
