(* ===== verification/Lifecycle.thy ===== *)
theory Lifecycle
  imports World
begin

text \<open>
  The life of an agent (modular_agent.rs): the cancellation-token tables, \<open>start_agent\<close>,
  the event loop it spawns, \<open>stop_agent\<close>, and the delivery of inputs and configurations.

  A spawned loop is a record in \<open>w_loops\<close>; \<open>loop_step\<close> is one turn of it (the start race, or
  the receipt and handling of one message). The selects on the loop's token are biased, so
  a turn first looks at the token; dropping a \<open>process\<close> future that is already under way is
  not modelled. A context token is alive as long as some context holds it, which the model
  does not track: the predicate \<open>live\<close> says which ones are.
\<close>

section \<open>Token tables\<close>

definition preset_token :: "string \<Rightarrow> 'u world \<Rightarrow> 'u world \<times> nat" where
  "preset_token p w =
    (case map_of (w_preset_tokens w) p of
      Some t \<Rightarrow> (w, t)
    | None \<Rightarrow>
        (let (ts, t) = new_token (w_tokens w)
         in (w\<lparr>w_tokens := ts, w_preset_tokens := im_insert p t (w_preset_tokens w)\<rparr>, t)))"

definition reset_preset_token :: "string \<Rightarrow> 'u world \<Rightarrow> 'u world" where
  "reset_preset_token p w =
    (let (ts, t) = new_token (w_tokens w)
     in w\<lparr>w_tokens := ts, w_preset_tokens := im_insert p t (w_preset_tokens w)\<rparr>)"

definition cancel_preset_token :: "string \<Rightarrow> 'u world \<Rightarrow> 'u world" where
  "cancel_preset_token p w =
    (case map_of (w_preset_tokens w) p of
      None \<Rightarrow> w
    | Some t \<Rightarrow> w\<lparr>w_tokens := cancel (w_tokens w) t\<rparr>)"

definition remove_preset_token :: "string \<Rightarrow> 'u world \<Rightarrow> 'u world" where
  "remove_preset_token p w = w\<lparr>w_preset_tokens := im_swap_remove p (w_preset_tokens w)\<rparr>"

definition create_agent_token :: "string \<Rightarrow> string \<Rightarrow> 'u world \<Rightarrow> 'u world \<times> u64 \<times> nat" where
  "create_agent_token p i w =
    (let g = w_generation w;
         (w1, parent) = preset_token p (w\<lparr>w_generation := g + 1\<rparr>);
         (ts, t) = child_token (w_tokens w1) parent
     in (w1\<lparr>w_tokens := ts, w_agent_tokens := im_insert i (g, t) (w_agent_tokens w1)\<rparr>, g, t))"

text \<open>The fresh child is created before the slot is examined; when the slot is not the
  caller's, the child stays in the store and nobody holds it.\<close>

definition renew_agent_token ::
    "string \<Rightarrow> string \<Rightarrow> u64 \<Rightarrow> 'u world \<Rightarrow> 'u world \<times> nat option" where
  "renew_agent_token p i g w =
    (case map_of (w_preset_tokens w) p of
      None \<Rightarrow> (w, None)
    | Some parent \<Rightarrow>
        (let (ts, fresh) = child_token (w_tokens w) parent; w1 = w\<lparr>w_tokens := ts\<rparr>
         in case map_of (w_agent_tokens w1) i of
              None \<Rightarrow> (w1, None)
            | Some (g', t') \<Rightarrow>
                if g' \<noteq> g then (w1, None)
                else (w1\<lparr>w_agent_tokens := im_insert i (g', fresh) (w_agent_tokens w1)\<rparr>, Some fresh)))"

definition upgrade :: "(nat \<Rightarrow> bool) \<Rightarrow> nat option \<Rightarrow> nat option" where
  "upgrade live x = (case x of None \<Rightarrow> None | Some t \<Rightarrow> if live t then Some t else None)"

definition context_token :: "(nat \<Rightarrow> bool) \<Rightarrow> usize \<Rightarrow> 'u world \<Rightarrow> 'u world \<times> nat" where
  "context_token live c w =
    (case upgrade live (map_of (w_context_tokens w) c) of
      Some t \<Rightarrow> (w, t)
    | None \<Rightarrow>
        (let m = (if CONTEXT_TOKEN_PRUNE_THRESHOLD \<le> length (w_context_tokens w)
                  then im_retain (\<lambda>k t. live t) (w_context_tokens w) else w_context_tokens w);
             (ts, t) = new_token (w_tokens w)
         in (w\<lparr>w_tokens := ts, w_context_tokens := im_insert c t m\<rparr>, t)))"

definition abort_context :: "(nat \<Rightarrow> bool) \<Rightarrow> usize \<Rightarrow> 'u world \<Rightarrow> 'u world \<times> bool" where
  "abort_context live c w =
    (case upgrade live (map_of (w_context_tokens w) c) of
      Some t \<Rightarrow> (w\<lparr>w_tokens := cancel (w_tokens w) t\<rparr>, True)
    | None \<Rightarrow> (w, False))"

section \<open>Starting and stopping\<close>

definition spawn_loop :: "agent_loop \<Rightarrow> 'u world \<Rightarrow> 'u world" where
  "spawn_loop l w = w\<lparr>w_loops := w_loops w @ [l]\<rparr>"

definition start_agent :: "string \<Rightarrow> 'u world \<Rightarrow> 'u world \<times> unit result" where
  "start_agent i w =
    (case map_of (w_agents w) i of
      None \<Rightarrow> (w, Inl (AgentNotFound i))
    | Some h \<Rightarrow>
        (let a = w_objs w ! h in
         case map_of (w_defs w) (s_def_name (a_spec a)) of
           None \<Rightarrow> (w, Inl (AgentDefinitionNotFound i))
         | Some d \<Rightarrow>
             if a_status a = Init then
               (let ch = length (w_chans w);
                    w1 = w\<lparr>w_chans := w_chans w @ [chan_new],
                           w_agent_txs := im_insert i ch (w_agent_txs w)\<rparr>;
                    (w2, g, t) = create_agent_token (a_preset_id a) i w1
                in (spawn_loop \<lparr>lp_agent_id = i, lp_obj = h, lp_chan = ch,
                      lp_preset_id = a_preset_id a, lp_generation = g, lp_token = t,
                      lp_phase = Starting\<rparr> w2, Inr ()))
             else (w, Inr ())))"

definition send_stop :: "string \<Rightarrow> 'u world \<Rightarrow> 'u world" where
  "send_stop i w =
    (case map_of (w_agent_txs w) i of
      None \<Rightarrow> w
    | Some ch \<Rightarrow>
        (let w1 = w\<lparr>w_agent_txs := im_swap_remove i (w_agent_txs w)\<rparr>
         in case chan_try_send MESSAGE_LIMIT StopMsg (w_chans w ! ch) of
              None \<Rightarrow> w1
            | Some c \<Rightarrow> w1\<lparr>w_chans := (w_chans w)[ch := c]\<rparr>))"

definition cancel_agent_token :: "string \<Rightarrow> 'u world \<Rightarrow> 'u world" where
  "cancel_agent_token i w =
    (case map_of (w_agent_tokens w) i of
      None \<Rightarrow> w
    | Some (g, t) \<Rightarrow>
        w\<lparr>w_agent_tokens := im_swap_remove i (w_agent_tokens w), w_tokens := cancel (w_tokens w) t\<rparr>)"

definition stop_agent :: "'u impls \<Rightarrow> string \<Rightarrow> 'u world \<Rightarrow> 'u world \<times> unit result" where
  "stop_agent I i w =
    (let w1 = cancel_agent_token i (send_stop i w) in
     case map_of (w_agents w1) i of
       None \<Rightarrow> (w1, Inl (AgentNotFound i))
     | Some h \<Rightarrow>
         if a_status (w_objs w1 ! h) = Start then with_obj h (agent_stop I) w1
         else (w1, Inr ()))"

section \<open>The loop of an agent\<close>

definition set_loop :: "nat \<Rightarrow> agent_loop \<Rightarrow> 'u world \<Rightarrow> 'u world" where
  "set_loop n l w = w\<lparr>w_loops := (w_loops w)[n := l]\<rparr>"

definition set_chan :: "nat \<Rightarrow> agent_message chan \<Rightarrow> 'u world \<Rightarrow> 'u world" where
  "set_chan n c w = w\<lparr>w_chans := (w_chans w)[n := c]\<rparr>"

text \<open>The loop ends: its receiver is dropped.\<close>

definition finish_loop :: "nat \<Rightarrow> 'u world \<Rightarrow> 'u world" where
  "finish_loop n w =
    (let l = w_loops w ! n
     in set_loop n (l\<lparr>lp_phase := Finished\<rparr>)
          (set_chan (lp_chan l) ((w_chans w ! lp_chan l)\<lparr>ch_closed := True\<rparr>) w))"

definition loop_start :: "'u impls \<Rightarrow> nat \<Rightarrow> 'u world \<Rightarrow> 'u world" where
  "loop_start I n w =
    (let l = w_loops w ! n in
     if cancelled (w_tokens w) (lp_token l) then finish_loop n w
     else case with_obj (lp_obj l) (agent_start I) w of
         (w1, Inl e) \<Rightarrow> finish_loop n w1
       | (w1, Inr _) \<Rightarrow> set_loop n (l\<lparr>lp_phase := Running\<rparr>) w1)"

definition attach_token :: "(nat \<Rightarrow> bool) \<Rightarrow> agent_context \<Rightarrow> 'u world \<Rightarrow> 'u world \<times> agent_context" where
  "attach_token live ctx w =
    (case ctx_cancel ctx of
      Some t \<Rightarrow> (w, ctx)
    | None \<Rightarrow> (let (w1, t) = context_token live (ctx_id ctx) w in (w1, ctx_with_cancel_token t ctx)))"

definition loop_input :: "'u impls \<Rightarrow> (nat \<Rightarrow> bool) \<Rightarrow> nat \<Rightarrow> agent_context \<Rightarrow> string \<Rightarrow>
    agent_value \<Rightarrow> 'u world \<Rightarrow> 'u world" where
  "loop_input I live n ctx port v w =
    (let l = w_loops w ! n; (w1, ctx1) = attach_token live ctx w in
     if cancelled (w_tokens w1) (lp_token l) then
       (case renew_agent_token (lp_preset_id l) (lp_agent_id l) (lp_generation l) w1 of
          (w2, None) \<Rightarrow> w2
        | (w2, Some fresh) \<Rightarrow> set_loop n (l\<lparr>lp_token := fresh\<rparr>) w2)
     else fst (with_obj (lp_obj l) (agent_process I ctx1 port v) w1))"

definition loop_message ::
    "'u impls \<Rightarrow> (nat \<Rightarrow> bool) \<Rightarrow> nat \<Rightarrow> agent_message \<Rightarrow> 'u world \<Rightarrow> 'u world" where
  "loop_message I live n m w =
    (case m of
      Input ctx port v \<Rightarrow> loop_input I live n ctx port v w
    | ConfigMsg k v \<Rightarrow> fst (with_obj (lp_obj (w_loops w ! n)) (agent_set_config I k v) w)
    | ConfigsMsg c \<Rightarrow> fst (with_obj (lp_obj (w_loops w ! n)) (agent_set_configs I c) w)
    | StopMsg \<Rightarrow> finish_loop n w)"

definition has_sender :: "nat \<Rightarrow> 'u world \<Rightarrow> bool" where
  "has_sender ch w \<longleftrightarrow> ch \<in> set (map snd (w_agent_txs w))"

text \<open>One turn of the loop; \<open>None\<close> when it is waiting for a message or has ended.\<close>

definition loop_step :: "'u impls \<Rightarrow> (nat \<Rightarrow> bool) \<Rightarrow> nat \<Rightarrow> 'u world \<Rightarrow> 'u world option" where
  "loop_step I live n w =
    (let l = w_loops w ! n; c = w_chans w ! lp_chan l in
     case lp_phase l of
       Starting \<Rightarrow> Some (loop_start I n w)
     | Running \<Rightarrow>
         (case ch_queue c of
           m # q \<Rightarrow> Some (loop_message I live n m (set_chan (lp_chan l) (c\<lparr>ch_queue := q\<rparr>) w))
         | [] \<Rightarrow> if has_sender (lp_chan l) w then None else Some (finish_loop n w))
     | Finished \<Rightarrow> None)"

section \<open>Inputs and configurations\<close>

definition agent_send :: "nat \<Rightarrow> agent_message \<Rightarrow> string \<Rightarrow> 'u world \<Rightarrow> 'u world \<times> unit result" where
  "agent_send ch m what w =
    (case chan_send m (w_chans w ! ch) of
      None \<Rightarrow> (w, Inl (SendMessageFailed (''Failed to send '' @ what @ '' message'')))
    | Some c \<Rightarrow> (set_chan ch c w, Inr ()))"

definition input_message :: "agent_context \<Rightarrow> string \<Rightarrow> agent_value \<Rightarrow> agent_message" where
  "input_message ctx port v =
    (case strip_prefix ''config:'' port of
      Some k \<Rightarrow> ConfigMsg k v
    | None \<Rightarrow> Input ctx port v)"

definition agent_input :: "'u impls \<Rightarrow> string option \<Rightarrow> string \<Rightarrow> agent_context \<Rightarrow> string \<Rightarrow>
    agent_value \<Rightarrow> 'u world \<Rightarrow> 'u world \<times> unit result" where
  "agent_input I org i ctx port v w =
    (case map_of (w_agent_txs w) i of
      None \<Rightarrow>
        (case map_of (w_agents w) i of
          None \<Rightarrow> (w, Inl (AgentNotFound i))
        | Some h \<Rightarrow>
            (case input_message ctx port v of
              ConfigMsg k x \<Rightarrow> with_obj h (agent_set_config I k x) w
            | _ \<Rightarrow> (w, Inr ())))
    | Some ch \<Rightarrow>
        (case agent_send ch (input_message ctx port v) ''input'' w of
          (w1, Inl e) \<Rightarrow> (w1, Inl e)
        | (w1, Inr _) \<Rightarrow> (notify org (AgentIn i port) w1, Inr ())))"

definition set_agent_configs :: "'u impls \<Rightarrow> string option \<Rightarrow> string \<Rightarrow> agent_configs \<Rightarrow>
    'u world \<Rightarrow> 'u world \<times> unit result" where
  "set_agent_configs I org i c w =
    (case map_of (w_agent_txs w) i of
      None \<Rightarrow>
        (case map_of (w_agents w) i of
          None \<Rightarrow> (w, Inl (AgentNotFound i))
        | Some h \<Rightarrow>
            (case with_obj h (agent_set_configs I c) w of
              (w1, Inl e) \<Rightarrow> (w1, Inl e)
            | (w1, Inr _) \<Rightarrow> (emit_configs_updated org i c w1, Inr ())))
    | Some ch \<Rightarrow>
        (case agent_send ch (ConfigsMsg c) ''config'' w of
          (w1, Inl e) \<Rightarrow> (w1, Inl e)
        | (w1, Inr _) \<Rightarrow> (emit_configs_updated org i c w1, Inr ())))"

definition get_agent_spec :: "string \<Rightarrow> 'u world \<Rightarrow> agent_spec option" where
  "get_agent_spec i w = map_option (\<lambda>h. a_spec (w_objs w ! h)) (map_of (w_agents w) i)"

definition is_structural :: "json \<Rightarrow> bool" where
  "is_structural j = (case j of JObject m \<Rightarrow> list_ex (\<lambda>kv. fst kv \<noteq> ''configs'') m | _ \<Rightarrow> False)"

definition update_agent_spec :: "host \<Rightarrow> 'u impls \<Rightarrow> string option \<Rightarrow> string \<Rightarrow> json \<Rightarrow> 'u world \<Rightarrow>
    'u world \<times> unit result" where
  "update_agent_spec H I org i j w =
    (case map_of (w_agents w) i of
      None \<Rightarrow> (w, Inl (AgentNotFound i))
    | Some h \<Rightarrow>
        (let (w1, r) = with_obj h (agent_update_spec H I j) w;
             p = a_preset_id (w_objs w1 ! h);
             w2 = notify org (AgentSpecUpdated i) w1
         in (if is_structural j then notify org (PresetStructureChanged p) w2 else w2, r)))"

section \<open>Global configurations\<close>

definition get_global_configs :: "string \<Rightarrow> 'u world \<Rightarrow> agent_configs option" where
  "get_global_configs d w = map_of (w_global_configs_map w) d"

definition set_global_configs :: "string \<Rightarrow> agent_configs \<Rightarrow> 'u world \<Rightarrow> 'u world" where
  "set_global_configs d c w =
    w\<lparr>w_global_configs_map := im_insert d
      (case map_of (w_global_configs_map w) d of
        None \<Rightarrow> c
      | Some old \<Rightarrow> fold (\<lambda>(k, v). configs_set k v) c old) (w_global_configs_map w)\<rparr>"

definition set_global_configs_map :: "(string, agent_configs) index_map \<Rightarrow> 'u world \<Rightarrow> 'u world" where
  "set_global_configs_map m w = fold (\<lambda>(d, c). set_global_configs d c) m w"

definition register_agent_definition :: "agent_definition \<Rightarrow> 'u world \<Rightarrow> 'u world" where
  "register_agent_definition d w =
    (let w1 = w\<lparr>w_defs := im_insert (d_name d) d (w_defs w)\<rparr> in
     case d_global_configs d of
       None \<Rightarrow> w1
     | Some g \<Rightarrow>
         set_global_configs (d_name d)
           (fold (\<lambda>(k, e). configs_set k (cs_value e)) g configs_new) w1)"

end
