(* ===== verification/Connections.thy ===== *)
theory Connections
  imports Lifecycle
begin

text \<open>
  The routing table of modular_agent.rs: from a source agent to the list of its targets
  (target agent, source port, target port) in the order they were added. \<open>conns_wf\<close> is its
  invariant: one entry per source, no empty list, no connection twice. The lemmas give the
  edges of the table after every operation, so that the table is a set of edges for the
  rest of the development.
\<close>

type_synonym connection_table = "(string, connection_target list) index_map"

definition conn_target :: "connection_spec \<Rightarrow> connection_target" where
  "conn_target c = (c_target c, c_source_handle c, c_target_handle c)"

definition conn_add :: "connection_spec \<Rightarrow> connection_table \<Rightarrow> connection_table result" where
  "conn_add c m =
    (case map_of m (c_source c) of
      Some ts \<Rightarrow>
        if list_ex (\<lambda>(t, sh, th). t = c_target c \<and> sh = c_source_handle c \<and> th = c_target_handle c) ts
        then Inl ConnectionAlreadyExists
        else Inr (im_insert (c_source c) (ts @ [conn_target c]) m)
    | None \<Rightarrow> Inr (im_insert (c_source c) [conn_target c] m))"

definition conn_remove :: "connection_spec \<Rightarrow> connection_table \<Rightarrow> connection_table" where
  "conn_remove c m =
    (case map_of m (c_source c) of
      None \<Rightarrow> m
    | Some ts \<Rightarrow>
        (let ts' = filter (\<lambda>(t, sh, th). t \<noteq> c_target c \<or> sh \<noteq> c_source_handle c \<or> th \<noteq> c_target_handle c) ts;
             m' = im_insert (c_source c) ts' m
         in if ts' = [] then im_swap_remove (c_source c) m' else m'))"

definition conn_remove_agent :: "string \<Rightarrow> connection_table \<Rightarrow> connection_table" where
  "conn_remove_agent i m =
    (let m1 = map (\<lambda>(s, ts). (s, filter (\<lambda>(t, sh, th). t \<noteq> i) ts)) m;
         empty = map fst (filter (\<lambda>(s, ts). ts = []) m1)
     in im_swap_remove i (fold im_swap_remove empty m1))"

definition has_connections :: "string \<Rightarrow> string \<Rightarrow> 'u world \<Rightarrow> bool" where
  "has_connections i port w =
    (case map_of (w_connections w) i of
      None \<Rightarrow> False
    | Some ts \<Rightarrow> list_ex (\<lambda>(t, sp, th). sp = port) ts)"

definition add_connection_internal :: "connection_spec \<Rightarrow> 'u world \<Rightarrow> 'u world \<times> unit result" where
  "add_connection_internal c w =
    (case conn_add c (w_connections w) of
      Inl e \<Rightarrow> (w, Inl e)
    | Inr m \<Rightarrow> (w\<lparr>w_connections := m\<rparr>, Inr ()))"

definition remove_connection_internal :: "connection_spec \<Rightarrow> 'u world \<Rightarrow> 'u world" where
  "remove_connection_internal c w = w\<lparr>w_connections := conn_remove c (w_connections w)\<rparr>"

section \<open>Edges\<close>

definition edges :: "connection_table \<Rightarrow> connection_spec set" where
  "edges m = {c. \<exists>ts. map_of m (c_source c) = Some ts \<and> conn_target c \<in> set ts}"

definition conns_wf :: "connection_table \<Rightarrow> bool" where
  "conns_wf m \<longleftrightarrow> distinct (keys_of m) \<and> (\<forall>(s, ts) \<in> set m. ts \<noteq> [] \<and> distinct ts)"

lemma conn_target_eq_iff:
  "conn_target c = (t, sh, th) \<longleftrightarrow> t = c_target c \<and> sh = c_source_handle c \<and> th = c_target_handle c"
  by (auto simp: conn_target_def)

lemma connection_eqI: "c_source c = c_source d \<Longrightarrow> conn_target c = conn_target d \<Longrightarrow> c = (d :: connection_spec)"
  by (cases c; cases d) (simp add: conn_target_def)

lemma conns_wf_lookup: "conns_wf m \<longleftrightarrow>
    distinct (keys_of m) \<and> (\<forall>s ts. map_of m s = Some ts \<longrightarrow> ts \<noteq> [] \<and> distinct ts)"
  by (auto simp: conns_wf_def) blast

lemma conn_add_eq: "conn_add c m =
    (case map_of m (c_source c) of
      Some ts \<Rightarrow>
        if conn_target c \<in> set ts then Inl ConnectionAlreadyExists
        else Inr (im_insert (c_source c) (ts @ [conn_target c]) m)
    | None \<Rightarrow> Inr (im_insert (c_source c) [conn_target c] m))"
proof -
  have "list_ex (\<lambda>(t, sh, th). t = c_target c \<and> sh = c_source_handle c \<and> th = c_target_handle c) ts
      \<longleftrightarrow> conn_target c \<in> set ts" for ts
    by (auto simp: list_ex_iff conn_target_def)
  then show ?thesis by (simp add: conn_add_def cong: option.case_cong)
qed

lemma conn_remove_eq: "conn_remove c m =
    (case map_of m (c_source c) of
      None \<Rightarrow> m
    | Some ts \<Rightarrow>
        (let ts' = filter (\<lambda>x. x \<noteq> conn_target c) ts; m' = im_insert (c_source c) ts' m
         in if ts' = [] then im_swap_remove (c_source c) m' else m'))"
proof -
  have "filter (\<lambda>(t, sh, th). t \<noteq> c_target c \<or> sh \<noteq> c_source_handle c \<or> th \<noteq> c_target_handle c) ts
      = filter (\<lambda>x. x \<noteq> conn_target c) ts" for ts
    by (intro filter_cong) (auto simp: conn_target_def)
  then show ?thesis by (simp only: conn_remove_def)
qed

text \<open>Adding succeeds exactly for a new edge and adds it.\<close>

lemma conn_add_ok_iff: "is_ok (conn_add c m) \<longleftrightarrow> c \<notin> edges m"
  by (auto simp: conn_add_eq edges_def split: option.splits)

lemma conn_add_error: "conn_add c m = Inl e \<Longrightarrow> e = ConnectionAlreadyExists"
  by (auto simp: conn_add_eq split: option.splits if_splits)

lemma conn_add_edges: "conn_add c m = Inr m' \<Longrightarrow> edges m' = insert c (edges m)"
  by (auto simp: conn_add_eq edges_def split: option.splits if_splits) (metis connection_eqI)+

lemma conn_add_wf: "conns_wf m \<Longrightarrow> conn_add c m = Inr m' \<Longrightarrow> conns_wf m'"
  by (auto simp: conn_add_eq conns_wf_lookup simp del: map_of_eq_Some_iff
      split: option.splits if_splits) blast+

lemma conn_remove_lookup:
  assumes "conns_wf m"
  shows "map_of (conn_remove c m) s =
    (if s = c_source c then
       (case map_of m s of
          None \<Rightarrow> None
        | Some ts \<Rightarrow> (let ts' = filter (\<lambda>x. x \<noteq> conn_target c) ts in if ts' = [] then None else Some ts'))
     else map_of m s)"
proof -
  have "distinct (keys_of m)" using assms by (simp add: conns_wf_def)
  then show ?thesis
    by (auto simp: conn_remove_eq Let_def simp del: map_of_eq_Some_iff split: option.splits)
qed

lemma conn_remove_wf: "conns_wf m \<Longrightarrow> conns_wf (conn_remove c m)"
proof -
  assume wf: "conns_wf m"
  then have "distinct (keys_of (conn_remove c m))"
    by (auto simp: conn_remove_eq Let_def conns_wf_def split: option.splits)
  then show ?thesis
    using wf by (auto simp: conns_wf_lookup conn_remove_lookup [OF wf] Let_def
        simp del: map_of_eq_Some_iff split: option.splits if_splits)
qed

lemma conn_remove_edges: "conns_wf m \<Longrightarrow> edges (conn_remove c m) = edges m - {c}"
  by (auto simp: edges_def conn_remove_lookup Let_def filter_empty_conv split: option.splits if_splits
      intro: connection_eqI)

lemma conn_remove_agent_lookup:
  assumes "conns_wf m"
  shows "map_of (conn_remove_agent i m) s =
    (if s = i then None else
       (case map_of m s of
          None \<Rightarrow> None
        | Some ts \<Rightarrow> (let ts' = filter (\<lambda>x. fst x \<noteq> i) ts in if ts' = [] then None else Some ts')))"
proof -
  have f: "(\<lambda>(t :: string, sh :: string, th :: string). t \<noteq> i) = (\<lambda>x. fst x \<noteq> i)"
    by auto
  let ?f = "filter (\<lambda>x. fst x \<noteq> i) :: connection_target list \<Rightarrow> connection_target list"
  let ?m1 = "map (\<lambda>(s, ts). (s, ?f ts)) m"
  let ?e = "map fst (filter (\<lambda>(s, ts). ts = []) ?m1)"
  have d: "distinct (keys_of ?m1)"
    using assms by (simp add: conns_wf_def comp_def case_prod_beta)
  have look: "map_of ?m1 s = map_option ?f (map_of m s)"
    by (simp add: map_of_map)
  have mem: "s \<in> set ?e \<longleftrightarrow> map_of ?m1 s = Some []"
    using d by (force simp: image_iff)
  have "map_of (fold im_swap_remove ?e ?m1) s = (if s \<in> set ?e then None else map_of ?m1 s)"
    using swap.lookup_fold_rem [OF d] .
  moreover have "distinct (keys_of (fold im_swap_remove ?e ?m1))"
    using swap.wf_fold_rem [OF d] .
  ultimately show ?thesis
    unfolding conn_remove_agent_def Let_def f
    by (simp add: look mem del: set_map) (auto split: option.splits)
qed

lemma conn_remove_agent_wf: "conns_wf m \<Longrightarrow> conns_wf (conn_remove_agent i m)"
proof -
  assume wf: "conns_wf m"
  have "distinct (keys_of (map (\<lambda>(s, ts). (s, filter (\<lambda>(t, sh, th). t \<noteq> i) ts)) m))"
    using wf by (simp add: conns_wf_def comp_def case_prod_beta)
  then have "distinct (keys_of (conn_remove_agent i m))"
    unfolding conn_remove_agent_def Let_def by (intro distinct_im_swap_remove swap.wf_fold_rem)
  then show ?thesis
    using wf by (auto simp: conns_wf_lookup conn_remove_agent_lookup [OF wf] Let_def
        simp del: map_of_eq_Some_iff split: option.splits if_splits)
qed

lemma conn_remove_agent_edges:
  "conns_wf m \<Longrightarrow> edges (conn_remove_agent i m) = {c \<in> edges m. c_source c \<noteq> i \<and> c_target c \<noteq> i}"
  by (auto simp: edges_def conn_remove_agent_lookup Let_def filter_empty_conv conn_target_def
      split: option.splits if_splits) force

lemma filter_neq_absent: "x \<notin> set xs \<Longrightarrow> filter (\<lambda>y. y \<noteq> x) xs = xs"
  by (induction xs) auto

text \<open>Adding an edge and removing it restores every entry of the table.\<close>

lemma conn_add_remove:
  assumes wf: "conns_wf m" and add: "conn_add c m = Inr m'"
  shows "map_of (conn_remove c m') = map_of m"
proof
  fix s
  show "map_of (conn_remove c m') s = map_of m s"
    unfolding conn_remove_lookup [OF conn_add_wf [OF wf add]]
    using add wf by (auto simp: conn_add_eq conns_wf_lookup Let_def filter_neq_absent
        simp del: map_of_eq_Some_iff split: option.splits if_splits) (drule map_of_SomeD, simp)
qed

end
