(* ===== verification/Presets.thy ===== *)
theory Presets
  imports Connections
begin

text \<open>
  preset.rs and the graph editing of modular_agent.rs: presets and their names, adding and
  removing agents and connections with the rollback of a failed batch, starting and
  stopping a preset.

  The name index \<open>w_preset_names\<close> is the single source of truth for names. \<open>rename_preset\<close>
  holds no lock across its sections, so it is composed of four steps that a concurrent
  \<open>remove_preset\<close> may interleave with: look the preset up, reserve the name, re-check that
  the preset is alive (rolling the reservation back if not), commit.
\<close>

section \<open>One preset\<close>

definition preset_new :: "preset_spec \<Rightarrow> 'u world \<Rightarrow> 'u world \<times> preset" where
  "preset_new s w =
    (let (as, cs, n) = update_ids (w_ids w) (p_agents s) (p_connections s);
         (i, n') = new_id n
     in (w\<lparr>w_ids := n'\<rparr>,
         \<lparr>pr_id = i, pr_name = None, pr_running = False,
          pr_spec = s\<lparr>p_agents := as, p_connections := cs\<rparr>\<rparr>))"

definition update_extension :: "string \<times> json \<Rightarrow> preset_spec \<Rightarrow> preset_spec" where
  "update_extension kj s =
    (if fst kj = ''agents'' \<or> fst kj = ''connections'' then s
     else s\<lparr>p_extensions := im_insert (fst kj) (snd kj) (p_extensions s)\<rparr>)"

definition preset_update_spec :: "json \<Rightarrow> preset \<Rightarrow> preset \<times> unit result" where
  "preset_update_spec j p =
    (case j of
      JObject m \<Rightarrow> (p\<lparr>pr_spec := fold update_extension m (pr_spec p)\<rparr>, Inr ())
    | _ \<Rightarrow> (p, Inl (SerializationError ''Expected JSON object'')))"

definition update_preset_obj :: "nat \<Rightarrow> (preset \<Rightarrow> preset) \<Rightarrow> 'u world \<Rightarrow> 'u world" where
  "update_preset_obj h f w = w\<lparr>w_preset_objs := (w_preset_objs w)[h := f (w_preset_objs w ! h)]\<rparr>"

definition spec_of :: "nat \<Rightarrow> 'u world \<Rightarrow> preset_spec" where
  "spec_of h w = pr_spec (w_preset_objs w ! h)"

definition map_spec :: "(preset_spec \<Rightarrow> preset_spec) \<Rightarrow> preset \<Rightarrow> preset" where
  "map_spec f p = p\<lparr>pr_spec := f (pr_spec p)\<rparr>"

text \<open>The loops of \<open>Preset::start\<close> and \<open>Preset::stop\<close>; the errors of single agents are logged
  and dropped.\<close>

definition preset_start :: "nat \<Rightarrow> 'u world \<Rightarrow> 'u world" where
  "preset_start h w =
    (let p = w_preset_objs w ! h in
     if pr_running p then w
     else fold (\<lambda>a w. if s_disabled a then w else fst (start_agent (s_id a) w))
            (p_agents (pr_spec p))
            (reset_preset_token (pr_id p) (update_preset_obj h (\<lambda>p. p\<lparr>pr_running := True\<rparr>) w)))"

definition preset_stop :: "'u impls \<Rightarrow> nat \<Rightarrow> 'u world \<Rightarrow> 'u world" where
  "preset_stop I h w =
    (let p = w_preset_objs w ! h;
         w1 = cancel_preset_token (pr_id p) w;
         w2 = fold (\<lambda>a w. fst (stop_agent I (s_id a) w)) (p_agents (pr_spec p)) w1
     in update_preset_obj h (\<lambda>p. p\<lparr>pr_running := False\<rparr>) (remove_preset_token (pr_id p) w2))"

section \<open>Agents\<close>

definition add_agent_internal ::
    "'u impls \<Rightarrow> string \<Rightarrow> agent_spec \<Rightarrow> 'u world \<Rightarrow> 'u world \<times> agent_spec result" where
  "add_agent_internal I p s w =
    (if has_key (w_agents w) (s_id s) then (w, Inl (AgentAlreadyExists (s_id s)))
     else case agent_new I (s_id s) s w of
         (w1, Inl e) \<Rightarrow> (w1, Inl e)
       | (w1, Inr a) \<Rightarrow>
           (w1\<lparr>w_agents := im_insert (s_id s) (length (w_objs w1)) (w_agents w1),
               w_objs := w_objs w1 @ [a\<lparr>a_preset_id := p\<rparr>]\<rparr>, Inr (a_spec a)))"

definition remove_agent_internal :: "'u impls \<Rightarrow> string \<Rightarrow> 'u world \<Rightarrow> 'u world \<times> unit result" where
  "remove_agent_internal I i w =
    (case stop_agent I i w of
      (w1, Inl e) \<Rightarrow> (w1, Inl e)
    | (w1, Inr _) \<Rightarrow>
        (w1\<lparr>w_connections := conn_remove_agent i (w_connections w1),
            w_agents := im_swap_remove i (w_agents w1)\<rparr>, Inr ()))"

definition add_agent :: "'u impls \<Rightarrow> string option \<Rightarrow> string \<Rightarrow> agent_spec \<Rightarrow> 'u world \<Rightarrow>
    'u world \<times> string result" where
  "add_agent I org p s w =
    (case map_of (w_presets w) p of
      None \<Rightarrow> (w, Inl (PresetNotFound p))
    | Some h \<Rightarrow>
        (let (w1, i) = world_new_id w in
         case add_agent_internal I p (s\<lparr>s_id := i\<rparr>) w1 of
           (w2, Inl e) \<Rightarrow> (w2, Inl e)
         | (w2, Inr c) \<Rightarrow>
             (notify org (PresetStructureChanged p)
               (update_preset_obj h (map_spec (preset_add_agent c)) w2), Inr i)))"

fun is_agent_not_found :: "agent_error \<Rightarrow> bool" where
  "is_agent_not_found (AgentNotFound i) = True"
| "is_agent_not_found e = False"

definition remove_agent :: "'u impls \<Rightarrow> string option \<Rightarrow> string \<Rightarrow> string \<Rightarrow> 'u world \<Rightarrow>
    'u world \<times> unit result" where
  "remove_agent I org p i w =
    (case map_of (w_presets w) p of
      None \<Rightarrow> (w, Inl (PresetNotFound p))
    | Some h \<Rightarrow>
        (let (w1, r) = remove_agent_internal I i w in
         if (case r of Inl e \<Rightarrow> \<not> is_agent_not_found e | Inr _ \<Rightarrow> False) then (w1, r)
         else
           (let before = length (p_agents (spec_of h w1));
                w2 = update_preset_obj h (map_spec (preset_remove_agent i)) w1;
                spec_removed = (length (p_agents (spec_of h w2)) \<noteq> before)
            in if \<not> is_ok r \<and> \<not> spec_removed then (w2, Inl (AgentNotFound i))
               else (notify org (PresetStructureChanged p) w2, Inr ()))))"

section \<open>Connections of a preset\<close>

definition add_connection :: "string option \<Rightarrow> string \<Rightarrow> connection_spec \<Rightarrow> 'u world \<Rightarrow>
    'u world \<times> unit result" where
  "add_connection org p c w =
    (if \<not> has_key (w_agents w) (c_source c) then (w, Inl (AgentNotFound (c_source c)))
     else if \<not> has_key (w_agents w) (c_target c) then (w, Inl (AgentNotFound (c_target c)))
     else if c_source_handle c = [] then (w, Inl EmptySourceHandle)
     else if c_target_handle c = [] then (w, Inl EmptyTargetHandle)
     else case map_of (w_presets w) p of
         None \<Rightarrow> (w, Inl (PresetNotFound p))
       | Some h \<Rightarrow>
           (case add_connection_internal c w of
             (w1, Inl e) \<Rightarrow> (w1, Inl e)
           | (w1, Inr _) \<Rightarrow>
               (notify org (PresetStructureChanged p)
                 (update_preset_obj h (map_spec (preset_add_connection c)) w1), Inr ())))"

definition connection_text :: "connection_spec \<Rightarrow> string" where
  "connection_text c = c_source c @ '':'' @ c_source_handle c @ ''->'' @ c_target c @ '':'' @ c_target_handle c"

definition remove_connection :: "string option \<Rightarrow> string \<Rightarrow> connection_spec \<Rightarrow> 'u world \<Rightarrow>
    'u world \<times> unit result" where
  "remove_connection org p c w =
    (case map_of (w_presets w) p of
      None \<Rightarrow> (w, Inl (PresetNotFound p))
    | Some h \<Rightarrow>
        (case preset_remove_connection c (spec_of h w) of
          (s, None) \<Rightarrow> (w, Inl (ConnectionNotFound (connection_text c)))
        | (s, Some c') \<Rightarrow>
            (notify org (PresetStructureChanged p)
              (remove_connection_internal c' (update_preset_obj h (map_spec (\<lambda>_. s)) w)), Inr ())))"

section \<open>Batches\<close>

text \<open>The two loops of \<open>add_agents_and_connections\<close>: what was added before the first error,
  and the error.\<close>

fun add_agents_loop :: "'u impls \<Rightarrow> string \<Rightarrow> nat \<Rightarrow> agent_spec list \<Rightarrow> 'u world \<Rightarrow>
    'u world \<times> agent_spec list \<times> agent_error option" where
  "add_agents_loop I p h [] w = (w, [], None)"
| "add_agents_loop I p h (s # ss) w =
    (case add_agent_internal I p s w of
      (w1, Inl e) \<Rightarrow> (w1, [], Some e)
    | (w1, Inr c) \<Rightarrow>
        (let (w2, cs, err) = add_agents_loop I p h ss
               (update_preset_obj h (map_spec (preset_add_agent c)) w1)
         in (w2, c # cs, err)))"

fun add_connections_loop :: "nat \<Rightarrow> connection_spec list \<Rightarrow> 'u world \<Rightarrow>
    'u world \<times> nat \<times> agent_error option" where
  "add_connections_loop h [] w = (w, 0, None)"
| "add_connections_loop h (c # cs) w =
    (case add_connection_internal c w of
      (w1, Inl e) \<Rightarrow> (w1, 0, Some e)
    | (w1, Inr _) \<Rightarrow>
        (let (w2, n, err) = add_connections_loop h cs
               (update_preset_obj h (map_spec (preset_add_connection c)) w1)
         in (w2, Suc n, err)))"

definition undo_connection :: "nat \<Rightarrow> connection_spec \<Rightarrow> 'u world \<Rightarrow> 'u world" where
  "undo_connection h c w =
    remove_connection_internal c
      (update_preset_obj h (map_spec (\<lambda>s. fst (preset_remove_connection c s))) w)"

definition undo_agent :: "nat \<Rightarrow> string \<Rightarrow> 'u world \<Rightarrow> 'u world" where
  "undo_agent h i w =
    (let w1 = update_preset_obj h (map_spec (preset_remove_agent i)) w
     in w1\<lparr>w_agents := im_swap_remove i (w_agents w1)\<rparr>)"

definition rollback_batch ::
    "nat \<Rightarrow> agent_spec list \<Rightarrow> connection_spec list \<Rightarrow> 'u world \<Rightarrow> 'u world" where
  "rollback_batch h as cs w = fold (\<lambda>a. undo_agent h (s_id a)) as (fold (undo_connection h) cs w)"

definition add_agents_and_connections :: "'u impls \<Rightarrow> string option \<Rightarrow> string \<Rightarrow>
    agent_spec list \<Rightarrow> connection_spec list \<Rightarrow> 'u world \<Rightarrow>
    'u world \<times> (agent_spec list \<times> connection_spec list) result" where
  "add_agents_and_connections I org p as cs w =
    (let (as', cs', n) = update_ids (w_ids w) as cs; w1 = w\<lparr>w_ids := n\<rparr> in
     case map_of (w_presets w1) p of
       None \<Rightarrow> (w1, Inl (PresetNotFound p))
     | Some h \<Rightarrow>
         (let (w2, built, err) = add_agents_loop I p h as' w1;
              (w3, m, err') = (if err = None then add_connections_loop h cs' w2 else (w2, 0, err))
          in case err' of
               Some e \<Rightarrow> (rollback_batch h (take (length built) as') (take m cs') w3, Inl e)
             | None \<Rightarrow> (notify org (PresetStructureChanged p) w3, Inr (built, cs'))))"

section \<open>Presets by name\<close>

definition get_preset :: "string \<Rightarrow> 'u world \<Rightarrow> nat option" where
  "get_preset i w = map_of (w_presets w) i"

definition find_preset_id_by_name :: "string \<Rightarrow> 'u world \<Rightarrow> string option" where
  "find_preset_id_by_name n w = map_of (w_preset_names w) n"

definition reserve_name :: "string \<Rightarrow> string \<Rightarrow> 'u world \<Rightarrow> 'u world" where
  "reserve_name n i w = w\<lparr>w_preset_names := im_insert n i (w_preset_names w)\<rparr>"

definition add_preset_raw :: "'u impls \<Rightarrow> string option \<Rightarrow> preset_spec \<Rightarrow> string option \<Rightarrow>
    'u world \<Rightarrow> 'u world \<times> string result" where
  "add_preset_raw I org s name w =
    (let (w1, p0) = preset_new s w; p = p0\<lparr>pr_name := name\<rparr>; i = pr_id p in
     if (case name of None \<Rightarrow> False | Some n \<Rightarrow> has_key (w_preset_names w1) n)
     then (w1, Inl (PresetNameExists (the name)))
     else
       (let w2 = (case name of None \<Rightarrow> w1 | Some n \<Rightarrow> reserve_name n i w1);
            w3 = fold (\<lambda>a w. fst (add_agent_internal I i a w)) (p_agents (pr_spec p)) w2;
            w4 = fold (\<lambda>c w. fst (add_connection_internal c w)) (p_connections (pr_spec p)) w3
        in if has_key (w_presets w4) i then
             ((case name of None \<Rightarrow> w4
               | Some n \<Rightarrow> w4\<lparr>w_preset_names := im_swap_remove n (w_preset_names w4)\<rparr>),
              Inl (DuplicateId i))
           else (notify org (PresetAdded i name)
                   (w4\<lparr>w_presets := im_insert i (length (w_preset_objs w4)) (w_presets w4),
                      w_preset_objs := w_preset_objs w4 @ [p]\<rparr>), Inr i)))"

definition new_preset where
  "new_preset I org w = add_preset_raw I org preset_spec_default None w"
definition new_preset_with_name where
  "new_preset_with_name I org n w = add_preset_raw I org preset_spec_default (Some n) w"
definition add_preset where
  "add_preset I org s w = add_preset_raw I org s None w"
definition add_preset_with_name where
  "add_preset_with_name I org s n w = add_preset_raw I org s (Some n) w"

text \<open>The sections of \<open>rename_preset\<close>.\<close>

definition rename_reserve :: "string \<Rightarrow> string \<Rightarrow> 'u world \<Rightarrow> 'u world \<times> unit result" where
  "rename_reserve i n w =
    (case map_of (w_preset_names w) n of
      Some owner \<Rightarrow>
        if owner \<noteq> i then (w, Inl (PresetNameExists n))
        else (w\<lparr>w_preset_names := im_insert n i (im_retain (\<lambda>_ v. v \<noteq> i) (w_preset_names w))\<rparr>, Inr ())
    | None \<Rightarrow>
        (w\<lparr>w_preset_names := im_insert n i (im_retain (\<lambda>_ v. v \<noteq> i) (w_preset_names w))\<rparr>, Inr ()))"

definition rename_recheck :: "string \<Rightarrow> string \<Rightarrow> 'u world \<Rightarrow> 'u world \<times> unit result" where
  "rename_recheck i n w =
    (if has_key (w_presets w) i then (w, Inr ())
     else ((if map_of (w_preset_names w) n = Some i
            then w\<lparr>w_preset_names := im_swap_remove n (w_preset_names w)\<rparr> else w),
           Inl (PresetNotFound i)))"

definition rename_commit :: "string option \<Rightarrow> nat \<Rightarrow> string \<Rightarrow> string \<Rightarrow> 'u world \<Rightarrow> 'u world" where
  "rename_commit org h i n w =
    notify org (PresetRenamed i (pr_name (w_preset_objs w ! h)) n)
      (update_preset_obj h (\<lambda>p. p\<lparr>pr_name := Some n\<rparr>) w)"

definition rename_preset :: "string option \<Rightarrow> string \<Rightarrow> string \<Rightarrow> 'u world \<Rightarrow> 'u world \<times> unit result" where
  "rename_preset org i n w =
    (case get_preset i w of
      None \<Rightarrow> (w, Inl (PresetNotFound i))
    | Some h \<Rightarrow>
        (case rename_reserve i n w of
          (w1, Inl e) \<Rightarrow> (w1, Inl e)
        | (w1, Inr _) \<Rightarrow>
            (case rename_recheck i n w1 of
              (w2, Inl e) \<Rightarrow> (w2, Inl e)
            | (w2, Inr _) \<Rightarrow> (rename_commit org h i n w2, Inr ()))))"

text \<open>The last sections of \<open>remove_preset\<close>, each under its own lock.\<close>

definition remove_unlist :: "string \<Rightarrow> 'u world \<Rightarrow> 'u world" where
  "remove_unlist i w = w\<lparr>w_presets := im_swap_remove i (w_presets w)\<rparr>"

definition remove_unname :: "string \<Rightarrow> 'u world \<Rightarrow> 'u world" where
  "remove_unname i w = w\<lparr>w_preset_names := im_retain (\<lambda>_ v. v \<noteq> i) (w_preset_names w)\<rparr>"

definition remove_preset :: "'u impls \<Rightarrow> string option \<Rightarrow> string \<Rightarrow> 'u world \<Rightarrow>
    'u world \<times> unit result" where
  "remove_preset I org i w =
    (case get_preset i w of
      None \<Rightarrow> (w, Inl (PresetNotFound i))
    | Some h \<Rightarrow>
        (let name = pr_name (w_preset_objs w ! h);
             w1 = preset_stop I h w;
             w2 = fold (\<lambda>a w. fst (remove_agent_internal I (s_id a) w)) (p_agents (spec_of h w1)) w1;
             w3 = fold remove_connection_internal (p_connections (spec_of h w2)) w2;
             w4 = remove_unname i (remove_unlist i w3)
         in (notify org (PresetRemoved i name) (remove_preset_token i w4), Inr ())))"

definition start_preset :: "string \<Rightarrow> 'u world \<Rightarrow> 'u world \<times> unit result" where
  "start_preset i w =
    (case get_preset i w of
      None \<Rightarrow> (w, Inl (PresetNotFound i))
    | Some h \<Rightarrow> (preset_start h w, Inr ()))"

definition stop_preset :: "'u impls \<Rightarrow> string \<Rightarrow> 'u world \<Rightarrow> 'u world \<times> unit result" where
  "stop_preset I i w =
    (case get_preset i w of
      None \<Rightarrow> (w, Inl (PresetNotFound i))
    | Some h \<Rightarrow> (preset_stop I h w, Inr ()))"

definition get_preset_spec :: "string \<Rightarrow> 'u world \<Rightarrow> preset_spec option" where
  "get_preset_spec i w =
    (case get_preset i w of
      None \<Rightarrow> None
    | Some h \<Rightarrow>
        Some ((spec_of h w)\<lparr>p_agents :=
          List.map_filter (\<lambda>a. get_agent_spec (s_id a) w) (p_agents (spec_of h w))\<rparr>))"

definition update_preset_spec :: "string option \<Rightarrow> string \<Rightarrow> json \<Rightarrow> 'u world \<Rightarrow>
    'u world \<times> unit result" where
  "update_preset_spec org i j w =
    (case get_preset i w of
      None \<Rightarrow> (w, Inl (PresetNotFound i))
    | Some h \<Rightarrow>
        (case preset_update_spec j (w_preset_objs w ! h) of
          (p, Inl e) \<Rightarrow> (update_preset_obj h (\<lambda>_. p) w, Inl e)
        | (p, Inr _) \<Rightarrow>
            (notify org (PresetStructureChanged i) (update_preset_obj h (\<lambda>_. p) w), Inr ())))"

record preset_info =
  pi_id :: string
  pi_name :: "string option"
  pi_running :: bool

definition info_of :: "preset \<Rightarrow> preset_info" where
  "info_of p = \<lparr>pi_id = pr_id p, pi_name = pr_name p, pi_running = pr_running p\<rparr>"

definition get_preset_info :: "string \<Rightarrow> 'u world \<Rightarrow> preset_info option" where
  "get_preset_info i w = map_option (\<lambda>h. info_of (w_preset_objs w ! h)) (get_preset i w)"

definition get_preset_infos :: "'u world \<Rightarrow> preset_info list" where
  "get_preset_infos w = map (\<lambda>(i, h). info_of (w_preset_objs w ! h)) (w_presets w)"

end
