(* ===== verification/Routing.thy ===== *)
theory Routing
  imports Presets
begin

text \<open>
  message.rs and the main loop of modular_agent.rs: an \<open>AgentOut\<close> message is delivered along
  the connections of its source whose source port matches, an \<open>ExternalOutput\<close> message is
  stored as the value of its channel, delivered along the connections of every agent that
  listens to the channel, and announced. \<open>main_step\<close> is one turn of the loop, which runs
  with the untagged handle (origin \<open>None\<close>).
\<close>

definition deliver :: "'u impls \<Rightarrow> string option \<Rightarrow> agent_context \<Rightarrow> agent_value \<Rightarrow>
    string \<times> string \<Rightarrow> 'u world \<Rightarrow> 'u world" where
  "deliver I org ctx v tp w = fst (agent_input I org (fst tp) ctx (snd tp) v w)"

definition deliver_out :: "'u impls \<Rightarrow> string option \<Rightarrow> agent_context \<Rightarrow> string \<Rightarrow> agent_value \<Rightarrow>
    connection_target \<Rightarrow> 'u world \<Rightarrow> 'u world" where
  "deliver_out I org ctx port v t w =
    (case t of (target, sport, tport) \<Rightarrow>
      if sport \<noteq> port then w
      else if \<not> has_key (w_agents w) target then w
      else deliver I org ctx v (target, tport) w)"

definition agent_out :: "'u impls \<Rightarrow> string option \<Rightarrow> string \<Rightarrow> agent_context \<Rightarrow> string \<Rightarrow>
    agent_value \<Rightarrow> 'u world \<Rightarrow> 'u world" where
  "agent_out I org source ctx port v w =
    (case map_of (w_connections w) source of
      None \<Rightarrow> w
    | Some ts \<Rightarrow> fold (deliver_out I org ctx port v) ts w)"

definition deliver_node :: "'u impls \<Rightarrow> string option \<Rightarrow> agent_context \<Rightarrow> agent_value \<Rightarrow>
    string \<Rightarrow> 'u world \<Rightarrow> 'u world" where
  "deliver_node I org ctx v node w =
    (case map_of (w_connections w) node of
      None \<Rightarrow> w
    | Some ts \<Rightarrow> fold (\<lambda>(target, sport, tport). deliver I org ctx v (target, tport)) ts w)"

definition external_input :: "'u impls \<Rightarrow> string option \<Rightarrow> string \<Rightarrow> agent_context \<Rightarrow>
    agent_value \<Rightarrow> 'u world \<Rightarrow> 'u world" where
  "external_input I org name ctx v w =
    (let w1 = w\<lparr>w_external_values := im_insert name v (w_external_values w)\<rparr>;
         w2 = (case map_of (w_external_input_agents w1) name of
                 None \<Rightarrow> w1
               | Some nodes \<Rightarrow> fold (deliver_node I org ctx v) nodes w1)
     in notify org (ExternalOutput name v) w2)"

definition main_message :: "'u impls \<Rightarrow> agent_event_message \<Rightarrow> 'u world \<Rightarrow> 'u world" where
  "main_message I m w =
    (case m of
      AgentOut i ctx port v \<Rightarrow> agent_out I None i ctx port v w
    | ExternalOutputMsg name ctx v \<Rightarrow> external_input I None name ctx v w)"

text \<open>One turn of the loop that owns the main channel \<open>n\<close>; \<open>None\<close> when it is waiting, or has
  ended because the queue is empty and no handle holds the sender.\<close>

definition main_step :: "'u impls \<Rightarrow> nat \<Rightarrow> 'u world \<Rightarrow> 'u world option" where
  "main_step I n w =
    (case ch_queue (w_main_chans w ! n) of
      [] \<Rightarrow> None
    | m # q \<Rightarrow>
        Some (main_message I m
          (w\<lparr>w_main_chans := (w_main_chans w)[n := (w_main_chans w ! n)\<lparr>ch_queue := q\<rparr>]\<rparr>)))"

section \<open>Entry points\<close>

definition spawn_message_loop :: "'u world \<Rightarrow> 'u world" where
  "spawn_message_loop w =
    w\<lparr>w_tx := Some (length (w_main_chans w)), w_main_chans := w_main_chans w @ [chan_new]\<rparr>"

definition ready :: "'u world \<Rightarrow> 'u world \<times> unit result" where
  "ready w = (spawn_message_loop w, Inr ())"

definition quit :: "'u world \<Rightarrow> 'u world" where
  "quit w = w\<lparr>w_tx := None\<rparr>"

definition write_external_input :: "string \<Rightarrow> agent_value \<Rightarrow> 'u world \<Rightarrow> 'u world \<times> unit result" where
  "write_external_input name v w =
    (let (w1, ctx) = world_new_ctx w in send_external_output name ctx v w1)"

definition local_channel :: "string \<Rightarrow> string \<Rightarrow> string" where
  "local_channel p n = ''%'' @ p @ ''/'' @ n"

definition write_local_input ::
    "string \<Rightarrow> string \<Rightarrow> agent_value \<Rightarrow> 'u world \<Rightarrow> 'u world \<times> unit result" where
  "write_local_input p name v w =
    (let (w1, ctx) = world_new_ctx w in send_external_output (local_channel p name) ctx v w1)"

text \<open>output.rs: what an agent does with its own handle.\<close>

definition agent_output :: "'u agent \<Rightarrow> agent_context \<Rightarrow> string \<Rightarrow> agent_value \<Rightarrow> 'u world \<Rightarrow>
    'u world \<times> unit result" where
  "agent_output a ctx port v w = send_agent_out (a_id a) ctx port v w"

definition agent_try_output :: "'u agent \<Rightarrow> agent_context \<Rightarrow> string \<Rightarrow> agent_value \<Rightarrow> 'u world \<Rightarrow>
    'u world \<times> unit result" where
  "agent_try_output a ctx port v w = try_send_agent_out (a_id a) ctx port v w"

definition agent_emit_config_updated :: "'u agent \<Rightarrow> string \<Rightarrow> agent_value \<Rightarrow> 'u world \<Rightarrow> 'u world" where
  "agent_emit_config_updated a k v w = notify None (AgentConfigUpdated (a_id a) k v) w"

definition agent_emit_spec_updated :: "'u agent \<Rightarrow> 'u world \<Rightarrow> 'u world" where
  "agent_emit_spec_updated a w = notify None (AgentSpecUpdated (a_id a)) w"

definition agent_emit_error :: "'u agent \<Rightarrow> string \<Rightarrow> 'u world \<Rightarrow> 'u world" where
  "agent_emit_error a s w = notify None (AgentErrorEvent (a_id a) s) w"

end
