(* ===== verification/External.thy ===== *)
theory External
  imports Routing
begin

text \<open>
  external_agent.rs: the four built-in agents that connect the graph to named channels, as
  implementations of the model. \<open>ExternalInputAgent\<close> and \<open>LocalInputAgent\<close> register their
  id under a channel name while they run and follow a change of their configuration;
  \<open>ExternalOutputAgent\<close> and \<open>LocalOutputAgent\<close> send what they receive to a channel. The
  local agents use a channel name scoped to their preset.
\<close>

definition CONFIG_NAME :: string where "CONFIG_NAME = ''name''"

definition name_config :: "agent_spec \<Rightarrow> string option" where
  "name_config s = Option.bind (s_configs s) (\<lambda>c. ok (configs_get_string c CONFIG_NAME))"

fun channel_of :: "'u agent_state \<Rightarrow> string option" where
  "channel_of (Channel n) = n"
| "channel_of (User u) = None"

abbreviation a_channel :: "'u agent \<Rightarrow> string option" where
  "a_channel a \<equiv> channel_of (a_state a)"

definition channel_agent_new :: "string \<Rightarrow> 'u world \<Rightarrow> string \<Rightarrow> agent_spec \<Rightarrow>
    'u world \<times> 'u agent result" where
  "channel_agent_new impl w i s = (w, Inr (agent_data_new impl (Channel (name_config s)) i s))"

definition agent_configs_of :: "'u agent \<Rightarrow> agent_configs result" where
  "agent_configs_of a = ok_or NoConfig (s_configs (a_spec a))"

text \<open>The registration table: \<open>register\<close> appends the id to the list of a channel,
  \<open>unregister\<close> removes every occurrence; a list that becomes empty stays.\<close>

definition register :: "string \<Rightarrow> string \<Rightarrow> 'u world \<Rightarrow> 'u world" where
  "register ch i w =
    w\<lparr>w_external_input_agents := im_insert ch
      (case map_of (w_external_input_agents w) ch of None \<Rightarrow> [i] | Some ns \<Rightarrow> ns @ [i])
      (w_external_input_agents w)\<rparr>"

definition unregister :: "string \<Rightarrow> string \<Rightarrow> 'u world \<Rightarrow> 'u world" where
  "unregister ch i w =
    (case map_of (w_external_input_agents w) ch of
      None \<Rightarrow> w
    | Some ns \<Rightarrow>
        w\<lparr>w_external_input_agents := im_insert ch (filter (\<lambda>x. x \<noteq> i) ns) (w_external_input_agents w)\<rparr>)"

definition register_opt :: "string option \<Rightarrow> string \<Rightarrow> 'u world \<Rightarrow> 'u world" where
  "register_opt ch i w = (case ch of None \<Rightarrow> w | Some n \<Rightarrow> register n i w)"

definition unregister_opt :: "string option \<Rightarrow> string \<Rightarrow> 'u world \<Rightarrow> 'u world" where
  "unregister_opt ch i w = (case ch of None \<Rightarrow> w | Some n \<Rightarrow> unregister n i w)"

text \<open>Both input agents, over the function that gives the channel of a configured name.\<close>

definition input_start :: "('u agent \<Rightarrow> string \<Rightarrow> string) \<Rightarrow> 'u world \<Rightarrow> 'u agent \<Rightarrow>
    'u world \<times> 'u agent \<times> unit result" where
  "input_start chan w a =
    (register_opt (map_option (chan a) (a_channel a)) (a_id a) w, a, Inr ())"

definition input_stop :: "('u agent \<Rightarrow> string \<Rightarrow> string) \<Rightarrow> 'u world \<Rightarrow> 'u agent \<Rightarrow>
    'u world \<times> 'u agent \<times> unit result" where
  "input_stop chan w a =
    (unregister_opt (map_option (chan a) (a_channel a)) (a_id a) w, a, Inr ())"

definition input_configs_changed :: "('u agent \<Rightarrow> string \<Rightarrow> string) \<Rightarrow> 'u world \<Rightarrow> 'u agent \<Rightarrow>
    'u world \<times> 'u agent \<times> unit result" where
  "input_configs_changed chan w a =
    (case agent_configs_of a of
      Inl e \<Rightarrow> (w, a, Inl e)
    | Inr c \<Rightarrow>
        (let n = ok (configs_get_string c CONFIG_NAME) in
         if a_channel a = n then (w, a, Inr ())
         else
           (let w1 = (if a_status a = Start then
                  register_opt (map_option (chan a) n) (a_id a)
                    (unregister_opt (map_option (chan a) (a_channel a)) (a_id a) w)
                else w)
            in (w1, a\<lparr>a_state := Channel n\<rparr>, Inr ()))))"

definition output_configs_changed :: "'u world \<Rightarrow> 'u agent \<Rightarrow> 'u world \<times> 'u agent \<times> unit result" where
  "output_configs_changed w a =
    (case agent_configs_of a of
      Inl e \<Rightarrow> (w, a, Inl e)
    | Inr c \<Rightarrow> (w, a\<lparr>a_state := Channel (ok (configs_get_string c CONFIG_NAME))\<rparr>, Inr ()))"

definition output_process :: "('u agent \<Rightarrow> string \<Rightarrow> string) \<Rightarrow> 'u world \<Rightarrow> 'u agent \<Rightarrow>
    agent_context \<Rightarrow> string \<Rightarrow> agent_value \<Rightarrow> 'u world \<times> 'u agent \<times> unit result" where
  "output_process chan w a ctx port v =
    (let n = unwrap_or (a_channel a) [] in
     if n = [] then (w, a, Inr ())
     else (let (w1, r) = send_external_output (chan a n) ctx v w in (w1, a, r)))"

text \<open>The default callbacks of the trait \<open>AsAgent\<close>.\<close>

definition no_callback :: "'u world \<Rightarrow> 'u agent \<Rightarrow> 'u world \<times> 'u agent \<times> unit result" where
  "no_callback w a = (w, a, Inr ())"

definition no_process :: "'u world \<Rightarrow> 'u agent \<Rightarrow> agent_context \<Rightarrow> string \<Rightarrow> agent_value \<Rightarrow>
    'u world \<times> 'u agent \<times> unit result" where
  "no_process w a ctx port v = (w, a, Inr ())"

definition plain_channel :: "'u agent \<Rightarrow> string \<Rightarrow> string" where
  "plain_channel a n = n"

definition scoped_channel :: "'u agent \<Rightarrow> string \<Rightarrow> string" where
  "scoped_channel a n = local_channel (a_preset_id a) n"

definition external_output_impl :: "'u impl" where
  "external_output_impl =
    \<lparr>i_new = channel_agent_new ''ExternalOutputAgent'', i_configs_changed = output_configs_changed,
     i_start = no_callback, i_stop = no_callback, i_process = output_process plain_channel\<rparr>"

definition external_input_impl :: "'u impl" where
  "external_input_impl =
    \<lparr>i_new = channel_agent_new ''ExternalInputAgent'',
     i_configs_changed = input_configs_changed plain_channel, i_start = input_start plain_channel,
     i_stop = input_stop plain_channel, i_process = no_process\<rparr>"

definition local_output_impl :: "'u impl" where
  "local_output_impl =
    \<lparr>i_new = channel_agent_new ''LocalOutputAgent'', i_configs_changed = output_configs_changed,
     i_start = no_callback, i_stop = no_callback, i_process = output_process scoped_channel\<rparr>"

definition local_input_impl :: "'u impl" where
  "local_input_impl =
    \<lparr>i_new = channel_agent_new ''LocalInputAgent'',
     i_configs_changed = input_configs_changed scoped_channel, i_start = input_start scoped_channel,
     i_stop = input_stop scoped_channel, i_process = no_process\<rparr>"

text \<open>The table of implementations: the built-in agents, and \<open>U\<close> for every other name.\<close>

definition builtin :: "'u impls \<Rightarrow> 'u impls" where
  "builtin U n =
    (if n = ''ExternalOutputAgent'' then external_output_impl
     else if n = ''ExternalInputAgent'' then external_input_impl
     else if n = ''LocalOutputAgent'' then local_output_impl
     else if n = ''LocalInputAgent'' then local_input_impl
     else U n)"

text \<open>An agent that overrides nothing: the default callbacks of the trait \<open>AsAgent\<close>.\<close>

definition plain_impl :: "string \<Rightarrow> 'u impl" where
  "plain_impl n =
    \<lparr>i_new = (\<lambda>w i s. (w, Inr (agent_data_new n (Channel None) i s))),
     i_configs_changed = no_callback, i_start = no_callback, i_stop = no_callback,
     i_process = no_process\<rparr>"

section \<open>The built-in agents keep the contract\<close>

lemma core_register [simp]:
  "core_of (register ch i w) = core_of w" "core_of (unregister ch i w) = core_of w"
  "core_of (register_opt c i w) = core_of w" "core_of (unregister_opt c i w) = core_of w"
  by (simp_all add: core_of_def register_def unregister_def register_opt_def unregister_opt_def
      split: option.split)

lemma input_start_core: "input_start chan w a = (w', a', r) \<Longrightarrow>
    core_of w' = core_of w \<and> ident_of a' = ident_of a"
  by (auto simp: input_start_def)

lemma input_stop_core: "input_stop chan w a = (w', a', r) \<Longrightarrow>
    core_of w' = core_of w \<and> ident_of a' = ident_of a"
  by (auto simp: input_stop_def)

lemma input_changed_core: "input_configs_changed chan w a = (w', a', r) \<Longrightarrow>
    core_of w' = core_of w \<and> ident_of a' = ident_of a"
  by (auto simp: input_configs_changed_def ident_of_def Let_def split: sum.splits if_splits)

lemma output_changed_core: "output_configs_changed w a = (w', a', r) \<Longrightarrow>
    core_of w' = core_of w \<and> ident_of a' = ident_of a"
  by (auto simp: output_configs_changed_def ident_of_def split: sum.splits)

lemma output_process_core: "output_process chan w a ctx port v = (w', a', r) \<Longrightarrow>
    core_of w' = core_of w \<and> ident_of a' = ident_of a"
  by (simp add: output_process_def Let_def case_prod_beta split: if_splits) auto

lemmas builtin_defs = builtin_def external_output_impl_def external_input_impl_def
  local_output_impl_def local_input_impl_def

lemma channel_agent_new_core: "channel_agent_new n w i s = (w', x) \<Longrightarrow> core_of w' = core_of w"
  "channel_agent_new n w i s = (w', Inr a) \<Longrightarrow> a_id a = i \<and> s_id (a_spec a) = s_id s"
  by (auto simp: channel_agent_new_def agent_data_new_def)

lemma default_core:
  "no_callback w a = (w', a', r) \<Longrightarrow> core_of w' = core_of w \<and> ident_of a' = ident_of a"
  "no_process w a ctx port v = (w', a', r) \<Longrightarrow> core_of w' = core_of w \<and> ident_of a' = ident_of a"
  by (simp_all add: no_callback_def no_process_def)

lemma plain_contract: "agent_contract plain_impl"
  by unfold_locales (auto simp: plain_impl_def agent_data_new_def dest: default_core)

text \<open>The built-in agents honour the contract, and so does the whole table when the other
  agents do.\<close>

lemma builtin_contract: "agent_contract U \<Longrightarrow> agent_contract (builtin U)"
  unfolding builtin_defs
  by unfold_locales
    (auto split: if_splits dest: channel_agent_new_core input_changed_core output_changed_core
      input_start_core input_stop_core output_process_core default_core
      agent_contract.new_core agent_contract.new_ident agent_contract.changed_core agent_contract.start_core
      agent_contract.stop_core agent_contract.process_core)

interpretation builtins: agent_contract "builtin plain_impl"
  by (rule builtin_contract [OF plain_contract])

end
