(* ===== verification/Registration.thy ===== *)
theory Registration
  imports External
begin

text \<open>
  The registration of the input agents of external_agent.rs: while such an agent runs, its id
  stands in the list of the channel it is configured for and nowhere else; while it does not
  run, it stands nowhere. Starting, stopping and every change of configuration keep this, and no
  operation touches the entries of another agent. It stands there once as long as no start hits
  the agent while it runs. Nothing in the code rules such a start out: \<open>start_agent\<close> looks at the
  status before the loop it spawns has set it, and neither that loop nor \<open>Agent::start\<close> looks again;
  each start of a running agent adds one more entry.
\<close>

definition listeners :: "string \<Rightarrow> 'u world \<Rightarrow> string list" where
  "listeners ch w = unwrap_or (map_of (w_external_input_agents w) ch) []"

definition listens :: "string \<Rightarrow> 'u world \<Rightarrow> string \<Rightarrow> nat" where
  "listens i w ch = count_list (listeners ch w) i"

definition is_input_agent :: "'u agent \<Rightarrow> bool" where
  "is_input_agent a \<longleftrightarrow> a_impl a = ''ExternalInputAgent'' \<or> a_impl a = ''LocalInputAgent''"

text \<open>The channel an input agent is registered under: the configured name, scoped to the preset
  for a local agent.\<close>

definition kind_channel :: "string \<Rightarrow> 'u agent \<Rightarrow> string \<Rightarrow> string" where
  "kind_channel impl = (if impl = ''ExternalInputAgent'' then plain_channel else scoped_channel)"

definition registration :: "('u agent \<Rightarrow> string \<Rightarrow> string) \<Rightarrow> 'u agent \<Rightarrow> string \<Rightarrow> nat" where
  "registration chan a =
    (\<lambda>ch. if a_status a = Start \<and> map_option (chan a) (a_channel a) = Some ch then 1 else 0)"

definition registered_ok :: "'u world \<Rightarrow> 'u agent \<Rightarrow> bool" where
  "registered_ok w a \<longleftrightarrow> listens (a_id a) w = registration (kind_channel (a_impl a)) a"

lemma count_filter_neq: "count_list (filter (\<lambda>x. x \<noteq> i) xs) j = (if i = j then 0 else count_list xs j)"
  by (induction xs) auto

lemma listens_register:
  "listens j (register ch i w) = (\<lambda>n. listens j w n + (if n = ch \<and> i = j then 1 else 0))"
  by (rule ext) (auto simp: listens_def listeners_def register_def unwrap_or_def split: option.splits)

lemma listens_unregister:
  "listens j (unregister ch i w) = (\<lambda>n. if n = ch \<and> i = j then 0 else listens j w n)"
  by (rule ext) (auto simp: listens_def listeners_def unregister_def unwrap_or_def count_filter_neq
      split: option.splits)

lemma listens_register_opt:
  "listens j (register_opt c i w) = (\<lambda>n. listens j w n + (if c = Some n \<and> i = j then 1 else 0))"
  by (rule ext) (auto simp: register_opt_def listens_register split: option.split)

lemma listens_unregister_opt:
  "listens j (unregister_opt c i w) = (\<lambda>n. if c = Some n \<and> i = j then 0 else listens j w n)"
  by (rule ext) (auto simp: unregister_opt_def listens_unregister split: option.split)

lemma listens_notify [simp]: "listens i (notify org e w) = listens i w"
  by (rule ext) (simp add: listens_def listeners_def notify_def)

section \<open>The operations on a running agent\<close>

text \<open>What the orchestrator does to one agent: its loop starts it and hands it inputs, the other
  operations come at any time. None of them looks at the status of the agent.\<close>

datatype agent_op =
    OpStart
  | OpStop
  | OpSetConfig string agent_value
  | OpSetConfigs agent_configs
  | OpUpdate json
  | OpProcess agent_context string agent_value

fun agent_step :: "host \<Rightarrow> 'u impls \<Rightarrow> agent_op \<Rightarrow> 'u world \<times> 'u agent \<Rightarrow> 'u world \<times> 'u agent" where
  "agent_step H I OpStart (w, a) = (let (w', a', r) = agent_start I w a in (w', a'))"
| "agent_step H I OpStop (w, a) = (let (w', a', r) = agent_stop I w a in (w', a'))"
| "agent_step H I (OpSetConfig k v) (w, a) = (let (w', a', r) = agent_set_config I k v w a in (w', a'))"
| "agent_step H I (OpSetConfigs c) (w, a) = (let (w', a', r) = agent_set_configs I c w a in (w', a'))"
| "agent_step H I (OpUpdate j) (w, a) = (let (w', a', r) = agent_update_spec H I j w a in (w', a'))"
| "agent_step H I (OpProcess ctx port v) (w, a) =
    (let (w', a', r) = agent_process I ctx port v w a in (w', a'))"

fun agent_run :: "host \<Rightarrow> 'u impls \<Rightarrow> agent_op list \<Rightarrow> 'u world \<times> 'u agent \<Rightarrow> 'u world \<times> 'u agent" where
  "agent_run H I [] s = s"
| "agent_run H I (x # xs) s = agent_run H I xs (agent_step H I x s)"

text \<open>No start hits the agent while it runs.\<close>

fun single_starts :: "host \<Rightarrow> 'u impls \<Rightarrow> agent_op list \<Rightarrow> 'u world \<times> 'u agent \<Rightarrow> bool" where
  "single_starts H I [] s = True"
| "single_starts H I (x # xs) s =
    ((x = OpStart \<longrightarrow> a_status (snd s) \<noteq> Start) \<and> single_starts H I xs (agent_step H I x s))"

definition quiet :: "string \<Rightarrow> 'u world \<Rightarrow> 'u world \<Rightarrow> bool" where
  "quiet i w w' \<longleftrightarrow> (\<forall>j. j \<noteq> i \<longrightarrow> listens j w' = listens j w)"

text \<open>Where the agent stands, with the number of its entries in \<open>N\<close>.\<close>

definition good :: "nat set \<Rightarrow> 'u world \<times> 'u agent \<Rightarrow> bool" where
  "good N s \<longleftrightarrow> is_input_agent (snd s) \<and>
    (\<exists>n \<in> N. listens (a_id (snd s)) (fst s) =
      (\<lambda>ch. n * registration (kind_channel (a_impl (snd s))) (snd s) ch))"

lemma goodI:
  "is_input_agent a \<Longrightarrow> n \<in> N \<Longrightarrow>
    listens (a_id a) w = (\<lambda>ch. n * registration (kind_channel (a_impl a)) a ch) \<Longrightarrow> good N (w, a)"
  by (auto simp: good_def)

lemma goodE:
  assumes "good N (w, a)"
  obtains n where "is_input_agent a" and "n \<in> N"
    and "listens (a_id a) w = (\<lambda>ch. n * registration (kind_channel (a_impl a)) a ch)"
  using assms by (auto simp: good_def)

lemma quiet_refl [simp]: "quiet i w w" "quiet i w (notify org e w)"
  by (simp_all add: quiet_def)

lemma input_impl:
  "is_input_agent a \<Longrightarrow> builtin U (a_impl a) =
      \<lparr>i_new = channel_agent_new (a_impl a),
       i_configs_changed = input_configs_changed (kind_channel (a_impl a)),
       i_start = input_start (kind_channel (a_impl a)), i_stop = input_stop (kind_channel (a_impl a)),
       i_process = no_process\<rparr>"
  by (auto simp: is_input_agent_def builtin_defs kind_channel_def)

lemma kind_channel_stable: "a_preset_id b = a_preset_id a \<Longrightarrow> kind_channel n b = kind_channel n a"
  by (auto simp: kind_channel_def plain_channel_def scoped_channel_def fun_eq_iff)

lemma kind_channel_update [simp]:
  "kind_channel n (a\<lparr>a_spec := s\<rparr>) = kind_channel n a"
  "kind_channel n (a\<lparr>a_state := x\<rparr>) = kind_channel n a"
  "kind_channel n (a\<lparr>a_status := t\<rparr>) = kind_channel n a"
  by (rule kind_channel_stable; simp)+

lemma agent_update_same:
  "is_input_agent (a\<lparr>a_spec := s\<rparr>) = is_input_agent a"
  "is_input_agent (a\<lparr>a_state := x\<rparr>) = is_input_agent a"
  "is_input_agent (a\<lparr>a_status := t\<rparr>) = is_input_agent a"
  by (simp_all add: is_input_agent_def)

definition moves :: "nat set \<Rightarrow> 'u world \<times> 'u agent \<Rightarrow> 'u world \<times> 'u agent \<Rightarrow> bool" where
  "moves N s t \<longleftrightarrow> good N t \<and> quiet (a_id (snd s)) (fst s) (fst t) \<and> a_id (snd t) = a_id (snd s)"

lemma input_changed_cases:
  assumes "input_configs_changed chan w a = (w', a', r)"
  obtains "w' = w" "a' = a"
  | n where "w' = w" "a' = a\<lparr>a_state := Channel n\<rparr>" "a_status a \<noteq> Start"
  | n where "a_status a = Start" "a' = a\<lparr>a_state := Channel n\<rparr>"
      "w' = register_opt (map_option (chan a) n) (a_id a)
        (unregister_opt (map_option (chan a) (a_channel a)) (a_id a) w)"
proof (cases "agent_configs_of a")
  case (Inl e)
  with assms that(1) show thesis by (simp add: input_configs_changed_def)
next
  case (Inr c)
  let ?n = "ok (configs_get_string c CONFIG_NAME)"
  consider "a_channel a = ?n" | "a_channel a \<noteq> ?n" "a_status a = Start" | "a_channel a \<noteq> ?n" "a_status a \<noteq> Start"
    by blast
  then show thesis
  proof cases
    case 1
    with assms Inr that(1) show thesis by (simp add: input_configs_changed_def Let_def)
  next
    case 2
    with assms Inr that(3) [of ?n] show thesis by (simp add: input_configs_changed_def Let_def)
  next
    case 3
    with assms Inr that(2) [of ?n] show thesis by (simp add: input_configs_changed_def Let_def)
  qed
qed

lemma changed_good:
  assumes g: "good N (w, a)" and one: "1 \<in> N" and e: "agent_configs_changed (builtin U) w a = (w', a', r)"
  shows "moves N (w, a) (w', a')"
proof -
  let ?k = "kind_channel (a_impl a) :: 'a agent \<Rightarrow> _"
  from g obtain n where i: "is_input_agent a" and n: "n \<in> N"
    and l: "listens (a_id a) w = (\<lambda>ch. n * registration ?k a ch)" by (rule goodE)
  have "input_configs_changed ?k w a = (w', a', r)"
    using e input_impl [OF i, of U] by (simp add: agent_configs_changed_def)
  then show ?thesis
  proof (cases rule: input_changed_cases)
    case 1
    then show ?thesis using g by (simp add: moves_def)
  next
    case (2 x)
    have "good N (w', a')" by (rule goodI [OF _ n]) (use 2 i l in \<open>simp_all add: registration_def agent_update_same\<close>)
    with 2 show ?thesis by (simp add: moves_def)
  next
    case (3 x)
    have "good N (w', a')"
      by (rule goodI [OF _ one])
        (use 3 i l in \<open>auto simp: fun_eq_iff listens_register_opt listens_unregister_opt registration_def
          agent_update_same\<close>)
    moreover have "quiet (a_id a) w w'"
      by (simp add: quiet_def 3 listens_register_opt listens_unregister_opt)
    ultimately show ?thesis using 3 by (simp add: moves_def)
  qed
qed

lemma input_start_eq:
  assumes i: "is_input_agent a" and e: "agent_start (builtin U) w a = (w', a', r)"
  shows "w' = register_opt (map_option (kind_channel (a_impl a) a) (a_channel a)) (a_id a) w"
    and "a' = a\<lparr>a_status := Start\<rparr>"
  using e input_impl [OF i, of U] by (simp_all add: agent_start_def input_start_def)

lemma start_good:
  assumes g: "good N (w, a)" and one: "1 \<in> N" and s: "\<And>n. a_status a = Start \<Longrightarrow> n \<in> N \<Longrightarrow> Suc n \<in> N"
    and e: "agent_start (builtin U) w a = (w', a', r)"
  shows "moves N (w, a) (w', a')"
proof -
  let ?k = "kind_channel (a_impl a) :: 'a agent \<Rightarrow> _"
  from g obtain n where i: "is_input_agent a" and n: "n \<in> N"
    and l: "listens (a_id a) w = (\<lambda>ch. n * registration ?k a ch)" by (rule goodE)
  note w' = input_start_eq [OF i e]
  have "good N (w', a')"
  proof (cases "a_status a = Start")
    case True
    show ?thesis
      by (rule goodI [OF _ s [OF True n]])
        (use i l True in \<open>auto simp: w' listens_register_opt registration_def agent_update_same\<close>)
  next
    case False
    show ?thesis
      by (rule goodI [OF _ one])
        (use i l False in \<open>auto simp: w' listens_register_opt registration_def agent_update_same\<close>)
  qed
  then show ?thesis by (simp add: moves_def quiet_def w' listens_register_opt)
qed

lemma stop_good:
  assumes g: "good N (w, a)" and e: "agent_stop (builtin U) w a = (w', a', r)"
  shows "moves N (w, a) (w', a')"
proof -
  let ?k = "kind_channel (a_impl a) :: 'a agent \<Rightarrow> _"
  from g obtain n where i: "is_input_agent a" and n: "n \<in> N"
    and l: "listens (a_id a) w = (\<lambda>ch. n * registration ?k a ch)" by (rule goodE)
  have w': "w' = unregister_opt (map_option (?k a) (a_channel a)) (a_id a) w" and a': "a' = a\<lparr>a_status := Init\<rparr>"
    using e input_impl [OF i, of U] by (simp_all add: agent_stop_def input_stop_def)
  have "good N (w', a')"
    by (rule goodI [OF _ n])
      (use i l in \<open>auto simp: fun_eq_iff w' a' listens_unregister_opt registration_def agent_update_same\<close>)
  then show ?thesis by (simp add: moves_def quiet_def w' a' listens_unregister_opt)
qed

lemma good_respec [simp]: "good N (w, a\<lparr>a_spec := s\<rparr>) = good N (w, a)"
  by (simp add: good_def agent_update_same registration_def)

lemma moves_respec: "moves N (w, a\<lparr>a_spec := s\<rparr>) t \<Longrightarrow> moves N (w, a) t"
  by (simp add: moves_def)

lemma moves_refl: "good N (w, a) \<Longrightarrow> moves N (w, a) (w, a\<lparr>a_spec := s\<rparr>)" "good N (w, a) \<Longrightarrow> moves N (w, a) (w, a)"
  by (simp_all add: moves_def)

lemma respec_changed_good:
  "good N (w, a) \<Longrightarrow> 1 \<in> N \<Longrightarrow> agent_configs_changed (builtin U) w (a\<lparr>a_spec := s\<rparr>) = (w', a', r) \<Longrightarrow>
    moves N (w, a) (w', a')"
  by (rule moves_respec, rule changed_good) simp_all

lemma process_good:
  assumes g: "good N (w, a)" and e: "agent_process (builtin U) ctx port v w a = (w', a', r)"
  shows "moves N (w, a) (w', a')"
proof -
  from g have i: "is_input_agent a" by (simp add: good_def)
  with e input_impl [OF i, of U] have "w' = w \<and> a' = a"
    by (simp add: agent_process_def no_process_def)
  then show ?thesis using g by (simp add: moves_refl)
qed

lemma step_good:
  assumes g: "good N s" and one: "1 \<in> N"
    and st: "x = OpStart \<Longrightarrow> a_status (snd s) = Start \<Longrightarrow> \<forall>n \<in> N. Suc n \<in> N"
  shows "moves N s (agent_step H (builtin U) x s)"
proof -
  obtain w a where s: "s = (w, a)" by (cases s)
  note g = g [unfolded s]
  show ?thesis
  proof (cases x)
    case OpStart
    then show ?thesis
      using st g one by (auto simp: s split: prod.split intro: start_good)
  next
    case OpStop
    then show ?thesis using g by (auto simp: s split: prod.split intro: stop_good)
  next
    case (OpSetConfig k v)
    then show ?thesis
      using g one by (auto simp: s agent_set_config_def moves_refl split: option.split prod.split
          intro: respec_changed_good)
  next
    case (OpSetConfigs c)
    then show ?thesis
      using g one by (auto simp: s agent_set_configs_def split: prod.split intro: respec_changed_good)
  next
    case (OpUpdate j)
    then show ?thesis
      using g one by (auto simp: s agent_update_spec_def moves_refl split: prod.split sum.split if_split
          intro: respec_changed_good)
  next
    case (OpProcess ctx port v)
    then show ?thesis using g by (auto simp: s split: prod.split intro: process_good)
  qed
qed

lemma moves_trans: "moves N s t \<Longrightarrow> moves N t u \<Longrightarrow> moves N s u"
  by (simp add: moves_def quiet_def)

lemma run_good:
  assumes "good N s" and "1 \<in> N" and "single_starts H (builtin U) xs s \<or> (\<forall>n \<in> N. Suc n \<in> N)"
  shows "moves N s (agent_run H (builtin U) xs s)"
  using assms
proof (induction xs arbitrary: s)
  case Nil
  then show ?case by (cases s) (simp add: moves_refl)
next
  case (Cons x xs)
  have m: "moves N s (agent_step H (builtin U) x s)"
    by (rule step_good [OF Cons.prems(1,2)]) (use Cons.prems(3) in auto)
  then have "good N (agent_step H (builtin U) x s)" by (simp add: moves_def)
  from Cons.IH [OF this Cons.prems(2)] Cons.prems(3) m show ?case
    by (auto intro: moves_trans)
qed

lemma registered_good: "is_input_agent a \<Longrightarrow> registered_ok w a \<Longrightarrow> 1 \<in> N \<Longrightarrow> good N (w, a)"
  by (rule goodI [of _ 1]) (simp_all add: registered_ok_def)

text \<open>A start of a running agent registers it once more.\<close>

lemma start_running:
  assumes "is_input_agent a" and "map_option (kind_channel (a_impl a) a) (a_channel a) = Some ch"
  shows "listens (a_id a) (fst (agent_step H (builtin U) OpStart (w, a))) ch = Suc (listens (a_id a) w ch)"
proof -
  obtain w' a' r where e: "agent_start (builtin U) w a = (w', a', r)" by (cases "agent_start (builtin U) w a")
  show ?thesis using input_start_eq [OF assms(1) e] assms(2) e by (simp add: listens_register_opt)
qed

text \<open>A new input agent is registered nowhere, so it is good when its id is new.\<close>

lemma new_good:
  assumes "channel_agent_new n w i s = (w', Inr a)" and "is_input_agent a" and "\<And>ch. listens i w ch = 0"
  shows "registered_ok w' a"
  using assms by (auto simp: registered_ok_def registration_def channel_agent_new_def
      agent_data_new_def fun_eq_iff)

end
