(* ===== verification/Delivery.thy ===== *)
theory Delivery
  imports Routing
begin

text \<open>
  What the router delivers, as a function of the graph. \<open>out_routes\<close> and \<open>input_routes\<close> list
  the (agent, port) pairs an output and a channel value go to, \<open>inbox\<close> the messages that
  arrive in one channel. The lemmas show that the loops of message.rs append exactly these
  messages to each queue, in the order of the connections, and change nothing else but the
  events: a value for an agent without a channel, or whose loop has ended, is dropped.
\<close>

definition out_routes :: "string \<Rightarrow> string \<Rightarrow> 'u world \<Rightarrow> (string \<times> string) list" where
  "out_routes source port w =
    [(t, tp). (t, sp, tp) \<leftarrow> unwrap_or (map_of (w_connections w) source) [],
              sp = port \<and> has_key (w_agents w) t]"

definition node_routes :: "'u world \<Rightarrow> string \<Rightarrow> (string \<times> string) list" where
  "node_routes w node = [(t, tp). (t, sp, tp) \<leftarrow> unwrap_or (map_of (w_connections w) node) []]"

definition input_routes :: "string \<Rightarrow> 'u world \<Rightarrow> (string \<times> string) list" where
  "input_routes name w =
    concat (map (node_routes w) (unwrap_or (map_of (w_external_input_agents w) name) []))"

definition open_channel :: "'u world \<Rightarrow> string \<Rightarrow> nat option" where
  "open_channel w t =
    (case map_of (w_agent_txs w) t of
      None \<Rightarrow> None
    | Some n \<Rightarrow> if ch_closed (w_chans w ! n) then None else Some n)"

definition inbox :: "'u world \<Rightarrow> agent_context \<Rightarrow> agent_value \<Rightarrow> (string \<times> string) list \<Rightarrow> nat \<Rightarrow>
    agent_message list" where
  "inbox w ctx v ds n = [input_message ctx tp v. (t, tp) \<leftarrow> ds, open_channel w t = Some n]"

definition arrivals :: "string option \<Rightarrow> 'u world \<Rightarrow> (string \<times> string) list \<Rightarrow> event_envelope list" where
  "arrivals org w ds =
    [\<lparr>ev_origin = org, ev_event = AgentIn t tp\<rparr>. (t, tp) \<leftarrow> ds, open_channel w t \<noteq> None]"

text \<open>A configuration sent to an agent without a channel runs the agent's own code at once; the
  lemmas are about routes without such a target.\<close>

definition queued :: "'u world \<Rightarrow> (string \<times> string) list \<Rightarrow> bool" where
  "queued w ds \<longleftrightarrow> (\<forall>(t, tp) \<in> set ds.
     map_of (w_agent_txs w) t = None \<longrightarrow> \<not> starts_with ''config:'' tp)"

definition txs_ok :: "'u world \<Rightarrow> bool" where
  "txs_ok w \<longleftrightarrow> (\<forall>t n. map_of (w_agent_txs w) t = Some n \<longrightarrow> n < length (w_chans w))"

text \<open>\<open>w'\<close> is \<open>w\<close> after the deliveries \<open>ds\<close>.\<close>

definition after_deliveries :: "string option \<Rightarrow> agent_context \<Rightarrow> agent_value \<Rightarrow>
    (string \<times> string) list \<Rightarrow> 'u world \<Rightarrow> 'u world" where
  "after_deliveries org ctx v ds w =
    w\<lparr>w_chans := map (\<lambda>n. (w_chans w ! n)\<lparr>ch_queue := ch_queue (w_chans w ! n) @ inbox w ctx v ds n\<rparr>)
        [0..<length (w_chans w)],
      w_events := w_events w @ arrivals org w ds\<rparr>"

lemma after_deliveries_Nil [simp]: "after_deliveries org ctx v [] w = w"
  by (simp add: after_deliveries_def inbox_def arrivals_def map_nth)

lemma after_deliveries_sel [simp]:
  "w_agent_txs (after_deliveries org ctx v ds w) = w_agent_txs w"
  "w_agents (after_deliveries org ctx v ds w) = w_agents w"
  "w_connections (after_deliveries org ctx v ds w) = w_connections w"
  "w_external_input_agents (after_deliveries org ctx v ds w) = w_external_input_agents w"
  "length (w_chans (after_deliveries org ctx v ds w)) = length (w_chans w)"
  by (simp_all add: after_deliveries_def)

lemma open_channel_after [simp]:
  "txs_ok w \<Longrightarrow> open_channel (after_deliveries org ctx v ds w) t = open_channel w t"
  by (auto simp: open_channel_def after_deliveries_def txs_ok_def simp del: map_of_eq_Some_iff split: option.split)

lemma txs_ok_after [simp]: "txs_ok (after_deliveries org ctx v ds w) = txs_ok w"
  by (simp add: txs_ok_def)

lemma queued_after [simp]: "queued (after_deliveries org ctx v ds w) es = queued w es"
  by (simp add: queued_def)

lemma after_deliveries_append:
  assumes "txs_ok w"
  shows "after_deliveries org ctx v es (after_deliveries org ctx v ds w) = after_deliveries org ctx v (ds @ es) w"
proof -
  let ?w = "after_deliveries org ctx v ds w"
  have "inbox ?w ctx v es n = inbox w ctx v es n" for n using assms by (simp add: inbox_def)
  moreover have "arrivals org ?w es = arrivals org w es" using assms by (simp add: arrivals_def)
  ultimately show ?thesis
    by (simp add: after_deliveries_def inbox_def arrivals_def)
qed

lemma deliver_one:
  assumes "txs_ok w" and "queued w [(t, tp)]"
  shows "deliver I org ctx v (t, tp) w = after_deliveries org ctx v [(t, tp)] w"
proof (cases "map_of (w_agent_txs w) t")
  case None
  with assms(2) have "strip_prefix ''config:'' tp = None" by (simp add: queued_def strip_prefix_def)
  with None show ?thesis
    by (auto simp: deliver_def agent_input_def input_message_def after_deliveries_def inbox_def
        arrivals_def open_channel_def map_nth split: option.split)
next
  case (Some n)
  with assms(1) have n: "n < length (w_chans w)" by (simp add: txs_ok_def)
  show ?thesis
  proof (cases "ch_closed (w_chans w ! n)")
    case True
    with Some show ?thesis
      by (simp add: deliver_def agent_input_def agent_send_def chan_send_def after_deliveries_def
          inbox_def arrivals_def open_channel_def map_nth)
  next
    case False
    let ?c = "(w_chans w ! n)\<lparr>ch_queue := ch_queue (w_chans w ! n) @ [input_message ctx tp v]\<rparr>"
    have "map (\<lambda>k. (w_chans w ! k)\<lparr>ch_queue := ch_queue (w_chans w ! k) @ inbox w ctx v [(t, tp)] k\<rparr>)
        [0..<length (w_chans w)] = (w_chans w)[n := ?c]"
      using Some False n
      by (intro nth_equalityI) (auto simp: inbox_def open_channel_def nth_list_update)
    then show ?thesis
      using Some False
      by (simp add: deliver_def agent_input_def agent_send_def chan_send_def after_deliveries_def
          arrivals_def open_channel_def set_chan_def notify_def)
  qed
qed

lemma queued_Cons: "queued w (d # ds) \<longleftrightarrow> queued w [d] \<and> queued w ds"
  by (auto simp: queued_def)

lemma queued_append: "queued w (ds @ es) \<longleftrightarrow> queued w ds \<and> queued w es"
  by (auto simp: queued_def)

lemma fold_deliver:
  "txs_ok w \<Longrightarrow> queued w ds \<Longrightarrow> fold (deliver I org ctx v) ds w = after_deliveries org ctx v ds w"
proof (induction ds arbitrary: w)
  case (Cons d ds)
  then have "queued w [d]" "queued w ds" by (simp_all add: queued_Cons [of w d ds])
  moreover obtain t tp where "d = (t, tp)" by (cases d)
  ultimately show ?case
    using Cons by (simp add: deliver_one after_deliveries_append)
qed simp

lemma fold_deliver_out:
  "txs_ok w \<Longrightarrow> queued w [(t, tp). (t, sp, tp) \<leftarrow> ts, sp = port \<and> has_key (w_agents w) t] \<Longrightarrow>
    fold (deliver_out I org ctx port v) ts w =
    after_deliveries org ctx v [(t, tp). (t, sp, tp) \<leftarrow> ts, sp = port \<and> has_key (w_agents w) t] w"
proof (induction ts arbitrary: w)
  case (Cons x ts)
  obtain t sp tp where x: "x = (t, sp, tp)" by (cases x)
  let ?rest = "[(t, tp). (t, sp, tp) \<leftarrow> ts, sp = port \<and> has_key (w_agents w) t]"
  show ?case
  proof (cases "sp = port \<and> has_key (w_agents w) t")
    case True
    then have "queued w ((t, tp) # ?rest)"
      using Cons.prems(2) by (simp add: x)
    then have q: "queued w [(t, tp)]" "queued w ?rest"
      unfolding queued_Cons [of w "(t, tp)" ?rest] by blast+
    from True have "deliver_out I org ctx port v x w = after_deliveries org ctx v [(t, tp)] w"
      using deliver_one [OF Cons.prems(1) q(1)] by (simp add: x deliver_out_def)
    then show ?thesis
      using Cons.prems(1) True q Cons.IH [of "after_deliveries org ctx v [(t, tp)] w"]
      by (simp add: x after_deliveries_append)
  next
    case False
    then have "deliver_out I org ctx port v x w = w" by (auto simp: x deliver_out_def)
    then show ?thesis using False Cons by (auto simp: x)
  qed
qed simp

lemma agent_out_eq:
  assumes "txs_ok w" and "queued w (out_routes source port w)"
  shows "agent_out I org source ctx port v w = after_deliveries org ctx v (out_routes source port w) w"
proof (cases "map_of (w_connections w) source")
  case None
  then show ?thesis by (simp add: agent_out_def out_routes_def unwrap_or_def)
next
  case (Some ts)
  then show ?thesis
    using assms fold_deliver_out [of w port ts I org ctx v]
    by (simp add: agent_out_def out_routes_def unwrap_or_def)
qed

lemma deliver_node_eq:
  "txs_ok w \<Longrightarrow> queued w (node_routes w node) \<Longrightarrow>
    deliver_node I org ctx v node w = after_deliveries org ctx v (node_routes w node) w"
proof (cases "map_of (w_connections w) node")
  case (Some ts)
  assume a: "txs_ok w" "queued w (node_routes w node)"
  have "fold (\<lambda>(t, sp, tp). deliver I org ctx v (t, tp)) ts w =
      fold (deliver I org ctx v) (map (\<lambda>(t, sp, tp). (t, tp)) ts) w"
    by (induction ts arbitrary: w) auto
  moreover have "node_routes w node = map (\<lambda>(t, sp, tp). (t, tp)) ts"
    using Some by (simp add: node_routes_def unwrap_or_def)
  ultimately show ?thesis
    using Some a fold_deliver [of w "node_routes w node" I org ctx v]
    by (simp add: deliver_node_def)
qed (simp add: deliver_node_def node_routes_def unwrap_or_def)

lemma fold_deliver_node:
  "txs_ok w \<Longrightarrow> queued w (concat (map (node_routes w) nodes)) \<Longrightarrow>
    fold (deliver_node I org ctx v) nodes w =
    after_deliveries org ctx v (concat (map (node_routes w) nodes)) w"
proof (induction nodes arbitrary: w)
  case (Cons x nodes)
  have r: "node_routes (after_deliveries org ctx v ds w) = node_routes w" for ds
    by (rule ext) (simp add: node_routes_def)
  show ?case
    using Cons by (simp add: deliver_node_eq queued_append after_deliveries_append r)
qed simp

lemma external_input_eq:
  assumes "txs_ok w" and "queued w (input_routes name w)"
  shows "external_input I org name ctx v w =
    notify org (ExternalOutput name v)
      (after_deliveries org ctx v (input_routes name w)
        (w\<lparr>w_external_values := im_insert name v (w_external_values w)\<rparr>))"
proof -
  let ?w = "w\<lparr>w_external_values := im_insert name v (w_external_values w)\<rparr>"
  have "txs_ok ?w" "input_routes name ?w = input_routes name w"
    using assms by (simp_all add: txs_ok_def input_routes_def node_routes_def cong: map_cong)
  moreover have "queued ?w (input_routes name w)" using assms by (simp add: queued_def)
  moreover have "node_routes ?w = node_routes w" by (rule ext) (simp add: node_routes_def)
  ultimately show ?thesis
    using fold_deliver_node [of ?w "unwrap_or (map_of (w_external_input_agents w) name) []" I org ctx v]
    by (auto simp: external_input_def Let_def input_routes_def unwrap_or_def split: option.splits)
qed

end
