(* ===== verification/Stopping.thy ===== *)
theory Stopping
  imports Presets
begin

text \<open>
  The token tables of modular_agent.rs at work. A started agent holds a child of the token of
  its preset, tagged with the generation of the start; \<open>tokens_ok\<close> says that every token in a
  table or a loop is in the store. The lemmas give the new tokens and the fate of the old
  ones for each operation: what starting a preset spawns, what stopping cancels, when a loop
  may renew its token, and that the table of contexts keeps its live entries.
\<close>

definition tokens_ok :: "'u world \<Rightarrow> bool" where
  "tokens_ok w \<longleftrightarrow>
    (\<forall>p t. map_of (w_preset_tokens w) p = Some t \<longrightarrow> t < length (w_tokens w)) \<and>
    (\<forall>i g t. map_of (w_agent_tokens w) i = Some (g, t) \<longrightarrow> t < length (w_tokens w)) \<and>
    (\<forall>l \<in> set (w_loops w). lp_token l < length (w_tokens w))"

definition tables_distinct :: "'u world \<Rightarrow> bool" where
  "tables_distinct w \<longleftrightarrow> distinct (keys_of (w_agent_txs w)) \<and> distinct (keys_of (w_preset_tokens w)) \<and>
    distinct (keys_of (w_agent_tokens w))"

section \<open>New tokens\<close>

text \<open>The store only grows at the end under the operations that create tokens.\<close>

definition grows :: "token_store \<Rightarrow> token_store \<Rightarrow> bool" where
  "grows ts us \<longleftrightarrow> (\<exists>vs. us = ts @ vs)"

lemma grows_refl [simp]: "grows ts ts" and grows_append [simp]: "grows ts (ts @ vs)"
  by (simp_all add: grows_def)

lemma grows_trans: "grows ts us \<Longrightarrow> grows us vs \<Longrightarrow> grows ts vs"
  by (auto simp: grows_def)

lemma grows_cancelled: "grows ts us \<Longrightarrow> t < length ts \<Longrightarrow> cancelled us t = cancelled ts t"
  by (auto simp: grows_def cancelled_append)

lemma grows_length: "grows ts us \<Longrightarrow> length ts \<le> length us"
  by (auto simp: grows_def)

text \<open>\<open>alive w p\<close>: the preset \<open>p\<close> has a token, and it is not cancelled.\<close>

definition alive :: "'u world \<Rightarrow> string \<Rightarrow> bool" where
  "alive w p \<longleftrightarrow> (\<exists>t. map_of (w_preset_tokens w) p = Some t \<and> t < length (w_tokens w) \<and>
    \<not> cancelled (w_tokens w) t)"

lemma not_cancelled_new [simp]: "\<not> cancelled (ts @ [\<lparr>tk_fired = False, tk_parent = None\<rparr>]) (length ts)"
  by (simp add: cancelled.simps)

lemma cancelled_new_child:
  "p < length ts \<Longrightarrow> cancelled (ts @ [\<lparr>tk_fired = False, tk_parent = Some p\<rparr>]) (length ts) = cancelled ts p"
  using cancelled_child [of p ts] by (simp add: child_token_def)

lemma reset_alive: "alive (reset_preset_token p w) p"
  by (simp add: alive_def reset_preset_token_def new_token_def Let_def)

lemma preset_token_spec:
  assumes "preset_token p w = (w', t)"
  shows "grows (w_tokens w) (w_tokens w')" and "map_of (w_preset_tokens w') p = Some t"
    and "map_of (w_preset_tokens w) p = None \<Longrightarrow> \<not> cancelled (w_tokens w') t \<and> t < length (w_tokens w')"
    and "map_of (w_preset_tokens w) p = Some u \<Longrightarrow> w' = w \<and> t = u"
    and "q \<noteq> p \<Longrightarrow> map_of (w_preset_tokens w') q = map_of (w_preset_tokens w) q"
    and "w' = w\<lparr>w_tokens := w_tokens w', w_preset_tokens := w_preset_tokens w'\<rparr>"
  using assms
  by (auto simp: preset_token_def new_token_def Let_def simp del: map_of_eq_Some_iff split: option.splits)

text \<open>The token of a new start: a child of the preset's token, born in the state of the
  preset's token, under a generation of its own.\<close>

lemma create_agent_token_spec:
  assumes c: "create_agent_token p i w = (w', g, t)" and ok: "tokens_ok w"
  shows "grows (w_tokens w) (w_tokens w')"
    and "g = w_generation w" and "w_generation w' = w_generation w + 1"
    and "map_of (w_agent_tokens w') = (map_of (w_agent_tokens w))(i \<mapsto> (g, t))"
    and "t < length (w_tokens w')"
    and "\<exists>q. map_of (w_preset_tokens w') p = Some q \<and> q < length (w_tokens w') \<and>
      below (w_tokens w') q t \<and> cancelled (w_tokens w') t = cancelled (w_tokens w') q"
    and "\<not> alive w p \<Longrightarrow> map_of (w_preset_tokens w) p = None \<Longrightarrow> alive w' p"
    and "alive w p \<Longrightarrow> alive w' p"
    and "q \<noteq> p \<Longrightarrow> map_of (w_preset_tokens w') q = map_of (w_preset_tokens w) q"
    and "map_of (w_preset_tokens w) p = Some u \<Longrightarrow> map_of (w_preset_tokens w') p = Some u"
    and "w' = w\<lparr>w_generation := w_generation w', w_tokens := w_tokens w',
           w_preset_tokens := w_preset_tokens w', w_agent_tokens := w_agent_tokens w'\<rparr>"
proof -
  obtain w1 q where p: "preset_token p (w\<lparr>w_generation := w_generation w + 1\<rparr>) = (w1, q)"
    by (cases "preset_token p (w\<lparr>w_generation := w_generation w + 1\<rparr>)")
  note s = preset_token_spec [OF p]
  have q: "q < length (w_tokens w1)"
    using s(3,4) ok by (cases "map_of (w_preset_tokens w) p") (auto simp: tokens_ok_def)
  have w': "w' = w1\<lparr>w_tokens := w_tokens w1 @ [\<lparr>tk_fired = False, tk_parent = Some q\<rparr>],
      w_agent_tokens := im_insert i (w_generation w, length (w_tokens w1)) (w_agent_tokens w1)\<rparr>"
    and gt: "g = w_generation w" "t = length (w_tokens w1)"
    using c p by (auto simp: create_agent_token_def child_token_def Let_def)
  have w1: "w_agent_tokens w1 = w_agent_tokens w" "w_generation w1 = w_generation w + 1"
    by (subst s(6), simp)+
  have gr: "grows (w_tokens w1) (w_tokens w')" by (simp add: w')
  show "grows (w_tokens w) (w_tokens w')" using s(1) gr grows_trans by fastforce
  show "g = w_generation w" by (fact gt)
  show "w_generation w' = w_generation w + 1" by (simp add: w' w1)
  show "map_of (w_agent_tokens w') = (map_of (w_agent_tokens w))(i \<mapsto> (g, t))"
    by (simp add: w' w1 gt)
  show "t < length (w_tokens w')" by (simp add: w' gt)
  have "cancelled (w_tokens w') t = cancelled (w_tokens w') q"
    using q by (simp add: w' gt cancelled_new_child cancelled_append)
  moreover have "below (w_tokens w') q t"
    using below_child [OF q] by (simp add: w' gt child_token_def)
  ultimately show "\<exists>q. map_of (w_preset_tokens w') p = Some q \<and> q < length (w_tokens w') \<and>
      below (w_tokens w') q t \<and> cancelled (w_tokens w') t = cancelled (w_tokens w') q"
    using q s(2) by (intro exI [of _ q]) (simp add: w')
  show "alive w' p" if "map_of (w_preset_tokens w) p = None"
    using that s(2,3) q by (simp add: alive_def w' cancelled_append)
  show "alive w' p" if "alive w p"
    using that s(2,4) q by (auto simp: alive_def w' cancelled_append)
  show "map_of (w_preset_tokens w') q = map_of (w_preset_tokens w) q" if "q \<noteq> p" for q
    using s(5) [OF that] by (simp add: w')
  show "map_of (w_preset_tokens w') p = Some u" if "map_of (w_preset_tokens w) p = Some u"
    using s(2,4) that by (simp add: w')
  show "w' = w\<lparr>w_generation := w_generation w', w_tokens := w_tokens w',
           w_preset_tokens := w_preset_tokens w', w_agent_tokens := w_agent_tokens w'\<rparr>"
  proof -
    obtain A B where "w1 = w\<lparr>w_generation := w_generation w + 1, w_tokens := A, w_preset_tokens := B\<rparr>"
      using s(6) by fastforce
    then show ?thesis unfolding w' by simp
  qed
qed

section \<open>Starting\<close>

text \<open>The agents \<open>start_agent\<close> spawns a loop for.\<close>

definition startable :: "string \<Rightarrow> 'u world \<Rightarrow> bool" where
  "startable i w \<longleftrightarrow> (\<exists>h d. map_of (w_agents w) i = Some h \<and>
     map_of (w_defs w) (s_def_name (a_spec (w_objs w ! h))) = Some d \<and> a_status (w_objs w ! h) = Init)"

text \<open>What a start leaves alone.\<close>

definition same_agents :: "'u world \<Rightarrow> 'u world \<Rightarrow> bool" where
  "same_agents w w' \<longleftrightarrow> w_agents w' = w_agents w \<and> w_objs w' = w_objs w \<and> w_defs w' = w_defs w"

lemma startable_same: "same_agents w w' \<Longrightarrow> startable i w' = startable i w"
  by (simp add: same_agents_def startable_def)

lemma start_agent_skip: "\<not> startable i w \<Longrightarrow> fst (start_agent i w) = w"
  by (auto simp: start_agent_def startable_def Let_def simp del: map_of_eq_Some_iff split: option.split)

lemma start_agent_spec:
  assumes st: "startable i w" and ok: "tokens_ok w"
  obtains w' h l where "start_agent i w = (w', Inr ())" and "map_of (w_agents w) i = Some h"
    and "w_loops w' = w_loops w @ [l]" and "lp_agent_id l = i" and "lp_obj l = h"
    and "lp_preset_id l = a_preset_id (w_objs w ! h)" and "lp_generation l = w_generation w"
    and "lp_phase l = Starting" and "lp_chan l = length (w_chans w)"
    and "w_chans w' = w_chans w @ [chan_new]"
    and "map_of (w_agent_txs w') = (map_of (w_agent_txs w))(i \<mapsto> lp_chan l)"
    and "map_of (w_agent_tokens w') i = Some (lp_generation l, lp_token l)"
    and "same_agents w w'" and "tokens_ok w'" and "grows (w_tokens w) (w_tokens w')"
    and "w_generation w' = w_generation w + 1"
    and "\<And>p. alive w p \<Longrightarrow> alive w' p"
    and "\<exists>q. map_of (w_preset_tokens w') (lp_preset_id l) = Some q \<and> below (w_tokens w') q (lp_token l)"
    and "cancelled (w_tokens w') (lp_token l) \<longleftrightarrow> \<not> alive w' (lp_preset_id l)"
proof -
  from st obtain h d where h: "map_of (w_agents w) i = Some h"
    and d: "map_of (w_defs w) (s_def_name (a_spec (w_objs w ! h))) = Some d"
    and i: "a_status (w_objs w ! h) = Init" by (auto simp: startable_def)
  let ?p = "a_preset_id (w_objs w ! h)"
  let ?w1 = "w\<lparr>w_chans := w_chans w @ [chan_new], w_agent_txs := im_insert i (length (w_chans w)) (w_agent_txs w)\<rparr>"
  obtain w2 g t where c: "create_agent_token ?p i ?w1 = (w2, g, t)"
    by (cases "create_agent_token ?p i ?w1")
  have ok1: "tokens_ok ?w1" using ok by (simp add: tokens_ok_def)
  note s = create_agent_token_spec [OF c ok1]
  define l where "l = \<lparr>lp_agent_id = i, lp_obj = h, lp_chan = length (w_chans w), lp_preset_id = ?p,
    lp_generation = g, lp_token = t, lp_phase = Starting\<rparr>"
  have al: "alive ?w1 p = alive w p" for p by (simp add: alive_def)
  have w2: "w_chans w2 = w_chans w @ [chan_new]" "w_agents w2 = w_agents w" "w_objs w2 = w_objs w"
    "w_defs w2 = w_defs w" "w_agent_txs w2 = im_insert i (length (w_chans w)) (w_agent_txs w)"
    "w_loops w2 = w_loops w"
    by (subst s(11), simp)+
  let ?w' = "spawn_loop l w2"
  have al': "alive ?w' p = alive w2 p" for p by (simp add: alive_def spawn_loop_def)
  have keep: "alive w2 p" if "alive w p" for p
  proof (cases "p = ?p")
    case True then show ?thesis using s(8) that al by simp
  next
    case False
    then show ?thesis
      using that s(1) s(9) [OF False] grows_cancelled [OF s(1)] grows_length [OF s(1)]
      by (fastforce simp: alive_def)
  qed
  have len: "length (w_tokens w) \<le> length (w_tokens w2)" using grows_length [OF s(1)] by simp
  obtain q where q: "map_of (w_preset_tokens w2) ?p = Some q" "q < length (w_tokens w2)"
    "below (w_tokens w2) q t" "cancelled (w_tokens w2) t = cancelled (w_tokens w2) q"
    using s(6) by blast
  have "u < length (w_tokens w2)" if "map_of (w_preset_tokens w2) p = Some u" for p u
    using that q s(9) [of p] ok len by (cases "p = ?p") (fastforce simp: tokens_ok_def)+
  moreover have "u < length (w_tokens w2)" if "map_of (w_agent_tokens w2) j = Some (g', u)" for j g' u
    using that s(4,5) ok len by (cases "j = i") (fastforce simp: tokens_ok_def)+
  moreover have "lp_token k < length (w_tokens w2)" if "k \<in> set (w_loops w2) \<or> k = l" for k
    using that s(5) ok len by (fastforce simp: tokens_ok_def l_def w2)
  ultimately have ok': "tokens_ok ?w'" unfolding tokens_ok_def spawn_loop_def
    by (simp del: map_of_eq_Some_iff)
  have cl: "cancelled (w_tokens ?w') (lp_token l) \<longleftrightarrow> \<not> alive ?w' (lp_preset_id l)"
    using q by (simp add: al' alive_def l_def spawn_loop_def)
  show thesis
  proof (rule that [of ?w' h l])
    show "start_agent i w = (?w', Inr ())"
      using h d i c by (simp add: start_agent_def Let_def l_def)
    show "map_of (w_agent_tokens ?w') i = Some (lp_generation l, lp_token l)"
      using s(4) by (simp add: spawn_loop_def l_def)
    show "grows (w_tokens w) (w_tokens ?w')" using s(1) by (simp add: spawn_loop_def)
    show "\<exists>q. map_of (w_preset_tokens ?w') (lp_preset_id l) = Some q \<and> below (w_tokens ?w') q (lp_token l)"
      using q by (simp add: spawn_loop_def l_def)
  qed (use h s(2,3) ok' keep al' cl in \<open>simp_all add: w2 spawn_loop_def l_def same_agents_def\<close>)
qed

lemma same_agents_refl [simp]: "same_agents w w"
  by (simp add: same_agents_def)

lemma same_agents_trans: "same_agents w w1 \<Longrightarrow> same_agents w1 w2 \<Longrightarrow> same_agents w w2"
  by (simp add: same_agents_def)

definition launches :: "agent_spec list \<Rightarrow> 'u world \<Rightarrow> string list" where
  "launches as w = [s_id a. a \<leftarrow> as, \<not> s_disabled a \<and> startable (s_id a) w]"

text \<open>The loop of \<open>Preset::start\<close>: one new loop for each enabled agent at rest, in the order of
  the specification, none of them cancelled when its preset's token is not.\<close>

lemma start_all:
  assumes "tokens_ok w"
  shows "\<exists>ls w'. fold (\<lambda>a w. if s_disabled a then w else fst (start_agent (s_id a) w)) as w = w' \<and>
    w_loops w' = w_loops w @ ls \<and> map lp_agent_id ls = launches as w \<and> tokens_ok w' \<and>
    same_agents w w' \<and> grows (w_tokens w) (w_tokens w') \<and> (\<forall>p. alive w p \<longrightarrow> alive w' p) \<and>
    (\<forall>l \<in> set ls. lp_phase l = Starting \<and>
      (alive w (lp_preset_id l) \<longrightarrow> \<not> cancelled (w_tokens w') (lp_token l)))"
  using assms
proof (induction as arbitrary: w)
  case Nil
  then show ?case by (simp add: launches_def)
next
  case (Cons a as)
  show ?case
  proof (cases "s_disabled a \<or> \<not> startable (s_id a) w")
    case True
    then have "(if s_disabled a then w else fst (start_agent (s_id a) w)) = w"
      using start_agent_skip by auto
    moreover have "launches (a # as) w = launches as w" using True by (auto simp: launches_def)
    ultimately show ?thesis using Cons.IH [OF Cons.prems] by simp
  next
    case False
    then obtain w1 l where st: "fst (start_agent (s_id a) w) = w1"
      and l: "w_loops w1 = w_loops w @ [l]" "lp_agent_id l = s_id a" "lp_phase l = Starting"
      and w1: "same_agents w w1" "tokens_ok w1" "grows (w_tokens w) (w_tokens w1)"
        "\<And>p. alive w p \<Longrightarrow> alive w1 p"
        "cancelled (w_tokens w1) (lp_token l) \<longleftrightarrow> \<not> alive w1 (lp_preset_id l)"
      using start_agent_spec [OF _ Cons.prems] by (metis fst_conv)
    from Cons.IH [OF w1(2)] obtain ls w' where
      f: "fold (\<lambda>a w. if s_disabled a then w else fst (start_agent (s_id a) w)) as w1 = w'"
      and ls: "w_loops w' = w_loops w1 @ ls" "map lp_agent_id ls = launches as w1"
      and w': "tokens_ok w'" "same_agents w1 w'" "grows (w_tokens w1) (w_tokens w')"
        "\<forall>p. alive w1 p \<longrightarrow> alive w' p"
      and all: "\<forall>l \<in> set ls. lp_phase l = Starting \<and>
        (alive w1 (lp_preset_id l) \<longrightarrow> \<not> cancelled (w_tokens w') (lp_token l))"
      by blast
    have t: "lp_token l < length (w_tokens w1)" using w1(2) l(1) by (simp add: tokens_ok_def)
    have "launches (a # as) w = s_id a # launches as w1"
      using False startable_same [OF w1(1)] by (simp add: launches_def)
    moreover have "\<not> cancelled (w_tokens w') (lp_token l)" if "alive w (lp_preset_id l)"
      using that w1(4,5) grows_cancelled [OF w'(3) t] by simp
    ultimately show ?thesis
      using False st f l ls w1 w' all same_agents_trans [OF w1(1) w'(2)] grows_trans [OF w1(3) w'(3)]
      by (intro exI [of _ "l # ls"] exI [of _ w']) auto
  qed
qed

lemma reset_ok: "tokens_ok w \<Longrightarrow> tokens_ok (reset_preset_token p w)"
  by (fastforce simp: tokens_ok_def reset_preset_token_def new_token_def Let_def)

lemma preset_start_spec:
  assumes ok: "tokens_ok w" and p: "w_preset_objs w ! h = p" and r: "\<not> pr_running p"
    and h: "h < length (w_preset_objs w)"
  shows "\<exists>ls. w_loops (preset_start h w) = w_loops w @ ls \<and>
    map lp_agent_id ls = launches (p_agents (pr_spec p)) w \<and>
    tokens_ok (preset_start h w) \<and> alive (preset_start h w) (pr_id p) \<and>
    (\<forall>l \<in> set ls. lp_phase l = Starting \<and>
      (lp_preset_id l = pr_id p \<longrightarrow> \<not> cancelled (w_tokens (preset_start h w)) (lp_token l)))"
proof -
  let ?w1 = "reset_preset_token (pr_id p) (update_preset_obj h (\<lambda>p. p\<lparr>pr_running := True\<rparr>) w)"
  have ok1: "tokens_ok ?w1" by (rule reset_ok) (use ok in \<open>simp add: tokens_ok_def update_preset_obj_def\<close>)
  have l: "w_loops ?w1 = w_loops w"
    by (simp add: reset_preset_token_def update_preset_obj_def Let_def case_prod_beta)
  have "same_agents w ?w1"
    by (simp add: same_agents_def reset_preset_token_def update_preset_obj_def Let_def case_prod_beta)
  then have la: "launches as ?w1 = launches as w" for as
    by (simp add: launches_def startable_same)
  have "preset_start h w =
      fold (\<lambda>a w. if s_disabled a then w else fst (start_agent (s_id a) w)) (p_agents (pr_spec p)) ?w1"
    using r p by (simp add: preset_start_def Let_def)
  with start_all [OF ok1, of "p_agents (pr_spec p)"] reset_alive show ?thesis
    unfolding l la by (metis (no_types, lifting))
qed

section \<open>Stopping\<close>

text \<open>The tables a stop edits, without the callback of the agent.\<close>

definition stop_tables :: "string \<Rightarrow> 'u world \<Rightarrow> 'u world" where
  "stop_tables i w = cancel_agent_token i (send_stop i w)"

lemma send_stop_sel:
  "w_tokens (send_stop i w) = w_tokens w" "w_agent_tokens (send_stop i w) = w_agent_tokens w"
  "w_preset_tokens (send_stop i w) = w_preset_tokens w"
  "w_context_tokens (send_stop i w) = w_context_tokens w" "w_loops (send_stop i w) = w_loops w"
  "w_agent_txs (send_stop i w) =
    (if has_key (w_agent_txs w) i then im_swap_remove i (w_agent_txs w) else w_agent_txs w)"
  by (auto simp: send_stop_def Let_def simp del: map_of_eq_Some_iff split: option.split)

lemma stop_tables_sel:
  "w_preset_tokens (stop_tables i w) = w_preset_tokens w"
  "w_context_tokens (stop_tables i w) = w_context_tokens w" "w_loops (stop_tables i w) = w_loops w"
  "w_agent_txs (stop_tables i w) = w_agent_txs (send_stop i w)"
  "w_agent_tokens (stop_tables i w) =
    (if has_key (w_agent_tokens w) i then im_swap_remove i (w_agent_tokens w) else w_agent_tokens w)"
  "w_tokens (stop_tables i w) =
    (case map_of (w_agent_tokens w) i of None \<Rightarrow> w_tokens w | Some (g, t) \<Rightarrow> cancel (w_tokens w) t)"
  by (auto simp: stop_tables_def cancel_agent_token_def send_stop_sel simp del: map_of_eq_Some_iff
      split: option.split)

lemma stop_tables_lookup:
  assumes "tables_distinct w"
  shows "map_of (w_agent_txs (stop_tables i w)) = (map_of (w_agent_txs w))(i := None)"
    and "map_of (w_agent_tokens (stop_tables i w)) = (map_of (w_agent_tokens w))(i := None)"
    and "tables_distinct (stop_tables i w)"
  using assms unfolding tables_distinct_def
  by (auto simp: stop_tables_sel send_stop_sel fun_eq_iff simp del: map_of_eq_Some_iff)
    (metis not_None_eq surj_pair)

lemma stop_tables_cancelled: "cancelled (w_tokens w) t \<Longrightarrow> cancelled (w_tokens (stop_tables i w)) t"
  by (auto simp: stop_tables_sel cancel_mono split: option.split)

text \<open>The views the facts of this section rest on: the tables and the store of tokens.\<close>

definition token_view :: "'u world \<Rightarrow> _" where
  "token_view w = (w_tokens w, w_preset_tokens w, w_agent_tokens w, w_agent_txs w, w_loops w)"

lemma token_view_sel:
  "token_view w' = token_view w \<Longrightarrow> w_tokens w' = w_tokens w \<and> w_preset_tokens w' = w_preset_tokens w \<and>
    w_agent_tokens w' = w_agent_tokens w \<and> w_agent_txs w' = w_agent_txs w \<and> w_loops w' = w_loops w"
  by (simp add: token_view_def)

lemma obj_frame_token_view: "obj_frame h w w' \<Longrightarrow> token_view w' = token_view w"
  unfolding obj_frame_def core_of_eq token_view_def by simp

context agent_contract
begin

lemma stop_agent_view: "token_view (fst (stop_agent I i w)) = token_view (stop_tables i w)"
  using obj_frame_token_view [OF with_stop_frame]
  by (simp add: stop_agent_def stop_tables_def Let_def split: option.splits)

text \<open>After \<open>stop_agent\<close> the agent has no channel and no token, its token is cancelled with
  everything below it, and nothing that was cancelled comes back.\<close>

lemma stop_agent_spec:
  assumes "tables_distinct w" and "fst (stop_agent I i w) = w'"
  shows "map_of (w_agent_txs w') = (map_of (w_agent_txs w))(i := None)"
    and "map_of (w_agent_tokens w') = (map_of (w_agent_tokens w))(i := None)"
    and "w_preset_tokens w' = w_preset_tokens w" and "w_loops w' = w_loops w"
    and "cancelled (w_tokens w') u \<longleftrightarrow> cancelled (w_tokens w) u \<or>
      (\<exists>g t. map_of (w_agent_tokens w) i = Some (g, t) \<and> below (w_tokens w) t u)"
    and "tables_distinct w'"
proof -
  have v: "w_tokens w' = w_tokens (stop_tables i w)" "w_preset_tokens w' = w_preset_tokens (stop_tables i w)"
    "w_agent_tokens w' = w_agent_tokens (stop_tables i w)" "w_agent_txs w' = w_agent_txs (stop_tables i w)"
    "w_loops w' = w_loops (stop_tables i w)"
    using token_view_sel [OF stop_agent_view [of i w]] assms(2) by simp_all
  note look = stop_tables_lookup [OF assms(1)]
  show "map_of (w_agent_txs w') = (map_of (w_agent_txs w))(i := None)" using v look by simp
  show "map_of (w_agent_tokens w') = (map_of (w_agent_tokens w))(i := None)" using v look by simp
  show "w_preset_tokens w' = w_preset_tokens w" "w_loops w' = w_loops w"
    using v by (simp_all add: stop_tables_sel)
  show "cancelled (w_tokens w') u \<longleftrightarrow> cancelled (w_tokens w) u \<or>
      (\<exists>g t. map_of (w_agent_tokens w) i = Some (g, t) \<and> below (w_tokens w) t u)"
    by (auto simp: v stop_tables_sel cancelled_cancel simp del: map_of_eq_Some_iff split: option.split)
  show "tables_distinct w'"
    using v look(3) by (simp add: tables_distinct_def)
qed

text \<open>The loop of \<open>Preset::stop\<close>.\<close>

lemma stop_all:
  assumes "tables_distinct w"
  shows "\<exists>w'. fold (\<lambda>a w. fst (stop_agent I (s_id a) w)) as w = w' \<and> tables_distinct w' \<and>
    w_loops w' = w_loops w \<and> w_preset_tokens w' = w_preset_tokens w \<and>
    map_of (w_agent_txs w') = map_of (w_agent_txs w) |` (- s_id ` set as) \<and>
    map_of (w_agent_tokens w') = map_of (w_agent_tokens w) |` (- s_id ` set as) \<and>
    (\<forall>t. cancelled (w_tokens w) t \<longrightarrow> cancelled (w_tokens w') t)"
  using assms
proof (induction as arbitrary: w)
  case Nil
  then show ?case by simp
next
  case (Cons a as)
  define w1 where "w1 = fst (stop_agent I (s_id a) w)"
  note s = stop_agent_spec [OF Cons.prems w1_def [symmetric]]
  have r: "m(s_id a := None) |` (- s_id ` set as) = m |` (- s_id ` set (a # as))"
    "n(s_id a := None) |` (- s_id ` set as) = n |` (- s_id ` set (a # as))"
    for m :: "string \<Rightarrow> nat option" and n :: "string \<Rightarrow> (u64 \<times> nat) option"
    by (auto simp: restrict_map_def fun_eq_iff)
  have mono: "cancelled (w_tokens w) t \<Longrightarrow> cancelled (w_tokens w1) t" for t using s(5) by blast
  from Cons.IH [OF s(6)] show ?case
    unfolding s(1,2,3,4) r fold_Cons comp_def w1_def [symmetric] using mono by blast
qed

lemma preset_stop_spec:
  assumes d: "tables_distinct w" and p: "w_preset_objs w ! h = p"
    and t: "map_of (w_preset_tokens w) (pr_id p) = Some t"
  shows "map_of (w_preset_tokens (preset_stop I h w)) = (map_of (w_preset_tokens w))(pr_id p := None)"
    and "map_of (w_agent_txs (preset_stop I h w)) =
      map_of (w_agent_txs w) |` (- s_id ` set (p_agents (pr_spec p)))"
    and "map_of (w_agent_tokens (preset_stop I h w)) =
      map_of (w_agent_tokens w) |` (- s_id ` set (p_agents (pr_spec p)))"
    and "below (w_tokens w) t u \<Longrightarrow> cancelled (w_tokens (preset_stop I h w)) u"
    and "w_loops (preset_stop I h w) = w_loops w"
proof -
  let ?w1 = "cancel_preset_token (pr_id p) w"
  have w1: "?w1 = w\<lparr>w_tokens := cancel (w_tokens w) t\<rparr>" using t by (simp add: cancel_preset_token_def)
  have d1: "tables_distinct ?w1" using d by (simp add: w1 tables_distinct_def)
  obtain w2 where w2: "fold (\<lambda>a w. fst (stop_agent I (s_id a) w)) (p_agents (pr_spec p)) ?w1 = w2"
    and s: "tables_distinct w2" "w_loops w2 = w_loops ?w1" "w_preset_tokens w2 = w_preset_tokens ?w1"
    "map_of (w_agent_txs w2) = map_of (w_agent_txs ?w1) |` (- s_id ` set (p_agents (pr_spec p)))"
    "map_of (w_agent_tokens w2) = map_of (w_agent_tokens ?w1) |` (- s_id ` set (p_agents (pr_spec p)))"
    "\<forall>t. cancelled (w_tokens ?w1) t \<longrightarrow> cancelled (w_tokens w2) t"
    using stop_all [OF d1] by blast
  have e: "preset_stop I h w = update_preset_obj h (\<lambda>p. p\<lparr>pr_running := False\<rparr>) (remove_preset_token (pr_id p) w2)"
    using p w2 by (simp add: preset_stop_def Let_def)
  show "map_of (w_preset_tokens (preset_stop I h w)) = (map_of (w_preset_tokens w))(pr_id p := None)"
    using d by (simp add: e update_preset_obj_def remove_preset_token_def s w1 tables_distinct_def fun_eq_iff)
  show "map_of (w_agent_txs (preset_stop I h w)) =
      map_of (w_agent_txs w) |` (- s_id ` set (p_agents (pr_spec p)))"
    "map_of (w_agent_tokens (preset_stop I h w)) =
      map_of (w_agent_tokens w) |` (- s_id ` set (p_agents (pr_spec p)))"
    "w_loops (preset_stop I h w) = w_loops w"
    using s by (simp_all add: e update_preset_obj_def remove_preset_token_def w1)
  show "cancelled (w_tokens (preset_stop I h w)) u" if "below (w_tokens w) t u"
    using s(6) that by (simp add: e update_preset_obj_def remove_preset_token_def w1 cancelled_cancel)
qed

end

section \<open>Renewal\<close>

text \<open>A loop gets a new token exactly when its preset still has one and the slot of its agent
  still carries its generation; otherwise the slot stays as it is.\<close>

lemma renew_iff:
  "snd (renew_agent_token p i g w) \<noteq> None \<longleftrightarrow>
    has_key (w_preset_tokens w) p \<and> (\<exists>t. map_of (w_agent_tokens w) i = Some (g, t))"
  by (auto simp: renew_agent_token_def child_token_def Let_def simp del: map_of_eq_Some_iff
      split: option.splits)

lemma renew_none:
  "snd (renew_agent_token p i g w) = None \<Longrightarrow>
    w_agent_tokens (fst (renew_agent_token p i g w)) = w_agent_tokens w"
  by (auto simp: renew_agent_token_def child_token_def Let_def simp del: map_of_eq_Some_iff
      split: option.splits if_splits)

lemma renew_some:
  assumes r: "renew_agent_token p i g w = (w', Some t)" and ok: "tokens_ok w"
  shows "map_of (w_agent_tokens w') = (map_of (w_agent_tokens w))(i \<mapsto> (g, t))"
    and "t = length (w_tokens w)" and "cancelled (w_tokens w') t \<longleftrightarrow> \<not> alive w p"
    and "grows (w_tokens w) (w_tokens w')" and "tokens_ok w'"
proof -
  from r obtain q u where q: "map_of (w_preset_tokens w) p = Some q"
    and u: "map_of (w_agent_tokens w) i = Some (g, u)"
    and t: "t = length (w_tokens w)"
    and w': "w' = w\<lparr>w_tokens := w_tokens w @ [\<lparr>tk_fired = False, tk_parent = Some q\<rparr>],
      w_agent_tokens := im_insert i (g, t) (w_agent_tokens w)\<rparr>"
    by (auto simp: renew_agent_token_def child_token_def Let_def simp del: map_of_eq_Some_iff
        split: option.splits if_splits)
  have ql: "q < length (w_tokens w)" using q ok by (simp add: tokens_ok_def)
  show "map_of (w_agent_tokens w') = (map_of (w_agent_tokens w))(i \<mapsto> (g, t))" by (simp add: w')
  show "t = length (w_tokens w)" by (fact t)
  show "cancelled (w_tokens w') t \<longleftrightarrow> \<not> alive w p"
    using q ql by (auto simp: w' t cancelled_new_child alive_def)
  show "grows (w_tokens w) (w_tokens w')" by (simp add: w')
  show "tokens_ok w'"
    using ok by (fastforce simp: tokens_ok_def w' t split: if_splits)
qed

section \<open>Contexts\<close>

lemma upgrade_Some: "upgrade live x = Some t \<longleftrightarrow> x = Some t \<and> live t"
  by (auto simp: upgrade_def split: option.splits)

text \<open>The token of a context: the live one, or a new one that is not cancelled; the entries of
  the other contexts that are alive stay, pruning included.\<close>

lemma context_token_spec:
  assumes r: "context_token live c w = (w', t)" and d: "distinct (keys_of (w_context_tokens w))"
  shows "map_of (w_context_tokens w') c = Some t"
    and "upgrade live (map_of (w_context_tokens w) c) = Some u \<Longrightarrow> w' = w \<and> t = u"
    and "upgrade live (map_of (w_context_tokens w) c) = None \<Longrightarrow>
      t = length (w_tokens w) \<and> \<not> cancelled (w_tokens w') t"
    and "c' \<noteq> c \<Longrightarrow> upgrade live (map_of (w_context_tokens w') c') = upgrade live (map_of (w_context_tokens w) c')"
    and "distinct (keys_of (w_context_tokens w'))"
    and "grows (w_tokens w) (w_tokens w')"
proof -
  let ?m = "if CONTEXT_TOKEN_PRUNE_THRESHOLD \<le> length (w_context_tokens w)
    then im_retain (\<lambda>k t. live t) (w_context_tokens w) else w_context_tokens w"
  have m: "upgrade live (map_of ?m c') = upgrade live (map_of (w_context_tokens w) c')" for c'
    by (auto simp: map_of_im_retain [OF d] upgrade_def simp del: map_of_eq_Some_iff split: option.splits)
  have dm: "distinct (keys_of ?m)" using d by simp
  consider (old) u where "upgrade live (map_of (w_context_tokens w) c) = Some u" "w' = w" "t = u"
    | (new) "upgrade live (map_of (w_context_tokens w) c) = None" "t = length (w_tokens w)"
      "w' = w\<lparr>w_tokens := w_tokens w @ [\<lparr>tk_fired = False, tk_parent = None\<rparr>],
        w_context_tokens := im_insert c t ?m\<rparr>"
    using r by (auto simp: context_token_def new_token_def Let_def split: option.splits)
  note cases = this
  show "map_of (w_context_tokens w') c = Some t"
    using cases by cases (auto simp: upgrade_Some)
  show "w' = w \<and> t = u" if "upgrade live (map_of (w_context_tokens w) c) = Some u"
    using cases that by cases simp_all
  show "t = length (w_tokens w) \<and> \<not> cancelled (w_tokens w') t"
    if "upgrade live (map_of (w_context_tokens w) c) = None"
    using cases that by cases simp_all
  show "upgrade live (map_of (w_context_tokens w') c') = upgrade live (map_of (w_context_tokens w) c')"
    if "c' \<noteq> c"
    using cases by cases (simp_all only: m, simp_all add: that m del: map_of_eq_Some_iff)
  show "distinct (keys_of (w_context_tokens w'))" using cases d dm by cases simp_all
  show "grows (w_tokens w) (w_tokens w')" using cases by cases simp_all
qed

end
