(* ===== verification/Batch.thy ===== *)
theory Batch
  imports Presets
begin

text \<open>
  \<open>add_agents_and_connections\<close> of modular_agent.rs as a transaction. The two loops are
  described by what they append to the tables and to the specification of the preset; undoing
  them in the order of the code restores every lookup and the specification, whatever the
  point of failure.
\<close>

section \<open>Sequences of connections\<close>

definition targets_from :: "string \<Rightarrow> connection_spec list \<Rightarrow> connection_target list" where
  "targets_from s cs = [conn_target c. c \<leftarrow> cs, c_source c = s]"

definition non_empty :: "'a list \<Rightarrow> 'a list option" where
  "non_empty xs = (if xs = [] then None else Some xs)"

definition row :: "connection_table \<Rightarrow> string \<Rightarrow> connection_target list" where
  "row m s = unwrap_or (map_of m s) []"

lemma lookup_row: "conns_wf m \<Longrightarrow> map_of m s = non_empty (row m s)"
  by (auto simp: row_def non_empty_def unwrap_or_def conns_wf_lookup simp del: map_of_eq_Some_iff
      split: option.split)

lemma row_add: "conn_add c m = Inr m' \<Longrightarrow> row m' s = row m s @ targets_from s [c]"
  by (auto simp: conn_add_eq row_def unwrap_or_def targets_from_def simp del: map_of_eq_Some_iff
      split: option.splits if_splits)

lemma row_remove: "conns_wf m \<Longrightarrow>
    row (conn_remove c m) s = filter (\<lambda>x. x \<notin> set (targets_from s [c])) (row m s)"
  by (auto simp: conn_remove_lookup row_def unwrap_or_def targets_from_def Let_def
      simp del: map_of_eq_Some_iff split: option.splits)

lemma targets_from_Cons: "targets_from s (c # cs) = targets_from s [c] @ targets_from s cs"
  by (simp add: targets_from_def)

lemma fold_conn_remove:
  "conns_wf m \<Longrightarrow> conns_wf (fold conn_remove cs m) \<and>
    row (fold conn_remove cs m) s = filter (\<lambda>x. x \<notin> set (targets_from s cs)) (row m s)"
proof (induction cs arbitrary: m)
  case Nil
  then show ?case by (simp add: targets_from_def)
next
  case (Cons c cs)
  have "filter (\<lambda>x. x \<notin> set (targets_from s cs)) (filter (\<lambda>x. x \<notin> set (targets_from s [c])) xs) =
      filter (\<lambda>x. x \<notin> set (targets_from s (c # cs))) xs" for xs
    by (auto simp: targets_from_Cons [of s c cs] intro: filter_cong)
  with Cons.IH [OF conn_remove_wf [OF Cons.prems]] show ?case
    using Cons.prems by (simp add: row_remove)
qed

lemma mem_edges_row: "c \<in> edges m \<longleftrightarrow> conn_target c \<in> set (row m (c_source c))"
  by (cases "map_of m (c_source c)") (simp_all add: edges_def row_def unwrap_or_def)

section \<open>The loops\<close>

definition with_agents :: "agent_spec list \<Rightarrow> preset_spec \<Rightarrow> preset_spec" where
  "with_agents as s = s\<lparr>p_agents := p_agents s @ as\<rparr>"

definition with_connections :: "connection_spec list \<Rightarrow> preset_spec \<Rightarrow> preset_spec" where
  "with_connections cs s = s\<lparr>p_connections := p_connections s @ cs\<rparr>"

lemma spec_of_update [simp]:
  "h < length (w_preset_objs w) \<Longrightarrow>
    spec_of h (update_preset_obj h (map_spec f) w) = f (spec_of h w)"
  by (simp add: spec_of_def update_preset_obj_def map_spec_def)

lemma update_preset_obj_sel [simp]:
  "w_agents (update_preset_obj h f w) = w_agents w" "w_objs (update_preset_obj h f w) = w_objs w"
  "w_connections (update_preset_obj h f w) = w_connections w"
  "length (w_preset_objs (update_preset_obj h f w)) = length (w_preset_objs w)"
  "w_presets (update_preset_obj h f w) = w_presets w"
  by (simp_all add: update_preset_obj_def)

lemma add_connections_loop_spec:
  assumes "add_connections_loop h cs w = (w', m, err)" and "conns_wf (w_connections w)"
    and "h < length (w_preset_objs w)"
  shows "m \<le> length cs \<and> (err = None \<longleftrightarrow> m = length cs) \<and>
    w_agents w' = w_agents w \<and> w_objs w' = w_objs w \<and> length (w_preset_objs w') = length (w_preset_objs w) \<and>
    conns_wf (w_connections w') \<and> (\<forall>s. row (w_connections w') s = row (w_connections w) s @ targets_from s (take m cs)) \<and>
    edges (w_connections w') = edges (w_connections w) \<union> set (take m cs) \<and>
    set (take m cs) \<inter> edges (w_connections w) = {} \<and> distinct (take m cs) \<and>
    spec_of h w' = with_connections (take m cs) (spec_of h w) \<and>
    (err \<noteq> None \<longrightarrow> err = Some ConnectionAlreadyExists)"
  using assms
proof (induction cs arbitrary: w m)
  case Nil
  then show ?case by (auto simp: targets_from_def with_connections_def)
next
  case (Cons c cs)
  show ?case
  proof (cases "conn_add c (w_connections w)")
    case (Inl e)
    then show ?thesis
      using Cons.prems conn_add_error [OF Inl]
      by (auto simp: add_connection_internal_def targets_from_def with_connections_def)
  next
    case (Inr t)
    let ?w1 = "update_preset_obj h (map_spec (preset_add_connection c)) (w\<lparr>w_connections := t\<rparr>)"
    obtain k where r: "add_connections_loop h cs ?w1 = (w', k, err)" and m: "m = Suc k"
      using Cons.prems(1) Inr by (auto simp: add_connection_internal_def Let_def split: prod.splits)
    have new: "c \<notin> edges (w_connections w)"
      using conn_add_ok_iff [of c "w_connections w"] Inr by simp
    have wf1: "conns_wf t" using conn_add_wf [OF Cons.prems(2) Inr] .
    have h1: "conns_wf (w_connections ?w1)" "h < length (w_preset_objs ?w1)"
      using wf1 Cons.prems(3) by simp_all
    note IH = Cons.IH [OF r h1]
    have sp: "spec_of h ?w1 = preset_add_connection c (spec_of h w)"
      using Cons.prems(3) by (simp add: spec_of_def update_preset_obj_def map_spec_def)
    have rows: "row (w_connections w') s = row (w_connections w) s @ targets_from s (take m (c # cs))" for s
      using IH row_add [OF Inr, of s] by (simp add: m targets_from_Cons [of s c "take k cs"])
    have spec: "spec_of h w' = with_connections (take m (c # cs)) (spec_of h w)"
      using IH sp by (simp add: m with_connections_def preset_add_connection_def)
    show ?thesis
      unfolding spec using IH new rows conn_add_edges [OF Inr] by (auto simp: m)
  qed
qed

context agent_contract
begin

lemma add_agent_internal_spec:
  assumes "add_agent_internal I p s w = (w', r)"
  shows "(case r of
      Inl e \<Rightarrow> w_agents w' = w_agents w \<and> w_objs w' = w_objs w
    | Inr c \<Rightarrow> map_of (w_agents w) (s_id s) = None \<and> s_id c = s_id s \<and>
        w_agents w' = im_insert (s_id s) (length (w_objs w)) (w_agents w) \<and>
        (\<exists>a. w_objs w' = w_objs w @ [a] \<and> a_spec a = c \<and> a_preset_id a = p \<and> a_id a = s_id s)) \<and>
    w_connections w' = w_connections w \<and> w_preset_objs w' = w_preset_objs w \<and> w_presets w' = w_presets w"
proof (cases "has_key (w_agents w) (s_id s)")
  case True
  then show ?thesis using assms by (auto simp: add_agent_internal_def)
next
  case False
  obtain w1 x where n: "agent_new I (s_id s) s w = (w1, x)" by (cases "agent_new I (s_id s) s w")
  have c: "core_of w1 = core_of w" by (rule agent_new_frame [OF n])
  show ?thesis
  proof (cases x)
    case (Inl e)
    then show ?thesis using assms n False c by (auto simp: add_agent_internal_def core_of_eq)
  next
    case (Inr a)
    with agent_new_ident [of "s_id s" s w w1 a] n have "a_id a = s_id s \<and> s_id (a_spec a) = s_id s" by simp
    then show ?thesis using assms n False Inr c by (auto simp: add_agent_internal_def core_of_eq)
  qed
qed

lemma add_agents_loop_spec:
  assumes "add_agents_loop I p h ss w = (w', cs, err)"
    and "distinct (keys_of (w_agents w))" and "h < length (w_preset_objs w)"
  shows "length cs \<le> length ss \<and> (err = None \<longleftrightarrow> length cs = length ss) \<and>
    map s_id cs = map s_id (take (length cs) ss) \<and> distinct (map s_id cs) \<and>
    (\<forall>c \<in> set cs. map_of (w_agents w) (s_id c) = None) \<and>
    distinct (keys_of (w_agents w')) \<and>
    (\<forall>i. i \<notin> s_id ` set cs \<longrightarrow> map_of (w_agents w') i = map_of (w_agents w) i) \<and>
    (\<forall>c \<in> set cs. \<exists>k. map_of (w_agents w') (s_id c) = Some k \<and> k < length (w_objs w') \<and>
      a_spec (w_objs w' ! k) = c \<and> a_preset_id (w_objs w' ! k) = p) \<and>
    (\<exists>os. w_objs w' = w_objs w @ os) \<and>
    w_connections w' = w_connections w \<and> w_presets w' = w_presets w \<and>
    length (w_preset_objs w') = length (w_preset_objs w) \<and>
    spec_of h w' = with_agents cs (spec_of h w)"
  using assms
proof (induction ss arbitrary: w cs)
  case Nil
  then show ?case by (auto simp: with_agents_def)
next
  case (Cons s ss)
  obtain w1 r where a: "add_agent_internal I p s w = (w1, r)" by (cases "add_agent_internal I p s w")
  note A = add_agent_internal_spec [OF a]
  show ?case
  proof (cases r)
    case (Inl e)
    then show ?thesis using Cons.prems a A by (auto simp: with_agents_def spec_of_def)
  next
    case (Inr c)
    let ?w1 = "update_preset_obj h (map_spec (preset_add_agent c)) w1"
    obtain ds where r: "add_agents_loop I p h ss ?w1 = (w', ds, err)" and cs: "cs = c # ds"
      using Cons.prems(1) a Inr by (auto simp: Let_def split: prod.splits)
    from A Inr have new: "map_of (w_agents w) (s_id s) = None" "s_id c = s_id s"
      "w_agents w1 = im_insert (s_id s) (length (w_objs w)) (w_agents w)"
      "w_connections w1 = w_connections w" "w_preset_objs w1 = w_preset_objs w" "w_presets w1 = w_presets w"
      by simp_all
    from A Inr obtain o1 where o1: "w_objs w1 = w_objs w @ [o1]" "a_spec o1 = c" "a_preset_id o1 = p"
      by auto
    have pre: "distinct (keys_of (w_agents ?w1))" "h < length (w_preset_objs ?w1)"
      using Cons.prems(2,3) new by simp_all
    note IH = Cons.IH [OF r pre]
    have sp: "spec_of h ?w1 = preset_add_agent c (spec_of h w)"
      using Cons.prems(3) new by (simp add: spec_of_def update_preset_obj_def map_spec_def)
    have spec: "spec_of h w' = with_agents cs (spec_of h w)"
      using IH sp by (simp add: cs with_agents_def preset_add_agent_def)
    have fresh: "map_of (w_agents w) (s_id d) = None \<and> s_id d \<noteq> s_id s" if "d \<in> set ds" for d
      using IH that new(3) by (auto split: if_splits)
    have mine: "map_of (w_agents w') (s_id c) = Some (length (w_objs w))"
      using IH fresh new(2,3) by (metis fun_upd_same imageE map_of_im_insert update_preset_obj_sel(1))
    moreover have obj: "length (w_objs w) < length (w_objs w') \<and> w_objs w' ! length (w_objs w) = o1"
      using IH o1 by (auto simp: nth_append)
    ultimately have "\<exists>k. map_of (w_agents w') (s_id c) = Some k \<and> k < length (w_objs w') \<and>
        a_spec (w_objs w' ! k) = c \<and> a_preset_id (w_objs w' ! k) = p"
      using o1 by blast
    then have all: "\<forall>c \<in> set cs. \<exists>k. map_of (w_agents w') (s_id c) = Some k \<and> k < length (w_objs w') \<and>
        a_spec (w_objs w' ! k) = c \<and> a_preset_id (w_objs w' ! k) = p"
      using IH by (simp add: cs del: map_of_eq_Some_iff)
    have grow: "\<exists>os. w_objs w' = w_objs w @ os" using IH o1 by auto
    have keep: "\<forall>i. i \<notin> s_id ` set cs \<longrightarrow> map_of (w_agents w') i = map_of (w_agents w) i"
      using IH new(2,3) by (simp add: cs del: map_of_eq_Some_iff)
    have none: "\<forall>d \<in> set cs. map_of (w_agents w) (s_id d) = None" using fresh new by (simp add: cs)
    have "s_id c \<notin> s_id ` set ds" using fresh new(2) by force
    moreover have "distinct (map s_id ds)" using IH by blast
    ultimately have dist: "distinct (map s_id cs)" by (simp add: cs)
    show ?thesis
      using IH spec all grow keep none dist new by (simp add: cs del: map_of_eq_Some_iff)
  qed
qed

end

section \<open>Rollback\<close>

lemma undo_connections:
  assumes "h < length (w_preset_objs w)"
  shows "w_connections (fold (undo_connection h) cs w) = fold conn_remove cs (w_connections w) \<and>
    w_agents (fold (undo_connection h) cs w) = w_agents w \<and>
    length (w_preset_objs (fold (undo_connection h) cs w)) = length (w_preset_objs w) \<and>
    spec_of h (fold (undo_connection h) cs w) = fold (\<lambda>c s. fst (preset_remove_connection c s)) cs (spec_of h w)"
  using assms
proof (induction cs arbitrary: w)
  case (Cons c cs)
  have "w_connections (undo_connection h c w) = conn_remove c (w_connections w)"
    "w_agents (undo_connection h c w) = w_agents w"
    "length (w_preset_objs (undo_connection h c w)) = length (w_preset_objs w)"
    "spec_of h (undo_connection h c w) = fst (preset_remove_connection c (spec_of h w))"
    using Cons.prems by (simp_all add: undo_connection_def remove_connection_internal_def spec_of_def
        update_preset_obj_def map_spec_def)
  then show ?case using Cons by simp
qed simp

lemma undo_agents:
  assumes "h < length (w_preset_objs w)" and "distinct (keys_of (w_agents w))"
  shows "w_connections (fold (\<lambda>a. undo_agent h (s_id a)) as w) = w_connections w \<and>
    map_of (w_agents (fold (\<lambda>a. undo_agent h (s_id a)) as w)) = map_of (w_agents w) |` (- s_id ` set as) \<and>
    spec_of h (fold (\<lambda>a. undo_agent h (s_id a)) as w) =
      (spec_of h w)\<lparr>p_agents := filter (\<lambda>a. s_id a \<notin> s_id ` set as) (p_agents (spec_of h w))\<rparr>"
  using assms
proof (induction as arbitrary: w)
  case (Cons a as)
  let ?w1 = "undo_agent h (s_id a) w"
  have u: "w_connections ?w1 = w_connections w" "w_agents ?w1 = im_swap_remove (s_id a) (w_agents w)"
    "length (w_preset_objs ?w1) = length (w_preset_objs w)"
    "spec_of h ?w1 = preset_remove_agent (s_id a) (spec_of h w)"
    using Cons.prems by (simp_all add: undo_agent_def Let_def spec_of_def update_preset_obj_def map_spec_def)
  have pre: "h < length (w_preset_objs ?w1)" "distinct (keys_of (w_agents ?w1))"
    using Cons.prems u by simp_all
  have f: "filter P (filter Q xs) = filter (\<lambda>x. Q x \<and> P x) xs" for P Q and xs :: "agent_spec list"
    by (simp add: conj_commute)
  show ?case
    using Cons.IH [OF pre] Cons.prems(2) u
    by (auto simp: preset_remove_agent_def f restrict_map_def fun_eq_iff cong: filter_cong)
qed (simp add: restrict_map_def)

lemma filter_undone: "set xs \<inter> set ys = {} \<Longrightarrow> filter (\<lambda>x. x \<notin> set ys) (xs @ ys) = xs"
  by (auto simp: filter_empty_conv intro: filter_True)

lemma fold_remove1_undone:
  "distinct cs \<Longrightarrow> set (p_connections s) \<inter> set cs = {} \<Longrightarrow>
    fold (\<lambda>c s. fst (preset_remove_connection c s)) cs (with_connections cs s) = s"
proof (induction cs arbitrary: s)
  case (Cons c cs)
  have "remove1 c (p_connections s @ c # cs) = p_connections s @ cs"
    using Cons.prems by (simp add: remove1_append)
  then have "fst (preset_remove_connection c (with_connections (c # cs) s)) = with_connections cs s"
    by (simp add: preset_remove_connection_def with_connections_def)
  then show ?case using Cons by simp
qed (simp add: with_connections_def)

lemma update_ids_ids:
  assumes "update_ids n as cs = (as', cs', n')" and "a \<in> set as'"
  shows "\<exists>i < length as. s_id a = usize_to_string (n + word_of_nat i)"
proof -
  obtain ids m where r: "update_agent_ids n [] as = (as', ids, m)"
    using assms(1) by (auto simp: update_ids_def Let_def split: prod.splits)
  from assms(2) obtain i where i: "i < length as'" "a = as' ! i" by (auto simp: in_set_conv_nth)
  then show ?thesis
    using update_agent_ids_id [OF r] update_agent_ids_props [OF r] by auto
qed

lemma disjoint_filter: "set xs \<inter> set ys = {} \<Longrightarrow> filter (\<lambda>x. x \<notin> set ys) (xs @ ys) = xs"
  by (rule filter_undone)

text \<open>Rolling back what the two loops did.\<close>

lemma undo_batch:
  assumes wf: "conns_wf m" and row': "\<And>s. row m' s = row m s @ targets_from s cs"
    and new: "set cs \<inter> edges m = {}" and wf': "conns_wf m'"
  shows "map_of (fold conn_remove cs m') = map_of m"
proof
  fix s
  have "set (row m s) \<inter> set (targets_from s cs) = {}"
    using new by (auto simp: targets_from_def mem_edges_row)
  then have "row (fold conn_remove cs m') s = row m s"
    using fold_conn_remove [OF wf', of cs s] filter_undone [of "row m s" "targets_from s cs"]
    by (simp only: row')
  then show "map_of (fold conn_remove cs m') s = map_of m s"
    using fold_conn_remove [OF wf', of cs s] lookup_row wf by metis
qed

context agent_contract
begin

lemma batch_failure:
  assumes r: "add_agents_and_connections I org p as cs w = (w', Inl e)"
    and d: "distinct (keys_of (w_agents w))" and wf: "conns_wf (w_connections w)"
    and h: "get_preset p w = Some h" "h < length (w_preset_objs w)"
    and sync: "set (p_connections (spec_of h w)) \<subseteq> edges (w_connections w)"
    and fresh: "\<forall>a \<in> set (p_agents (spec_of h w)). \<forall>i < length as. s_id a \<noteq> usize_to_string (w_ids w + word_of_nat i)"
  shows "map_of (w_agents w') = map_of (w_agents w)" and "map_of (w_connections w') = map_of (w_connections w)"
    and "spec_of h w' = spec_of h w"
proof -
  obtain as' cs' n where u: "update_ids (w_ids w) as cs = (as', cs', n)"
    by (cases "update_ids (w_ids w) as cs")
  let ?w1 = "w\<lparr>w_ids := n\<rparr>"
  obtain w2 built err where l1: "add_agents_loop I p h as' ?w1 = (w2, built, err)"
    by (cases "add_agents_loop I p h as' ?w1")
  obtain w3 m err' where l2: "(if err = None then add_connections_loop h cs' w2 else (w2, 0, err)) = (w3, m, err')"
    by (cases "if err = None then add_connections_loop h cs' w2 else (w2, 0, err)")
  have h1: "map_of (w_presets w) p = Some h" using h by (simp add: get_preset_def)
  have w': "w' = rollback_batch h (take (length built) as') (take m cs') w3"
    using r by (auto simp: add_agents_and_connections_def u h1 l1 l2 Let_def split: option.splits)
  note A = add_agents_loop_spec [OF l1, simplified, OF d h(2)]
  have pre: "conns_wf (w_connections w2)" "h < length (w_preset_objs w2)" using A wf h by simp_all
  have C: "w_agents w3 = w_agents w2 \<and> length (w_preset_objs w3) = length (w_preset_objs w2) \<and>
    conns_wf (w_connections w3) \<and>
    (\<forall>s. row (w_connections w3) s = row (w_connections w2) s @ targets_from s (take m cs')) \<and>
    set (take m cs') \<inter> edges (w_connections w2) = {} \<and> distinct (take m cs') \<and>
    spec_of h w3 = with_connections (take m cs') (spec_of h w2)"
  proof (cases "err = None")
    case True
    then show ?thesis using add_connections_loop_spec [OF _ pre, of cs' w3 m err'] l2 by simp
  next
    case False
    then show ?thesis using l2 pre by (auto simp: targets_from_def with_connections_def)
  qed
  let ?w4 = "fold (undo_connection h) (take m cs') w3"
  have h3: "h < length (w_preset_objs w3)" using C pre by simp
  note U = undo_connections [OF h3, of "take m cs'"]
  have "map_of (w_connections ?w4) = map_of (w_connections w)"
    using undo_batch [of "w_connections w2" "w_connections w3" "take m cs'"] C U A pre by simp
  moreover have h4: "h < length (w_preset_objs ?w4)" "distinct (keys_of (w_agents ?w4))"
    using U C A pre by simp_all
  note V = undo_agents [OF h4, of "take (length built) as'"]
  have w'4: "w' = fold (\<lambda>a. undo_agent h (s_id a)) (take (length built) as') ?w4"
    by (simp add: w' rollback_batch_def)
  ultimately show "map_of (w_connections w') = map_of (w_connections w)" using V by simp
  have "map s_id built = map s_id (take (length built) as')" using A by blast
  then have ids: "s_id ` set (take (length built) as') = s_id ` set built" by (metis list.set_map)
  show "map_of (w_agents w') = map_of (w_agents w)"
  proof
    fix i
    have "map_of (w_agents w') i = (if i \<in> s_id ` set built then None else map_of (w_agents w2) i)"
      using V U C by (simp add: w'4 ids restrict_map_def)
    then show "map_of (w_agents w') i = map_of (w_agents w) i" using A by auto
  qed
  have sp4: "spec_of h ?w4 = with_agents built (spec_of h w)"
  proof -
    have "set (p_connections (spec_of h w2)) \<inter> set (take m cs') = {}"
      using C A sync by (auto simp: with_agents_def spec_of_def)
    then have "spec_of h ?w4 = spec_of h w2"
      using U C fold_remove1_undone [of "take m cs'" "spec_of h w2"] by simp
    then show ?thesis using A by (simp add: spec_of_def)
  qed
  have old: "s_id a \<notin> s_id ` set built" if "a \<in> set (p_agents (spec_of h w))" for a
  proof
    assume "s_id a \<in> s_id ` set built"
    then obtain b where "b \<in> set (take (length built) as')" "s_id b = s_id a" using ids by force
    then show False using update_ids_ids [OF u, of b] fresh that in_set_takeD by metis
  qed
  have f: "filter (\<lambda>a. s_id a \<notin> s_id ` set built) (p_agents (spec_of h w) @ built) = p_agents (spec_of h w)"
    using old by (auto simp: filter_empty_conv intro: filter_True)
  show "spec_of h w' = spec_of h w"
    using V sp4 f by (simp add: w'4 ids with_agents_def del: filter_append)
qed

lemma batch_success:
  assumes r: "add_agents_and_connections I org p as cs w = (w', Inr (built, cs'))"
    and d: "distinct (keys_of (w_agents w))" and wf: "conns_wf (w_connections w)"
    and h: "get_preset p w = Some h" "h < length (w_preset_objs w)"
  shows "\<exists>as' n. update_ids (w_ids w) as cs = (as', cs', n) \<and> map s_id built = map s_id as' \<and>
      (\<forall>c \<in> set built. \<exists>k. map_of (w_agents w') (s_id c) = Some k \<and> k < length (w_objs w') \<and>
        a_spec (w_objs w' ! k) = c \<and> a_preset_id (w_objs w' ! k) = p)"
    and "\<forall>i. i \<notin> s_id ` set built \<longrightarrow> map_of (w_agents w') i = map_of (w_agents w) i"
    and "conns_wf (w_connections w')" and "edges (w_connections w') = edges (w_connections w) \<union> set cs'"
    and "spec_of h w' = with_connections cs' (with_agents built (spec_of h w))"
proof -
  obtain as' cs'' n where u: "update_ids (w_ids w) as cs = (as', cs'', n)"
    by (cases "update_ids (w_ids w) as cs")
  let ?w1 = "w\<lparr>w_ids := n\<rparr>"
  obtain w2 bs err where l1: "add_agents_loop I p h as' ?w1 = (w2, bs, err)"
    by (cases "add_agents_loop I p h as' ?w1")
  have h1: "map_of (w_presets w) p = Some h" using h by (simp add: get_preset_def)
  have err: "err = None" using r by (auto simp: add_agents_and_connections_def u h1 l1 Let_def
        simp del: map_of_eq_Some_iff split: option.splits prod.splits if_splits)
  obtain w3 m err' where l2: "add_connections_loop h cs'' w2 = (w3, m, err')"
    by (cases "add_connections_loop h cs'' w2")
  have res: "err' = None" "w' = notify org (PresetStructureChanged p) w3" "built = bs" "cs' = cs''"
    using r by (simp_all add: add_agents_and_connections_def u h1 l1 l2 err Let_def
        del: map_of_eq_Some_iff split: option.splits)
  note A = add_agents_loop_spec [OF l1, simplified, OF d h(2)]
  have pre: "conns_wf (w_connections w2)" "h < length (w_preset_objs w2)" using A wf h by simp_all
  note C = add_connections_loop_spec [OF l2 pre]
  have m: "take m cs'' = cs''" using C res by simp
  have sel: "w_agents w' = w_agents w3" "w_objs w' = w_objs w3" "w_connections w' = w_connections w3"
    "spec_of h w' = spec_of h w3"
    by (simp_all add: res notify_def spec_of_def)
  have "map s_id built = map s_id as'" using A err res by simp
  moreover have "\<forall>c \<in> set built. \<exists>k. map_of (w_agents w') (s_id c) = Some k \<and> k < length (w_objs w') \<and>
        a_spec (w_objs w' ! k) = c \<and> a_preset_id (w_objs w' ! k) = p"
    using A C res sel by (simp del: map_of_eq_Some_iff)
  ultimately show "\<exists>as' n. update_ids (w_ids w) as cs = (as', cs', n) \<and> map s_id built = map s_id as' \<and>
      (\<forall>c \<in> set built. \<exists>k. map_of (w_agents w') (s_id c) = Some k \<and> k < length (w_objs w') \<and>
        a_spec (w_objs w' ! k) = c \<and> a_preset_id (w_objs w' ! k) = p)"
    using u res by blast
  show "\<forall>i. i \<notin> s_id ` set built \<longrightarrow> map_of (w_agents w') i = map_of (w_agents w) i"
    using A C res sel by simp
  show "conns_wf (w_connections w')" using C sel by simp
  show "edges (w_connections w') = edges (w_connections w) \<union> set cs'"
    using A C sel res m by metis
  show "spec_of h w' = with_connections cs' (with_agents built (spec_of h w))"
    using A C sel res by (simp add: m spec_of_def)
qed

section \<open>Removing an agent\<close>

lemma stop_agent_graph:
  assumes "stop_agent I i w = (w', r)"
  shows "w_connections w' = w_connections w \<and> w_agents w' = w_agents w \<and>
    w_preset_objs w' = w_preset_objs w \<and> w_presets w' = w_presets w \<and>
    (map_of (w_agents w) i = None \<longrightarrow> r = Inl (AgentNotFound i))"
proof -
  let ?w1 = "cancel_agent_token i (send_stop i w)"
  have s: "w_connections ?w1 = w_connections w" "w_agents ?w1 = w_agents w"
    "w_preset_objs ?w1 = w_preset_objs w" "w_presets ?w1 = w_presets w"
    by (simp_all add: cancel_agent_token_def send_stop_def Let_def case_prod_beta split: option.split)
  show ?thesis
  proof (cases "map_of (w_agents w) i")
    case None
    then show ?thesis using assms s by (auto simp: stop_agent_def Let_def)
  next
    case (Some h)
    have "obj_frame h ?w1 (fst (with_obj h (agent_stop I) ?w1))" by (rule with_stop_frame)
    then show ?thesis
      using assms s Some by (auto simp: stop_agent_def Let_def obj_frame_def core_of_eq split: if_splits)
  qed
qed

lemma remove_agent_spec:
  assumes r: "remove_agent I org p i w = (w', Inr ())"
    and d: "distinct (keys_of (w_agents w))" and wf: "conns_wf (w_connections w)"
    and h: "get_preset p w = Some h" "h < length (w_preset_objs w)"
  shows "map_of (w_agents w') =
      (if is_ok (snd (stop_agent I i w)) then (map_of (w_agents w))(i := None) else map_of (w_agents w))"
    and "conns_wf (w_connections w')"
    and "edges (w_connections w') =
      (if is_ok (snd (stop_agent I i w)) then {c \<in> edges (w_connections w). c_source c \<noteq> i \<and> c_target c \<noteq> i}
       else edges (w_connections w))"
    and "spec_of h w' = preset_remove_agent i (spec_of h w)"
proof -
  have h1: "map_of (w_presets w) p = Some h" using h by (simp add: get_preset_def)
  obtain w1 x where s: "stop_agent I i w = (w1, x)" by (cases "stop_agent I i w")
  note S = stop_agent_graph [OF s]
  obtain w2 y where q: "remove_agent_internal I i w = (w2, y)" by (cases "remove_agent_internal I i w")
  let ?w3 = "update_preset_obj h (map_spec (preset_remove_agent i)) w2"
  have w': "w' = notify org (PresetStructureChanged p) ?w3"
    using r q by (auto simp: remove_agent_def h1 Let_def simp del: map_of_eq_Some_iff split: if_splits sum.splits)
  have w2: "w2 = (if is_ok x then w1\<lparr>w_connections := conn_remove_agent i (w_connections w1),
      w_agents := im_swap_remove i (w_agents w1)\<rparr> else w1)"
    using q s by (auto simp: remove_agent_internal_def split: sum.splits)
  have sel: "w_agents w' = w_agents w2" "w_connections w' = w_connections w2"
    by (simp_all add: w' notify_def)
  show "spec_of h w' = preset_remove_agent i (spec_of h w)"
    using h(2) S by (simp add: w' w2 notify_def spec_of_def update_preset_obj_def map_spec_def)
  show "map_of (w_agents w') =
      (if is_ok (snd (stop_agent I i w)) then (map_of (w_agents w))(i := None) else map_of (w_agents w))"
    using S d by (simp add: sel w2 s fun_eq_iff)
  show "conns_wf (w_connections w')" using S wf by (simp add: sel w2 conn_remove_agent_wf)
  show "edges (w_connections w') =
      (if is_ok (snd (stop_agent I i w)) then {c \<in> edges (w_connections w). c_source c \<noteq> i \<and> c_target c \<noteq> i}
       else edges (w_connections w))"
    using S wf by (simp add: sel w2 s conn_remove_agent_edges)
qed

end

section \<open>One connection\<close>

lemma add_connection_spec:
  assumes wf: "conns_wf (w_connections w)" and h: "get_preset p w = Some h" "h < length (w_preset_objs w)"
    and r: "add_connection org p c w = (w', x)"
  shows "x = (if \<not> has_key (w_agents w) (c_source c) then Inl (AgentNotFound (c_source c))
      else if \<not> has_key (w_agents w) (c_target c) then Inl (AgentNotFound (c_target c))
      else if c_source_handle c = [] then Inl EmptySourceHandle
      else if c_target_handle c = [] then Inl EmptyTargetHandle
      else if c \<in> edges (w_connections w) then Inl ConnectionAlreadyExists
      else Inr ())"
    and "\<not> is_ok x \<Longrightarrow> w' = w"
    and "is_ok x \<Longrightarrow> conns_wf (w_connections w') \<and> edges (w_connections w') = insert c (edges (w_connections w)) \<and>
      spec_of h w' = preset_add_connection c (spec_of h w)"
proof -
  have h1: "map_of (w_presets w) p = Some h" using h by (simp add: get_preset_def)
  have add: "add_connection_internal c w =
      (if c \<in> edges (w_connections w) then (w, Inl ConnectionAlreadyExists)
       else (w\<lparr>w_connections := projr (conn_add c (w_connections w))\<rparr>, Inr ()))"
    using conn_add_ok_iff [of c "w_connections w"] conn_add_error [of c "w_connections w"]
    by (cases "conn_add c (w_connections w)") (simp_all add: add_connection_internal_def)
  show "x = (if \<not> has_key (w_agents w) (c_source c) then Inl (AgentNotFound (c_source c))
      else if \<not> has_key (w_agents w) (c_target c) then Inl (AgentNotFound (c_target c))
      else if c_source_handle c = [] then Inl EmptySourceHandle
      else if c_target_handle c = [] then Inl EmptyTargetHandle
      else if c \<in> edges (w_connections w) then Inl ConnectionAlreadyExists
      else Inr ())"
    using r unfolding add_connection_def add h1 by (simp split: if_splits)
  show "w' = w" if "\<not> is_ok x"
    using that r unfolding add_connection_def add h1 by (auto split: if_splits)
  assume "is_ok x"
  then have ok: "x = Inr ()" by (cases x) simp_all
  let ?m = "projr (conn_add c (w_connections w))"
  have w': "c \<notin> edges (w_connections w) \<and> notify org (PresetStructureChanged p)
      (update_preset_obj h (map_spec (preset_add_connection c)) (w\<lparr>w_connections := ?m\<rparr>)) = w'"
    using r unfolding ok add_connection_def add h1 by (simp split: if_splits)
  then have "is_ok (conn_add c (w_connections w))" by (simp add: conn_add_ok_iff)
  then have m: "conn_add c (w_connections w) = Inr ?m" by (cases "conn_add c (w_connections w)") simp_all
  show "conns_wf (w_connections w') \<and> edges (w_connections w') = insert c (edges (w_connections w)) \<and>
      spec_of h w' = preset_add_connection c (spec_of h w)"
    unfolding w' [THEN conjunct2, symmetric] using conn_add_wf [OF wf m] conn_add_edges [OF m] h(2)
    by (simp add: notify_def spec_of_def update_preset_obj_def map_spec_def)
qed

end
