(* ===== verification/Names.thy ===== *)
theory Names
  imports Presets
begin

text \<open>
  The preset name index. \<open>names_ok\<close>: the index maps a name to an id exactly when a live preset
  with that id has that name. Every operation of the API keeps it, in any sequence
  (\<open>preset_call\<close>); the theory Interleaving takes the operations apart.
\<close>

definition names_view :: "'u world \<Rightarrow> _" where
  "names_view w =
    (w_presets w, map (\<lambda>p. (pr_id p, pr_name p)) (w_preset_objs w), w_preset_names w)"

definition names_ok :: "'u world \<Rightarrow> bool" where
  "names_ok w \<longleftrightarrow>
    distinct (keys_of (w_presets w)) \<and> distinct (keys_of (w_preset_names w)) \<and>
    (\<forall>i h. map_of (w_presets w) i = Some h \<longrightarrow>
      h < length (w_preset_objs w) \<and> pr_id (w_preset_objs w ! h) = i) \<and>
    (\<forall>n i. map_of (w_preset_names w) n = Some i \<longleftrightarrow>
      (\<exists>h. map_of (w_presets w) i = Some h \<and> pr_name (w_preset_objs w ! h) = Some n))"

lemma view_nth:
  assumes "map (\<lambda>p. (pr_id p, pr_name p)) ps = map (\<lambda>p. (pr_id p, pr_name p)) qs"
  shows "length ps = length qs"
    "h < length qs \<Longrightarrow> pr_id (ps ! h) = pr_id (qs ! h) \<and> pr_name (ps ! h) = pr_name (qs ! h)"
proof -
  show len: "length ps = length qs" using assms by (metis length_map)
  assume h: "h < length qs"
  then have "map (\<lambda>p. (pr_id p, pr_name p)) ps ! h = map (\<lambda>p. (pr_id p, pr_name p)) qs ! h"
    using assms by simp
  then show "pr_id (ps ! h) = pr_id (qs ! h) \<and> pr_name (ps ! h) = pr_name (qs ! h)"
    using h len by simp
qed

lemma names_ok_view:
  assumes v: "names_view w' = names_view w" and ok: "names_ok w"
  shows "names_ok w'"
proof -
  from v have p: "w_presets w' = w_presets w" "w_preset_names w' = w_preset_names w"
    and m: "map (\<lambda>p. (pr_id p, pr_name p)) (w_preset_objs w') =
      map (\<lambda>p. (pr_id p, pr_name p)) (w_preset_objs w)"
    unfolding names_view_def by blast+
  have h: "h < length (w_preset_objs w)" if "map_of (w_presets w) i = Some h" for i h
    using ok that unfolding names_ok_def by blast
  have n: "pr_id (w_preset_objs w' ! h) = pr_id (w_preset_objs w ! h)"
    "pr_name (w_preset_objs w' ! h) = pr_name (w_preset_objs w ! h)"
    if "map_of (w_presets w) i = Some h" for i h
    using view_nth(2) [OF m h [OF that]] by simp_all
  have "(\<exists>h. map_of (w_presets w) i = Some h \<and> pr_name (w_preset_objs w' ! h) = Some x) \<longleftrightarrow>
      (\<exists>h. map_of (w_presets w) i = Some h \<and> pr_name (w_preset_objs w ! h) = Some x)" for i x
    using n(2) [of i] by auto
  then show ?thesis
    using ok n(1) unfolding names_ok_def p view_nth(1) [OF m] by simp
qed

section \<open>What leaves the names alone\<close>

lemma view_core: "core_of w' = core_of w \<Longrightarrow> names_view w' = names_view w"
  unfolding names_view_def core_of_eq by simp

lemma view_obj_frame: "obj_frame h w w' \<Longrightarrow> names_view w' = names_view w"
  unfolding obj_frame_def names_view_def core_of_eq by simp

lemma view_notify [simp]: "names_view (notify org e w) = names_view w"
  by (rule view_core) simp

lemma view_update_preset:
  assumes "\<And>p. pr_id (f p) = pr_id p \<and> pr_name (f p) = pr_name p"
  shows "names_view (update_preset_obj h f w) = names_view w"
proof -
  let ?g = "\<lambda>p. (pr_id p, pr_name p)" and ?ps = "w_preset_objs w"
  have "map ?g (?ps[h := f (?ps ! h)]) = map ?g ?ps"
  proof (rule nth_equalityI)
    fix i assume "i < length (map ?g (?ps[h := f (?ps ! h)]))"
    then show "map ?g (?ps[h := f (?ps ! h)]) ! i = map ?g ?ps ! i"
      using assms by (cases "i = h") simp_all
  qed simp
  then show ?thesis unfolding names_view_def update_preset_obj_def by simp
qed

lemma view_map_spec [simp]: "names_view (update_preset_obj h (map_spec f) w) = names_view w"
  by (rule view_update_preset) (simp add: map_spec_def)

lemma view_add_connection [simp]: "names_view (fst (add_connection_internal c w)) = names_view w"
  by (simp add: add_connection_internal_def names_view_def split: sum.splits)

lemma view_remove_connection [simp]: "names_view (remove_connection_internal c w) = names_view w"
  by (simp add: remove_connection_internal_def names_view_def)

lemma view_tokens [simp]:
  "names_view (reset_preset_token p w) = names_view w"
  "names_view (cancel_preset_token p w) = names_view w"
  "names_view (remove_preset_token p w) = names_view w"
  "names_view (send_stop i w) = names_view w"
  "names_view (cancel_agent_token i w) = names_view w"
  by (simp_all add: reset_preset_token_def cancel_preset_token_def remove_preset_token_def
      send_stop_def cancel_agent_token_def names_view_def Let_def case_prod_beta split: option.splits)

lemma view_preset_token: "names_view (fst (preset_token p w)) = names_view w"
  by (simp add: preset_token_def names_view_def case_prod_beta split: option.splits)

lemma view_start_agent [simp]: "names_view (fst (start_agent i w)) = names_view w"
  by (simp add: start_agent_def create_agent_token_def preset_token_def spawn_loop_def names_view_def
      Let_def case_prod_beta split: option.splits)

lemma view_fold: "(\<And>x w. names_view (f x w) = names_view w) \<Longrightarrow> names_view (fold f xs w) = names_view w"
  by (induction xs arbitrary: w) simp_all

context agent_contract
begin

lemma view_stop_agent [simp]: "names_view (fst (stop_agent I i w)) = names_view w"
  using view_obj_frame [OF with_stop_frame]
  by (simp add: stop_agent_def Let_def split: option.splits)

lemma view_add_agent [simp]: "names_view (fst (add_agent_internal I p s w)) = names_view w"
proof -
  obtain w1 r where n: "agent_new I (s_id s) s w = (w1, r)"
    by (cases "agent_new I (s_id s) s w")
  with view_core [OF agent_new_frame [OF n]] show ?thesis
    by (auto simp: add_agent_internal_def names_view_def split: sum.splits)
qed

lemma view_remove_agent [simp]: "names_view (fst (remove_agent_internal I i w)) = names_view w"
proof -
  obtain w1 r where s: "stop_agent I i w = (w1, r)" by (cases "stop_agent I i w")
  with view_stop_agent [of i w] show ?thesis
    by (auto simp: remove_agent_internal_def names_view_def split: sum.splits)
qed

lemma view_preset_stop [simp]: "names_view (preset_stop I h w) = names_view w"
proof -
  have "names_view (update_preset_obj h (\<lambda>p. p\<lparr>pr_running := False\<rparr>) w') = names_view w'" for w' :: "'u world"
    by (rule view_update_preset) simp
  then show ?thesis unfolding preset_stop_def Let_def by (simp add: view_fold)
qed

end

lemma view_preset_start [simp]: "names_view (preset_start h w) = names_view w"
proof -
  have "names_view (update_preset_obj h (\<lambda>p. p\<lparr>pr_running := True\<rparr>) w) = names_view w"
    by (rule view_update_preset) simp
  then show ?thesis
    unfolding preset_start_def Let_def by (simp add: view_fold)
qed

section \<open>Operations on names\<close>

lemma names_ok_lookup:
  "names_ok w \<Longrightarrow> find_preset_id_by_name n w = Some i \<longleftrightarrow>
    (\<exists>h. get_preset i w = Some h \<and> pr_name (w_preset_objs w ! h) = Some n)"
  by (simp add: names_ok_def find_preset_id_by_name_def get_preset_def)

lemma names_ok_obj:
  "names_ok w \<Longrightarrow> map_of (w_presets w) i = Some h \<Longrightarrow>
    h < length (w_preset_objs w) \<and> pr_id (w_preset_objs w ! h) = i"
  by (simp add: names_ok_def)

text \<open>Two ids never share an object.\<close>

lemma names_ok_inj:
  "names_ok w \<Longrightarrow> map_of (w_presets w) i = Some h \<Longrightarrow> map_of (w_presets w) j = Some h \<Longrightarrow> i = j"
  using names_ok_obj by blast

lemma names_ok_rename:
  assumes ok: "names_ok w" and r: "rename_preset org i n w = (w', Inr ())"
  shows "names_ok w' \<and> find_preset_id_by_name n w' = Some i"
proof -
  from r obtain h where h: "map_of (w_presets w) i = Some h"
    and free: "\<And>j. map_of (w_preset_names w) n = Some j \<Longrightarrow> j = i"
    by (auto simp: rename_preset_def get_preset_def rename_reserve_def split: option.splits if_splits)
  let ?names = "im_insert n i (im_retain (\<lambda>_ v. v \<noteq> i) (w_preset_names w))"
  from r h free have w': "w' = rename_commit org h i n (w\<lparr>w_preset_names := ?names\<rparr>)"
    by (auto simp: rename_preset_def get_preset_def rename_reserve_def rename_recheck_def
        split: option.splits if_splits)
  have d: "distinct (keys_of (w_presets w))" "distinct (keys_of (w_preset_names w))"
    using ok by (simp_all add: names_ok_def)
  have hl: "h < length (w_preset_objs w)" "pr_id (w_preset_objs w ! h) = i"
    using names_ok_obj [OF ok h] by auto
  let ?objs = "(w_preset_objs w)[h := (w_preset_objs w ! h)\<lparr>pr_name := Some n\<rparr>]"
  have f: "w_presets w' = w_presets w" "w_preset_names w' = ?names" "w_preset_objs w' = ?objs"
    by (simp_all add: w' rename_commit_def notify_def update_preset_obj_def)
  note look = map_of_im_retain [OF d(2), of "\<lambda>_ v. v \<noteq> i"]
  have obj: "pr_name (?objs ! k) = (if k = h then Some n else pr_name (w_preset_objs w ! k))"
    "pr_id (?objs ! k) = pr_id (w_preset_objs w ! k)" for k
    using hl by (cases "k = h"; simp)+
  have "map_of ?names m = Some j \<longleftrightarrow>
      (\<exists>k. map_of (w_presets w) j = Some k \<and> pr_name (?objs ! k) = Some m)" for m j
  proof (cases "j = i")
    case True
    then show ?thesis using h by (auto simp: look obj split: option.splits)
  next
    case False
    then have ne: "k \<noteq> h" if "map_of (w_presets w) j = Some k" for k
      using names_ok_inj [OF ok h] that by blast
    have "map_of (w_preset_names w) m = Some j \<longleftrightarrow>
        (\<exists>k. map_of (w_presets w) j = Some k \<and> pr_name (w_preset_objs w ! k) = Some m)"
      using ok by (simp add: names_ok_def)
    moreover have "map_of (w_preset_names w) n \<noteq> Some j" using free False by blast
    ultimately show ?thesis
      using ne False by (auto simp: look obj split: option.splits)
  qed
  moreover have "distinct (keys_of ?names)" using d by simp
  ultimately have "names_ok w'"
    using ok by (simp add: names_ok_def f obj)
  moreover have "find_preset_id_by_name n w' = Some i"
    by (simp add: find_preset_id_by_name_def f)
  ultimately show ?thesis by blast
qed

text \<open>Sequentially the re-check never fails, and a rename that fails changes nothing.\<close>

lemma rename_error: "rename_preset org i n w = (w', Inl e) \<Longrightarrow> w' = w"
  by (auto simp: rename_preset_def rename_reserve_def rename_recheck_def get_preset_def
      split: option.splits if_splits)

lemma names_ok_unlist_unname:
  assumes ok: "names_ok w"
  shows "names_ok (remove_unname i (remove_unlist i w))"
    "map_of (w_presets (remove_unname i (remove_unlist i w))) i = None"
    "find_preset_id_by_name n (remove_unname i (remove_unlist i w)) \<noteq> Some i"
proof -
  have d: "distinct (keys_of (w_presets w))" "distinct (keys_of (w_preset_names w))"
    using ok by (simp_all add: names_ok_def)
  note look = map_of_im_retain [OF d(2), of "\<lambda>_ v. v \<noteq> i"]
  have f: "w_presets (remove_unname i (remove_unlist i w)) = im_swap_remove i (w_presets w)"
    "w_preset_names (remove_unname i (remove_unlist i w)) = im_retain (\<lambda>_ v. v \<noteq> i) (w_preset_names w)"
    "w_preset_objs (remove_unname i (remove_unlist i w)) = w_preset_objs w"
    by (simp_all add: remove_unname_def remove_unlist_def)
  have names: "map_of (im_retain (\<lambda>_ v. v \<noteq> i) (w_preset_names w)) m = Some j \<longleftrightarrow>
      map_of (w_preset_names w) m = Some j \<and> j \<noteq> i" for m j
    by (auto simp: look simp del: map_of_eq_Some_iff split: option.splits)
  have presets: "map_of (im_swap_remove i (w_presets w)) j = Some h \<longleftrightarrow>
      j \<noteq> i \<and> map_of (w_presets w) j = Some h" for j h
    using d by simp
  show "names_ok (remove_unname i (remove_unlist i w))"
    using ok unfolding names_ok_def f names presets
    by (simp del: map_of_eq_Some_iff) blast
  show "map_of (w_presets (remove_unname i (remove_unlist i w))) i = None"
    using d by (simp add: f)
  show "find_preset_id_by_name n (remove_unname i (remove_unlist i w)) \<noteq> Some i"
    by (simp add: find_preset_id_by_name_def f look split: option.splits)
qed

text \<open>What \<open>remove_preset\<close> does before it edits the tables.\<close>

definition torn_down :: "'u impls \<Rightarrow> nat \<Rightarrow> 'u world \<Rightarrow> 'u world" where
  "torn_down I h w =
    (let w1 = preset_stop I h w;
         w2 = fold (\<lambda>a w. fst (remove_agent_internal I (s_id a) w)) (p_agents (spec_of h w1)) w1
     in fold remove_connection_internal (p_connections (spec_of h w2)) w2)"

lemma remove_preset_eq: "remove_preset I org i w =
    (case get_preset i w of
      None \<Rightarrow> (w, Inl (PresetNotFound i))
    | Some h \<Rightarrow>
        (notify org (PresetRemoved i (pr_name (w_preset_objs w ! h)))
          (remove_preset_token i (remove_unname i (remove_unlist i (torn_down I h w)))), Inr ()))"
  by (auto simp: remove_preset_def torn_down_def Let_def split: option.split)

context agent_contract
begin

lemma view_torn_down [simp]: "names_view (torn_down I h w) = names_view w"
  by (simp add: torn_down_def Let_def view_fold)

lemma names_ok_remove:
  assumes ok: "names_ok w" and r: "remove_preset I org i w = (w', Inr ())"
  shows "names_ok w' \<and> get_preset i w' = None \<and> find_preset_id_by_name n w' \<noteq> Some i"
proof -
  from r obtain h where h: "get_preset i w = Some h"
    by (auto simp: remove_preset_eq split: option.splits)
  let ?w = "remove_unname i (remove_unlist i (torn_down I h w))"
  have ok3: "names_ok (torn_down I h w)" by (rule names_ok_view [OF view_torn_down ok])
  have v: "names_view w' = names_view ?w"
    using r h by (auto simp: remove_preset_eq)
  then have "w_presets w' = w_presets ?w" "w_preset_names w' = w_preset_names ?w"
    by (simp_all add: names_view_def)
  with names_ok_unlist_unname [OF ok3] names_ok_view [OF v] show ?thesis
    by (simp add: get_preset_def find_preset_id_by_name_def)
qed

end

text \<open>A new preset under a fresh id, whose name was reserved.\<close>

lemma names_ok_insert:
  assumes ok: "names_ok w" and fresh: "map_of (w_presets w) (pr_id p) = None"
    and free: "\<And>n. pr_name p = Some n \<Longrightarrow> map_of (w_preset_names w) n = None"
    and v: "names_view w4 =
      names_view (case pr_name p of None \<Rightarrow> w | Some n \<Rightarrow> reserve_name n (pr_id p) w)"
  shows "names_ok (w4\<lparr>w_presets := im_insert (pr_id p) (length (w_preset_objs w4)) (w_presets w4),
      w_preset_objs := w_preset_objs w4 @ [p]\<rparr>)" (is "names_ok ?w")
proof -
  let ?i = "pr_id p" and ?L = "length (w_preset_objs w)"
  let ?names = "case pr_name p of None \<Rightarrow> w_preset_names w | Some n \<Rightarrow> im_insert n ?i (w_preset_names w)"
  have d: "distinct (keys_of (w_presets w))" "distinct (keys_of (w_preset_names w))"
    using ok by (simp_all add: names_ok_def)
  from v have p4: "w_presets w4 = w_presets w" and n4: "w_preset_names w4 = ?names"
    and m: "map (\<lambda>p. (pr_id p, pr_name p)) (w_preset_objs w4) = map (\<lambda>p. (pr_id p, pr_name p)) (w_preset_objs w)"
    by (auto simp: names_view_def reserve_name_def split: option.splits)
  have len: "length (w_preset_objs w4) = ?L" by (rule view_nth(1) [OF m])
  have old: "map_of (w_presets w) j = Some h \<Longrightarrow>
      h < ?L \<and> pr_id (w_preset_objs w4 ! h) = j \<and> pr_name (w_preset_objs w4 ! h) = pr_name (w_preset_objs w ! h)"
    for j h using names_ok_obj [OF ok] view_nth(2) [OF m] by auto
  have P: "map_of (im_insert ?i ?L (w_presets w)) j = Some h \<longleftrightarrow>
      j = ?i \<and> h = ?L \<or> j \<noteq> ?i \<and> map_of (w_presets w) j = Some h" for j h
    by auto
  have base: "map_of (w_preset_names w) x = Some j \<longleftrightarrow>
      (\<exists>h. map_of (w_presets w) j = Some h \<and> pr_name (w_preset_objs w ! h) = Some x)" for x j
    using ok by (simp add: names_ok_def)
  have N: "map_of ?names x = Some j \<longleftrightarrow>
      pr_name p = Some x \<and> j = ?i \<or> j \<noteq> ?i \<and> map_of (w_preset_names w) x = Some j" for x j
    using base [of x ?i] fresh free [of x] by (auto split: option.splits)
  have at: "(w_preset_objs w4 @ [p]) ! h = (if h = ?L then p else w_preset_objs w4 ! h)"
    if "h \<le> ?L" for h using that len by (auto simp: nth_append)
  have dn: "distinct (keys_of ?names)" "distinct (keys_of (im_insert ?i ?L (w_presets w)))"
    using d by (auto split: option.splits)
  have "(map_of ?names x = Some j) = (\<exists>h. map_of (im_insert ?i ?L (w_presets w)) j = Some h \<and>
      pr_name ((w_preset_objs w4 @ [p]) ! h) = Some x)" for x j
  proof (cases "j = ?i")
    case True
    then show ?thesis using at [of ?L] by (simp only: N P) auto
  next
    case False
    then have "map_of ?names x = Some j \<longleftrightarrow> map_of (w_preset_names w) x = Some j"
      by (simp only: N) simp
    also have "\<dots> \<longleftrightarrow> (\<exists>h. map_of (w_presets w) j = Some h \<and> pr_name ((w_preset_objs w4 @ [p]) ! h) = Some x)"
      unfolding base using old at by (metis less_imp_le less_irrefl)
    finally show ?thesis using False by (simp only: P) simp
  qed
  moreover have "map_of (im_insert ?i ?L (w_presets w)) j = Some h \<Longrightarrow>
      h < length (w_preset_objs w4 @ [p]) \<and> pr_id ((w_preset_objs w4 @ [p]) ! h) = j" for j h
    using old [of j h] at [of h] len unfolding P by auto
  moreover have "w_presets ?w = im_insert ?i ?L (w_presets w)" "w_preset_names ?w = ?names"
    "w_preset_objs ?w = w_preset_objs w4 @ [p]"
    by (simp_all add: p4 n4 len)
  ultimately show ?thesis
    using dn unfolding names_ok_def by (simp only:) blast
qed

lemma view_preset_new [simp]: "names_view (fst (preset_new s w)) = names_view w"
  by (simp add: preset_new_def names_view_def new_id_def case_prod_beta)

lemma view_ids: "names_view (w\<lparr>w_ids := n\<rparr>) = names_view w"
  by (simp add: names_view_def)

text \<open>\<open>add_preset_raw\<close> in terms of the state before the tables of presets are edited.\<close>

definition populated :: "'u impls \<Rightarrow> preset \<Rightarrow> 'u world \<Rightarrow> 'u world" where
  "populated I p w =
    fold (\<lambda>c w. fst (add_connection_internal c w)) (p_connections (pr_spec p))
      (fold (\<lambda>a w. fst (add_agent_internal I (pr_id p) a w)) (p_agents (pr_spec p))
        (case pr_name p of None \<Rightarrow> w | Some n \<Rightarrow> reserve_name n (pr_id p) w))"

definition named_preset :: "preset_spec \<Rightarrow> string option \<Rightarrow> 'u world \<Rightarrow> preset" where
  "named_preset s name w = (snd (preset_new s w))\<lparr>pr_name := name\<rparr>"

lemma named_preset_sel [simp]:
  "pr_name (named_preset s name w) = name"
  "pr_id (named_preset s name w) = pr_id (snd (preset_new s w))"
  by (simp_all add: named_preset_def)

lemma add_preset_raw_eq: "add_preset_raw I org s name w =
    (let w1 = fst (preset_new s w); p = named_preset s name w; w4 = populated I p w1 in
     if (case name of None \<Rightarrow> False | Some n \<Rightarrow> has_key (w_preset_names w1) n)
     then (w1, Inl (PresetNameExists (the name)))
     else if has_key (w_presets w4) (pr_id p) then
       ((case name of None \<Rightarrow> w4
         | Some n \<Rightarrow> w4\<lparr>w_preset_names := im_swap_remove n (w_preset_names w4)\<rparr>),
        Inl (DuplicateId (pr_id p)))
     else (notify org (PresetAdded (pr_id p) name)
             (w4\<lparr>w_presets := im_insert (pr_id p) (length (w_preset_objs w4)) (w_presets w4),
                w_preset_objs := w_preset_objs w4 @ [p]\<rparr>), Inr (pr_id p)))"
  by (cases name)
    (simp_all add: add_preset_raw_def populated_def named_preset_def case_prod_beta Let_def)

context agent_contract
begin

lemma view_populated: "names_view (populated I p w) =
    names_view (case pr_name p of None \<Rightarrow> w | Some n \<Rightarrow> reserve_name n (pr_id p) w)"
  by (simp add: populated_def view_fold)

lemma add_preset_ok:
  assumes ok: "names_ok w" and fresh: "get_preset (pr_id (snd (preset_new s w))) w = None"
    and free: "\<And>n. name = Some n \<Longrightarrow> find_preset_id_by_name n w = None"
    and r: "add_preset_raw I org s name w = (w', res)"
  shows "res = Inr (pr_id (snd (preset_new s w))) \<and> names_ok w' \<and>
    get_preset (pr_id (snd (preset_new s w))) w' = Some (length (w_preset_objs w)) \<and>
    (\<forall>n. name = Some n \<longrightarrow> find_preset_id_by_name n w' = Some (pr_id (snd (preset_new s w))))"
proof -
  let ?p = "named_preset s name w" and ?w1 = "fst (preset_new s w)"
  let ?w4 = "populated I ?p ?w1"
  have ok1: "names_ok ?w1" by (rule names_ok_view [OF view_preset_new ok])
  have eq1: "w_presets ?w1 = w_presets w" "w_preset_names ?w1 = w_preset_names w"
    using view_preset_new [of s w] by (simp_all only: names_view_def prod.inject)
  have v: "names_view ?w4 =
      names_view (case pr_name ?p of None \<Rightarrow> ?w1 | Some n \<Rightarrow> reserve_name n (pr_id ?p) ?w1)"
    by (rule view_populated)
  have fresh4: "map_of (w_presets ?w4) (pr_id ?p) = None"
    using v fresh eq1 by (cases name) (auto simp: names_view_def reserve_name_def get_preset_def)
  have names4: "w_preset_names ?w4 =
      (case name of None \<Rightarrow> w_preset_names w | Some n \<Rightarrow> im_insert n (pr_id ?p) (w_preset_names w))"
    using v eq1 by (cases name) (auto simp: names_view_def reserve_name_def)
  have "map (\<lambda>p. (pr_id p, pr_name p)) (w_preset_objs ?w4) = map (\<lambda>p. (pr_id p, pr_name p)) (w_preset_objs w)"
    using v view_preset_new [of s w] by (cases name) (auto simp: names_view_def reserve_name_def)
  then have len: "length (w_preset_objs ?w4) = length (w_preset_objs w)" by (rule view_nth(1))
  have taken: "\<not> (case name of None \<Rightarrow> False | Some n \<Rightarrow> has_key (w_preset_names ?w1) n)"
    using free by (auto simp: eq1 find_preset_id_by_name_def split: option.splits)
  let ?w5 = "?w4\<lparr>w_presets := im_insert (pr_id ?p) (length (w_preset_objs ?w4)) (w_presets ?w4),
      w_preset_objs := w_preset_objs ?w4 @ [?p]\<rparr>"
  have "names_ok ?w5"
    by (rule names_ok_insert [OF ok1 _ _ v])
      (use fresh free in \<open>auto simp: eq1 get_preset_def find_preset_id_by_name_def\<close>)
  then have "names_ok (notify org e ?w5)" for e by (rule names_ok_view [OF view_notify])
  moreover have res: "w' = notify org (PresetAdded (pr_id ?p) name) ?w5" "res = Inr (pr_id ?p)"
    using r taken fresh4 by (auto simp: add_preset_raw_eq Let_def)
  moreover have "get_preset (pr_id ?p) w' = Some (length (w_preset_objs w))"
    by (simp add: res get_preset_def notify_def len)
  moreover have "find_preset_id_by_name n w' = Some (pr_id ?p)" if "name = Some n" for n
    by (simp add: res find_preset_id_by_name_def notify_def names4) (simp add: that)
  ultimately show ?thesis by (simp only: named_preset_sel) blast
qed

lemma add_preset_taken:
  assumes "find_preset_id_by_name n w = Some j" and "add_preset_raw I org s (Some n) w = (w', res)"
  shows "res = Inl (PresetNameExists n) \<and> w' = w\<lparr>w_ids := w_ids w'\<rparr>"
proof -
  have n1: "w_preset_names (fst (preset_new s w)) = w_preset_names w"
    using view_preset_new [of s w] by (simp only: names_view_def prod.inject)
  have w1: "fst (preset_new s w) = w\<lparr>w_ids := w_ids (fst (preset_new s w))\<rparr>"
    by (simp add: preset_new_def new_id_def case_prod_beta)
  have t: "has_key (w_preset_names (fst (preset_new s w))) n"
    using assms(1) by (simp add: n1 find_preset_id_by_name_def)
  have r: "w' = fst (preset_new s w)" "res = Inl (PresetNameExists n)"
    using assms(2) t by (simp_all add: add_preset_raw_eq)
  show ?thesis by (rule conjI [OF r(2)]) (simp only: r(1) w1 [symmetric])
qed

end

section \<open>Every operation on presets\<close>

lemma view_batch_connections: "names_view (fst (add_connections_loop h cs w)) = names_view w"
proof (induction cs arbitrary: w)
  case (Cons c cs)
  obtain w1 r where a: "add_connection_internal c w = (w1, r)" by (cases "add_connection_internal c w")
  with view_add_connection [of c w] have "names_view w1 = names_view w" by simp
  then show ?case using Cons a by (cases r) (simp_all add: case_prod_beta Let_def)
qed simp

lemma view_undo_agent: "names_view (undo_agent h i w) = names_view w"
  using view_map_spec [of h "preset_remove_agent i" w] by (simp add: undo_agent_def Let_def names_view_def)

lemma view_rollback: "names_view (rollback_batch h as cs w) = names_view w"
proof -
  have "names_view (fold (undo_connection h) cs w) = names_view w"
    by (rule view_fold) (simp add: undo_connection_def)
  moreover have "names_view (fold (\<lambda>a. undo_agent h (s_id a)) as w') = names_view w'" for w'
    by (rule view_fold) (rule view_undo_agent)
  ultimately show ?thesis unfolding rollback_batch_def by metis
qed

lemma view_add_connection_op: "names_view (fst (add_connection org p c w)) = names_view w"
proof -
  obtain w1 r where "add_connection_internal c w = (w1, r)" by (cases "add_connection_internal c w")
  with view_add_connection [of c w] show ?thesis
    by (auto simp: add_connection_def split: option.splits sum.splits)
qed

lemma view_remove_connection_op: "names_view (fst (remove_connection org p c w)) = names_view w"
  by (simp add: remove_connection_def split: option.splits prod.splits)

lemma view_update_spec: "names_view (fst (update_preset_spec org i j w)) = names_view w"
proof -
  have "fst (preset_update_spec j p) = map_spec (\<lambda>_. pr_spec (fst (preset_update_spec j p))) p" for p
    by (auto simp: preset_update_spec_def map_spec_def split: json.splits)
  then have "names_view (update_preset_obj h (\<lambda>_. fst (preset_update_spec j (w_preset_objs w ! h))) w) = names_view w" for h
    using view_map_spec [of h "\<lambda>_. pr_spec (fst (preset_update_spec j (w_preset_objs w ! h)))" w]
    by (metis update_preset_obj_def)
  then show ?thesis
    by (auto simp: update_preset_spec_def split: option.splits sum.splits prod.splits)
      (metis fst_conv)+
qed

lemma rename_names_ok: "names_ok w \<Longrightarrow> names_ok (fst (rename_preset org i n w))"
proof -
  assume ok: "names_ok w"
  obtain w' r where r: "rename_preset org i n w = (w', r)" by (cases "rename_preset org i n w")
  show ?thesis
  proof (cases r)
    case (Inl e)
    with r rename_error [of org i n w w' e] ok show ?thesis by simp
  next
    case (Inr u)
    with r names_ok_rename [OF ok, of org i n w'] show ?thesis by simp
  qed
qed

context agent_contract
begin

lemma view_batch_agents: "names_view (fst (add_agents_loop I p h ss w)) = names_view w"
proof (induction ss arbitrary: w)
  case (Cons s ss)
  obtain w1 r where a: "add_agent_internal I p s w = (w1, r)" by (cases "add_agent_internal I p s w")
  with view_add_agent [of p s w] have "names_view w1 = names_view w" by simp
  then show ?case using Cons a by (cases r) (simp_all add: case_prod_beta Let_def)
qed simp

lemma view_batch: "names_view (fst (add_agents_and_connections I org p as cs w)) = names_view w"
proof -
  obtain as' cs' n where u: "update_ids (w_ids w) as cs = (as', cs', n)" by (cases "update_ids (w_ids w) as cs")
  let ?w1 = "w\<lparr>w_ids := n\<rparr>"
  show ?thesis
  proof (cases "map_of (w_presets w) p")
    case None
    then show ?thesis by (simp add: add_agents_and_connections_def u view_ids)
  next
    case (Some h)
    obtain w2 built err where l1: "add_agents_loop I p h as' ?w1 = (w2, built, err)"
      by (cases "add_agents_loop I p h as' ?w1")
    obtain w3 m err' where l2: "(if err = None then add_connections_loop h cs' w2 else (w2, 0, err)) = (w3, m, err')"
      by (cases "if err = None then add_connections_loop h cs' w2 else (w2, 0, err)")
    have "names_view w2 = names_view w" using view_batch_agents [of p h as' ?w1] l1 by (simp add: view_ids)
    moreover have "names_view w3 = names_view w2"
      using l2 view_batch_connections [of h cs' w2] by (auto split: if_splits)
    ultimately show ?thesis
      using Some by (simp add: add_agents_and_connections_def u l1 l2 view_rollback split: option.split)
  qed
qed

lemma view_add_agent_op: "names_view (fst (add_agent I org p s w)) = names_view w"
proof -
  let ?w1 = "fst (world_new_id w)" and ?i = "snd (world_new_id w)"
  obtain w2 r where a: "add_agent_internal I p (s\<lparr>s_id := ?i\<rparr>) ?w1 = (w2, r)"
    by (cases "add_agent_internal I p (s\<lparr>s_id := ?i\<rparr>) ?w1")
  have "names_view ?w1 = names_view w" by (simp add: world_new_id_def case_prod_beta view_ids)
  with a view_add_agent [of p "s\<lparr>s_id := ?i\<rparr>" ?w1] show ?thesis
    by (auto simp: add_agent_def case_prod_beta split: option.split sum.split)
qed

lemma view_remove_agent_op: "names_view (fst (remove_agent I org p i w)) = names_view w"
proof -
  obtain w1 r where "remove_agent_internal I i w = (w1, r)" by (cases "remove_agent_internal I i w")
  with view_remove_agent [of i w] show ?thesis
    by (auto simp: remove_agent_def Let_def split: option.split sum.split)
qed

lemma add_preset_names_ok:
  assumes ok: "names_ok w"
  shows "names_ok (fst (add_preset_raw I org s name w))"
proof -
  let ?w1 = "fst (preset_new s w)" and ?p = "named_preset s name w" and ?i = "pr_id (snd (preset_new s w))"
  have ok1: "names_ok ?w1" by (rule names_ok_view [OF view_preset_new ok])
  have eq1: "w_presets ?w1 = w_presets w" "w_preset_names ?w1 = w_preset_names w"
    using view_preset_new [of s w] by (simp_all only: names_view_def prod.inject)
  show ?thesis
  proof (cases "\<exists>n. name = Some n \<and> has_key (w_preset_names w) n")
    case True
    then show ?thesis using ok1 by (auto simp: add_preset_raw_eq Let_def eq1)
  next
    case False
    then have free: "find_preset_id_by_name n w = None" if "name = Some n" for n
      using that by (auto simp: find_preset_id_by_name_def)
    show ?thesis
    proof (cases "get_preset ?i w")
      case None
      obtain w' r where "add_preset_raw I org s name w = (w', r)" by (cases "add_preset_raw I org s name w")
      with add_preset_ok [OF ok None free] show ?thesis by (metis fst_conv)
    next
      case (Some h)
      let ?w4 = "populated I ?p ?w1"
      have v: "names_view ?w4 = names_view (case name of None \<Rightarrow> ?w1 | Some n \<Rightarrow> reserve_name n ?i ?w1)"
        using view_populated [of ?p ?w1] by (simp only: named_preset_sel)
      have dup: "has_key (w_presets ?w4) ?i"
        using v Some eq1 by (cases name) (auto simp: names_view_def reserve_name_def get_preset_def)
      have ntaken: "\<not> (case name of None \<Rightarrow> False | Some n \<Rightarrow> has_key (w_preset_names ?w1) n)"
        using False by (auto simp: eq1 split: option.splits)
      show ?thesis
      proof (cases name)
        case None
        then have "fst (add_preset_raw I org s name w) = ?w4"
          using dup by (simp add: add_preset_raw_eq Let_def)
        then show ?thesis using names_ok_view [OF _ ok1, of ?w4] v None by simp
      next
        case (Some n)
        let ?w5 = "?w4\<lparr>w_preset_names := im_swap_remove n (w_preset_names ?w4)\<rparr>"
        have r: "fst (add_preset_raw I org s name w) = ?w5"
          using dup ntaken Some by (auto simp: add_preset_raw_eq Let_def)
        have n: "w_preset_names ?w4 = im_insert n ?i (w_preset_names w)" "w_presets ?w4 = w_presets w"
          and objs: "map (\<lambda>p. (pr_id p, pr_name p)) (w_preset_objs ?w4) = map (\<lambda>p. (pr_id p, pr_name p)) (w_preset_objs ?w1)"
          using v Some eq1 by (simp_all add: names_view_def reserve_name_def)
        have d: "distinct (keys_of (w_preset_names w))" using ok by (simp add: names_ok_def)
        have fr: "map_of (w_preset_names w) n = None" using free [OF Some] by (simp add: find_preset_id_by_name_def)
        have look: "map_of (im_swap_remove n (im_insert n ?i (w_preset_names w))) = map_of (w_preset_names w)"
          using d fr by (auto simp: fun_eq_iff)
        have len: "length (w_preset_objs ?w4) = length (w_preset_objs ?w1)" by (rule view_nth(1) [OF objs])
        have nth: "h < length (w_preset_objs ?w1) \<Longrightarrow> pr_id (w_preset_objs ?w4 ! h) = pr_id (w_preset_objs ?w1 ! h) \<and>
          pr_name (w_preset_objs ?w4 ! h) = pr_name (w_preset_objs ?w1 ! h)" for h
          by (rule view_nth(2) [OF objs])
        have "names_ok ?w5"
          using ok1 nth d unfolding names_ok_def eq1
          by (simp add: n look len distinct_im_swap_remove del: map_of_eq_Some_iff) metis
        then show ?thesis by (simp only: r)
      qed
    qed
  qed
qed

lemma remove_preset_names_ok: "names_ok w \<Longrightarrow> names_ok (fst (remove_preset I org i w))"
proof -
  assume ok: "names_ok w"
  obtain w' r where r: "remove_preset I org i w = (w', r)" by (cases "remove_preset I org i w")
  show ?thesis
  proof (cases r)
    case (Inl e)
    then show ?thesis using r ok by (auto simp: remove_preset_eq split: option.splits)
  next
    case (Inr u)
    with r names_ok_remove [OF ok, of org i w'] show ?thesis by simp
  qed
qed

end

lemma view_register [simp]: "names_view (register_agent_definition d w) = names_view w"
  by (simp add: names_view_def register_agent_definition_def set_global_configs_def Let_def split: option.split)

text \<open>A call of the API on definitions, presets, agents or connections.\<close>

inductive preset_call :: "'u impls \<Rightarrow> 'u world \<Rightarrow> 'u world \<Rightarrow> bool" for I where
  call_add_preset: "preset_call I w (fst (add_preset_raw I org s name w))"
| call_rename: "preset_call I w (fst (rename_preset org i n w))"
| call_remove: "preset_call I w (fst (remove_preset I org i w))"
| call_start: "preset_call I w (fst (start_preset i w))"
| call_stop: "preset_call I w (fst (stop_preset I i w))"
| call_update: "preset_call I w (fst (update_preset_spec org i j w))"
| call_add_agent: "preset_call I w (fst (add_agent I org i a w))"
| call_remove_agent: "preset_call I w (fst (remove_agent I org i k w))"
| call_add_connection: "preset_call I w (fst (add_connection org i c w))"
| call_remove_connection: "preset_call I w (fst (remove_connection org i c w))"
| call_batch: "preset_call I w (fst (add_agents_and_connections I org i as cs w))"
| call_register: "preset_call I w (register_agent_definition d w)"

lemma names_ok_new: "names_ok world_new"
  by (simp add: names_ok_def world_new_def)

context agent_contract
begin

lemma call_names_ok:
  assumes "preset_call I w w'" and ok: "names_ok w"
  shows "names_ok w'"
  using assms(1)
proof cases
  case (call_start i)
  then have "names_view w' = names_view w" by (simp add: start_preset_def split: option.split)
  then show ?thesis by (rule names_ok_view [OF _ ok])
next
  case (call_stop i)
  then have "names_view w' = names_view w" by (simp add: stop_preset_def split: option.split)
  then show ?thesis by (rule names_ok_view [OF _ ok])
qed (simp_all add: add_preset_names_ok [OF ok] rename_names_ok [OF ok] remove_preset_names_ok [OF ok]
    names_ok_view [OF view_update_spec ok] names_ok_view [OF view_add_agent_op ok]
    names_ok_view [OF view_remove_agent_op ok] names_ok_view [OF view_add_connection_op ok]
    names_ok_view [OF view_remove_connection_op ok] names_ok_view [OF view_batch ok]
    names_ok_view [OF view_register ok])

lemma calls_names_ok: "(preset_call I)\<^sup>*\<^sup>* w w' \<Longrightarrow> names_ok w \<Longrightarrow> names_ok w'"
  by (induction rule: rtranclp_induct) (auto intro: call_names_ok)

end

end
