(* ===== verification/Interleaving.thy ===== *)
theory Interleaving
  imports Names
begin

text \<open>
  The name index under concurrency. \<open>add_preset_raw\<close>, \<open>rename_preset\<close> and \<open>remove_preset\<close>
  take and release their locks several times, so their sections interleave. A state of the
  step relation \<open>race\<close> is the world and the operations under way; every step is one section
  under one lock, or sections that touch no table of names. The invariant says why each entry
  of the index may stand: its preset is listed, or an operation under way will clear it.
\<close>

text \<open>The roll back of \<open>rename_preset\<close>, a section of its own.\<close>

definition rename_rollback :: "string \<Rightarrow> string \<Rightarrow> 'u world \<Rightarrow> 'u world" where
  "rename_rollback i n w =
    (if map_of (w_preset_names w) n = Some i
     then w\<lparr>w_preset_names := im_swap_remove n (w_preset_names w)\<rparr> else w)"

lemma rename_recheck_eq: "rename_recheck i n w =
    (if has_key (w_presets w) i then (w, Inr ()) else (rename_rollback i n w, Inl (PresetNotFound i)))"
  by (simp add: rename_recheck_def rename_rollback_def)

definition add_publish :: "preset \<Rightarrow> 'u world \<Rightarrow> 'u world" where
  "add_publish p w =
    (if has_key (w_presets w) (pr_id p) then
       (case pr_name p of None \<Rightarrow> w
        | Some n \<Rightarrow> w\<lparr>w_preset_names := im_swap_remove n (w_preset_names w)\<rparr>)
     else w\<lparr>w_presets := im_insert (pr_id p) (length (w_preset_objs w)) (w_presets w),
            w_preset_objs := w_preset_objs w @ [p]\<rparr>)"

datatype rename_phase = Looked nat | Reserved nat | Dead | Alive nat

record 'u race_state =
  rs_world :: "'u world"
  rs_renames :: "(string \<times> string \<times> rename_phase) list"
  rs_removes :: "(string \<times> bool) list"
  rs_adds :: "preset list"

definition race_start :: "'u world \<Rightarrow> 'u race_state" where
  "race_start w = \<lparr>rs_world = w, rs_renames = [], rs_removes = [], rs_adds = []\<rparr>"

text \<open>\<open>upd\<close> replaces an operation under way by its next phase, or drops it.\<close>

definition upd :: "'t list \<Rightarrow> nat \<Rightarrow> 't list \<Rightarrow> 't list" where
  "upd ts k us = take k ts @ us @ drop (Suc k) ts"

inductive race :: "'u impls \<Rightarrow> 'u race_state \<Rightarrow> 'u race_state \<Rightarrow> bool" for I where
  rename_begin: "get_preset i (rs_world s) = Some h \<Longrightarrow>
    race I s (s\<lparr>rs_renames := (i, n, Looked h) # rs_renames s\<rparr>)"
| rename_reserved: "k < length (rs_renames s) \<Longrightarrow> rs_renames s ! k = (i, n, Looked h) \<Longrightarrow>
    rename_reserve i n (rs_world s) = (w, Inr ()) \<Longrightarrow>
    race I s (s\<lparr>rs_world := w, rs_renames := upd (rs_renames s) k [(i, n, Reserved h)]\<rparr>)"
| rename_taken: "k < length (rs_renames s) \<Longrightarrow> rs_renames s ! k = (i, n, Looked h) \<Longrightarrow>
    rename_reserve i n (rs_world s) = (w, Inl e) \<Longrightarrow>
    race I s (s\<lparr>rs_world := w, rs_renames := upd (rs_renames s) k []\<rparr>)"
| rename_alive: "k < length (rs_renames s) \<Longrightarrow> rs_renames s ! k = (i, n, Reserved h) \<Longrightarrow>
    has_key (w_presets (rs_world s)) i \<Longrightarrow>
    race I s (s\<lparr>rs_renames := upd (rs_renames s) k [(i, n, Alive h)]\<rparr>)"
| rename_dead: "k < length (rs_renames s) \<Longrightarrow> rs_renames s ! k = (i, n, Reserved h) \<Longrightarrow>
    \<not> has_key (w_presets (rs_world s)) i \<Longrightarrow>
    race I s (s\<lparr>rs_renames := upd (rs_renames s) k [(i, n, Dead)]\<rparr>)"
| rename_undo: "k < length (rs_renames s) \<Longrightarrow> rs_renames s ! k = (i, n, Dead) \<Longrightarrow>
    race I s (s\<lparr>rs_world := rename_rollback i n (rs_world s), rs_renames := upd (rs_renames s) k []\<rparr>)"
| rename_done: "k < length (rs_renames s) \<Longrightarrow> rs_renames s ! k = (i, n, Alive h) \<Longrightarrow>
    race I s (s\<lparr>rs_world := rename_commit org h i n (rs_world s), rs_renames := upd (rs_renames s) k []\<rparr>)"
| remove_begin: "get_preset i (rs_world s) = Some h \<Longrightarrow>
    race I s (s\<lparr>rs_world := torn_down I h (rs_world s), rs_removes := (i, False) # rs_removes s\<rparr>)"
| remove_listed: "k < length (rs_removes s) \<Longrightarrow> rs_removes s ! k = (i, False) \<Longrightarrow>
    race I s (s\<lparr>rs_world := remove_unlist i (rs_world s), rs_removes := upd (rs_removes s) k [(i, True)]\<rparr>)"
| remove_named: "k < length (rs_removes s) \<Longrightarrow> rs_removes s ! k = (i, True) \<Longrightarrow>
    race I s (s\<lparr>rs_world := remove_preset_token i (remove_unname i (rs_world s)),
                rs_removes := upd (rs_removes s) k []\<rparr>)"
| add_reserved: "preset_new sp (rs_world s) = (w, p0) \<Longrightarrow> p = p0\<lparr>pr_name := name\<rparr> \<Longrightarrow>
    (\<And>n. name = Some n \<Longrightarrow> \<not> has_key (w_preset_names w) n) \<Longrightarrow>
    race I s (s\<lparr>rs_world := populated I p w, rs_adds := p # rs_adds s\<rparr>)"
| add_done: "k < length (rs_adds s) \<Longrightarrow> rs_adds s ! k = p \<Longrightarrow>
    race I s (s\<lparr>rs_world := add_publish p (rs_world s), rs_adds := upd (rs_adds s) k []\<rparr>)"

text \<open>Why an entry of the index stands.\<close>

definition covered :: "'u race_state \<Rightarrow> string \<Rightarrow> string \<Rightarrow> bool" where
  "covered s n i \<longleftrightarrow> has_key (w_presets (rs_world s)) i \<or> (i, True) \<in> set (rs_removes s) \<or>
    (\<exists>h. (i, n, Reserved h) \<in> set (rs_renames s)) \<or> (i, n, Dead) \<in> set (rs_renames s) \<or>
    (\<exists>p \<in> set (rs_adds s). pr_id p = i \<and> pr_name p = Some n)"

definition race_inv :: "'u race_state \<Rightarrow> bool" where
  "race_inv s \<longleftrightarrow> distinct (keys_of (w_presets (rs_world s))) \<and>
    distinct (keys_of (w_preset_names (rs_world s))) \<and>
    (\<forall>n i. map_of (w_preset_names (rs_world s)) n = Some i \<longrightarrow> covered s n i)"

lemma set_upd: "k < length ts \<Longrightarrow> set (upd ts k us) \<subseteq> set ts \<union> set us"
  by (auto simp: upd_def dest: in_set_takeD in_set_dropD)

lemma mem_upd: "k < length ts \<Longrightarrow> x \<in> set ts \<Longrightarrow> x \<noteq> ts ! k \<Longrightarrow> x \<in> set (upd ts k us)"
  using id_take_nth_drop [of k ts] by (auto simp: upd_def) (metis Un_iff insert_iff list.simps(15) set_append)

lemma new_upd: "u \<in> set us \<Longrightarrow> u \<in> set (upd ts k us)"
  by (simp add: upd_def)

lemma names_tables:
  "names_view w' = names_view w \<Longrightarrow> w_presets w' = w_presets w \<and> w_preset_names w' = w_preset_names w"
  by (simp add: names_view_def)

text \<open>Dropping or replacing an operation keeps what it did not cover itself.\<close>

lemma covered_renames:
  assumes "covered s n i" and "k < length (rs_renames s)"
    and "rs_renames s ! k \<noteq> (i, n, Dead)" and "\<And>h. rs_renames s ! k \<noteq> (i, n, Reserved h)"
  shows "covered (s\<lparr>rs_renames := upd (rs_renames s) k us\<rparr>) n i"
  using assms mem_upd [OF assms(2)] by (auto simp: covered_def) metis+

lemma covered_world:
  assumes "covered s n i" and "has_key (w_presets (rs_world s)) i \<Longrightarrow> has_key (w_presets w) i"
  shows "covered (s\<lparr>rs_world := w\<rparr>) n i"
  using assms by (auto simp: covered_def)

lemma reserve_tables:
  assumes "rename_reserve i n w = (w', r)"
  shows "w_presets w' = w_presets w"
    and "is_ok r \<Longrightarrow> w_preset_names w' = im_insert n i (im_retain (\<lambda>_ v. v \<noteq> i) (w_preset_names w))"
    and "\<not> is_ok r \<Longrightarrow> w' = w"
  using assms by (auto simp: rename_reserve_def simp del: map_of_eq_Some_iff split: option.splits if_splits)

lemma rollback_tables:
  "w_presets (rename_rollback i n w) = w_presets w"
  "w_preset_names (rename_rollback i n w) =
    (if map_of (w_preset_names w) n = Some i then im_swap_remove n (w_preset_names w) else w_preset_names w)"
  by (simp_all add: rename_rollback_def)

lemma commit_tables:
  "w_presets (rename_commit org h i n w) = w_presets w"
  "w_preset_names (rename_commit org h i n w) = w_preset_names w"
  by (simp_all add: rename_commit_def notify_def update_preset_obj_def)

lemma race_inv_step_rename:
  assumes inv: "race_inv s" and k: "k < length (rs_renames s)" and t: "rs_renames s ! k = (i, n, ph)"
    and w: "w_presets w = w_presets (rs_world s)" and d: "distinct (keys_of (w_preset_names w))"
    and names: "\<And>m j. map_of (w_preset_names w) m = Some j \<Longrightarrow>
      (map_of (w_preset_names (rs_world s)) m = Some j \<and> ((j, m) \<noteq> (i, n) \<or> (\<forall>h. ph \<noteq> Reserved h) \<and> ph \<noteq> Dead)) \<or>
      (j, m) = (i, n) \<and> (has_key (w_presets w) i \<or> (\<exists>h. (i, n, Reserved h) \<in> set us) \<or> (i, n, Dead) \<in> set us)"
  shows "race_inv (s\<lparr>rs_world := w, rs_renames := upd (rs_renames s) k us\<rparr>)"
proof -
  have "covered (s\<lparr>rs_world := w, rs_renames := upd (rs_renames s) k us\<rparr>) m j"
    if "map_of (w_preset_names w) m = Some j" for m j
    using names [OF that]
  proof
    assume a: "map_of (w_preset_names (rs_world s)) m = Some j \<and>
      ((j, m) \<noteq> (i, n) \<or> (\<forall>h. ph \<noteq> Reserved h) \<and> ph \<noteq> Dead)"
    then have "covered s m j" using inv by (simp add: race_inv_def del: map_of_eq_Some_iff)
    then have "covered (s\<lparr>rs_renames := upd (rs_renames s) k us\<rparr>) m j"
      by (rule covered_renames [OF _ k]) (use a t in auto)
    then show ?thesis by (simp add: covered_def w)
  next
    assume "(j, m) = (i, n) \<and> (has_key (w_presets w) i \<or> (\<exists>h. (i, n, Reserved h) \<in> set us) \<or> (i, n, Dead) \<in> set us)"
    then show ?thesis
      using new_upd [of _ us "rs_renames s" k] unfolding covered_def by (simp del: map_of_eq_Some_iff) blast
  qed
  then show ?thesis using inv d w by (simp add: race_inv_def)
qed

lemma race_inv_frame:
  assumes "race_inv s" and "w_presets w = w_presets (rs_world s)" and "w_preset_names w = w_preset_names (rs_world s)"
    and "set (rs_removes s) \<subseteq> set D"
  shows "race_inv (s\<lparr>rs_world := w, rs_removes := D\<rparr>)"
  using assms by (auto simp: race_inv_def covered_def simp del: map_of_eq_Some_iff)

text \<open>The steps of \<open>rename_preset\<close>.\<close>

lemma race_inv_reserved:
  assumes "race_inv s" "k < length (rs_renames s)" "rs_renames s ! k = (i, n, Looked h)"
    and r: "rename_reserve i n (rs_world s) = (w, Inr ())"
  shows "race_inv (s\<lparr>rs_world := w, rs_renames := upd (rs_renames s) k [(i, n, Reserved h)]\<rparr>)"
proof (rule race_inv_step_rename [OF assms(1-3)])
  have d: "distinct (keys_of (w_preset_names (rs_world s)))" using assms(1) by (simp add: race_inv_def)
  note names = reserve_tables(2) [OF r, simplified]
  show "w_presets w = w_presets (rs_world s)" by (rule reserve_tables(1) [OF r])
  show "distinct (keys_of (w_preset_names w))" using d by (simp add: names)
  fix m j assume "map_of (w_preset_names w) m = Some j"
  then show "map_of (w_preset_names (rs_world s)) m = Some j \<and>
      ((j, m) \<noteq> (i, n) \<or> (\<forall>h'. Looked h \<noteq> Reserved h') \<and> Looked h \<noteq> Dead) \<or>
    (j, m) = (i, n) \<and> (has_key (w_presets w) i \<or> (\<exists>h'. (i, n, Reserved h') \<in> set [(i, n, Reserved h)]) \<or>
      (i, n, Dead) \<in> set [(i, n, Reserved h)])"
    by (auto simp: names map_of_im_retain [OF d] simp del: map_of_eq_Some_iff split: option.splits if_splits)
qed

lemma race_inv_undo:
  assumes "race_inv s" "k < length (rs_renames s)" "rs_renames s ! k = (i, n, Dead)"
  shows "race_inv (s\<lparr>rs_world := rename_rollback i n (rs_world s), rs_renames := upd (rs_renames s) k []\<rparr>)"
proof (rule race_inv_step_rename [OF assms])
  have d: "distinct (keys_of (w_preset_names (rs_world s)))" using assms(1) by (simp add: race_inv_def)
  show "w_presets (rename_rollback i n (rs_world s)) = w_presets (rs_world s)" by (rule rollback_tables(1))
  show "distinct (keys_of (w_preset_names (rename_rollback i n (rs_world s))))"
    using d by (simp add: rollback_tables)
  fix m j assume "map_of (w_preset_names (rename_rollback i n (rs_world s))) m = Some j"
  then show "map_of (w_preset_names (rs_world s)) m = Some j \<and>
      ((j, m) \<noteq> (i, n) \<or> (\<forall>h'. Dead \<noteq> Reserved h') \<and> Dead \<noteq> Dead) \<or>
    (j, m) = (i, n) \<and> (has_key (w_presets (rename_rollback i n (rs_world s))) i \<or>
      (\<exists>h'. (i, n, Reserved h') \<in> set []) \<or> (i, n, Dead) \<in> set [])"
    using d by (auto simp: rollback_tables simp del: map_of_eq_Some_iff split: if_splits)
qed

lemma race_inv_rename_same:
  assumes "race_inv s" "k < length (rs_renames s)" "rs_renames s ! k = (i, n, ph)"
    and w: "w_presets w = w_presets (rs_world s)" "w_preset_names w = w_preset_names (rs_world s)"
    and ph: "(\<forall>h. ph \<noteq> Reserved h) \<and> ph \<noteq> Dead \<or> has_key (w_presets w) i \<or> (i, n, Dead) \<in> set us"
  shows "race_inv (s\<lparr>rs_world := w, rs_renames := upd (rs_renames s) k us\<rparr>)"
proof (rule race_inv_step_rename [OF assms(1-4)])
  show "distinct (keys_of (w_preset_names w))" using assms(1) w by (simp add: race_inv_def)
  fix m j assume "map_of (w_preset_names w) m = Some j"
  with ph w show "map_of (w_preset_names (rs_world s)) m = Some j \<and>
      ((j, m) \<noteq> (i, n) \<or> (\<forall>h. ph \<noteq> Reserved h) \<and> ph \<noteq> Dead) \<or>
    (j, m) = (i, n) \<and> (has_key (w_presets w) i \<or> (\<exists>h. (i, n, Reserved h) \<in> set us) \<or> (i, n, Dead) \<in> set us)"
    by (simp del: map_of_eq_Some_iff) blast
qed

text \<open>The steps of \<open>remove_preset\<close> and \<open>add_preset_raw\<close>.\<close>

lemma race_inv_unlist:
  assumes inv: "race_inv s" and k: "k < length (rs_removes s)" "rs_removes s ! k = (i, False)"
  shows "race_inv (s\<lparr>rs_world := remove_unlist i (rs_world s), rs_removes := upd (rs_removes s) k [(i, True)]\<rparr>)"
proof -
  let ?s = "s\<lparr>rs_world := remove_unlist i (rs_world s), rs_removes := upd (rs_removes s) k [(i, True)]\<rparr>"
  have d: "distinct (keys_of (w_presets (rs_world s)))" using inv by (simp add: race_inv_def)
  have keep: "(j, True) \<in> set (rs_removes ?s)" if "(j, True) \<in> set (rs_removes s)" for j
    using mem_upd [OF k(1) that, of "[(i, True)]"] k(2) by simp
  have me: "(i, True) \<in> set (rs_removes ?s)" using new_upd [of "(i, True)" "[(i, True)]"] by simp
  have "covered ?s n j" if "covered s n j" for n j
    using that d keep [of j] me by (cases "j = i") (auto simp: covered_def remove_unlist_def)
  then show ?thesis using inv d by (simp add: race_inv_def remove_unlist_def)
qed

lemma race_inv_unname:
  assumes inv: "race_inv s" and k: "k < length (rs_removes s)" "rs_removes s ! k = (i, True)"
  shows "race_inv (s\<lparr>rs_world := remove_preset_token i (remove_unname i (rs_world s)),
    rs_removes := upd (rs_removes s) k []\<rparr>)"
proof -
  let ?s = "s\<lparr>rs_world := remove_preset_token i (remove_unname i (rs_world s)), rs_removes := upd (rs_removes s) k []\<rparr>"
  have d: "distinct (keys_of (w_preset_names (rs_world s)))" using inv by (simp add: race_inv_def)
  have names: "w_preset_names (remove_preset_token i (remove_unname i (rs_world s))) =
      im_retain (\<lambda>_ v. v \<noteq> i) (w_preset_names (rs_world s))"
    "w_presets (remove_preset_token i (remove_unname i (rs_world s))) = w_presets (rs_world s)"
    by (simp_all add: remove_preset_token_def remove_unname_def)
  have keep: "(j, True) \<in> set (rs_removes ?s)" if "(j, True) \<in> set (rs_removes s)" "j \<noteq> i" for j
    using mem_upd [OF k(1) that(1), of "[]"] k(2) that(2) by simp
  have "covered ?s n j" if "map_of (w_preset_names (rs_world ?s)) n = Some j" for n j
  proof -
    have old: "map_of (w_preset_names (rs_world s)) n = Some j" "j \<noteq> i"
      using that by (auto simp: names map_of_im_retain [OF d] simp del: map_of_eq_Some_iff
          split: option.splits if_splits)
    then have "covered s n j" using inv by (simp add: race_inv_def del: map_of_eq_Some_iff)
    then show ?thesis using keep [OF _ old(2)] names(2) by (auto simp: covered_def)
  qed
  then show ?thesis using inv d names by (simp add: race_inv_def del: map_of_eq_Some_iff)
qed

lemma publish_tables:
  assumes "distinct (keys_of (w_preset_names w))"
  shows "has_key (w_presets w) j \<Longrightarrow> has_key (w_presets (add_publish p w)) j"
    and "distinct (keys_of (w_presets w)) \<Longrightarrow> distinct (keys_of (w_presets (add_publish p w)))"
    and "distinct (keys_of (w_preset_names (add_publish p w)))"
    and "map_of (w_preset_names (add_publish p w)) n = Some i \<Longrightarrow> map_of (w_preset_names w) n = Some i \<and>
      (pr_id p = i \<and> pr_name p = Some n \<longrightarrow> has_key (w_presets (add_publish p w)) i)"
  using assms by (auto simp: add_publish_def simp del: map_of_eq_Some_iff split: option.splits if_splits)

lemma race_inv_publish:
  assumes inv: "race_inv s" and k: "k < length (rs_adds s)" "rs_adds s ! k = p"
  shows "race_inv (s\<lparr>rs_world := add_publish p (rs_world s), rs_adds := upd (rs_adds s) k []\<rparr>)"
proof -
  let ?s = "s\<lparr>rs_world := add_publish p (rs_world s), rs_adds := upd (rs_adds s) k []\<rparr>"
  have d: "distinct (keys_of (w_preset_names (rs_world s)))" "distinct (keys_of (w_presets (rs_world s)))"
    using inv by (simp_all add: race_inv_def)
  note P = publish_tables [OF d(1)]
  have "covered ?s n i" if a: "map_of (w_preset_names (rs_world ?s)) n = Some i" for n i
  proof -
    from a have a': "map_of (w_preset_names (add_publish p (rs_world s))) n = Some i" by simp
    note b = P(4) [OF a']
    then have "covered s n i" using inv by (simp add: race_inv_def del: map_of_eq_Some_iff)
    then consider "has_key (w_presets (rs_world s)) i" | "(i, True) \<in> set (rs_removes s)"
      | h where "(i, n, Reserved h) \<in> set (rs_renames s)" | "(i, n, Dead) \<in> set (rs_renames s)"
      | q where "q \<in> set (rs_adds s)" "pr_id q = i" "pr_name q = Some n"
      unfolding covered_def by blast
    then show ?thesis
    proof cases
      case 1
      then show ?thesis using P(1) [of i p] by (simp add: covered_def)
    next
      case (5 q)
      then show ?thesis
        using b mem_upd [OF k(1), of q "[]"] k(2) by (cases "q = p") (auto simp: covered_def)
    qed (auto simp: covered_def)
  qed
  then show ?thesis using P(2,3) d by (simp add: race_inv_def del: map_of_eq_Some_iff)
qed

context agent_contract
begin

lemma race_inv_reserve_add:
  assumes inv: "race_inv s" and new: "preset_new sp (rs_world s) = (w, p0)" and p: "p = p0\<lparr>pr_name := name\<rparr>"
  shows "race_inv (s\<lparr>rs_world := populated I p w, rs_adds := p # rs_adds s\<rparr>)"
proof -
  let ?s = "s\<lparr>rs_world := populated I p w, rs_adds := p # rs_adds s\<rparr>"
  have v1: "w_presets w = w_presets (rs_world s)" "w_preset_names w = w_preset_names (rs_world s)"
    using names_tables [OF view_preset_new, of sp "rs_world s"] new by simp_all
  have t: "w_presets (populated I p w) = w_presets (rs_world s)"
    "w_preset_names (populated I p w) = (case pr_name p of None \<Rightarrow> w_preset_names (rs_world s)
      | Some n \<Rightarrow> im_insert n (pr_id p) (w_preset_names (rs_world s)))"
    using names_tables [OF view_populated, of p w] v1 by (auto simp: reserve_name_def split: option.splits)
  have "covered ?s n i" if "map_of (w_preset_names (rs_world ?s)) n = Some i" for n i
  proof (cases "pr_name p = Some n \<and> pr_id p = i")
    case False
    then have "map_of (w_preset_names (rs_world s)) n = Some i"
      using that by (auto simp: t simp del: map_of_eq_Some_iff split: option.splits if_splits)
    then have "covered s n i" using inv by (simp add: race_inv_def del: map_of_eq_Some_iff)
    then show ?thesis by (auto simp: covered_def t)
  qed (simp add: covered_def)
  then show ?thesis
    using inv by (auto simp: race_inv_def t simp del: map_of_eq_Some_iff split: option.splits)
qed

lemma race_inv_step:
  assumes "race I s t" and inv: "race_inv s"
  shows "race_inv t"
  using assms(1)
proof cases
  case (rename_begin i h n)
  then show ?thesis using inv by (auto simp: race_inv_def covered_def simp del: map_of_eq_Some_iff)
next
  case (rename_reserved k i n h w)
  then show ?thesis using race_inv_reserved [OF inv] by simp
next
  case (rename_taken k i n h w e)
  then show ?thesis
    using race_inv_rename_same [OF inv, of k i n "Looked h" w "[]"] reserve_tables(1,3) by fastforce
next
  case (rename_alive k i n h)
  then show ?thesis
    using race_inv_rename_same [OF inv, of k i n "Reserved h" "rs_world s" "[(i, n, Alive h)]"] by simp
next
  case (rename_dead k i n h)
  then show ?thesis
    using race_inv_rename_same [OF inv, of k i n "Reserved h" "rs_world s" "[(i, n, Dead)]"] by simp
next
  case (rename_undo k i n)
  then show ?thesis using race_inv_undo [OF inv] by simp
next
  case (rename_done k i n h org)
  then show ?thesis
    using race_inv_rename_same [OF inv, of k i n "Alive h" _ "[]"] by (simp add: commit_tables)
next
  case (remove_begin i h)
  have "w_presets (torn_down I h (rs_world s)) = w_presets (rs_world s)"
    "w_preset_names (torn_down I h (rs_world s)) = w_preset_names (rs_world s)"
    using names_tables [OF view_torn_down, of h "rs_world s"] by simp_all
  then show ?thesis using remove_begin race_inv_frame [OF inv, of _ "(i, False) # rs_removes s"] by auto
next
  case (remove_listed k i)
  then show ?thesis using race_inv_unlist [OF inv] by simp
next
  case (remove_named k i)
  then show ?thesis using race_inv_unname [OF inv] by simp
next
  case (add_reserved sp w p0 p name)
  then show ?thesis using race_inv_reserve_add [OF inv] by simp
next
  case (add_done k p)
  then show ?thesis using race_inv_publish [OF inv] by simp
qed

lemma race_inv_reachable: "(race I)\<^sup>*\<^sup>* s t \<Longrightarrow> race_inv s \<Longrightarrow> race_inv t"
  by (induction rule: rtranclp_induct) (auto intro: race_inv_step)

end

lemma race_inv_start: "names_ok w \<Longrightarrow> race_inv (race_start w)"
  by (auto simp: race_inv_def race_start_def covered_def names_ok_def)

lemma race_inv_quiet:
  "race_inv s \<Longrightarrow> rs_renames s = [] \<Longrightarrow> rs_removes s = [] \<Longrightarrow> rs_adds s = [] \<Longrightarrow>
    find_preset_id_by_name n (rs_world s) = Some i \<Longrightarrow> get_preset i (rs_world s) \<noteq> None"
  by (auto simp: race_inv_def covered_def find_preset_id_by_name_def get_preset_def simp del: map_of_eq_Some_iff)

end
