(* ===== verification/Example.thy ===== *)
theory Example
  imports External Registration Delivery Stopping Batch Interleaving
begin

text \<open>
  A small running graph on which the witnesses of the properties evaluate the model: two
  agents \<open>a\<close> and \<open>b\<close> of a preset \<open>p\<close> named \<open>main\<close>, a connection from the port \<open>out\<close> of \<open>a\<close>
  to the port \<open>in\<close> of \<open>b\<close>, and \<open>a\<close> listening to the channel \<open>ch\<close>. \<open>b\<close> runs (channel 0, token
  1 below the preset's token 0), \<open>a\<close> is at rest.
\<close>

definition def_D :: agent_definition where
  "def_D = (definition_new ''Agent'' ''D'' (Some ''D''))\<lparr>d_configs :=
    Some [(''n'', config_spec_new (Integer 1) ''integer''), (''s'', config_spec_new (String ''x'') ''string'')]\<rparr>"

definition spec_D :: "string \<Rightarrow> agent_spec" where
  "spec_D i = \<lparr>s_id = i, s_def_name = ''D'', s_inputs = None, s_outputs = None, s_configs = None,
    s_config_specs = None, s_disabled = False, s_extensions = []\<rparr>"

definition edge :: "string \<Rightarrow> string \<Rightarrow> string \<Rightarrow> string \<Rightarrow> connection_spec" where
  "edge s sh t th = \<lparr>c_source = s, c_source_handle = sh, c_target = t, c_target_handle = th\<rparr>"

definition ctx0 :: agent_context where
  "ctx0 = \<lparr>ctx_id = 7, ctx_vars = None, ctx_frames = None, ctx_cancel = None\<rparr>"

definition agent_D :: "string \<Rightarrow> agent_status \<Rightarrow> unit agent" where
  "agent_D i st = \<lparr>a_id = i, a_spec = spec_D i, a_preset_id = ''p'', a_status = st, a_impl = ''D'',
    a_state = Channel None\<rparr>"

definition preset_P :: preset where
  "preset_P = \<lparr>pr_id = ''p'', pr_name = Some ''main'', pr_running = True,
    pr_spec = preset_spec_default\<lparr>p_agents := [spec_D ''a'', spec_D ''b''],
      p_connections := [edge ''a'' ''out'' ''b'' ''in'']\<rparr>\<rparr>"

definition loop_b :: agent_loop where
  "loop_b = \<lparr>lp_agent_id = ''b'', lp_obj = 1, lp_chan = 0, lp_preset_id = ''p'', lp_generation = 1,
    lp_token = 1, lp_phase = Running\<rparr>"

definition demo :: "unit world" where
  "demo = world_new\<lparr>w_generation := 2, w_objs := [agent_D ''a'' Init, agent_D ''b'' Start],
    w_agents := [(''a'', 0), (''b'', 1)], w_chans := [chan_new], w_agent_txs := [(''b'', 0)],
    w_external_input_agents := [(''ch'', [''a''])],
    w_connections := [(''a'', [(''b'', ''out'', ''in'')])], w_defs := [(''D'', def_D)],
    w_preset_objs := [preset_P], w_presets := [(''p'', 0)], w_preset_names := [(''main'', ''p'')],
    w_tokens := [\<lparr>tk_fired = False, tk_parent = None\<rparr>, \<lparr>tk_fired = False, tk_parent = Some 0\<rparr>],
    w_preset_tokens := [(''p'', 0)], w_agent_tokens := [(''b'', (1, 1))], w_loops := [loop_b]\<rparr>"

lemmas demo_defs = demo_def world_new_def agent_D_def spec_D_def preset_P_def loop_b_def
  preset_spec_default_def chan_new_def edge_def

lemma demo_sel [simp]:
  "w_agents demo = [(''a'', 0), (''b'', 1)]" "w_agent_txs demo = [(''b'', 0)]" "w_chans demo = [chan_new]"
  "w_connections demo = [(''a'', [(''b'', ''out'', ''in'')])]"
  "w_external_input_agents demo = [(''ch'', [''a''])]" "w_presets demo = [(''p'', 0)]"
  "w_preset_objs demo = [preset_P]" "w_preset_names demo = [(''main'', ''p'')]"
  "w_objs demo = [agent_D ''a'' Init, agent_D ''b'' Start]" "w_events demo = []"
  "w_tokens demo = [\<lparr>tk_fired = False, tk_parent = None\<rparr>, \<lparr>tk_fired = False, tk_parent = Some 0\<rparr>]"
  "w_preset_tokens demo = [(''p'', 0)]" "w_agent_tokens demo = [(''b'', (1, 1))]"
  "w_loops demo = [loop_b]" "w_ids demo = 1" "w_defs demo = [(''D'', def_D)]" "w_generation demo = 2"
  "w_context_tokens demo = []" "w_external_values demo = []"
  by (simp_all add: demo_defs)

lemma demo_agent_sel [simp]:
  "a_id (agent_D i st) = i" "a_spec (agent_D i st) = spec_D i" "a_status (agent_D i st) = st"
  "a_preset_id (agent_D i st) = ''p''" "a_impl (agent_D i st) = ''D''"
  "s_id (spec_D i) = i" "s_def_name (spec_D i) = ''D''" "s_disabled (spec_D i) = False"
  "pr_id preset_P = ''p''" "pr_name preset_P = Some ''main''" "pr_running preset_P = True"
  "p_agents (pr_spec preset_P) = [spec_D ''a'', spec_D ''b'']"
  "p_connections (pr_spec preset_P) = [edge ''a'' ''out'' ''b'' ''in'']"
  by (simp_all add: demo_defs)

lemma edge_sel [simp]:
  "c_source (edge s sh t th) = s" "c_source_handle (edge s sh t th) = sh"
  "c_target (edge s sh t th) = t" "c_target_handle (edge s sh t th) = th"
  by (simp_all add: edge_def)

lemma demo_ok:
  "tokens_ok demo" "tables_distinct demo" "conns_wf (w_connections demo)" "txs_ok demo"
  "distinct (keys_of (w_agents demo))" "get_preset ''p'' demo = Some 0"
  by (auto simp: tokens_ok_def tables_distinct_def conns_wf_def txs_ok_def get_preset_def loop_b_def
      split: if_splits)

lemma demo_names: "names_ok demo"
  by (auto simp: names_ok_def split: if_splits)

text \<open>The table of implementations the witnesses use.\<close>

abbreviation impls0 :: "unit impls" where
  "impls0 \<equiv> builtin plain_impl"

lemma contract0: "agent_contract impls0"
  by (rule builtins.agent_contract_axioms)

text \<open>An environment for the functions that take a \<open>host\<close>.\<close>

definition host0 :: host where
  "host0 = \<lparr>h_img_decode = (\<lambda>s. \<lparr>raw_pixels = [], img_width = 0, img_height = 0\<rparr>),
    h_img_panics = starts_with IMAGE_BASE64_PREFIX,
    h_img_encode = (\<lambda>i. IMAGE_BASE64_PREFIX @ ''AA==''), h_parse_f64 = (\<lambda>s. None), h_show_f64 = (\<lambda>x. ''1''),
    h_json_text = (\<lambda>j. ''j''), h_json_parse = (\<lambda>s. None), h_serde_msg = (\<lambda>t j. t)\<rparr>"

end
