(* ===== verification/Engine.thy ===== *)
theory Engine
  imports Names Stopping External
begin

text \<open>
  Runs of the whole engine: \<open>engine\<close> is one step of anything that can happen in it, a call of the
  API, a turn of the loop of an agent or a turn of the main loop, and a run is any sequence of
  steps. \<open>evolves\<close> says what every step, and so every run, does to the loops, the tokens and
  the generations of the starts: a fired token stays fired, a slot of the table of agent tokens
  keeps its generation or gets one that a later start was given, and a loop keeps its token
  unless the slot of its agent carries its generation. So a loop whose token is fired and whose
  generation has left its slot never works again, whatever is stopped, started or sent
  afterwards; generations do not come back before the counter has gone round.
\<close>

section \<open>Steps\<close>

inductive engine :: "host \<Rightarrow> 'u impls \<Rightarrow> 'u world \<Rightarrow> 'u world \<Rightarrow> bool" for H I where
  engine_call: "preset_call I w w' \<Longrightarrow> engine H I w w'"
| engine_start: "engine H I w (fst (start_agent i w))"
| engine_stop: "engine H I w (fst (stop_agent I i w))"
| engine_turn: "n < length (w_loops w) \<Longrightarrow> loop_step I live n w = Some w' \<Longrightarrow> engine H I w w'"
| engine_main: "n < length (w_main_chans w) \<Longrightarrow> main_step I n w = Some w' \<Longrightarrow> engine H I w w'"
| engine_input: "engine H I w (fst (agent_input I org i ctx port v w))"
| engine_write: "engine H I w (fst (write_external_input ch v w))"
| engine_write_local: "engine H I w (fst (write_local_input p x v w))"
| engine_configs: "engine H I w (fst (set_agent_configs I org i c w))"
| engine_update: "engine H I w (fst (update_agent_spec H I org i j w))"
| engine_abort: "engine H I w (fst (abort_context live c w))"
| engine_globals: "engine H I w (set_global_configs d c w)"
| engine_ready: "engine H I w (fst (ready w))"
| engine_quit: "engine H I w (quit w)"

section \<open>What steps do to loops, tokens and generations\<close>

text \<open>The generations given out between two states: each start takes one and adds a loop.\<close>

definition issued :: "'u world \<Rightarrow> 'u world \<Rightarrow> u64 \<Rightarrow> bool" where
  "issued w w' g \<longleftrightarrow>
    (\<exists>j < length (w_loops w') - length (w_loops w). g = w_generation w + word_of_nat j)"

definition holds_slot :: "'u world \<Rightarrow> string \<Rightarrow> u64 \<Rightarrow> bool" where
  "holds_slot w i g \<longleftrightarrow> (\<exists>t. (i, g, t) \<in> set (w_agent_tokens w))"

definition same_loop :: "agent_loop \<Rightarrow> agent_loop \<Rightarrow> bool" where
  "same_loop l l' \<longleftrightarrow> lp_agent_id l' = lp_agent_id l \<and> lp_generation l' = lp_generation l \<and> lp_chan l' = lp_chan l"

definition evolves :: "'u world \<Rightarrow> 'u world \<Rightarrow> bool" where
  "evolves w w' \<longleftrightarrow> length (w_loops w) \<le> length (w_loops w') \<and>
    w_generation w' = w_generation w + word_of_nat (length (w_loops w') - length (w_loops w)) \<and>
    (\<forall>t. cancelled (w_tokens w) t \<longrightarrow> cancelled (w_tokens w') t) \<and>
    (\<forall>i g. holds_slot w' i g \<longrightarrow> holds_slot w i g \<or> issued w w' g) \<and>
    (\<forall>n < length (w_loops w). let l = w_loops w ! n; l' = w_loops w' ! n in
      same_loop l l' \<and>
      (lp_token l' \<noteq> lp_token l \<longrightarrow>
        holds_slot w (lp_agent_id l) (lp_generation l) \<or> issued w w' (lp_generation l)))"

lemma issued_left:
  assumes "issued w w1 g" and "length (w_loops w1) \<le> length (w_loops w2)"
  shows "issued w w2 g"
proof -
  obtain j where "j < length (w_loops w1) - length (w_loops w)" "g = w_generation w + word_of_nat j"
    using assms(1) by (auto simp: issued_def)
  moreover from this assms(2) have "j < length (w_loops w2) - length (w_loops w)" by simp
  ultimately show ?thesis unfolding issued_def by blast
qed

lemma issued_right:
  assumes "issued w1 w2 g" and "length (w_loops w) \<le> length (w_loops w1)"
    and "w_generation w1 = w_generation w + word_of_nat (length (w_loops w1) - length (w_loops w))"
  shows "issued w w2 g"
proof -
  obtain j where j: "j < length (w_loops w2) - length (w_loops w1)" "g = w_generation w1 + word_of_nat j"
    using assms(1) by (auto simp: issued_def)
  let ?j = "length (w_loops w1) - length (w_loops w) + j"
  have "?j < length (w_loops w2) - length (w_loops w)" using j(1) assms(2) by simp
  moreover have "g = w_generation w + word_of_nat ?j" using j(2) assms(3) by (simp add: of_nat_add add.assoc)
  ultimately show ?thesis unfolding issued_def by blast
qed

lemma evolvesI:
  assumes "length (w_loops w) \<le> length (w_loops w')"
    and "w_generation w' = w_generation w + word_of_nat (length (w_loops w') - length (w_loops w))"
    and "\<And>t. cancelled (w_tokens w) t \<Longrightarrow> cancelled (w_tokens w') t"
    and "\<And>i g. holds_slot w' i g \<Longrightarrow> holds_slot w i g \<or> issued w w' g"
    and "\<And>n. n < length (w_loops w) \<Longrightarrow> same_loop (w_loops w ! n) (w_loops w' ! n)"
    and "\<And>n. n < length (w_loops w) \<Longrightarrow> lp_token (w_loops w' ! n) \<noteq> lp_token (w_loops w ! n) \<Longrightarrow>
      holds_slot w (lp_agent_id (w_loops w ! n)) (lp_generation (w_loops w ! n)) \<or>
      issued w w' (lp_generation (w_loops w ! n))"
  shows "evolves w w'"
  unfolding evolves_def Let_def using assms by blast

lemma evolvesD:
  assumes "evolves w w'"
  shows "length (w_loops w) \<le> length (w_loops w')"
    and "w_generation w' = w_generation w + word_of_nat (length (w_loops w') - length (w_loops w))"
    and "\<And>t. cancelled (w_tokens w) t \<Longrightarrow> cancelled (w_tokens w') t"
    and "\<And>i g. holds_slot w' i g \<Longrightarrow> holds_slot w i g \<or> issued w w' g"
    and "\<And>n. n < length (w_loops w) \<Longrightarrow> same_loop (w_loops w ! n) (w_loops w' ! n)"
    and "\<And>n. n < length (w_loops w) \<Longrightarrow> lp_token (w_loops w' ! n) \<noteq> lp_token (w_loops w ! n) \<Longrightarrow>
      holds_slot w (lp_agent_id (w_loops w ! n)) (lp_generation (w_loops w ! n)) \<or>
      issued w w' (lp_generation (w_loops w ! n))"
  using assms unfolding evolves_def Let_def by blast+

lemma same_loop_trans: "same_loop k l \<Longrightarrow> same_loop l m \<Longrightarrow> same_loop k m"
  by (simp add: same_loop_def)

lemma evolves_trans:
  assumes a: "evolves w w1" and b: "evolves w1 w2"
  shows "evolves w w2"
proof (rule evolvesI)
  note A = evolvesD [OF a] and B = evolvesD [OF b]
  have l: "issued w w1 g \<Longrightarrow> issued w w2 g" for g by (rule issued_left [OF _ B(1)])
  have r: "issued w1 w2 g \<Longrightarrow> issued w w2 g" for g by (rule issued_right [OF _ A(1,2)])
  show "length (w_loops w) \<le> length (w_loops w2)" using A(1) B(1) by simp
  have "length (w_loops w2) - length (w_loops w) =
      (length (w_loops w1) - length (w_loops w)) + (length (w_loops w2) - length (w_loops w1))"
    using A(1) B(1) by simp
  then show "w_generation w2 = w_generation w + word_of_nat (length (w_loops w2) - length (w_loops w))"
    unfolding B(2) A(2) by (simp only: of_nat_add add.assoc)
  show "cancelled (w_tokens w2) t" if "cancelled (w_tokens w) t" for t using that A(3) B(3) by blast
  show s: "holds_slot w i g \<or> issued w w2 g" if "holds_slot w2 i g" for i g
    using B(4) [OF that] A(4) [of i g] l r by blast
  fix n assume n: "n < length (w_loops w)"
  then have n1: "n < length (w_loops w1)" using A(1) by simp
  have sl: "same_loop (w_loops w ! n) (w_loops w1 ! n)" by (rule A(5) [OF n])
  show "same_loop (w_loops w ! n) (w_loops w2 ! n)" by (rule same_loop_trans [OF sl B(5) [OF n1]])
  assume ne: "lp_token (w_loops w2 ! n) \<noteq> lp_token (w_loops w ! n)"
  let ?l = "w_loops w ! n"
  show "holds_slot w (lp_agent_id ?l) (lp_generation ?l) \<or> issued w w2 (lp_generation ?l)"
  proof (cases "lp_token (w_loops w1 ! n) = lp_token ?l")
    case True
    then have "lp_token (w_loops w2 ! n) \<noteq> lp_token (w_loops w1 ! n)" using ne by simp
    from B(6) [OF n1 this] sl have "holds_slot w1 (lp_agent_id ?l) (lp_generation ?l) \<or> issued w1 w2 (lp_generation ?l)"
      by (simp add: same_loop_def)
    then show ?thesis using A(4) [of "lp_agent_id ?l" "lp_generation ?l"] l r by blast
  next
    case False
    from A(6) [OF n False] l show ?thesis by blast
  qed
qed

definition life_view :: "'u world \<Rightarrow> _" where
  "life_view w = (w_tokens w, w_agent_tokens w, w_loops w, w_generation w)"

lemma evolves_view: "life_view w' = life_view w \<Longrightarrow> evolves w w'"
  by (rule evolvesI) (auto simp: life_view_def holds_slot_def same_loop_def)

lemma evolves_refl: "evolves w w"
  by (rule evolves_view) simp

lemma evolves_fold: "(\<And>x w. x \<in> set xs \<Longrightarrow> evolves w (f x w)) \<Longrightarrow> evolves w (fold f xs w)"
proof (induction xs arbitrary: w)
  case Nil
  show ?case by (simp add: evolves_refl)
next
  case (Cons x xs)
  have "evolves w (f x w)" by (rule Cons.prems) simp
  moreover have "evolves (f x w) (fold f xs (f x w))" by (rule Cons.IH) (use Cons.prems in simp)
  ultimately show ?case by (simp add: evolves_trans)
qed

text \<open>A change of the tokens that fires or adds some, with slots taken away.\<close>

lemma evolves_tokens:
  assumes "w_loops w' = w_loops w" and "w_generation w' = w_generation w"
    and "\<And>t. cancelled (w_tokens w) t \<Longrightarrow> cancelled (w_tokens w') t"
    and "\<And>i g. holds_slot w' i g \<Longrightarrow> holds_slot w i g"
  shows "evolves w w'"
  by (rule evolvesI) (use assms in \<open>auto simp: same_loop_def\<close>)

lemma grows_keeps: "grows ts us \<Longrightarrow> cancelled ts t \<Longrightarrow> cancelled us t"
proof -
  assume g: "grows ts us" and c: "cancelled ts t"
  have "t < length ts" using c by (subst (asm) cancelled.simps) simp
  then show ?thesis using grows_cancelled [OF g] c by simp
qed

lemma set_im_insert: "set (im_insert k v m) \<subseteq> insert (k, v) (set m)"
  by (induction m) (auto simp: im_insert_def split: if_splits)

lemma set_im_swap: "set (im_swap_remove k m) \<subseteq> set m"
proof -
  have "last m \<in> set m" if "has_key m k" using that by (cases m) auto
  then show ?thesis by (auto simp: im_swap_remove_def Let_def dest: in_set_butlastD)
qed

lemma life_notify [simp]: "life_view (notify org e w) = life_view w"
  by (simp add: life_view_def notify_def)

lemma life_set_chan [simp]: "life_view (set_chan n c w) = life_view w"
  by (simp add: life_view_def set_chan_def)

lemma life_update_preset [simp]: "life_view (update_preset_obj h f w) = life_view w"
  by (simp add: life_view_def update_preset_obj_def)

lemma life_fold: "(\<And>x w. life_view (f x w) = life_view w) \<Longrightarrow> life_view (fold f xs w) = life_view w"
  by (induction xs arbitrary: w) simp_all

section \<open>The operations on tokens\<close>

lemma start_agent_evolves: "evolves w (fst (start_agent i w))"
proof (cases "startable i w")
  case False
  then show ?thesis by (simp add: start_agent_skip evolves_refl)
next
  case True
  then obtain h d where h: "map_of (w_agents w) i = Some h"
    "map_of (w_defs w) (s_def_name (a_spec (w_objs w ! h))) = Some d" "a_status (w_objs w ! h) = Init"
    by (auto simp: startable_def)
  let ?p = "a_preset_id (w_objs w ! h)"
  let ?w1 = "w\<lparr>w_chans := w_chans w @ [chan_new], w_agent_txs := im_insert i (length (w_chans w)) (w_agent_txs w)\<rparr>"
  obtain w2 g t where c: "create_agent_token ?p i ?w1 = (w2, g, t)"
    by (cases "create_agent_token ?p i ?w1")
  obtain w3 q where pt: "preset_token ?p (?w1\<lparr>w_generation := w_generation ?w1 + 1\<rparr>) = (w3, q)"
    by (cases "preset_token ?p (?w1\<lparr>w_generation := w_generation ?w1 + 1\<rparr>)")
  have w3: "grows (w_tokens w) (w_tokens w3)" "w_agent_tokens w3 = w_agent_tokens w" "w_loops w3 = w_loops w"
      "w_generation w3 = w_generation w + 1"
    using pt by (auto simp: preset_token_def new_token_def Let_def split: option.splits)
  have w2: "w2 = w3\<lparr>w_tokens := w_tokens w3 @ [\<lparr>tk_fired = False, tk_parent = Some q\<rparr>],
      w_agent_tokens := im_insert i (g, t) (w_agent_tokens w3)\<rparr>" "g = w_generation w"
    using c pt by (auto simp: create_agent_token_def child_token_def Let_def)
  define l where "l = \<lparr>lp_agent_id = i, lp_obj = h, lp_chan = length (w_chans w), lp_preset_id = ?p,
    lp_generation = g, lp_token = t, lp_phase = Starting\<rparr>"
  have s: "fst (start_agent i w) = spawn_loop l w2"
    using h c by (simp add: start_agent_def Let_def l_def)
  have loops: "w_loops (spawn_loop l w2) = w_loops w @ [l]" by (simp add: spawn_loop_def w2 w3)
  show ?thesis
    unfolding s
  proof (rule evolvesI)
    show "w_generation (spawn_loop l w2) =
        w_generation w + word_of_nat (length (w_loops (spawn_loop l w2)) - length (w_loops w))"
      by (simp add: loops) (simp add: spawn_loop_def w2 w3)
    have "grows (w_tokens w) (w_tokens (spawn_loop l w2))"
      by (rule grows_trans [OF w3(1)]) (simp add: spawn_loop_def w2)
    then show "cancelled (w_tokens (spawn_loop l w2)) u" if "cancelled (w_tokens w) u" for u
      using that by (rule grows_keeps)
    show "holds_slot w j x \<or> issued w (spawn_loop l w2) x" if "holds_slot (spawn_loop l w2) j x" for j x
    proof -
      have "set (w_agent_tokens (spawn_loop l w2)) \<subseteq> insert (i, g, t) (set (w_agent_tokens w))"
        using set_im_insert [of i "(g, t)" "w_agent_tokens w"] by (simp add: spawn_loop_def w2 w3)
      then have "holds_slot w j x \<or> x = g" using that by (auto simp: holds_slot_def)
      moreover have "issued w (spawn_loop l w2) g" unfolding issued_def loops by (rule exI [of _ 0]) (simp add: w2(2))
      ultimately show ?thesis by blast
    qed
  qed (auto simp: loops nth_append same_loop_def)
qed

lemma life_send_stop [simp]: "life_view (send_stop i w) = life_view w"
  by (simp add: send_stop_def life_view_def Let_def split: option.split)

lemma cancel_agent_evolves: "evolves w (cancel_agent_token i w)"
proof (cases "map_of (w_agent_tokens w) i")
  case None
  then show ?thesis by (simp add: cancel_agent_token_def evolves_refl)
next
  case (Some gt)
  obtain g t where gt: "gt = (g, t)" by (cases gt)
  show ?thesis
    by (rule evolves_tokens)
      (use set_im_swap [of i "w_agent_tokens w"] in
        \<open>auto simp: cancel_agent_token_def Some gt cancelled_cancel holds_slot_def simp del: map_of_eq_Some_iff\<close>)
qed

lemma cancel_preset_evolves: "evolves w (cancel_preset_token p w)"
  by (rule evolves_tokens)
    (auto simp: cancel_preset_token_def cancelled_cancel holds_slot_def split: option.splits)

lemma reset_preset_evolves: "evolves w (reset_preset_token p w)"
  by (rule evolves_tokens)
    (auto simp: reset_preset_token_def new_token_def Let_def holds_slot_def intro: grows_keeps [OF grows_append])

lemma life_remove_preset_token [simp]: "life_view (remove_preset_token p w) = life_view w"
  by (simp add: life_view_def remove_preset_token_def)

lemma abort_evolves: "evolves w (fst (abort_context live c w))"
  by (rule evolves_tokens) (auto simp: abort_context_def cancelled_cancel holds_slot_def split: option.splits)

lemma context_token_evolves: "evolves w (fst (context_token live c w))"
  by (rule evolves_tokens)
    (auto simp: context_token_def new_token_def Let_def holds_slot_def split: option.splits
      intro: grows_keeps [OF grows_append])

lemma attach_token_evolves: "attach_token live ctx w = (w1, ctx1) \<Longrightarrow> evolves w w1"
  using context_token_evolves [of w live "ctx_id ctx"]
  by (auto simp: attach_token_def evolves_refl split: option.splits prod.splits)

lemma preset_start_evolves: "evolves w (preset_start h w)"
proof -
  let ?p = "w_preset_objs w ! h"
  let ?w1 = "update_preset_obj h (\<lambda>p. p\<lparr>pr_running := True\<rparr>) w"
  let ?w2 = "reset_preset_token (pr_id ?p) ?w1"
  let ?f = "\<lambda>a w. if s_disabled a then w else fst (start_agent (s_id a) w)"
  have "evolves w ?w1" by (rule evolves_view) simp
  moreover have "evolves ?w1 ?w2" by (rule reset_preset_evolves)
  moreover have "evolves ?w2 (fold ?f (p_agents (pr_spec ?p)) ?w2)"
    by (rule evolves_fold) (simp add: evolves_refl start_agent_evolves)
  ultimately show ?thesis
    by (auto simp: preset_start_def Let_def evolves_refl intro: evolves_trans)
qed

section \<open>The callbacks\<close>

text \<open>Agents that do not start other agents behind the back of the orchestrator: no callback takes
  a generation. The built-in agents are such agents.\<close>

locale engine_contract = agent_contract I for I :: "'u impls" +
  assumes new_generation: "i_new (I n) w i s = (w', x) \<Longrightarrow> w_generation w' = w_generation w"
    and changed_generation: "i_configs_changed (I n) w a = (w', a', r) \<Longrightarrow> w_generation w' = w_generation w"
    and start_generation: "i_start (I n) w a = (w', a', r) \<Longrightarrow> w_generation w' = w_generation w"
    and stop_generation: "i_stop (I n) w a = (w', a', r) \<Longrightarrow> w_generation w' = w_generation w"
    and process_generation: "i_process (I n) w a ctx port v = (w', a', r) \<Longrightarrow> w_generation w' = w_generation w"

lemma life_core: "core_of w' = core_of w \<Longrightarrow> w_generation w' = w_generation w \<Longrightarrow> life_view w' = life_view w"
  by (simp add: core_of_eq life_view_def)

lemma life_main_send [simp]: "life_view (fst (main_send what m w)) = life_view w"
  by (simp add: life_view_def main_send_def split: option.split)

lemma life_send_agent_out [simp]: "life_view (fst (send_agent_out i ctx port v w)) = life_view w"
  by (simp add: send_agent_out_def)

lemma life_send_external [simp]: "life_view (fst (send_external_output n ctx v w)) = life_view w"
  by (simp add: send_external_output_def)

lemma with_obj_life:
  "(\<And>w' a' r. f w (w_objs w ! h) = (w', a', r) \<Longrightarrow> life_view w' = life_view w) \<Longrightarrow>
    life_view (fst (with_obj h f w)) = life_view w"
  by (cases "f w (w_objs w ! h)") (simp add: with_obj_def life_view_def)

context engine_contract
begin

lemma callback_life:
  "i_new (I n) w i s = (w', x) \<Longrightarrow> life_view w' = life_view w"
  "i_configs_changed (I n) w a = (w', a', r) \<Longrightarrow> life_view w' = life_view w"
  "i_start (I n) w a = (w', a', r) \<Longrightarrow> life_view w' = life_view w"
  "i_stop (I n) w a = (w', a', r) \<Longrightarrow> life_view w' = life_view w"
  "i_process (I n) w a ctx port v = (w', a', r) \<Longrightarrow> life_view w' = life_view w"
  by (rule life_core, erule new_core, erule new_generation)
    (rule life_core, erule changed_core [THEN conjunct1] start_core [THEN conjunct1] stop_core [THEN conjunct1]
      process_core [THEN conjunct1],
      erule changed_generation start_generation stop_generation process_generation)+

lemma changed_life: "agent_configs_changed I w a = (w', a', r) \<Longrightarrow> life_view w' = life_view w"
  unfolding agent_configs_changed_def by (rule callback_life)

lemma set_config_life: "agent_set_config I k v w a = (w', a', r) \<Longrightarrow> life_view w' = life_view w"
  by (auto simp: agent_set_config_def split: option.splits dest: changed_life)

lemma set_configs_life: "agent_set_configs I c w a = (w', a', r) \<Longrightarrow> life_view w' = life_view w"
  by (auto simp: agent_set_configs_def dest: changed_life)

lemma update_spec_life: "agent_update_spec H I j w a = (w', a', r) \<Longrightarrow> life_view w' = life_view w"
  by (auto simp: agent_update_spec_def split: prod.splits sum.splits if_splits dest: changed_life)

lemma start_life: "agent_start I w a = (w', a', r) \<Longrightarrow> life_view w' = life_view w"
  by (auto simp: agent_start_def split: prod.splits sum.splits dest: callback_life)

lemma stop_life: "agent_stop I w a = (w', a', r) \<Longrightarrow> life_view w' = life_view w"
  by (auto simp: agent_stop_def split: prod.splits sum.splits dest: callback_life)

lemma process_life: "agent_process I ctx port v w a = (w', a', r) \<Longrightarrow> life_view w' = life_view w"
  by (auto simp: agent_process_def split: prod.splits sum.splits dest: callback_life)

lemma agent_new_life: "agent_new I i s w = (w', r) \<Longrightarrow> life_view w' = life_view w"
  by (auto simp: agent_new_def split: option.splits prod.splits sum.splits dest: callback_life)

lemma with_life [simp]:
  "life_view (fst (with_obj h (agent_set_config I k v) w)) = life_view w"
  "life_view (fst (with_obj h (agent_set_configs I c) w)) = life_view w"
  "life_view (fst (with_obj h (agent_update_spec H I j) w)) = life_view w"
  "life_view (fst (with_obj h (agent_start I) w)) = life_view w"
  "life_view (fst (with_obj h (agent_stop I) w)) = life_view w"
  "life_view (fst (with_obj h (agent_process I ctx port v) w)) = life_view w"
  by (rule with_obj_life, erule set_config_life set_configs_life update_spec_life start_life stop_life process_life)+

section \<open>Every step evolves the engine\<close>

lemma stop_agent_evolves: "evolves w (fst (stop_agent I i w))"
proof -
  let ?w1 = "cancel_agent_token i (send_stop i w)"
  have "evolves w (send_stop i w)" by (rule evolves_view) simp
  then have 1: "evolves w ?w1" using cancel_agent_evolves by (rule evolves_trans)
  have "life_view (fst (stop_agent I i w)) = life_view ?w1"
    by (simp add: stop_agent_def Let_def split: option.split)
  then show ?thesis using 1 evolves_trans evolves_view by blast
qed

lemma preset_stop_evolves: "evolves w (preset_stop I h w)"
proof -
  let ?p = "w_preset_objs w ! h"
  let ?w1 = "cancel_preset_token (pr_id ?p) w"
  let ?w2 = "fold (\<lambda>a w. fst (stop_agent I (s_id a) w)) (p_agents (pr_spec ?p)) ?w1"
  have "evolves ?w1 ?w2" by (rule evolves_fold) (rule stop_agent_evolves)
  then have 2: "evolves w ?w2" using cancel_preset_evolves evolves_trans by blast
  have "life_view (preset_stop I h w) = life_view ?w2" by (simp add: preset_stop_def Let_def)
  then show ?thesis using 2 evolves_trans evolves_view by blast
qed

lemma add_agent_internal_life [simp]: "life_view (fst (add_agent_internal I p s w)) = life_view w"
proof -
  obtain w1 r where a: "agent_new I (s_id s) s w = (w1, r)" by (cases "agent_new I (s_id s) s w")
  from agent_new_life [OF a] show ?thesis
    by (simp add: add_agent_internal_def a life_view_def split: sum.split)
qed

lemma remove_agent_internal_evolves: "evolves w (fst (remove_agent_internal I i w))"
proof -
  obtain w1 r where s: "stop_agent I i w = (w1, r)" by (cases "stop_agent I i w")
  have 1: "evolves w w1" using stop_agent_evolves [of w i] s by simp
  have "life_view (fst (remove_agent_internal I i w)) = life_view w1"
    by (simp add: remove_agent_internal_def s life_view_def split: sum.split)
  then show ?thesis using 1 evolves_trans evolves_view by blast
qed

end

lemma life_add_connection [simp]: "life_view (fst (add_connection_internal c w)) = life_view w"
  by (simp add: add_connection_internal_def life_view_def split: sum.split)

lemma life_remove_connection [simp]: "life_view (remove_connection_internal c w) = life_view w"
  by (simp add: remove_connection_internal_def life_view_def)

lemma life_batch_connections [simp]: "life_view (fst (add_connections_loop h cs w)) = life_view w"
proof (induction cs arbitrary: w)
  case (Cons c cs)
  obtain w1 r where a: "add_connection_internal c w = (w1, r)" by (cases "add_connection_internal c w")
  with life_add_connection [of c w] have "life_view w1 = life_view w" by simp
  then show ?case using Cons a by (cases r) (simp_all add: case_prod_beta Let_def)
qed simp

lemma life_undo_agent: "life_view (undo_agent h i w) = life_view w"
  by (simp add: undo_agent_def Let_def life_view_def update_preset_obj_def)

lemma life_rollback [simp]: "life_view (rollback_batch h as cs w) = life_view w"
proof -
  have "life_view (fold (undo_connection h) cs w) = life_view w"
    by (rule life_fold) (simp add: undo_connection_def)
  moreover have "life_view (fold (\<lambda>a. undo_agent h (s_id a)) as w') = life_view w'" for w'
    by (rule life_fold) (rule life_undo_agent)
  ultimately show ?thesis unfolding rollback_batch_def by metis
qed

lemma life_add_connection_op [simp]: "life_view (fst (add_connection org p c w)) = life_view w"
proof -
  obtain w1 r where "add_connection_internal c w = (w1, r)" by (cases "add_connection_internal c w")
  with life_add_connection [of c w] show ?thesis
    by (auto simp: add_connection_def split: option.splits sum.splits)
qed

lemma life_remove_connection_op [simp]: "life_view (fst (remove_connection org p c w)) = life_view w"
  by (simp add: remove_connection_def split: option.splits prod.splits)

lemma life_update_preset_spec [simp]: "life_view (fst (update_preset_spec org i j w)) = life_view w"
  by (auto simp: update_preset_spec_def split: option.splits sum.splits prod.splits)

lemma life_rename [simp]: "life_view (fst (rename_preset org i n w)) = life_view w"
proof -
  have "life_view (fst (rename_reserve i n w)) = life_view w" "life_view (fst (rename_recheck i n w)) = life_view w"
    for w :: "'a world"
    by (simp_all add: rename_reserve_def rename_recheck_def life_view_def split: option.split)
  then show ?thesis
    by (auto simp: rename_preset_def rename_commit_def split: option.split prod.split sum.split) (metis fst_conv)+
qed

lemma life_preset_new [simp]: "life_view (fst (preset_new s w)) = life_view w"
  by (simp add: preset_new_def life_view_def new_id_def case_prod_beta)

lemma life_reserve [simp]: "life_view (reserve_name n i w) = life_view w"
  by (simp add: reserve_name_def life_view_def)

lemma life_register [simp]: "life_view (register_agent_definition d w) = life_view w"
  "life_view (set_global_configs d' c w) = life_view w"
  by (simp_all add: register_agent_definition_def set_global_configs_def life_view_def Let_def split: option.split)

context engine_contract
begin

lemma life_populated [simp]: "life_view (populated I p w) = life_view w"
proof -
  let ?w1 = "case pr_name p of None \<Rightarrow> w | Some n \<Rightarrow> reserve_name n (pr_id p) w"
  have "life_view ?w1 = life_view w" by (simp split: option.split)
  moreover have "life_view (fold (\<lambda>a w. fst (add_agent_internal I (pr_id p) a w)) (p_agents (pr_spec p)) w') = life_view w'"
    for w' by (rule life_fold) simp
  moreover have "life_view (fold (\<lambda>c w. fst (add_connection_internal c w)) (p_connections (pr_spec p)) w') = life_view w'"
    for w' :: "'u world" by (rule life_fold) simp
  ultimately show ?thesis unfolding populated_def by metis
qed

lemma add_preset_life [simp]: "life_view (fst (add_preset_raw I org s name w)) = life_view w"
proof -
  have t: "life_view (v\<lparr>w_preset_names := n\<rparr>) = life_view v"
    "life_view (v\<lparr>w_presets := ps, w_preset_objs := os\<rparr>) = life_view v" for n ps os and v :: "'u world"
    by (simp_all add: life_view_def)
  show ?thesis unfolding add_preset_raw_eq Let_def by (simp add: t split: option.split)
qed

lemma add_agent_life [simp]: "life_view (fst (add_agent I org p s w)) = life_view w"
proof -
  let ?w1 = "fst (world_new_id w)" and ?i = "snd (world_new_id w)"
  obtain w2 r where a: "add_agent_internal I p (s\<lparr>s_id := ?i\<rparr>) ?w1 = (w2, r)"
    by (cases "add_agent_internal I p (s\<lparr>s_id := ?i\<rparr>) ?w1")
  have "life_view ?w1 = life_view w" by (simp add: world_new_id_def case_prod_beta life_view_def)
  with a add_agent_internal_life [of p "s\<lparr>s_id := ?i\<rparr>" ?w1] show ?thesis
    by (auto simp: add_agent_def case_prod_beta split: option.split sum.split)
qed

lemma batch_agents_life [simp]: "life_view (fst (add_agents_loop I p h ss w)) = life_view w"
proof (induction ss arbitrary: w)
  case (Cons s ss)
  obtain w1 r where a: "add_agent_internal I p s w = (w1, r)" by (cases "add_agent_internal I p s w")
  with add_agent_internal_life [of p s w] have "life_view w1 = life_view w" by simp
  then show ?case using Cons a by (cases r) (simp_all add: case_prod_beta Let_def)
qed simp

lemma batch_life [simp]: "life_view (fst (add_agents_and_connections I org p as cs w)) = life_view w"
proof -
  obtain as' cs' n where u: "update_ids (w_ids w) as cs = (as', cs', n)" by (cases "update_ids (w_ids w) as cs")
  let ?w1 = "w\<lparr>w_ids := n\<rparr>"
  have 1: "life_view ?w1 = life_view w" by (simp add: life_view_def)
  show ?thesis
  proof (cases "map_of (w_presets w) p")
    case None
    then show ?thesis by (simp add: add_agents_and_connections_def u 1)
  next
    case (Some h)
    obtain w2 built err where l1: "add_agents_loop I p h as' ?w1 = (w2, built, err)"
      by (cases "add_agents_loop I p h as' ?w1")
    obtain w3 m err' where l2: "(if err = None then add_connections_loop h cs' w2 else (w2, 0, err)) = (w3, m, err')"
      by (cases "if err = None then add_connections_loop h cs' w2 else (w2, 0, err)")
    have "life_view w2 = life_view w" using batch_agents_life [of p h as' ?w1] l1 1 by simp
    moreover have "life_view w3 = life_view w2"
      using l2 by (cases "err = None") (simp_all, metis life_batch_connections fst_conv)
    ultimately show ?thesis
      using Some by (simp add: add_agents_and_connections_def u l1 l2 split: option.split)
  qed
qed

lemma remove_agent_evolves: "evolves w (fst (remove_agent I org p i w))"
proof -
  obtain w1 r where s: "remove_agent_internal I i w = (w1, r)" by (cases "remove_agent_internal I i w")
  have 1: "evolves w w1" using remove_agent_internal_evolves [of w i] s by simp
  have "fst (remove_agent I org p i w) = w \<or> life_view (fst (remove_agent I org p i w)) = life_view w1"
    by (auto simp: remove_agent_def s Let_def split: option.split sum.split)
  then show ?thesis using 1 evolves_trans evolves_view evolves_refl by metis
qed

lemma remove_preset_evolves: "evolves w (fst (remove_preset I org i w))"
proof (cases "get_preset i w")
  case None
  then show ?thesis by (simp add: remove_preset_def evolves_refl)
next
  case (Some h)
  let ?w1 = "preset_stop I h w"
  let ?w2 = "fold (\<lambda>a w. fst (remove_agent_internal I (s_id a) w)) (p_agents (spec_of h ?w1)) ?w1"
  have "evolves ?w1 ?w2" by (rule evolves_fold) (rule remove_agent_internal_evolves)
  then have 2: "evolves w ?w2" using preset_stop_evolves evolves_trans by blast
  have f: "life_view (fold remove_connection_internal cs w') = life_view w'" for cs and w' :: "'u world"
    by (rule life_fold) simp
  have "life_view (remove_unname i (remove_unlist i w')) = life_view w'" for w' :: "'u world"
    by (simp add: remove_unname_def remove_unlist_def life_view_def)
  then have "life_view (fst (remove_preset I org i w)) = life_view ?w2"
    by (simp add: remove_preset_def Some Let_def f)
  then show ?thesis using 2 evolves_trans evolves_view by blast
qed

lemma preset_call_evolves: "preset_call I w w' \<Longrightarrow> evolves w w'"
proof (induction rule: preset_call.induct)
  case (call_start w i)
  then show ?case by (simp add: start_preset_def preset_start_evolves evolves_refl split: option.split)
next
  case (call_stop w i)
  then show ?case by (simp add: stop_preset_def preset_stop_evolves evolves_refl split: option.split)
next
  case (call_remove w org i)
  then show ?case by (rule remove_preset_evolves)
next
  case (call_remove_agent w org i k)
  then show ?case by (rule remove_agent_evolves)
qed (rule evolves_view, simp)+

end

section \<open>Turns of the loops\<close>

lemma life_emit_configs [simp]: "life_view (emit_configs_updated org i c w) = life_view w"
  unfolding emit_configs_updated_def by (rule life_fold) (simp split: prod.split)

lemma life_agent_send [simp]: "life_view (fst (agent_send ch m what w)) = life_view w"
  by (simp add: agent_send_def split: option.split)

lemma life_ctx [simp]: "life_view (fst (world_new_ctx w)) = life_view w"
  by (simp add: world_new_ctx_def life_view_def case_prod_beta)

lemma life_entry [simp]:
  "life_view (fst (write_external_input ch v w)) = life_view w"
  "life_view (fst (write_local_input p x v w)) = life_view w"
  "life_view (fst (ready w)) = life_view w" "life_view (quit w) = life_view w"
  by (simp_all add: write_external_input_def write_local_input_def case_prod_beta ready_def quit_def
      spawn_message_loop_def) (simp_all add: life_view_def)

text \<open>A loop changes its phase; its token it changes only when its slot carries its generation.\<close>

lemma set_loop_evolves:
  assumes "same_loop (w_loops w ! n) l"
    and "lp_token l \<noteq> lp_token (w_loops w ! n) \<Longrightarrow>
      holds_slot w (lp_agent_id (w_loops w ! n)) (lp_generation (w_loops w ! n))"
  shows "evolves w (set_loop n l w)"
proof (cases "n < length (w_loops w)")
  case True
  show ?thesis
    by (rule evolvesI)
      (use assms True in \<open>auto simp: set_loop_def holds_slot_def same_loop_def nth_list_update split: if_splits\<close>)
next
  case False
  then show ?thesis
    by (intro evolves_view) (simp add: set_loop_def life_view_def not_less list_update_beyond)
qed

lemma set_phase_evolves: "evolves w (set_loop n ((w_loops w ! n)\<lparr>lp_phase := ph\<rparr>) w)"
  by (rule set_loop_evolves) (simp_all add: same_loop_def)

lemma finish_evolves: "evolves w (finish_loop n w)"
proof -
  let ?c = "lp_chan (w_loops w ! n)"
  let ?w1 = "set_chan ?c ((w_chans w ! ?c)\<lparr>ch_closed := True\<rparr>) w"
  have "evolves w ?w1" by (rule evolves_view) simp
  moreover have "finish_loop n w = set_loop n ((w_loops ?w1 ! n)\<lparr>lp_phase := Finished\<rparr>) ?w1"
    by (simp add: finish_loop_def Let_def set_chan_def)
  ultimately show ?thesis by (metis set_phase_evolves evolves_trans)
qed

lemma renew_evolves:
  assumes "renew_agent_token p i g w = (w', r)"
  shows "evolves w w' \<and> w_loops w' = w_loops w \<and> (r \<noteq> None \<longrightarrow> holds_slot w' i g)"
proof (cases "r")
  case None
  have "evolves w w'"
    by (rule evolves_tokens)
      (use assms None in \<open>auto simp: renew_agent_token_def Let_def child_token_def holds_slot_def
        split: option.splits prod.splits if_splits intro: grows_keeps [OF grows_append]\<close>)
  moreover have "w_loops w' = w_loops w"
    using assms None
    by (auto simp: renew_agent_token_def Let_def child_token_def split: option.splits prod.splits if_splits)
  ultimately show ?thesis using None by simp
next
  case (Some t)
  then obtain q u where q: "map_of (w_preset_tokens w) p = Some q" "map_of (w_agent_tokens w) i = Some (g, u)"
    using assms by (auto simp: renew_agent_token_def Let_def child_token_def
        split: option.splits prod.splits if_splits simp del: map_of_eq_Some_iff)
  then have h: "holds_slot w i g" by (auto simp: holds_slot_def dest: map_of_SomeD)
  have w': "w' = w\<lparr>w_tokens := w_tokens w @ [\<lparr>tk_fired = False, tk_parent = Some q\<rparr>],
      w_agent_tokens := im_insert i (g, t) (w_agent_tokens w)\<rparr>"
    using assms Some q by (auto simp: renew_agent_token_def Let_def child_token_def simp del: map_of_eq_Some_iff)
  have "evolves w w'"
  proof (rule evolves_tokens)
    show "holds_slot w j x" if "holds_slot w' j x" for j x
      using that h set_im_insert [of i "(g, t)" "w_agent_tokens w"] by (auto simp: holds_slot_def w')
  qed (auto simp: w' intro: grows_keeps [OF grows_append])
  moreover have "holds_slot w' i g"
    using map_of_SomeD [of "w_agent_tokens w'" i "(g, t)"] by (auto simp: w' holds_slot_def)
  ultimately show ?thesis by (simp add: w')
qed

lemma attach_loops: "attach_token live ctx w = (w1, ctx1) \<Longrightarrow>
    w_loops w1 = w_loops w \<and> w_agent_tokens w1 = w_agent_tokens w"
  by (auto simp: attach_token_def context_token_def new_token_def Let_def split: option.splits prod.splits)

context engine_contract
begin

lemma loop_start_evolves: "evolves w (loop_start I n w)"
proof -
  obtain w1 r where w: "with_obj (lp_obj (w_loops w ! n)) (agent_start I) w = (w1, r)"
    by (cases "with_obj (lp_obj (w_loops w ! n)) (agent_start I) w")
  have v: "life_view w1 = life_view w" using with_life(4) [of "lp_obj (w_loops w ! n)" w] w by simp
  then have e: "evolves w w1" and l: "w_loops w1 = w_loops w" by (simp_all add: evolves_view life_view_def)
  have "evolves w1 (set_loop n ((w_loops w ! n)\<lparr>lp_phase := Running\<rparr>) w1)"
    using set_phase_evolves [of w1 n Running] l by simp
  then show ?thesis
    using e finish_evolves [of w n] finish_evolves [of w1 n]
    by (auto simp: loop_start_def Let_def w intro: evolves_trans split: sum.split)
qed

lemma loop_input_evolves: "evolves w (loop_input I live n ctx port v w)"
proof -
  obtain w1 ctx1 where a: "attach_token live ctx w = (w1, ctx1)" by (cases "attach_token live ctx w")
  note e = attach_token_evolves [OF a] and l = attach_loops [OF a]
  let ?l = "w_loops w ! n"
  obtain w2 r where r: "renew_agent_token (lp_preset_id ?l) (lp_agent_id ?l) (lp_generation ?l) w1 = (w2, r)"
    by (cases "renew_agent_token (lp_preset_id ?l) (lp_agent_id ?l) (lp_generation ?l) w1")
  show ?thesis
  proof (cases "cancelled (w_tokens w1) (lp_token ?l)")
    case False
    have "evolves w1 (fst (with_obj (lp_obj ?l) (agent_process I ctx1 port v) w1))" by (rule evolves_view) simp
    then show ?thesis using e False by (auto simp: loop_input_def Let_def a intro: evolves_trans)
  next
    case True
    note R = renew_evolves [OF r]
    show ?thesis
    proof (cases r)
      case None
      then show ?thesis using True R e by (auto simp: loop_input_def Let_def a r intro: evolves_trans)
    next
      case (Some t)
      have "evolves w2 (set_loop n (?l\<lparr>lp_token := t\<rparr>) w2)"
        by (rule set_loop_evolves) (use R Some l in \<open>simp_all add: same_loop_def\<close>)
      then have "evolves w1 (set_loop n (?l\<lparr>lp_token := t\<rparr>) w2)" using R evolves_trans by blast
      then show ?thesis using True Some e by (auto simp: loop_input_def Let_def a r intro: evolves_trans)
    qed
  qed
qed

lemma loop_message_evolves: "evolves w (loop_message I live n m w)"
  by (cases m) (simp_all add: loop_message_def loop_input_evolves finish_evolves evolves_view)

lemma loop_step_evolves: "loop_step I live n w = Some w' \<Longrightarrow> evolves w w'"
proof -
  assume s: "loop_step I live n w = Some w'"
  have c: "evolves w (set_chan k x w)" for k x by (rule evolves_view) simp
  show ?thesis
    using s loop_start_evolves [of w n] finish_evolves [of w n] evolves_trans [OF c loop_message_evolves]
    by (auto simp: loop_step_def Let_def split: loop_phase.splits list.splits if_splits)
qed

text \<open>A turn starts no loop.\<close>

lemma with_obj_loops:
  "w_loops (fst (with_obj h (agent_set_config I k v) w)) = w_loops w"
  "w_loops (fst (with_obj h (agent_set_configs I c) w)) = w_loops w"
  "w_loops (fst (with_obj h (agent_start I) w)) = w_loops w"
  "w_loops (fst (with_obj h (agent_process I ctx port v) w)) = w_loops w"
  using with_life(1) [of h k v w] with_life(2) [of h c w] with_life(4) [of h w] with_life(6) [of h ctx port v w]
  by (simp_all add: life_view_def)

lemma loop_step_length: "loop_step I live n w = Some w' \<Longrightarrow> length (w_loops w') = length (w_loops w)"
proof -
  have f: "length (w_loops (finish_loop n w)) = length (w_loops w)" for w :: "'u world"
    by (simp add: finish_loop_def set_loop_def set_chan_def Let_def)
  have s: "length (w_loops (loop_start I n w)) = length (w_loops w)" for w
    using with_obj_loops(3) [of "lp_obj (w_loops w ! n)" w]
    by (auto simp: loop_start_def Let_def f set_loop_def split: prod.split sum.split)
  have i: "length (w_loops (loop_input I live n ctx port v w)) = length (w_loops w)" for ctx port v w
  proof -
    obtain w1 ctx1 where a: "attach_token live ctx w = (w1, ctx1)" by (cases "attach_token live ctx w")
    let ?l = "w_loops w ! n"
    obtain w2 r where r: "renew_agent_token (lp_preset_id ?l) (lp_agent_id ?l) (lp_generation ?l) w1 = (w2, r)"
      by (cases "renew_agent_token (lp_preset_id ?l) (lp_agent_id ?l) (lp_generation ?l) w1")
    show ?thesis
      using attach_loops [OF a] renew_evolves [OF r]
      by (cases r) (simp_all add: loop_input_def Let_def a r with_obj_loops set_loop_def)
  qed
  have m: "length (w_loops (loop_message I live n m w)) = length (w_loops w)" for m w
    by (cases m) (simp_all add: loop_message_def i f with_obj_loops)
  show "loop_step I live n w = Some w' \<Longrightarrow> length (w_loops w') = length (w_loops w)"
    by (auto simp: loop_step_def Let_def s f m set_chan_def split: loop_phase.splits list.splits if_splits)
qed

section \<open>Deliveries\<close>

lemma life_agent_input [simp]: "life_view (fst (agent_input I org i ctx port v w)) = life_view w"
proof -
  have "life_view (fst (case agent_send ch m x w of (w1, Inl e) \<Rightarrow> (w1, Inl e)
      | (w1, Inr _) \<Rightarrow> (notify org ev w1, Inr ()))) = life_view w" for ch m x ev
    using life_agent_send [of ch m x w] by (cases "agent_send ch m x w") (auto split: sum.split)
  then show ?thesis
    by (simp add: agent_input_def split: option.split agent_message.split)
qed

lemma life_set_agent_configs [simp]: "life_view (fst (set_agent_configs I org i c w)) = life_view w"
proof -
  have k: "life_view (fst (case wr of (w1, Inl e) \<Rightarrow> (w1, Inl e)
      | (w1, Inr u) \<Rightarrow> (emit_configs_updated org i c w1, Inr ()))) = life_view w"
    if "life_view (fst wr) = life_view w" for wr :: "'u world \<times> unit result"
    using that by (cases wr) (auto split: sum.split)
  show ?thesis
    unfolding set_agent_configs_def by (auto split: option.split intro!: k)
qed

lemma life_update_agent_spec [simp]: "life_view (fst (update_agent_spec H I org i j w)) = life_view w"
  by (simp add: update_agent_spec_def Let_def case_prod_beta split: option.split)

lemma main_step_evolves: "main_step I n w = Some w' \<Longrightarrow> evolves w w'"
proof -
  have d: "life_view (deliver I org ctx v tp w) = life_view w" for org ctx v tp w by (simp add: deliver_def)
  have o: "life_view (fold (deliver_out I org ctx port v) ts w) = life_view w" for org ctx port v ts w
    by (rule life_fold) (simp add: deliver_out_def d split: prod.split)
  have n: "life_view (deliver_node I org ctx v i w) = life_view w" for org ctx v i w
    unfolding deliver_node_def by (auto split: option.split intro!: life_fold d)
  have f: "life_view (fold (deliver_node I org ctx v) ns w) = life_view w" for org ctx v ns w
    by (rule life_fold) (rule n)
  have x: "life_view (w\<lparr>w_external_values := y\<rparr>) = life_view w" "life_view (w\<lparr>w_main_chans := z\<rparr>) = life_view w"
    for w :: "'u world" and y z by (simp_all add: life_view_def)
  have "life_view (main_message I m w) = life_view w" for m w
    by (simp add: main_message_def agent_out_def external_input_def Let_def o f x
        split: agent_event_message.split option.split)
  then show "main_step I n w = Some w' \<Longrightarrow> evolves w w'"
    by (auto simp: main_step_def x split: list.splits intro: evolves_view)
qed

section \<open>Runs\<close>

lemma engine_evolves: "engine H I w w' \<Longrightarrow> evolves w w'"
proof (induction rule: engine.induct)
  case (engine_call w w')
  then show ?case by (rule preset_call_evolves)
next
  case (engine_start w i)
  show ?case by (rule start_agent_evolves)
next
  case (engine_stop w i)
  show ?case by (rule stop_agent_evolves)
next
  case (engine_turn n w live w')
  show ?case by (rule loop_step_evolves [OF engine_turn(2)])
next
  case (engine_main n w w')
  show ?case by (rule main_step_evolves [OF engine_main(2)])
next
  case (engine_abort w live c)
  show ?case by (rule abort_evolves)
qed (rule evolves_view, simp)+

lemma run_evolves: "(engine H I)\<^sup>*\<^sup>* w w' \<Longrightarrow> evolves w w'"
  by (induction rule: rtranclp_induct) (auto intro: evolves_refl engine_evolves evolves_trans)

end

section \<open>A loop cut off from its slot\<close>

text \<open>Generations below the counter are not given out again before the counter has gone round.\<close>

lemma issued_fresh:
  assumes "unat g < unat (w_generation w)"
    and "unat (w_generation w) + (length (w_loops w') - length (w_loops w)) \<le> 2 ^ 64"
  shows "\<not> issued w w' g"
proof
  assume "issued w w' g"
  then obtain j where j: "j < length (w_loops w') - length (w_loops w)" "g = w_generation w + word_of_nat j"
    by (auto simp: issued_def)
  have "unat (w_generation w) + j < 2 ^ 64" using j(1) assms(2) by simp
  then have "unat g = unat (w_generation w) + j"
    unfolding j(2) by (simp add: unat_word_ariths unat_of_nat)
  then show False using assms(1) by simp
qed

lemma cut_off_stays:
  assumes e: "evolves w u" and n: "n < length (w_loops w)" and l: "w_loops w ! n = l"
    and s: "\<not> holds_slot w (lp_agent_id l) (lp_generation l)" and i: "\<not> issued w u (lp_generation l)"
    and c: "cancelled (w_tokens w) (lp_token l)"
  shows "same_loop l (w_loops u ! n) \<and> lp_token (w_loops u ! n) = lp_token l \<and>
    cancelled (w_tokens u) (lp_token l) \<and> \<not> holds_slot u (lp_agent_id l) (lp_generation l)"
  using evolvesD(3) [OF e c] evolvesD(4) [OF e] evolvesD(5) [OF e n] evolvesD(6) [OF e n] s i l by blast

text \<open>A turn of such a loop is the same under every table of callbacks, so none is called.\<close>

lemma finish_objs [simp]: "w_objs (finish_loop n w) = w_objs w"
  by (simp add: finish_loop_def set_loop_def set_chan_def Let_def)

lemma attach_token_objs:
  "attach_token live ctx w = (w1, ctx1) \<Longrightarrow> w_objs w1 = w_objs w \<and> grows (w_tokens w) (w_tokens w1)"
  by (auto simp: attach_token_def context_token_def new_token_def Let_def split: option.splits prod.splits)

lemma renew_objs: "w_objs (fst (renew_agent_token p i g w)) = w_objs w"
  by (simp add: renew_agent_token_def Let_def case_prod_beta split: option.split)

lemma cancelled_input_dropped:
  assumes c: "cancelled (w_tokens w) (lp_token (w_loops w ! n))"
  shows "w_objs (loop_input I live n ctx port v w) = w_objs w \<and>
    loop_input J live n ctx port v w = loop_input I live n ctx port v w"
proof -
  let ?l = "w_loops w ! n"
  obtain w1 ctx1 where a: "attach_token live ctx w = (w1, ctx1)" by (cases "attach_token live ctx w")
  note A = attach_token_objs [OF a]
  have c1: "cancelled (w_tokens w1) (lp_token ?l)" using A grows_keeps c by blast
  obtain w2 r where r: "renew_agent_token (lp_preset_id ?l) (lp_agent_id ?l) (lp_generation ?l) w1 = (w2, r)"
    by (cases "renew_agent_token (lp_preset_id ?l) (lp_agent_id ?l) (lp_generation ?l) w1")
  have "w_objs w2 = w_objs w"
    using renew_objs [of "lp_preset_id ?l" "lp_agent_id ?l" "lp_generation ?l" w1] r A by simp
  then show ?thesis
    using a c1 r by (cases r) (simp_all add: loop_input_def Let_def set_loop_def)
qed

definition for_config :: "agent_message list \<Rightarrow> bool" where
  "for_config ms \<longleftrightarrow> (case ms of ConfigMsg _ _ # _ \<Rightarrow> True | ConfigsMsg _ # _ \<Rightarrow> True | _ \<Rightarrow> False)"

lemma cancelled_step_idle:
  assumes c: "cancelled (w_tokens w) (lp_token (w_loops w ! n))" and s: "loop_step I live n w = Some w'"
    and q: "\<not> for_config (ch_queue (w_chans w ! lp_chan (w_loops w ! n)))"
  shows "w_objs w' = w_objs w \<and> loop_step J live n w = Some w'"
proof (cases "lp_phase (w_loops w ! n)")
  case Starting
  then show ?thesis using s c by (auto simp: loop_step_def Let_def loop_start_def)
next
  case Running
  show ?thesis
  proof (cases "ch_queue (w_chans w ! lp_chan (w_loops w ! n))")
    case Nil
    then show ?thesis using s Running by (auto simp: loop_step_def Let_def split: if_splits)
  next
    case (Cons m ms)
    let ?w = "set_chan (lp_chan (w_loops w ! n)) ((w_chans w ! lp_chan (w_loops w ! n))\<lparr>ch_queue := ms\<rparr>) w"
    have w': "loop_step K live n w = Some (loop_message K live n m ?w)" for K :: "'a impls"
      using Running Cons by (simp add: loop_step_def Let_def)
    have "cancelled (w_tokens ?w) (lp_token (w_loops ?w ! n))" using c by (simp add: set_chan_def)
    note d = cancelled_input_dropped [OF this, of I live _ _ _ J]
    show ?thesis
      using q s d unfolding w' Cons
      by (cases m) (auto simp: loop_message_def set_chan_def for_config_def)
  qed
next
  case Finished
  then show ?thesis using s by (simp add: loop_step_def Let_def)
qed

text \<open>A turn takes no generation, so it gives a loop a new token only through its slot.\<close>

lemma loop_step_cut_off:
  assumes "engine_contract I" and "loop_step I live n w = Some w'" and "n < length (w_loops w)"
  shows "lp_token (w_loops w' ! n) = lp_token (w_loops w ! n) \<or>
    holds_slot w (lp_agent_id (w_loops w ! n)) (lp_generation (w_loops w ! n))"
proof -
  note e = evolvesD [OF engine_contract.loop_step_evolves [OF assms(1,2)]]
  have "length (w_loops w') = length (w_loops w)" by (rule engine_contract.loop_step_length [OF assms(1,2)])
  then have "\<not> issued w w' g" for g by (simp add: issued_def)
  then show ?thesis using e(6) [OF assms(3)] by blast
qed

section \<open>The built-in agents keep the contract\<close>

lemma generation_register [simp]:
  "w_generation (register_opt c i w) = w_generation w" "w_generation (unregister_opt c i w) = w_generation w"
  by (simp_all add: register_def unregister_def register_opt_def unregister_opt_def split: option.split)

lemma input_generation:
  "input_start chan w a = (w', a', r) \<Longrightarrow> w_generation w' = w_generation w"
  "input_stop chan w a = (w', a', r) \<Longrightarrow> w_generation w' = w_generation w"
  "input_configs_changed chan w a = (w', a', r) \<Longrightarrow> w_generation w' = w_generation w"
  by (auto simp: input_start_def input_stop_def input_configs_changed_def Let_def split: sum.splits if_splits)

lemma output_generation:
  "output_configs_changed w a = (w', a', r) \<Longrightarrow> w_generation w' = w_generation w"
  "no_callback w a = (w', a', r) \<Longrightarrow> w_generation w' = w_generation w"
  "no_process w a ctx port v = (w', a', r) \<Longrightarrow> w_generation w' = w_generation w"
  "channel_agent_new n w i s = (w', x) \<Longrightarrow> w_generation w' = w_generation w"
  by (auto simp: output_configs_changed_def no_callback_def no_process_def channel_agent_new_def split: sum.splits)

lemma output_process_generation:
  "output_process chan w a ctx port v = (w', a', r) \<Longrightarrow> w_generation w' = w_generation w"
proof -
  have "w_generation (fst (send_external_output n ctx v w)) = w_generation w" for n
    using life_send_external [of n ctx v w] by (simp add: life_view_def)
  then show "output_process chan w a ctx port v = (w', a', r) \<Longrightarrow> w_generation w' = w_generation w"
    by (auto simp: output_process_def Let_def case_prod_beta split: if_splits)
qed

lemma builtin_engine_contract: "engine_contract U \<Longrightarrow> engine_contract (builtin U)"
proof -
  assume U: "engine_contract U"
  then have "agent_contract (builtin U)" by (rule builtin_contract [OF engine_contract.axioms(1)])
  moreover have "engine_contract_axioms (builtin U)"
    unfolding builtin_defs
    by unfold_locales
      (auto split: if_splits dest: input_generation output_generation output_process_generation
        engine_contract.new_generation [OF U] engine_contract.changed_generation [OF U]
        engine_contract.start_generation [OF U] engine_contract.stop_generation [OF U]
        engine_contract.process_generation [OF U])
  ultimately show "engine_contract (builtin U)" by (rule engine_contract.intro)
qed

lemma plain_engine_contract: "engine_contract plain_impl"
  by (rule engine_contract.intro [OF plain_contract], unfold_locales)
    (auto simp: plain_impl_def dest: output_generation)

interpretation engines: engine_contract "builtin plain_impl"
  by (rule builtin_engine_contract [OF plain_engine_contract])

end
