(* ===== verification/Llm.thy ===== *)
theory Llm
  imports Value
begin

text \<open>
  llm.rs, the rest: the token estimates that decide when a conversation is compacted, and the
  streaming events of a message with their JSON form.

  The estimates add up byte lengths in \<open>usize\<close> and tokens in \<open>u64\<close>, both at 64 bits, so they
  wrap; \<open>message_cost\<close> and \<open>context_cost\<close> are the same sums over the natural numbers, and the
  lemmas say when the two agree.
\<close>

section \<open>Token estimates\<close>

definition IMAGE_TOKENS :: u64 where "IMAGE_TOKENS = 1200"

text \<open>\<open>u64::div_ceil\<close>.\<close>

definition div_ceil :: "u64 \<Rightarrow> u64 \<Rightarrow> u64" where
  "div_ceil a b = (if a mod b = 0 then a div b else a div b + 1)"

definition str_len :: "string \<Rightarrow> usize" where
  "str_len s = word_of_nat (length s)"

fun block_chars :: "content_block \<Rightarrow> usize" where
  "block_chars (TextBlock t) = str_len t"
| "block_chars (ThinkingBlock t sig redacted) = str_len t"
| "block_chars (ImageBlock d mime) = 0"

fun block_image_tokens :: "content_block \<Rightarrow> u64" where
  "block_image_tokens (ImageBlock d mime) = IMAGE_TOKENS"
| "block_image_tokens b = 0"

definition call_chars :: "host \<Rightarrow> tool_call \<Rightarrow> usize" where
  "call_chars H c =
    str_len (fn_name (tc_function c)) + str_len (h_json_text H (fn_parameters (tc_function c)))"

definition content_chars :: "message_content \<Rightarrow> usize" where
  "content_chars c = (case c of Text s \<Rightarrow> str_len s | Blocks bs \<Rightarrow> sum_list (map block_chars bs))"

definition content_image_tokens :: "message_content \<Rightarrow> u64" where
  "content_image_tokens c =
    (case c of Text s \<Rightarrow> 0 | Blocks bs \<Rightarrow> sum_list (map block_image_tokens bs))"

definition estimate_message_tokens :: "host \<Rightarrow> message \<Rightarrow> u64" where
  "estimate_message_tokens H m =
    (let chars = content_chars (msg_content m) +
       (case msg_tool_calls m of None \<Rightarrow> 0 | Some cs \<Rightarrow> sum_list (map (call_chars H) cs));
       image_tokens = content_image_tokens (msg_content m) +
       (case msg_image m of None \<Rightarrow> 0 | Some i \<Rightarrow> IMAGE_TOKENS)
     in div_ceil chars 4 + image_tokens)"

definition usage_total :: "usage \<Rightarrow> u64" where
  "usage_total u = input_tokens u + output_tokens u + cache_read_tokens u + cache_write_tokens u"

text \<open>The loop runs from the last message back; \<open>done\<close> are the messages it has passed.\<close>

fun anchored_tokens :: "host \<Rightarrow> message list \<Rightarrow> message list \<Rightarrow> u64 option" where
  "anchored_tokens H [] passed = None"
| "anchored_tokens H (m # before) passed =
    (case msg_usage m of
      Some u \<Rightarrow>
        if msg_role m = ''assistant''
        then Some (usage_total u + sum_list (map (estimate_message_tokens H) passed))
        else anchored_tokens H before (m # passed)
    | None \<Rightarrow> anchored_tokens H before (m # passed))"

definition estimate_context_tokens :: "host \<Rightarrow> message list \<Rightarrow> u64" where
  "estimate_context_tokens H ms =
    (case anchored_tokens H (rev ms) [] of
      Some n \<Rightarrow> n
    | None \<Rightarrow> sum_list (map (estimate_message_tokens H) ms))"

section \<open>Streaming events\<close>

datatype message_event =
    StartEvent message
  | TextDelta string message
  | ThinkingDelta string message
  | ToolCallStart usize message
  | ToolCallDelta usize string message
  | ToolCallEnd usize tool_call message
  | DoneEvent message
  | ErrorEvent message string

fun event_to_json :: "host \<Rightarrow> message_event \<Rightarrow> json" where
  "event_to_json H (StartEvent m) =
    json_object [(''type'', JString ''start''), (''partial'', message_to_json H m)]"
| "event_to_json H (TextDelta d m) =
    json_object [(''type'', JString ''text_delta''), (''delta'', JString d), (''partial'', message_to_json H m)]"
| "event_to_json H (ThinkingDelta d m) =
    json_object [(''type'', JString ''thinking_delta''), (''delta'', JString d), (''partial'', message_to_json H m)]"
| "event_to_json H (ToolCallStart i m) =
    json_object [(''type'', JString ''tool_call_start''), (''index'', json_of_u64 i), (''partial'', message_to_json H m)]"
| "event_to_json H (ToolCallDelta i d m) =
    json_object [(''type'', JString ''tool_call_delta''), (''index'', json_of_u64 i), (''delta'', JString d),
      (''partial'', message_to_json H m)]"
| "event_to_json H (ToolCallEnd i c m) =
    json_object [(''type'', JString ''tool_call_end''), (''index'', json_of_u64 i),
      (''tool_call'', tool_call_to_json c), (''partial'', message_to_json H m)]"
| "event_to_json H (DoneEvent m) =
    json_object [(''type'', JString ''done''), (''message'', message_to_json H m)]"
| "event_to_json H (ErrorEvent m e) =
    json_object [(''type'', JString ''error''), (''message'', message_to_json H m), (''error'', JString e)]"

definition message_of_json :: "host \<Rightarrow> json \<Rightarrow> message option" where
  "message_of_json H j = Option.bind (message_from_json H j) ok"

text \<open>The fields of a variant, in the order of the declaration, and how each is read.\<close>

definition event_fields :: "string \<Rightarrow> string list" where
  "event_fields t =
    (if t = ''start'' then [''partial'']
     else if t = ''text_delta'' \<or> t = ''thinking_delta'' then [''delta'', ''partial'']
     else if t = ''tool_call_start'' then [''index'', ''partial'']
     else if t = ''tool_call_delta'' then [''index'', ''delta'', ''partial'']
     else if t = ''tool_call_end'' then [''index'', ''tool_call'', ''partial'']
     else if t = ''done'' then [''message'']
     else [''message'', ''error''])"

definition event_from_json :: "host \<Rightarrow> json \<Rightarrow> message_event option" where
  "event_from_json H j = do {
    (t, body) \<leftarrow> tagged j;
    f \<leftarrow> struct_fields (event_fields t) (length (event_fields t)) body;
    let part = required (message_of_json H) (f ''partial'');
    let msg = required (message_of_json H) (f ''message'');
    let idx = required json_as_u64 (f ''index'');
    let delta = required json_as_str (f ''delta'');
    if t = ''start'' then do { m \<leftarrow> part; Some (StartEvent m) }
    else if t = ''text_delta'' then do { d \<leftarrow> delta; m \<leftarrow> part; Some (TextDelta d m) }
    else if t = ''thinking_delta'' then do { d \<leftarrow> delta; m \<leftarrow> part; Some (ThinkingDelta d m) }
    else if t = ''tool_call_start'' then do { i \<leftarrow> idx; m \<leftarrow> part; Some (ToolCallStart i m) }
    else if t = ''tool_call_delta'' then do {
      i \<leftarrow> idx; d \<leftarrow> delta; m \<leftarrow> part; Some (ToolCallDelta i d m) }
    else if t = ''tool_call_end'' then do {
      i \<leftarrow> idx; c \<leftarrow> required tool_call_from_json (f ''tool_call''); m \<leftarrow> part; Some (ToolCallEnd i c m) }
    else if t = ''done'' then do { m \<leftarrow> msg; Some (DoneEvent m) }
    else if t = ''error'' then do {
      m \<leftarrow> msg; e \<leftarrow> required json_as_str (f ''error''); Some (ErrorEvent m e) }
    else None }"

definition event_to_value :: "host \<Rightarrow> message_event \<Rightarrow> agent_value result" where
  "event_to_value H e = from_json H (event_to_json H e)"

section \<open>The estimates over the natural numbers\<close>

fun block_bytes :: "content_block \<Rightarrow> nat" where
  "block_bytes (TextBlock t) = length t"
| "block_bytes (ThinkingBlock t sig redacted) = length t"
| "block_bytes (ImageBlock d mime) = 0"

fun is_image_block :: "content_block \<Rightarrow> bool" where
  "is_image_block (ImageBlock d mime) = True"
| "is_image_block b = False"

definition content_bytes :: "message_content \<Rightarrow> nat" where
  "content_bytes c = (case c of Text s \<Rightarrow> length s | Blocks bs \<Rightarrow> sum_list (map block_bytes bs))"

definition call_bytes :: "host \<Rightarrow> tool_call \<Rightarrow> nat" where
  "call_bytes H c =
    length (fn_name (tc_function c)) + length (h_json_text H (fn_parameters (tc_function c)))"

definition message_bytes :: "host \<Rightarrow> message \<Rightarrow> nat" where
  "message_bytes H m =
    content_bytes (msg_content m) + sum_list (map (call_bytes H) (unwrap_or (msg_tool_calls m) []))"

definition content_images :: "message_content \<Rightarrow> nat" where
  "content_images c = (case c of Text s \<Rightarrow> 0 | Blocks bs \<Rightarrow> length (filter is_image_block bs))"

definition message_images :: "message \<Rightarrow> nat" where
  "message_images m = content_images (msg_content m) + (if msg_image m = None then 0 else 1)"

definition message_cost :: "host \<Rightarrow> message \<Rightarrow> nat" where
  "message_cost H m = (message_bytes H m + 3) div 4 + 1200 * message_images m"

definition usage_cost :: "usage \<Rightarrow> nat" where
  "usage_cost u = unat (input_tokens u) + unat (output_tokens u) + unat (cache_read_tokens u) +
    unat (cache_write_tokens u)"

definition is_anchor :: "message \<Rightarrow> bool" where
  "is_anchor m \<longleftrightarrow> msg_role m = ''assistant'' \<and> msg_usage m \<noteq> None"

lemma sum_list_word_of_nat: "sum_list (map (\<lambda>x. word_of_nat (g x)) xs) = (word_of_nat (sum_list (map g xs)) :: 'a::len word)"
  by (induction xs) auto

lemma block_chars_eq: "block_chars = (\<lambda>b. word_of_nat (block_bytes b))"
proof
  show "block_chars b = word_of_nat (block_bytes b)" for b
    by (cases b) (simp_all add: str_len_def)
qed

lemma content_chars_eq: "content_chars c = word_of_nat (content_bytes c)"
  by (cases c) (simp_all add: content_chars_def content_bytes_def str_len_def block_chars_eq sum_list_word_of_nat)

lemma call_chars_eq: "call_chars H = (\<lambda>c. word_of_nat (call_bytes H c))"
  by (simp add: fun_eq_iff call_chars_def call_bytes_def str_len_def)

lemma content_image_tokens_eq: "content_image_tokens c = word_of_nat (1200 * content_images c)"
proof (cases c)
  case (Blocks bs)
  have "block_image_tokens b = (if is_image_block b then 1200 else 0)" for b
    by (cases b) (simp_all add: IMAGE_TOKENS_def)
  then have "sum_list (map block_image_tokens bs) = word_of_nat (1200 * length (filter is_image_block bs))"
    by (induction bs) auto
  then show ?thesis by (simp add: Blocks content_image_tokens_def content_images_def)
qed (simp add: content_image_tokens_def content_images_def)

lemma unat_word_of_nat_64: "n < 2 ^ 64 \<Longrightarrow> unat (word_of_nat n :: u64) = n"
  by (simp add: unsigned_of_nat take_bit_nat_eq_self)

lemma word_of_nat_64_zero: "n < 2 ^ 64 \<Longrightarrow> (word_of_nat n :: u64) = 0 \<longleftrightarrow> n = 0"
  using unat_word_of_nat_64 [of n] unsigned_eq_0_iff [of "word_of_nat n :: u64", where ?'a = nat] by simp

lemma ceil_4: "(n + 3) div 4 = (if n mod 4 = 0 then n div 4 else n div 4 + (1::nat))"
  by presburger

lemma div_ceil_4:
  assumes "n < 2 ^ 64"
  shows "div_ceil (word_of_nat n) 4 = word_of_nat ((n + 3) div 4)"
proof -
  let ?w = "word_of_nat n :: u64"
  have u: "unat ?w = n" by (rule unat_word_of_nat_64 [OF assms])
  have d: "?w div 4 = word_of_nat (n div 4)"
    unfolding word_arith_nat_div u by simp
  have m: "?w mod 4 = word_of_nat (n mod 4)"
    unfolding word_arith_nat_mod u by simp
  have "n mod 4 < 2 ^ 64" by (rule order.strict_trans [of _ 4]) simp_all
  note z = word_of_nat_64_zero [OF this]
  show ?thesis
    unfolding div_ceil_def d m z ceil_4 by simp
qed

lemma estimate_message_tokens_eq:
  assumes "message_bytes H m < 2 ^ 64"
  shows "estimate_message_tokens H m = word_of_nat (message_cost H m)"
proof -
  have calls: "(case x of None \<Rightarrow> 0 | Some cs \<Rightarrow> sum_list (map (call_chars H) cs)) =
      word_of_nat (sum_list (map (call_bytes H) (unwrap_or x [])))" for x
    by (cases x) (simp_all add: call_chars_eq sum_list_word_of_nat)
  have chars: "content_chars (msg_content m) +
      (case msg_tool_calls m of None \<Rightarrow> 0 | Some cs \<Rightarrow> sum_list (map (call_chars H) cs)) =
      word_of_nat (message_bytes H m)"
    by (simp only: content_chars_eq calls message_bytes_def of_nat_add)
  have imgs: "content_image_tokens (msg_content m) +
      (case msg_image m of None \<Rightarrow> 0 | Some i \<Rightarrow> IMAGE_TOKENS) = word_of_nat (1200 * message_images m)"
    unfolding content_image_tokens_eq message_images_def
    by (cases "msg_image m") (simp_all add: IMAGE_TOKENS_def distrib_left)
  show ?thesis
    unfolding estimate_message_tokens_def Let_def chars imgs div_ceil_4 [OF assms] message_cost_def
    by simp
qed

lemma sum_estimates:
  assumes "\<forall>m \<in> set ms. message_bytes H m < 2 ^ 64"
  shows "sum_list (map (estimate_message_tokens H) ms) = word_of_nat (sum_list (map (message_cost H) ms))"
  using assms by (induction ms) (auto simp: estimate_message_tokens_eq)

lemma anchored_none: "\<forall>m \<in> set ms. \<not> is_anchor m \<Longrightarrow> anchored_tokens H ms passed = None"
  by (induction ms arbitrary: passed) (auto simp: is_anchor_def split: option.splits)

lemma anchored_some:
  assumes "\<forall>m \<in> set ms. \<not> is_anchor m" "is_anchor a"
  shows "anchored_tokens H (ms @ a # rest) passed =
    Some (usage_total (the (msg_usage a)) + sum_list (map (estimate_message_tokens H) (rev ms @ passed)))"
  using assms
  by (induction ms arbitrary: passed) (auto simp: is_anchor_def split: option.splits)

lemma estimate_context_tokens_anchor:
  assumes "\<forall>m \<in> set post. \<not> is_anchor m" "is_anchor a"
  shows "estimate_context_tokens H (pre @ a # post) =
    usage_total (the (msg_usage a)) + sum_list (map (estimate_message_tokens H) post)"
  using anchored_some [of "rev post" a H "rev pre" "[]"] assms
  by (simp add: estimate_context_tokens_def)

lemma estimate_context_tokens_none:
  "\<forall>m \<in> set ms. \<not> is_anchor m \<Longrightarrow>
    estimate_context_tokens H ms = sum_list (map (estimate_message_tokens H) ms)"
  using anchored_none [of "rev ms" H "[]"] by (simp add: estimate_context_tokens_def)

lemma usage_total_eq: "usage_total u = word_of_nat (usage_cost u)"
  by (simp add: usage_total_def usage_cost_def)

text \<open>Every conversation either has no anchor or splits at its last one.\<close>

lemma last_anchor_cases:
  obtains "\<forall>m \<in> set ms. \<not> is_anchor m"
  | pre a post where "ms = pre @ a # post" "is_anchor a" "\<forall>m \<in> set post. \<not> is_anchor m"
  by (metis split_list_last_prop)

section \<open>Messages and events through JSON\<close>

definition flat_message :: "message \<Rightarrow> message" where
  "flat_message m = m\<lparr>msg_content := flatten_content (msg_content m)\<rparr>"

text \<open>A message comes back when it has no picture. The data URL of a picture is not what the crate
  reads: \<open>image_url\<close> states its documented behaviour on a picture (\<open>get_base64\<close> writes the prefix
  and a text that \<open>new_from_base64\<close> reads back, and the whole URL is no base64), and under it a
  message with a picture never comes back.\<close>

definition image_ok :: "host \<Rightarrow> message \<Rightarrow> bool" where
  "image_ok H m \<longleftrightarrow> reread_image H (msg_image m) = Some (msg_image m)"

definition image_url :: "host \<Rightarrow> photon_image \<Rightarrow> bool" where
  "image_url H i \<longleftrightarrow>
    starts_with IMAGE_BASE64_PREFIX (h_img_encode H i) \<and> h_img_panics H (h_img_encode H i) \<and>
    (let s = trim_start_matches IMAGE_BASE64_PREFIX (h_img_encode H i)
     in \<not> h_img_panics H s \<and> h_img_decode H s = i)"

lemma image_ok_none [simp]: "msg_image m = None \<Longrightarrow> image_ok H m"
  by (simp add: image_ok_def)

lemma image_ok_iff:
  "(\<And>i. msg_image m = Some i \<Longrightarrow> image_url H i) \<Longrightarrow> image_ok H m \<longleftrightarrow> msg_image m = None"
  unfolding image_ok_def image_url_def reread_image_def by (cases "msg_image m") (auto simp: Let_def)

lemma flatten_content_idem [simp]: "flatten_content (flatten_content c) = flatten_content c"
  by (simp add: flatten_content_def split: message_content.splits)

lemma flat_message_idem [simp]: "flat_message (flat_message m) = flat_message m"
  by (simp add: flat_message_def)

lemma image_ok_flat [simp]: "image_ok H (flat_message m) = image_ok H m"
  by (simp add: image_ok_def flat_message_def)

lemma message_of_to_json [simp]:
  "image_ok H m \<Longrightarrow> message_of_json H (message_to_json H m) = Some (flat_message m)"
  by (simp add: message_of_json_def message_round_trip flat_message_def image_ok_def ok_def)

fun event_message :: "message_event \<Rightarrow> message" where
  "event_message (StartEvent m) = m"
| "event_message (TextDelta d m) = m"
| "event_message (ThinkingDelta d m) = m"
| "event_message (ToolCallStart i m) = m"
| "event_message (ToolCallDelta i d m) = m"
| "event_message (ToolCallEnd i c m) = m"
| "event_message (DoneEvent m) = m"
| "event_message (ErrorEvent m e) = m"

fun flat_event :: "message_event \<Rightarrow> message_event" where
  "flat_event (StartEvent m) = StartEvent (flat_message m)"
| "flat_event (TextDelta d m) = TextDelta d (flat_message m)"
| "flat_event (ThinkingDelta d m) = ThinkingDelta d (flat_message m)"
| "flat_event (ToolCallStart i m) = ToolCallStart i (flat_message m)"
| "flat_event (ToolCallDelta i d m) = ToolCallDelta i d (flat_message m)"
| "flat_event (ToolCallEnd i c m) = ToolCallEnd i c (flat_message m)"
| "flat_event (DoneEvent m) = DoneEvent (flat_message m)"
| "flat_event (ErrorEvent m e) = ErrorEvent (flat_message m) e"

lemma event_round_trip:
  "image_ok H (event_message e) \<Longrightarrow> event_from_json H (event_to_json H e) = Some (flat_event e)"
  by (cases e) (simp_all add: event_from_json_def event_fields_def Let_def)

end
