(* ===== verification/Text.thy ===== *)
theory Text
  imports Prelude
begin

text \<open>
  The operations of the standard library on text the remaining components use: the UTF-8 check of
  \<open>read_to_string\<close>, \<open>lines\<close>, \<open>trim\<close> and \<open>trim_end\<close>, \<open>chars().count()\<close>, \<open>ends_with\<close>, \<open>contains\<close>,
  \<open>split\<close> on a character and the extension of a file name.
\<close>

abbreviation newline :: char where "newline \<equiv> CHR 0x0A"

section \<open>UTF-8\<close>

definition byte :: "char \<Rightarrow> nat" where
  "byte c = of_char c"

definition continuation :: "char \<Rightarrow> bool" where
  "continuation c \<longleftrightarrow> 128 \<le> byte c \<and> byte c < 192"

text \<open>The first continuation byte is restricted after E0 and F0 (no overlong form), ED (no
  surrogate) and F4 (nothing above 10FFFF).\<close>

definition second_of_three :: "char \<Rightarrow> char \<Rightarrow> bool" where
  "second_of_three c d \<longleftrightarrow> continuation d \<and> (byte c = 224 \<longrightarrow> 160 \<le> byte d) \<and> (byte c = 237 \<longrightarrow> byte d < 160)"

definition second_of_four :: "char \<Rightarrow> char \<Rightarrow> bool" where
  "second_of_four c d \<longleftrightarrow> continuation d \<and> (byte c = 240 \<longrightarrow> 144 \<le> byte d) \<and> (byte c = 244 \<longrightarrow> byte d < 144)"

text \<open>\<open>utf8_char s\<close> is the rest of \<open>s\<close> after its first character, when it starts with one.\<close>

definition utf8_char :: "string \<Rightarrow> string option" where
  "utf8_char s =
    (case s of
      [] \<Rightarrow> None
    | c # s1 \<Rightarrow>
        if byte c < 128 then Some s1
        else if byte c < 194 then None
        else if byte c < 224 then
          (case s1 of d # s2 \<Rightarrow> if continuation d then Some s2 else None | [] \<Rightarrow> None)
        else if byte c < 240 then
          (case s1 of d # e # s3 \<Rightarrow> if second_of_three c d \<and> continuation e then Some s3 else None | _ \<Rightarrow> None)
        else if byte c < 245 then
          (case s1 of d # e # f # s4 \<Rightarrow>
            if second_of_four c d \<and> continuation e \<and> continuation f then Some s4 else None
          | _ \<Rightarrow> None)
        else None)"

lemma utf8_char_shorter: "utf8_char s = Some t \<Longrightarrow> length t < length s"
  by (auto simp: utf8_char_def split: list.splits if_splits)

text \<open>The number of characters of a text, if it is UTF-8.\<close>

function utf8_count :: "string \<Rightarrow> nat option" where
  "utf8_count s =
    (if s = [] then Some 0
     else case utf8_char s of None \<Rightarrow> None | Some t \<Rightarrow> map_option Suc (utf8_count t))"
  by pat_completeness auto
termination
  by (relation "measure length") (auto dest: utf8_char_shorter)

declare utf8_count.simps [simp del]

definition is_utf8 :: "string \<Rightarrow> bool" where
  "is_utf8 s \<longleftrightarrow> utf8_count s \<noteq> None"

lemma utf8_count_Nil [simp]: "utf8_count [] = Some 0"
  by (simp add: utf8_count.simps)

lemma is_utf8_Nil [simp]: "is_utf8 []"
  by (simp add: is_utf8_def)

lemma is_utf8_step: "s \<noteq> [] \<Longrightarrow> is_utf8 s \<longleftrightarrow> (\<exists>t. utf8_char s = Some t \<and> is_utf8 t)"
  unfolding is_utf8_def utf8_count.simps [of s] by (cases "utf8_char s") simp_all

lemma is_utf8_ascii [simp]: "byte c < 128 \<Longrightarrow> is_utf8 (c # s) \<longleftrightarrow> is_utf8 s"
  by (subst is_utf8_step) (simp_all add: utf8_char_def)

lemma utf8_char_append: "utf8_char s = Some t \<Longrightarrow> utf8_char (s @ r) = Some (t @ r)"
  by (auto simp: utf8_char_def split: list.split_asm if_split_asm)

lemma is_utf8_append: "is_utf8 s \<Longrightarrow> is_utf8 (s @ r) \<longleftrightarrow> is_utf8 r"
proof (induction s rule: utf8_count.induct)
  case (1 s)
  show ?case
  proof (cases "s = []")
    case False
    with "1.prems" obtain t where t: "utf8_char s = Some t" "is_utf8 t" by (auto simp: is_utf8_step)
    then have "is_utf8 (t @ r) \<longleftrightarrow> is_utf8 r" using "1.IH" [OF False] by simp
    then show ?thesis using False utf8_char_append [OF t(1)] by (simp add: is_utf8_step)
  qed simp
qed

definition char_count :: "string \<Rightarrow> nat" where
  "char_count s = unwrap_or (utf8_count s) 0"

section \<open>Lines\<close>

text \<open>\<open>split_inclusive\<close> at line feeds, and \<open>str::lines\<close>, which drops the line feed and a
  carriage return before it.\<close>

function split_lines :: "string \<Rightarrow> string list" where
  "split_lines s =
    (if s = [] then []
     else case dropWhile (\<lambda>c. c \<noteq> newline) s of
         [] \<Rightarrow> [s]
       | c # t \<Rightarrow> (takeWhile (\<lambda>c. c \<noteq> newline) s @ [newline]) # split_lines t)"
  by pat_completeness auto
termination
proof (relation "measure length")
  show "(t, s) \<in> measure length" if "dropWhile (\<lambda>c. c \<noteq> newline) s = c # t" for s c t
    using length_dropWhile_le [of "\<lambda>c. c \<noteq> newline" s] that by simp
qed simp

declare split_lines.simps [simp del]

definition strip_suffix :: "string \<Rightarrow> string \<Rightarrow> string option" where
  "strip_suffix p s = map_option rev (strip_prefix (rev p) (rev s))"

definition ends_with :: "string \<Rightarrow> string \<Rightarrow> bool" where
  "ends_with p s \<longleftrightarrow> starts_with (rev p) (rev s)"

definition chomp :: "string \<Rightarrow> string" where
  "chomp l =
    (case strip_suffix [newline] l of
      None \<Rightarrow> l
    | Some l' \<Rightarrow> unwrap_or (strip_suffix [CHR 0x0D] l') l')"

definition str_lines :: "string \<Rightarrow> string list" where
  "str_lines s = map chomp (split_lines s)"

lemma split_lines_Nil [simp]: "split_lines [] = []"
  by (simp add: split_lines.simps)

lemma split_lines_line [simp]:
  "newline \<notin> set l \<Longrightarrow> split_lines (l @ newline # s) = (l @ [newline]) # split_lines s"
  by (subst split_lines.simps) (auto simp: dropWhile_append takeWhile_append split: if_splits)

lemma split_lines_last: "newline \<notin> set l \<Longrightarrow> split_lines l = (if l = [] then [] else [l])"
proof -
  assume "newline \<notin> set l"
  then have d: "dropWhile (\<lambda>c. c \<noteq> newline) l = []" by (auto simp: dropWhile_eq_Nil_conv)
  show ?thesis unfolding split_lines.simps [of l] d by simp
qed

lemma chomp_line [simp]: "CHR 0x0D \<notin> set l \<Longrightarrow> chomp (l @ [newline]) = l"
  by (cases l rule: rev_cases) (auto simp: chomp_def strip_suffix_def strip_prefix_def)

definition one_line :: "string \<Rightarrow> bool" where
  "one_line l \<longleftrightarrow> newline \<notin> set l \<and> CHR 0x0D \<notin> set l"

lemma str_lines_Nil [simp]: "str_lines [] = []"
  by (simp add: str_lines_def)

lemma str_lines_line [simp]: "one_line l \<Longrightarrow> str_lines (l @ newline # s) = l # str_lines s"
  by (simp add: str_lines_def one_line_def)

lemma str_lines_join:
  "\<forall>l \<in> set ls. one_line l \<Longrightarrow> str_lines (concat (map (\<lambda>l. l @ [newline]) ls)) = ls"
  by (induction ls) auto

text \<open>Where the last line feed is: \<open>content.rfind('\n').map(|i| i + 1).unwrap_or(0)\<close>.\<close>

definition after_last_newline :: "string \<Rightarrow> nat" where
  "after_last_newline s = length (dropWhile (\<lambda>c. c \<noteq> newline) (rev s))"

lemma after_last_newline_append:
  "newline \<notin> set t \<Longrightarrow> after_last_newline (s @ t) = after_last_newline s"
  by (simp add: after_last_newline_def dropWhile_append)

lemma after_last_newline_line [simp]: "after_last_newline (s @ [newline]) = length s + 1"
  by (simp add: after_last_newline_def)

section \<open>White space\<close>

text \<open>The UTF-8 encodings of the characters with the property \<open>White_Space\<close>.\<close>

definition white_chars :: "string list" where
  "white_chars = map (map char_of)
    ([[9], [10], [11], [12], [13], [32], [194, 133], [194, 160], [225, 154, 128 :: nat]] @
     map (\<lambda>b. [226, 128, b]) [128..<139] @ [[226, 128, 168], [226, 128, 169], [226, 128, 175],
      [226, 129, 159], [227, 128, 128]])"

lemma white_chars_nonempty: "w \<in> set white_chars \<Longrightarrow> w \<noteq> []"
  by (auto simp: white_chars_def)

function trim_start :: "string \<Rightarrow> string" where
  "trim_start s =
    (case filter (\<lambda>w. starts_with w s) white_chars of
      [] \<Rightarrow> s
    | w # ws \<Rightarrow> trim_start (drop (length w) s))"
  by pat_completeness auto
termination
proof (relation "measure length")
  fix s w ws
  assume "filter (\<lambda>w. starts_with w s) white_chars = w # ws"
  then have "w \<in> set (filter (\<lambda>w. starts_with w s) white_chars)" by simp
  then have "w \<noteq> []" "starts_with w s" using white_chars_nonempty by auto
  then show "(drop (length w) s, s) \<in> measure length"
    by (cases w) (auto simp: starts_with_iff)
qed simp

function trim_end :: "string \<Rightarrow> string" where
  "trim_end s =
    (case filter (\<lambda>w. ends_with w s) white_chars of
      [] \<Rightarrow> s
    | w # ws \<Rightarrow> trim_end (take (length s - length w) s))"
  by pat_completeness auto
termination
proof (relation "measure length")
  fix s w ws
  assume "filter (\<lambda>w. ends_with w s) white_chars = w # ws"
  then have "w \<in> set (filter (\<lambda>w. ends_with w s) white_chars)" by simp
  then have w: "w \<noteq> []" "ends_with w s" using white_chars_nonempty by auto
  then have "s \<noteq> []" by (cases w rule: rev_cases) (auto simp: ends_with_def)
  with w show "(take (length s - length w) s, s) \<in> measure length" by (cases w; cases s) auto
qed simp

declare trim_start.simps [simp del] trim_end.simps [simp del]

definition trim :: "string \<Rightarrow> string" where
  "trim s = trim_end (trim_start s)"

lemma trim_end_stop: "(\<And>w. w \<in> set white_chars \<Longrightarrow> \<not> ends_with w s) \<Longrightarrow> trim_end s = s"
  unfolding trim_end.simps [of s] by (simp add: filter_False)

lemma trim_end_newline: "trim_end (s @ [newline]) = trim_end s"
proof -
  let ?P = "\<lambda>w. ends_with w (s @ [newline])"
  have "filter ?P white_chars = [[newline]]"
    by (simp add: white_chars_def ends_with_def upt_rec char_of_def bit_0)
  then show ?thesis unfolding trim_end.simps [of "s @ [newline]"] by simp
qed

section \<open>Splitting and file names\<close>

text \<open>\<open>str::split\<close> on a character: always at least one piece.\<close>

fun split_on :: "char \<Rightarrow> string \<Rightarrow> string list" where
  "split_on c [] = [[]]"
| "split_on c (d # s) =
    (if d = c then [] # split_on c s
     else case split_on c s of p # ps \<Rightarrow> (d # p) # ps | [] \<Rightarrow> [[d]])"

lemma split_on_nonempty [simp]: "split_on c s \<noteq> []"
  by (cases s) (auto split: list.splits)

text \<open>\<open>Path::extension\<close> of a file name that is not \<open>..\<close>.\<close>

definition path_extension :: "string \<Rightarrow> string option" where
  "path_extension f =
    (let r = rev f; ext = takeWhile (\<lambda>c. c \<noteq> CHR ''.'') r; rest = dropWhile (\<lambda>c. c \<noteq> CHR ''.'') r
     in if length rest \<le> 1 then None else Some (rev ext))"

lemma path_extension_dot [simp]:
  "path_extension (i @ ''.jsonl'') = (if i = [] then None else Some ''jsonl'')"
  by (simp add: path_extension_def Let_def)

end
