(* ===== verification/Session.thy ===== *)
theory Session
  imports Llm Text Errors Containers
begin

text \<open>
  session.rs: the append-only log of a conversation, its two stores and \<open>build_context\<close>.

  The in-memory store is a map from session ids to logs. The file store is a directory (a map
  from file names to contents, and whether the directory exists) on which the operations act
  through the calls listed in \<open>io_call\<close>; an argument \<open>io\<close> says which calls fail, with what
  text, and how many bytes a failing write has written, so that every error branch of the code
  is reached and a crash in the middle of an append is the state after a partial write. Session
  ids are taken to be plain file names.

  The trait \<open>SessionStore\<close> is a record of functions, its contract the locale
  \<open>session_contract\<close>, interpreted on both stores; a log comes back from the file store with
  the block form of its messages flattened (\<open>flat_entry\<close>); a log with a picture in a message
  does not come back (\<open>entry_image_ok\<close>), because reading it panics, which is a failure to read
  the entry here. The text \<open>serde_json\<close> writes for a
  header or an entry and its error texts are parameters (\<open>store_env\<close>).
\<close>

section \<open>Headers and entries\<close>

record session_meta =
  sm_id :: string
  sm_version :: u32
  sm_parent_session :: "string option"
  sm_created_at :: string

datatype session_entry =
    MessageEntry string "string option" string message
  | CompactionEntry string "string option" string string string "u64 option"

definition default_version :: u32 where "default_version = 1"

text \<open>The constructors take the fresh id and the current time.\<close>

definition session_meta_new :: "string \<Rightarrow> string \<Rightarrow> session_meta" where
  "session_meta_new uuid now =
    \<lparr>sm_id = uuid, sm_version = 1, sm_parent_session = None, sm_created_at = now\<rparr>"

definition message_entry :: "string \<Rightarrow> string \<Rightarrow> message \<Rightarrow> session_entry" where
  "message_entry uuid now m = MessageEntry uuid None now m"

definition compaction_entry :: "string \<Rightarrow> string \<Rightarrow> string \<Rightarrow> string \<Rightarrow> u64 option \<Rightarrow> session_entry" where
  "compaction_entry uuid now summary first_kept tokens = CompactionEntry uuid None now summary first_kept tokens"

fun entry_id :: "session_entry \<Rightarrow> string" where
  "entry_id (MessageEntry i p t m) = i"
| "entry_id (CompactionEntry i p t s k n) = i"

definition meta_to_json :: "session_meta \<Rightarrow> json" where
  "meta_to_json m = json_object (
    [(''id'', JString (sm_id m)), (''version'', json_of_u64 (ucast (sm_version m)))] @
    opt_entry ''parent_session'' JString (sm_parent_session m) @
    [(''created_at'', JString (sm_created_at m))])"

definition json_as_u32 :: "json \<Rightarrow> u32 option" where
  "json_as_u32 j =
    Option.bind (json_as_u64 j) (\<lambda>n. if unat n < 2 ^ 32 then Some (ucast n) else None)"

definition meta_from_json :: "json \<Rightarrow> session_meta option" where
  "meta_from_json j = do {
    f \<leftarrow> struct_fields [''id'', ''version'', ''parent_session'', ''created_at''] 1 j;
    i \<leftarrow> required json_as_str (f ''id'');
    v \<leftarrow> defaulted default_version json_as_u32 (f ''version'');
    p \<leftarrow> optional json_as_str (f ''parent_session'');
    c \<leftarrow> defaulted [] json_as_str (f ''created_at'');
    Some \<lparr>sm_id = i, sm_version = v, sm_parent_session = p, sm_created_at = c\<rparr> }"

fun entry_to_json :: "host \<Rightarrow> session_entry \<Rightarrow> json" where
  "entry_to_json H (MessageEntry i p t m) = json_object (
    [(''type'', JString ''message''), (''id'', JString i)] @ opt_entry ''parent_id'' JString p @
    [(''timestamp'', JString t), (''message'', message_to_json H m)])"
| "entry_to_json H (CompactionEntry i p t s k n) = json_object (
    [(''type'', JString ''compaction''), (''id'', JString i)] @ opt_entry ''parent_id'' JString p @
    [(''timestamp'', JString t), (''summary'', JString s), (''first_kept_id'', JString k)] @
    opt_entry ''tokens_before'' json_of_u64 n)"

definition entry_from_json :: "host \<Rightarrow> json \<Rightarrow> session_entry option" where
  "entry_from_json H j = do {
    (t, body) \<leftarrow> tagged j;
    if t = ''message'' then do {
      f \<leftarrow> struct_fields [''id'', ''parent_id'', ''timestamp'', ''message''] 4 body;
      i \<leftarrow> required json_as_str (f ''id'');
      p \<leftarrow> optional json_as_str (f ''parent_id'');
      s \<leftarrow> required json_as_str (f ''timestamp'');
      m \<leftarrow> required (message_of_json H) (f ''message'');
      Some (MessageEntry i p s m) }
    else if t = ''compaction'' then do {
      f \<leftarrow> struct_fields [''id'', ''parent_id'', ''timestamp'', ''summary'', ''first_kept_id'', ''tokens_before''] 5 body;
      i \<leftarrow> required json_as_str (f ''id'');
      p \<leftarrow> optional json_as_str (f ''parent_id'');
      s \<leftarrow> required json_as_str (f ''timestamp'');
      y \<leftarrow> required json_as_str (f ''summary'');
      k \<leftarrow> required json_as_str (f ''first_kept_id'');
      n \<leftarrow> optional json_as_u64 (f ''tokens_before'');
      Some (CompactionEntry i p s y k n) }
    else None }"

fun flat_entry :: "session_entry \<Rightarrow> session_entry" where
  "flat_entry (MessageEntry i p t m) = MessageEntry i p t (flat_message m)"
| "flat_entry e = e"

text \<open>\<open>entry_image_ok\<close>: the entry has no picture that reading it back would lose.\<close>

fun entry_image_ok :: "host \<Rightarrow> session_entry \<Rightarrow> bool" where
  "entry_image_ok H (MessageEntry i p t m) = image_ok H m"
| "entry_image_ok H e = True"

lemma json_as_u32_of [simp]: "json_as_u32 (json_of_u64 (ucast v)) = Some v"
proof -
  have v: "unat v < 2 ^ 32" using unsigned_less [of v] by simp
  have u: "unat (ucast v :: u64) = unat v" by transfer simp
  have "(ucast (ucast v :: u64) :: u32) = v" by transfer simp
  with u v show ?thesis by (simp add: json_as_u32_def)
qed

lemma meta_round_trip [simp]: "meta_from_json (meta_to_json m) = Some m"
  by (cases m; cases "sm_parent_session m") (simp_all add: meta_from_json_def meta_to_json_def)

lemma entry_round_trip:
  "entry_image_ok H e \<Longrightarrow> entry_from_json H (entry_to_json H e) = Some (flat_entry e)"
proof (cases e)
  case (MessageEntry i p t m)
  then show "entry_image_ok H e \<Longrightarrow> ?thesis" by (cases p) (simp_all add: entry_from_json_def)
next
  case (CompactionEntry i p t s k n)
  then show ?thesis
    by (cases p; cases n) (simp_all add: entry_from_json_def optional_def json_of_u64_def)
qed

section \<open>The environment\<close>

text \<open>\<open>se_meta_text\<close> and \<open>se_entry_text\<close> are \<open>serde_json::to_string\<close> on a header and an entry,
  \<open>se_text_error\<close> the text of a \<open>serde_json::from_str\<close> error for the named type.\<close>

record store_env =
  se_host :: host
  se_meta_text :: "session_meta \<Rightarrow> string + string"
  se_entry_text :: "session_entry \<Rightarrow> string + string"
  se_text_error :: "string \<Rightarrow> string \<Rightarrow> string"

definition parse_meta :: "store_env \<Rightarrow> string \<Rightarrow> string + session_meta" where
  "parse_meta E s =
    ok_or (se_text_error E ''SessionMeta'' s) (Option.bind (h_json_parse (se_host E) s) meta_from_json)"

definition parse_entry :: "store_env \<Rightarrow> string \<Rightarrow> string + session_entry" where
  "parse_entry E s =
    ok_or (se_text_error E ''SessionEntry'' s)
      (Option.bind (h_json_parse (se_host E) s) (entry_from_json (se_host E)))"

definition session_not_found :: "string \<Rightarrow> agent_error" where
  "session_not_found i = Other (''Session not found: '' @ i)"

text \<open>The trait.\<close>

record 's session_store =
  st_create :: "session_meta \<Rightarrow> 's \<Rightarrow> 's \<times> string result"
  st_append :: "string \<Rightarrow> session_entry \<Rightarrow> 's \<Rightarrow> 's \<times> unit result"
  st_load :: "string \<Rightarrow> 's \<Rightarrow> 's \<times> session_entry list result"
  st_list :: "'s \<Rightarrow> session_meta list result"

section \<open>The store in memory\<close>

type_synonym session_map = "(string, session_meta \<times> session_entry list) btree_map"

definition mem_create :: "session_meta \<Rightarrow> session_map \<Rightarrow> session_map \<times> string result" where
  "mem_create m s =
    (if has_key s (sm_id m) then (s, Inl (DuplicateId (sm_id m)))
     else (bt_insert (sm_id m) (m, []) s, Inr (sm_id m)))"

definition mem_append :: "string \<Rightarrow> session_entry \<Rightarrow> session_map \<Rightarrow> session_map \<times> unit result" where
  "mem_append i e s =
    (case map_of s i of
      None \<Rightarrow> (s, Inl (session_not_found i))
    | Some (m, es) \<Rightarrow> (bt_insert i (m, es @ [e]) s, Inr ()))"

definition mem_load :: "string \<Rightarrow> session_map \<Rightarrow> session_map \<times> session_entry list result" where
  "mem_load i s =
    (s, case map_of s i of None \<Rightarrow> Inl (session_not_found i) | Some (m, es) \<Rightarrow> Inr es)"

definition mem_list :: "session_map \<Rightarrow> session_meta list result" where
  "mem_list s = Inr (map (fst \<circ> snd) s)"

definition mem_store :: "session_map session_store" where
  "mem_store = \<lparr>st_create = mem_create, st_append = mem_append, st_load = mem_load, st_list = mem_list\<rparr>"

section \<open>The store on disk\<close>

datatype io_call =
    CreateDirAll | OpenNew | WriteAll | Flush | OpenAppend | ReadFile | OpenRepair | SetLen
  | ReadDir | NextEntry nat | OpenFile string | ReadLine string

record io =
  io_fault :: "io_call \<Rightarrow> string option"
  io_written :: nat

definition no_faults :: io where
  "no_faults = \<lparr>io_fault = (\<lambda>c. None), io_written = 0\<rparr>"

record disk =
  dk_dir :: bool
  dk_files :: "(string \<times> string) list"

definition session_path :: "string \<Rightarrow> string" where
  "session_path i = i @ ''.jsonl''"

definition set_file :: "string \<Rightarrow> string \<Rightarrow> disk \<Rightarrow> disk" where
  "set_file p c d = d\<lparr>dk_files := im_insert p c (dk_files d)\<rparr>"

text \<open>\<open>write_all\<close> and \<open>flush\<close> of one line at the end of a file with content \<open>c\<close>.\<close>

definition write_line ::
    "io \<Rightarrow> string \<Rightarrow> string \<Rightarrow> string \<Rightarrow> string \<Rightarrow> string \<Rightarrow> 'a \<Rightarrow> disk \<Rightarrow> disk \<times> 'a result" where
  "write_line io p c line wtext ftext r d =
    (case io_fault io WriteAll of
      Some e \<Rightarrow> (set_file p (c @ take (io_written io) line) d, Inl (IoError (wtext @ e)))
    | None \<Rightarrow>
        (set_file p (c @ line) d,
         case io_fault io Flush of None \<Rightarrow> Inr r | Some e \<Rightarrow> Inl (IoError (ftext @ e))))"

definition jsonl_create :: "store_env \<Rightarrow> io \<Rightarrow> session_meta \<Rightarrow> disk \<Rightarrow> disk \<times> string result" where
  "jsonl_create E io m d =
    (case io_fault io CreateDirAll of
      Some e \<Rightarrow> (d, Inl (IoError (''Failed to create session dir: '' @ e)))
    | None \<Rightarrow>
        let d1 = d\<lparr>dk_dir := True\<rparr>; p = session_path (sm_id m) in
        if has_key (dk_files d1) p then (d1, Inl (DuplicateId (sm_id m)))
        else (case io_fault io OpenNew of
          Some e \<Rightarrow> (d1, Inl (IoError (''Failed to create session file: '' @ e)))
        | None \<Rightarrow>
            let d2 = set_file p [] d1 in
            (case se_meta_text E m of
              Inl e \<Rightarrow> (d2, Inl (SerializationError (''Failed to serialize meta: '' @ e)))
            | Inr text \<Rightarrow>
                write_line io p [] (text @ [newline]) ''Failed to write session header: ''
                  ''Failed to flush session file: '' (sm_id m) d2)))"

definition jsonl_append ::
    "store_env \<Rightarrow> io \<Rightarrow> string \<Rightarrow> session_entry \<Rightarrow> disk \<Rightarrow> disk \<times> unit result" where
  "jsonl_append E io i e d =
    (case map_of (dk_files d) (session_path i) of
      None \<Rightarrow> (d, Inl (session_not_found i))
    | Some c \<Rightarrow>
        (case io_fault io OpenAppend of
          Some err \<Rightarrow> (d, Inl (IoError (''Failed to open session file: '' @ err)))
        | None \<Rightarrow>
            (case se_entry_text E e of
              Inl err \<Rightarrow> (d, Inl (SerializationError (''Failed to serialize entry: '' @ err)))
            | Inr text \<Rightarrow>
                write_line io (session_path i) c (text @ [newline])
                  ''Failed to append session entry: '' ''Failed to flush session file: '' () d)))"

fun parse_entries :: "store_env \<Rightarrow> string \<Rightarrow> nat \<Rightarrow> string list \<Rightarrow> session_entry list result" where
  "parse_entries E i n [] = Inr []"
| "parse_entries E i n (l # ls) =
    (case parse_entry E l of
      Inl e \<Rightarrow> Inl (JsonParseError (''Invalid entry at line '' @ dec_nat (n + 2) @ '' of session '' @ i @
        '': '' @ e))
    | Inr x \<Rightarrow> map_ok (\<lambda>xs. x # xs) (parse_entries E i (n + 1) ls))"

definition read_log :: "store_env \<Rightarrow> string \<Rightarrow> string \<Rightarrow> session_entry list result" where
  "read_log E i content =
    (case str_lines content of
      [] \<Rightarrow> Inl (JsonParseError (''Session file for '' @ i @ '' is empty (missing header line)''))
    | header # ls \<Rightarrow>
        (case parse_meta E header of
          Inl e \<Rightarrow> Inl (JsonParseError (''Invalid session header for '' @ i @ '': '' @ e))
        | Inr m \<Rightarrow> parse_entries E i 0 ls))"

definition complete_len :: "string \<Rightarrow> nat" where
  "complete_len c = (if ends_with [newline] c then length c else after_last_newline c)"

definition jsonl_load :: "store_env \<Rightarrow> io \<Rightarrow> string \<Rightarrow> disk \<Rightarrow> disk \<times> session_entry list result" where
  "jsonl_load E io i d =
    (case map_of (dk_files d) (session_path i) of
      None \<Rightarrow> (d, Inl (session_not_found i))
    | Some c \<Rightarrow>
        (case io_fault io ReadFile of
          Some e \<Rightarrow> (d, Inl (IoError (''Failed to read session file: '' @ e)))
        | None \<Rightarrow>
            if \<not> is_utf8 c
            then (d, Inl (IoError (''Failed to read session file: stream did not contain valid UTF-8'')))
            else if complete_len c < length c then
              (case io_fault io OpenRepair of
                Some e \<Rightarrow> (d, Inl (IoError (''Failed to open session file for repair: '' @ e)))
              | None \<Rightarrow>
                  (case io_fault io SetLen of
                    Some e \<Rightarrow> (d, Inl (IoError (''Failed to truncate session file: '' @ e)))
                  | None \<Rightarrow>
                      (set_file (session_path i) (take (complete_len c) c) d,
                       read_log E i (take (complete_len c) c))))
            else (d, read_log E i c)))"

text \<open>The directory is read in the order of \<open>dk_files\<close>; a file that cannot be opened or read, is
  empty or has no valid header is skipped.\<close>

definition file_header :: "store_env \<Rightarrow> io \<Rightarrow> string \<Rightarrow> string \<Rightarrow> session_meta option" where
  "file_header E io p c =
    (if path_extension p \<noteq> Some ''jsonl'' then None
     else if io_fault io (OpenFile p) \<noteq> None then None
     else if c = [] \<or> io_fault io (ReadLine p) \<noteq> None then None
     else if \<not> is_utf8 (hd (split_lines c)) then None
     else ok (parse_meta E (trim_end (hd (split_lines c)))))"

fun list_dir :: "store_env \<Rightarrow> io \<Rightarrow> nat \<Rightarrow> (string \<times> string) list \<Rightarrow> session_meta list result" where
  "list_dir E io n fs =
    (case io_fault io (NextEntry n) of
      Some e \<Rightarrow> Inl (IoError (''Failed to read session dir entry: '' @ e))
    | None \<Rightarrow>
        (case fs of
          [] \<Rightarrow> Inr []
        | (p, c) # fs' \<Rightarrow>
            map_ok (\<lambda>ms. (case file_header E io p c of None \<Rightarrow> [] | Some m \<Rightarrow> [m]) @ ms)
              (list_dir E io (n + 1) fs')))"

declare list_dir.simps [simp del]

definition jsonl_list :: "store_env \<Rightarrow> io \<Rightarrow> disk \<Rightarrow> session_meta list result" where
  "jsonl_list E io d =
    (if \<not> dk_dir d then Inr []
     else case io_fault io ReadDir of
       Some e \<Rightarrow> Inl (IoError (''Failed to read session dir: '' @ e))
     | None \<Rightarrow> list_dir E io 0 (dk_files d))"

definition jsonl_store :: "store_env \<Rightarrow> disk session_store" where
  "jsonl_store E =
    \<lparr>st_create = jsonl_create E no_faults, st_append = jsonl_append E no_faults,
     st_load = jsonl_load E no_faults, st_list = jsonl_list E no_faults\<rparr>"

section \<open>The context of a log\<close>

fun entry_message :: "session_entry \<Rightarrow> message option" where
  "entry_message (MessageEntry i p t m) = Some m"
| "entry_message (CompactionEntry i p t s k n) = None"

text \<open>The last compaction: its position, summary and first kept id.\<close>

fun last_compaction :: "nat \<Rightarrow> session_entry list \<Rightarrow> (nat \<times> string \<times> string) option" where
  "last_compaction n [] = None"
| "last_compaction n (e # es) =
    (case last_compaction (n + 1) es of
      Some r \<Rightarrow> Some r
    | None \<Rightarrow> (case e of CompactionEntry i p t s k b \<Rightarrow> Some (n, s, k) | MessageEntry i p t m \<Rightarrow> None))"

fun position :: "('a \<Rightarrow> bool) \<Rightarrow> 'a list \<Rightarrow> nat option" where
  "position P [] = None"
| "position P (x # xs) = (if P x then Some 0 else map_option Suc (position P xs))"

definition is_kept :: "string \<Rightarrow> session_entry \<Rightarrow> bool" where
  "is_kept k e = (case e of MessageEntry i p t m \<Rightarrow> i = k | CompactionEntry i p t s f n \<Rightarrow> False)"

definition SUMMARY_PREFIX :: string where
  "SUMMARY_PREFIX = ''[Conversation summary]'' @ [newline]"

definition build_context :: "session_entry list \<Rightarrow> message list" where
  "build_context es =
    (case last_compaction 0 es of
      None \<Rightarrow> List.map_filter entry_message es
    | Some (n, summary, k) \<Rightarrow>
        user_message (SUMMARY_PREFIX @ summary) #
        List.map_filter entry_message (drop (unwrap_or (position (is_kept k) es) (n + 1)) es))"

end
