(* ===== verification/Stores.thy ===== *)
theory Stores
  imports Session
begin

text \<open>
  The contract of the trait \<open>SessionStore\<close> and its two implementations.

  \<open>session_contract\<close> says what a store does to the log of every session; both stores of
  session.rs satisfy it (the interpretations \<open>mem\<close> and \<open>jsonl\<close>), so that a run of operations
  gives on disk the results it gives in memory. The last section follows a crash in the middle
  of an append: what the next load gives and what the file is afterwards.
\<close>

locale session_contract =
  fixes S :: "'s session_store"
    and good :: "'s \<Rightarrow> bool"
    and log :: "'s \<Rightarrow> string \<Rightarrow> session_entry list option"
    and stored :: "session_entry \<Rightarrow> session_entry"
    and meta_ok :: "session_meta \<Rightarrow> bool"
    and entry_ok :: "session_entry \<Rightarrow> bool"
  assumes create_fresh: "good s \<Longrightarrow> meta_ok m \<Longrightarrow> log s (sm_id m) = None \<Longrightarrow>
      \<exists>s'. st_create S m s = (s', Inr (sm_id m)) \<and> good s' \<and> log s' = (log s)(sm_id m \<mapsto> [])"
    and create_taken: "good s \<Longrightarrow> log s (sm_id m) = Some es \<Longrightarrow>
      \<exists>s'. st_create S m s = (s', Inl (DuplicateId (sm_id m))) \<and> good s' \<and> log s' = log s"
    and append_present: "good s \<Longrightarrow> entry_ok e \<Longrightarrow> log s i = Some es \<Longrightarrow>
      \<exists>s'. st_append S i e s = (s', Inr ()) \<and> good s' \<and> log s' = (log s)(i \<mapsto> es @ [stored e])"
    and append_absent: "good s \<Longrightarrow> log s i = None \<Longrightarrow> st_append S i e s = (s, Inl (session_not_found i))"
    and load_present: "good s \<Longrightarrow> log s i = Some es \<Longrightarrow> st_load S i s = (s, Inr es)"
    and load_absent: "good s \<Longrightarrow> log s i = None \<Longrightarrow> st_load S i s = (s, Inl (session_not_found i))"

section \<open>Runs of operations\<close>

datatype store_op = CreateOp session_meta | AppendOp string session_entry | LoadOp string

datatype store_outcome =
    Created "string result"
  | Appended "unit result"
  | Loaded "session_entry list result"

fun store_step :: "'s session_store \<Rightarrow> store_op \<Rightarrow> 's \<Rightarrow> 's \<times> store_outcome" where
  "store_step S (CreateOp m) s = (let (s', r) = st_create S m s in (s', Created r))"
| "store_step S (AppendOp i e) s = (let (s', r) = st_append S i e s in (s', Appended r))"
| "store_step S (LoadOp i) s = (let (s', r) = st_load S i s in (s', Loaded r))"

fun store_run :: "'s session_store \<Rightarrow> store_op list \<Rightarrow> 's \<Rightarrow> 's \<times> store_outcome list" where
  "store_run S [] s = (s, [])"
| "store_run S (c # cs) s =
    (let (s1, r) = store_step S c s; (s2, rs) = store_run S cs s1 in (s2, r # rs))"

text \<open>The same operations on the logs alone.\<close>

type_synonym logs = "string \<Rightarrow> session_entry list option"

fun log_step :: "store_op \<Rightarrow> logs \<Rightarrow> logs \<times> store_outcome" where
  "log_step (CreateOp m) L =
    (case L (sm_id m) of
      None \<Rightarrow> (L(sm_id m \<mapsto> []), Created (Inr (sm_id m)))
    | Some es \<Rightarrow> (L, Created (Inl (DuplicateId (sm_id m)))))"
| "log_step (AppendOp i e) L =
    (case L i of
      None \<Rightarrow> (L, Appended (Inl (session_not_found i)))
    | Some es \<Rightarrow> (L(i \<mapsto> es @ [e]), Appended (Inr ())))"
| "log_step (LoadOp i) L =
    (L, Loaded (case L i of None \<Rightarrow> Inl (session_not_found i) | Some es \<Rightarrow> Inr es))"

fun log_run :: "store_op list \<Rightarrow> logs \<Rightarrow> logs \<times> store_outcome list" where
  "log_run [] L = (L, [])"
| "log_run (c # cs) L =
    (let (L1, r) = log_step c L; (L2, rs) = log_run cs L1 in (L2, r # rs))"

fun stored_op :: "(session_entry \<Rightarrow> session_entry) \<Rightarrow> store_op \<Rightarrow> store_op" where
  "stored_op f (AppendOp i e) = AppendOp i (f e)"
| "stored_op f c = c"

fun op_ok :: "(session_meta \<Rightarrow> bool) \<Rightarrow> (session_entry \<Rightarrow> bool) \<Rightarrow> store_op \<Rightarrow> bool" where
  "op_ok P Q (CreateOp m) = P m"
| "op_ok P Q (AppendOp i e) = Q e"
| "op_ok P Q (LoadOp i) = True"

context session_contract
begin

lemma step_follows_log:
  assumes "good s" "op_ok meta_ok entry_ok c"
  shows "\<exists>s'. store_step S c s = (s', snd (log_step (stored_op stored c) (log s))) \<and>
    good s' \<and> log s' = fst (log_step (stored_op stored c) (log s))"
proof (cases c)
  case (CreateOp m)
  then show ?thesis
    using create_fresh [OF assms(1), of m] create_taken [OF assms(1), of m] assms(2)
    by (cases "log s (sm_id m)") auto
next
  case (AppendOp i e)
  then show ?thesis
    using append_present [OF assms(1), of e i] append_absent [OF assms(1), of i e] assms
    by (cases "log s i") auto
next
  case (LoadOp i)
  then show ?thesis
    using load_present [OF assms(1), of i] load_absent [OF assms(1), of i] assms
    by (cases "log s i") auto
qed

theorem run_follows_log:
  "good s \<Longrightarrow> list_all (op_ok meta_ok entry_ok) cs \<Longrightarrow>
    snd (store_run S cs s) = snd (log_run (map (stored_op stored) cs) (log s))"
proof (induction cs arbitrary: s)
  case (Cons c cs)
  then obtain s' where s': "store_step S c s = (s', snd (log_step (stored_op stored c) (log s)))"
      "good s'" "log s' = fst (log_step (stored_op stored c) (log s))"
    using step_follows_log [of s c] by auto
  show ?case
    using Cons.IH [OF s'(2)] Cons.prems s'(3) by (simp add: s'(1) case_prod_beta Let_def)
qed simp

end

text \<open>Changing the entries of the operations by \<open>f\<close> changes the entries of the results by \<open>f\<close>.\<close>

fun stored_outcome :: "(session_entry \<Rightarrow> session_entry) \<Rightarrow> store_outcome \<Rightarrow> store_outcome" where
  "stored_outcome f (Loaded r) = Loaded (map_ok (map f) r)"
| "stored_outcome f r = r"

definition stored_logs :: "(session_entry \<Rightarrow> session_entry) \<Rightarrow> logs \<Rightarrow> logs" where
  "stored_logs f L = (\<lambda>i. map_option (map f) (L i))"

lemma stored_logs_upd [simp]: "stored_logs f (L(i \<mapsto> es)) = (stored_logs f L)(i \<mapsto> map f es)"
  by (simp add: stored_logs_def fun_eq_iff)

lemma log_step_stored:
  "log_step (stored_op f c) (stored_logs f L) =
    (stored_logs f (fst (log_step c L)), stored_outcome f (snd (log_step c L)))"
proof (cases c)
  case (CreateOp m)
  then show ?thesis by (cases "L (sm_id m)") (simp_all add: stored_logs_upd, simp_all add: stored_logs_def)
next
  case (AppendOp i e)
  then show ?thesis by (cases "L i") (simp_all add: stored_logs_upd, simp_all add: stored_logs_def)
next
  case (LoadOp i)
  then show ?thesis by (cases "L i") (simp_all add: stored_logs_def)
qed

lemma log_run_stored:
  "snd (log_run (map (stored_op f) cs) (stored_logs f L)) = map (stored_outcome f) (snd (log_run cs L))"
  by (induction cs arbitrary: L) (simp_all add: log_step_stored case_prod_beta Let_def)

section \<open>The store in memory\<close>

definition mem_log :: "session_map \<Rightarrow> logs" where
  "mem_log s = (\<lambda>i. map_option snd (map_of s i))"

interpretation mem: session_contract mem_store "\<lambda>s. sorted_wrt (<) (keys_of s)" mem_log "\<lambda>e. e"
    "\<lambda>m. True" "\<lambda>e. True"
  by unfold_locales
    (auto simp: mem_store_def mem_create_def mem_append_def mem_load_def mem_log_def fun_eq_iff
      split: option.splits)

lemma stored_op_id: "stored_op (\<lambda>e. e) c = c"
  by (cases c) simp_all

lemma op_ok_True: "op_ok (\<lambda>m. True) (\<lambda>e. True) c"
  by (cases c) simp_all

lemma mem_run:
  assumes "sorted_wrt (<) (keys_of s)"
  shows "snd (store_run mem_store cs s) = snd (log_run cs (mem_log s))"
proof -
  have "map (stored_op (\<lambda>e. e)) cs = cs" by (induction cs) (simp_all add: stored_op_id)
  then show ?thesis
    using mem.run_follows_log [OF assms, of cs] by (simp add: list_all_iff op_ok_True)
qed

section \<open>The store on disk\<close>

text \<open>A text the store wrote: one line of UTF-8 that reads back as what was written.\<close>

definition meta_writable :: "store_env \<Rightarrow> session_meta \<Rightarrow> bool" where
  "meta_writable E m \<longleftrightarrow>
    (case se_meta_text E m of Inl e \<Rightarrow> False
     | Inr t \<Rightarrow> one_line t \<and> is_utf8 t \<and> h_json_parse (se_host E) t = Some (meta_to_json m))"

definition entry_writable :: "store_env \<Rightarrow> session_entry \<Rightarrow> bool" where
  "entry_writable E e \<longleftrightarrow> entry_image_ok (se_host E) e \<and>
    (case se_entry_text E e of Inl e \<Rightarrow> False
     | Inr t \<Rightarrow> one_line t \<and> is_utf8 t \<and> h_json_parse (se_host E) t = Some (entry_to_json (se_host E) e))"

abbreviation as_file :: "string list \<Rightarrow> string" where
  "as_file ls \<equiv> concat (map (\<lambda>l. l @ [newline]) ls)"

text \<open>A complete session file: a header and entries that read, each on a line of its own.\<close>

definition file_lines :: "store_env \<Rightarrow> string \<Rightarrow> string \<Rightarrow> string list \<Rightarrow> bool" where
  "file_lines E c h ls \<longleftrightarrow> c = as_file (h # ls) \<and> list_all one_line (h # ls) \<and> list_all is_utf8 (h # ls) \<and>
    is_ok (parse_meta E h) \<and> list_all (\<lambda>l. is_ok (parse_entry E l)) ls"

definition disk_good :: "store_env \<Rightarrow> disk \<Rightarrow> bool" where
  "disk_good E d \<longleftrightarrow> distinct (keys_of (dk_files d)) \<and>
    (\<forall>i c. map_of (dk_files d) (session_path i) = Some c \<longrightarrow> (\<exists>h ls. file_lines E c h ls))"

definition file_entries :: "store_env \<Rightarrow> string \<Rightarrow> session_entry list" where
  "file_entries E c = map (\<lambda>l. projr (parse_entry E l)) (tl (str_lines c))"

definition disk_log :: "store_env \<Rightarrow> disk \<Rightarrow> logs" where
  "disk_log E d = (\<lambda>i. map_option (file_entries E) (map_of (dk_files d) (session_path i)))"

lemma session_path_eq [simp]: "session_path i = session_path j \<longleftrightarrow> i = j"
  by (simp add: session_path_def)

lemma dk_files_set_file [simp]: "dk_files (set_file p c d) = im_insert p c (dk_files d)"
  by (simp add: set_file_def)

lemma no_faults_sel [simp]: "io_fault no_faults c = None"
  by (simp add: no_faults_def)

lemma as_file_utf8: "list_all is_utf8 ls \<Longrightarrow> is_utf8 (as_file ls @ t) \<longleftrightarrow> is_utf8 t"
  by (induction ls) (simp_all add: is_utf8_append byte_def)

lemma file_lines_str_lines: "file_lines E c h ls \<Longrightarrow> str_lines c = h # ls"
  using str_lines_join [of "h # ls"] by (auto simp: file_lines_def list_all_iff)

lemma parse_entries_ok:
  "list_all (\<lambda>l. is_ok (parse_entry E l)) ls \<Longrightarrow>
    parse_entries E i n ls = Inr (map (\<lambda>l. projr (parse_entry E l)) ls)"
  by (induction ls arbitrary: n) (auto simp: is_ok_def split: sum.splits)

lemma read_log_lines:
  assumes "file_lines E c h ls"
  shows "read_log E i c = Inr (file_entries E c)"
proof -
  have l: "str_lines c = h # ls" by (rule file_lines_str_lines [OF assms])
  have m: "is_ok (parse_meta E h)" and e: "list_all (\<lambda>l. is_ok (parse_entry E l)) ls"
    using assms by (simp_all add: file_lines_def)
  show ?thesis
    using m parse_entries_ok [OF e] by (cases "parse_meta E h") (simp_all add: read_log_def file_entries_def l)
qed

lemma file_lines_utf8: "file_lines E c h ls \<Longrightarrow> is_utf8 c"
  using as_file_utf8 [of "h # ls" "[]"] by (simp add: file_lines_def)

lemma as_file_ends: "ls \<noteq> [] \<Longrightarrow> ends_with [newline] (as_file ls)"
  by (cases ls rule: rev_cases) (simp_all add: ends_with_def)

lemma file_lines_last: "file_lines E c h ls \<Longrightarrow> ends_with [newline] c"
  using as_file_ends [of "h # ls"] unfolding file_lines_def by blast

lemma disk_log_present: "disk_log E d i = Some es \<Longrightarrow>
    \<exists>c. map_of (dk_files d) (session_path i) = Some c \<and> es = file_entries E c"
  by (auto simp: disk_log_def)

lemma disk_log_absent: "disk_log E d i = None \<longleftrightarrow> map_of (dk_files d) (session_path i) = None"
  by (simp add: disk_log_def)

lemma disk_log_set_file:
  "disk_log E (set_file (session_path i) c d) = (disk_log E d)(i \<mapsto> file_entries E c)"
  by (simp add: disk_log_def fun_eq_iff)

lemma disk_good_set_file:
  "disk_good E d \<Longrightarrow> file_lines E c h ls \<Longrightarrow> disk_good E (set_file (session_path i) c d)"
  by (auto simp: disk_good_def split: if_splits)

lemma meta_writable_text:
  assumes "meta_writable E m"
  obtains t where "se_meta_text E m = Inr t" "one_line t" "is_utf8 t" "parse_meta E t = Inr m"
  using assms by (auto simp: meta_writable_def parse_meta_def split: sum.splits)

lemma entry_writable_text:
  assumes "entry_writable E e"
  obtains t where "se_entry_text E e = Inr t" "one_line t" "is_utf8 t" "parse_entry E t = Inr (flat_entry e)"
  using assms by (auto simp: entry_writable_def parse_entry_def entry_round_trip split: sum.splits)

lemma file_lines_snoc:
  assumes "file_lines E c h ls" "one_line t" "is_utf8 t" "parse_entry E t = Inr x"
  shows "file_lines E (c @ t @ [newline]) h (ls @ [t])"
    and "file_entries E (c @ t @ [newline]) = file_entries E c @ [x]"
proof -
  show l: "file_lines E (c @ t @ [newline]) h (ls @ [t])"
    using assms by (simp add: file_lines_def)
  show "file_entries E (c @ t @ [newline]) = file_entries E c @ [x]"
    using file_lines_str_lines [OF l] file_lines_str_lines [OF assms(1)] assms(4)
    by (simp add: file_entries_def)
qed

lemma jsonl_append_eq:
  assumes "map_of (dk_files d) (session_path i) = Some c" "se_entry_text E e = Inr t"
  shows "jsonl_append E no_faults i e d = (set_file (session_path i) (c @ t @ [newline]) d, Inr ())"
  using assms by (simp add: jsonl_append_def write_line_def)

lemma jsonl_load_eq:
  assumes "map_of (dk_files d) (session_path i) = Some c" "file_lines E c h ls"
  shows "jsonl_load E no_faults i d = (d, Inr (file_entries E c))"
  using assms file_lines_utf8 [OF assms(2)] file_lines_last [OF assms(2)] read_log_lines [OF assms(2)]
  by (simp add: jsonl_load_def complete_len_def)

lemma jsonl_create_fresh:
  assumes "disk_good E d" "meta_writable E m" "disk_log E d (sm_id m) = None"
  shows "\<exists>d'. jsonl_create E no_faults m d = (d', Inr (sm_id m)) \<and> disk_good E d' \<and>
    disk_log E d' = (disk_log E d)(sm_id m \<mapsto> [])"
proof -
  obtain t where t: "se_meta_text E m = Inr t" "one_line t" "is_utf8 t" "parse_meta E t = Inr m"
    by (rule meta_writable_text [OF assms(2)])
  let ?p = "session_path (sm_id m)" and ?c = "t @ [newline]" and ?d1 = "d\<lparr>dk_dir := True\<rparr>"
  have l: "file_lines E ?c t []" using t by (simp add: file_lines_def)
  have e: "file_entries E ?c = []" using file_lines_str_lines [OF l] by (simp add: file_entries_def)
  have r: "jsonl_create E no_faults m d = (set_file ?p ?c (set_file ?p [] ?d1), Inr (sm_id m))"
    using assms(3) by (simp add: jsonl_create_def disk_log_absent t(1) write_line_def Let_def)
  have tw: "set_file ?p ?c (set_file ?p [] ?d1) = set_file ?p ?c ?d1"
    by (simp add: set_file_def im_insert_again)
  have g: "disk_good E ?d1" using assms(1) by (simp add: disk_good_def)
  have dl: "disk_log E ?d1 = disk_log E d" by (simp add: disk_log_def)
  show ?thesis
    unfolding r tw using disk_good_set_file [OF g l] by (simp add: disk_log_set_file e dl)
qed

interpretation jsonl: session_contract "jsonl_store E" "disk_good E" "disk_log E" flat_entry
    "meta_writable E" "entry_writable E" for E
proof
  fix d m es i e
  show "\<exists>s'. st_create (jsonl_store E) m d = (s', Inr (sm_id m)) \<and> disk_good E s' \<and>
      disk_log E s' = (disk_log E d)(sm_id m \<mapsto> [])"
    if "disk_good E d" "meta_writable E m" "disk_log E d (sm_id m) = None"
    using jsonl_create_fresh [OF that] by (simp add: jsonl_store_def)
  show "\<exists>s'. st_create (jsonl_store E) m d = (s', Inl (DuplicateId (sm_id m))) \<and> disk_good E s' \<and>
      disk_log E s' = disk_log E d"
    if "disk_good E d" "disk_log E d (sm_id m) = Some es"
    using that by (auto simp: jsonl_store_def jsonl_create_def disk_log_def disk_good_def Let_def
        simp del: map_of_eq_Some_iff)
  show "\<exists>s'. st_append (jsonl_store E) i e d = (s', Inr ()) \<and> disk_good E s' \<and>
      disk_log E s' = (disk_log E d)(i \<mapsto> es @ [flat_entry e])"
    if good: "disk_good E d" and w: "entry_writable E e" and log: "disk_log E d i = Some es"
  proof -
    obtain c where c: "map_of (dk_files d) (session_path i) = Some c" and es: "es = file_entries E c"
      using disk_log_present [OF log] by blast
    obtain h ls where l: "file_lines E c h ls" using good c unfolding disk_good_def by blast
    obtain t where t: "se_entry_text E e = Inr t" "one_line t" "is_utf8 t" "parse_entry E t = Inr (flat_entry e)"
      by (rule entry_writable_text [OF w])
    note snoc = file_lines_snoc [OF l t(2-4)]
    show ?thesis
      using jsonl_append_eq [OF c t(1)] disk_good_set_file [OF good snoc(1)]
      by (simp add: jsonl_store_def disk_log_set_file snoc(2) es)
  qed
  show "st_append (jsonl_store E) i e d = (d, Inl (session_not_found i))"
    if "disk_good E d" "disk_log E d i = None"
    using that by (simp add: jsonl_store_def jsonl_append_def disk_log_absent)
  show "st_load (jsonl_store E) i d = (d, Inr es)"
    if good: "disk_good E d" and log: "disk_log E d i = Some es"
  proof -
    obtain c where c: "map_of (dk_files d) (session_path i) = Some c" and es: "es = file_entries E c"
      using disk_log_present [OF log] by blast
    obtain h ls where l: "file_lines E c h ls" using good c unfolding disk_good_def by blast
    show ?thesis using jsonl_load_eq [OF c l] by (simp add: jsonl_store_def es)
  qed
  show "st_load (jsonl_store E) i d = (d, Inl (session_not_found i))"
    if "disk_good E d" "disk_log E d i = None"
    using that by (simp add: jsonl_store_def jsonl_load_def disk_log_absent)
qed

section \<open>A crash in the middle of an append\<close>

lemma set_file_again [simp]: "set_file p c (set_file p c' d) = set_file p c d"
  by (simp add: set_file_def im_insert_again)

lemma set_file_same: "map_of (dk_files d) p = Some c \<Longrightarrow> set_file p c d = d"
  by (simp add: set_file_def im_insert_same)

lemma ends_newline_complete: "ends_with [newline] c \<Longrightarrow> after_last_newline c = length c"
  by (cases c rule: rev_cases) (auto simp: ends_with_def split: list.splits)

lemma file_lines_complete: "file_lines E c h ls \<Longrightarrow> after_last_newline c = length c"
  by (rule ends_newline_complete [OF file_lines_last])

lemma complete_len_torn:
  assumes "file_lines E c h ls" "newline \<notin> set t" "t \<noteq> []"
  shows "complete_len (c @ t) = length c"
proof -
  have "\<not> ends_with [newline] (c @ t)"
    using assms(2,3) by (cases t rule: rev_cases) (auto simp: ends_with_def)
  then show ?thesis
    using after_last_newline_append [OF assms(2)] file_lines_complete [OF assms(1)]
    by (simp add: complete_len_def)
qed

lemma utf8_torn: "file_lines E c h ls \<Longrightarrow> is_utf8 (c @ t) \<longleftrightarrow> is_utf8 t"
  using is_utf8_append [OF file_lines_utf8] by blast

lemma load_torn:
  assumes "map_of (dk_files d) (session_path i) = Some (c @ t)" "file_lines E c h ls"
    and "newline \<notin> set t" "t \<noteq> []"
  shows "jsonl_load E no_faults i d =
    (if is_utf8 t then (set_file (session_path i) c d, Inr (file_entries E c))
     else (d, Inl (IoError ''Failed to read session file: stream did not contain valid UTF-8'')))"
  using assms complete_len_torn [OF assms(2-4)] utf8_torn [OF assms(2)] read_log_lines [OF assms(2)]
  by (simp add: jsonl_load_def)

text \<open>The append that stops after \<open>n\<close> bytes.\<close>

definition torn_write :: "io \<Rightarrow> nat \<Rightarrow> bool" where
  "torn_write io n \<longleftrightarrow> io_fault io OpenAppend = None \<and> io_fault io WriteAll \<noteq> None \<and> io_written io = n"

lemma torn_append:
  assumes "torn_write io n" "map_of (dk_files d) (session_path i) = Some c" "se_entry_text E e = Inr t"
  shows "fst (jsonl_append E io i e d) = set_file (session_path i) (c @ take n (t @ [newline])) d"
  using assms by (auto simp: torn_write_def jsonl_append_def write_line_def)

lemma load_after_torn_append:
  assumes good: "disk_good E d" and log: "disk_log E d i = Some es"
    and w: "entry_writable E e" and t: "se_entry_text E e = Inr t" and torn: "torn_write io n"
    and n: "n \<le> length t" and u: "is_utf8 (take n t)"
  shows "jsonl_load E no_faults i (fst (jsonl_append E io i e d)) = (d, Inr es)"
proof -
  obtain c where c: "map_of (dk_files d) (session_path i) = Some c" and es: "es = file_entries E c"
    using disk_log_present [OF log] by blast
  obtain h ls where l: "file_lines E c h ls" using good c unfolding disk_good_def by blast
  have d': "fst (jsonl_append E io i e d) = set_file (session_path i) (c @ take n t) d"
    using torn_append [OF torn c t] n by simp
  have one: "newline \<notin> set t" using w t by (simp add: entry_writable_def one_line_def)
  have nl: "newline \<notin> set (take n t)" using one set_take_subset by fastforce
  have same: "set_file (session_path i) c d = d" by (rule set_file_same [OF c])
  show ?thesis
  proof (cases "take n t = []")
    case True
    then have "fst (jsonl_append E io i e d) = d" unfolding d' by (simp only: append_Nil2 same)
    then show ?thesis using jsonl_load_eq [OF c l] by (simp add: es)
  next
    case False
    show ?thesis unfolding d' by (subst load_torn [OF _ l nl False]) (simp_all add: u same es)
  qed
qed

lemma torn_append_whole:
  assumes "torn_write io n" "map_of (dk_files d) (session_path i) = Some c" "se_entry_text E e = Inr t"
    and "length t < n"
  shows "fst (jsonl_append E io i e d) = fst (jsonl_append E no_faults i e d)"
  using torn_append [OF assms(1-3)] jsonl_append_eq [OF assms(2,3)] assms(4) by simp

lemma disk_log_file:
  assumes "disk_good E d" "disk_log E d i = Some es"
  obtains c h ls where "map_of (dk_files d) (session_path i) = Some c" "file_lines E c h ls"
    "length es = length ls"
proof -
  obtain c where c: "map_of (dk_files d) (session_path i) = Some c" and es: "es = file_entries E c"
    using disk_log_present [OF assms(2)] by blast
  moreover obtain h ls where l: "file_lines E c h ls" using assms(1) c unfolding disk_good_def by blast
  moreover have "length es = length ls" using file_lines_str_lines [OF l] by (simp add: es file_entries_def)
  ultimately show thesis using that by blast
qed

lemma entry_writable_line:
  "entry_writable E e \<Longrightarrow> se_entry_text E e = Inr t \<Longrightarrow> one_line t \<and> is_utf8 t"
  by (simp add: entry_writable_def)

lemma one_line_append: "one_line (s @ t) \<longleftrightarrow> one_line s \<and> one_line t"
  by (auto simp: one_line_def)

lemma one_line_take: "one_line t \<Longrightarrow> one_line (take n t)"
  using set_take_subset [of n t] by (auto simp: one_line_def)

text \<open>An append that does not wait for a load puts its line on the fragment.\<close>

lemma append_after_torn:
  assumes c: "map_of (dk_files d) (session_path i) = Some (c @ t)" and l: "file_lines E c h ls"
    and t: "newline \<notin> set t" and e: "se_entry_text E e = Inr u"
  shows "fst (jsonl_append E no_faults i e d) = set_file (session_path i) (c @ (t @ u) @ [newline]) d"
  using jsonl_append_eq [OF c e] by simp

lemma parse_entries_bad:
  assumes "list_all (\<lambda>l. is_ok (parse_entry E l)) ls" "parse_entry E b = Inl err"
  shows "parse_entries E i n (ls @ [b]) =
    Inl (JsonParseError (''Invalid entry at line '' @ dec_nat (n + length ls + 2) @ '' of session '' @ i @
      '': '' @ err))"
  using assms(1) by (induction ls arbitrary: n) (auto simp: assms(2) is_ok_def split: sum.splits)

lemma load_fused:
  assumes l: "file_lines E c h ls" and b: "one_line b" "is_utf8 b" "parse_entry E b = Inl err"
    and c: "map_of (dk_files d) (session_path i) = Some (c @ b @ [newline])"
  shows "jsonl_load E no_faults i d =
    (d, Inl (JsonParseError (''Invalid entry at line '' @ dec_nat (length ls + 2) @ '' of session '' @ i @
      '': '' @ err)))"
proof -
  let ?c = "c @ b @ [newline]"
  have lines: "str_lines ?c = h # ls @ [b]"
    using str_lines_join [of "h # ls @ [b]"] l b(1) by (auto simp: file_lines_def list_all_iff)
  have u: "is_utf8 ?c"
    using is_utf8_append [OF b(2), of "[newline]"] utf8_torn [OF l, of "b @ [newline]"] by (simp add: byte_def)
  have m: "is_ok (parse_meta E h)" and p: "list_all (\<lambda>l. is_ok (parse_entry E l)) ls"
    using l by (simp_all add: file_lines_def)
  have end_: "ends_with [newline] ?c" by (simp add: ends_with_def)
  obtain m' where "parse_meta E h = Inr m'" using m by (cases "parse_meta E h") simp_all
  then have "read_log E i ?c = Inl (JsonParseError (''Invalid entry at line '' @ dec_nat (length ls + 2) @
      '' of session '' @ i @ '': '' @ err))"
    using parse_entries_bad [OF p b(3), of i 0] by (simp add: read_log_def lines)
  then show ?thesis using c u end_ by (simp add: jsonl_load_def complete_len_def)
qed

section \<open>The context of a log\<close>

fun is_compaction :: "session_entry \<Rightarrow> bool" where
  "is_compaction (CompactionEntry i p t s k n) = True"
| "is_compaction e = False"

definition messages_of :: "session_entry list \<Rightarrow> message list" where
  "messages_of es = List.map_filter entry_message es"

lemma messages_of_simps [simp]:
  "messages_of [] = []"
  "messages_of (MessageEntry i p t m # es) = m # messages_of es"
  "messages_of (CompactionEntry i p t s k n # es) = messages_of es"
  "messages_of (es @ fs) = messages_of es @ messages_of fs"
  by (simp_all add: messages_of_def List.map_filter_def)

lemma last_compaction_none: "last_compaction n es = None \<longleftrightarrow> list_all (\<lambda>e. \<not> is_compaction e) es"
proof (induction es arbitrary: n)
  case (Cons e es)
  then show ?case by (cases e) (auto split: option.splits)
qed simp

lemma last_compaction_some:
  "list_all (\<lambda>e. \<not> is_compaction e) post \<Longrightarrow>
    last_compaction n (pre @ CompactionEntry i p t s k b # post) = Some (n + length pre, s, k)"
proof (induction pre arbitrary: n)
  case Nil
  then have "last_compaction (n + 1) post = None" by (simp add: last_compaction_none)
  then show ?case by simp
qed auto

lemma position_none: "position P xs = None \<longleftrightarrow> list_all (\<lambda>x. \<not> P x) xs"
  by (induction xs) auto

lemma position_some: "list_all (\<lambda>x. \<not> P x) a \<Longrightarrow> P x \<Longrightarrow> position P (a @ x # b) = Some (length a)"
  by (induction a) auto

lemma build_context_plain:
  "list_all (\<lambda>e. \<not> is_compaction e) es \<Longrightarrow> build_context es = messages_of es"
  using last_compaction_none [of 0 es] by (simp add: build_context_def messages_of_def)

lemma build_context_compacted:
  assumes "list_all (\<lambda>e. \<not> is_compaction e) post" "es = pre @ CompactionEntry i p t s k n # post"
  shows "list_all (\<lambda>e. \<not> is_kept k e) es \<Longrightarrow>
      build_context es = user_message (SUMMARY_PREFIX @ s) # messages_of post"
    and "es = a @ x # b \<Longrightarrow> is_kept k x \<Longrightarrow> list_all (\<lambda>e. \<not> is_kept k e) a \<Longrightarrow>
      build_context es = user_message (SUMMARY_PREFIX @ s) # messages_of (x # b)"
proof -
  have l: "last_compaction 0 es = Some (length pre, s, k)"
    using last_compaction_some [OF assms(1), of 0 pre] assms(2) by simp
  show "build_context es = user_message (SUMMARY_PREFIX @ s) # messages_of post"
    if "list_all (\<lambda>e. \<not> is_kept k e) es"
  proof -
    have "position (is_kept k) es = None" using that by (simp add: position_none)
    moreover have "drop (length pre + 1) es = post" by (simp add: assms(2))
    ultimately show ?thesis by (simp add: build_context_def l messages_of_def)
  qed
  show "build_context es = user_message (SUMMARY_PREFIX @ s) # messages_of (x # b)"
    if "es = a @ x # b" "is_kept k x" "list_all (\<lambda>e. \<not> is_kept k e) a"
  proof -
    have "position (is_kept k) es = Some (length a)"
      using position_some [OF that(3,2), of b] that(1) by simp
    moreover have "drop (length a) es = x # b" by (simp add: that(1))
    ultimately show ?thesis by (simp add: build_context_def l messages_of_def)
  qed
qed

end
