(* ===== verification/Tool.thy ===== *)
theory Tool
  imports External Llm Text
begin

text \<open>
  tool.rs, the registry and one tool call: registration and lookup by name, the coercion of
  arguments by a JSON schema, validation, and \<open>execute_tool_call\<close>, which turns every failure into
  an error message for the model.

  The registry is a global \<open>HashMap\<close>, here an association list whose order stands for the
  iteration order. A tool is named by a handle; what it does (\<open>Tool::call\<close>) and what it says of
  itself (\<open>Tool::info\<close>) is the table \<open>tools\<close>, a parameter, and a call may change the whole
  state. The schema validator (\<open>jsonschema\<close>) and the regular expressions (\<open>regex\<close>) are the
  functions of \<open>tool_env\<close>.
\<close>

datatype execution_mode = Sequential | Parallel

record tool_info =
  ti_name :: string
  ti_description :: string
  ti_parameters :: json
  ti_mode :: execution_mode

definition tool_info_new :: "string \<Rightarrow> string \<Rightarrow> json option \<Rightarrow> tool_info" where
  "tool_info_new name desc params =
    \<lparr>ti_name = name, ti_description = desc,
     ti_parameters = unwrap_or params
       (json_object [(''type'', JString ''object''), (''properties'', json_object [])]),
     ti_mode = Sequential\<rparr>"

definition with_execution_mode :: "execution_mode \<Rightarrow> tool_info \<Rightarrow> tool_info" where
  "with_execution_mode mode i = i\<lparr>ti_mode := mode\<rparr>"

definition tool_info_to_value :: "host \<Rightarrow> tool_info \<Rightarrow> agent_value" where
  "tool_info_to_value H i = Object (bt_from_iter
    ([(''name'', String (ti_name i)), (''description'', String (ti_description i))] @
     (case from_json H (ti_parameters i) of Inl e \<Rightarrow> [] | Inr v \<Rightarrow> [(''parameters'', v)])))"

record tool_entry =
  te_info :: tool_info
  te_tool :: string

record 'u tool_state =
  ts_registry :: "(string \<times> tool_entry) list"
  ts_world :: "'u world"

record 'u tool =
  tl_info :: tool_info
  tl_call :: "agent_context \<Rightarrow> agent_value \<Rightarrow> 'u tool_state \<Rightarrow> 'u tool_state \<times> agent_value result"

type_synonym 'u tools = "string \<Rightarrow> 'u tool"

text \<open>\<open>tv_compiles\<close>, \<open>tv_valid\<close> and \<open>tv_errors\<close> are \<open>validator_for(schema).is_ok()\<close>, \<open>is_valid\<close>
  and \<open>iter_errors\<close> (instance path and text) of a compiled schema; \<open>tv_regex\<close> is
  \<open>RegexSet::new\<close> with \<open>is_match\<close>.\<close>

record tool_env =
  tv_host :: host
  tv_compiles :: "json \<Rightarrow> bool"
  tv_valid :: "json \<Rightarrow> json \<Rightarrow> bool"
  tv_errors :: "json \<Rightarrow> json \<Rightarrow> (string \<times> string) list"
  tv_regex :: "string list \<Rightarrow> string + (string \<Rightarrow> bool)"

section \<open>The registry\<close>

definition tool_entry_new :: "'u tools \<Rightarrow> string \<Rightarrow> tool_entry" where
  "tool_entry_new T h = \<lparr>te_info = tl_info (T h), te_tool = h\<rparr>"

definition MIN_DESCRIPTION_CHARS :: nat where "MIN_DESCRIPTION_CHARS = 10"

text \<open>The warning is only logged; the model keeps which one it is.\<close>

datatype weak_description = NoDescription string | ShortDescription string string

definition description_warning :: "string \<Rightarrow> string \<Rightarrow> weak_description option" where
  "description_warning name desc =
    (if trim desc = [] then Some (NoDescription name)
     else if char_count (trim desc) < MIN_DESCRIPTION_CHARS then Some (ShortDescription name (trim desc))
     else None)"

definition is_ascii_alphanumeric :: "char \<Rightarrow> bool" where
  "is_ascii_alphanumeric c \<longleftrightarrow>
    48 \<le> byte c \<and> byte c \<le> 57 \<or> 65 \<le> byte c \<and> byte c \<le> 90 \<or> 97 \<le> byte c \<and> byte c \<le> 122"

definition is_valid_tool_name :: "string \<Rightarrow> bool" where
  "is_valid_tool_name name \<longleftrightarrow> 1 \<le> length name \<and> length name \<le> 64 \<and>
    list_all (\<lambda>c. is_ascii_alphanumeric c \<or> c = CHR ''_'' \<or> c = CHR ''-'') name"

definition register_tool :: "'u tools \<Rightarrow> string \<Rightarrow> 'u tool_state \<Rightarrow> 'u tool_state" where
  "register_tool T h st =
    st\<lparr>ts_registry := im_insert (ti_name (tl_info (T h))) (tool_entry_new T h) (ts_registry st)\<rparr>"

definition unregister_tool :: "string \<Rightarrow> 'u tool_state \<Rightarrow> 'u tool_state" where
  "unregister_tool name st = st\<lparr>ts_registry := im_shift_remove name (ts_registry st)\<rparr>"

definition get_tool :: "string \<Rightarrow> 'u tool_state \<Rightarrow> string option" where
  "get_tool name st = map_option te_tool (map_of (ts_registry st) name)"

definition list_tool_infos :: "'u tool_state \<Rightarrow> tool_info list" where
  "list_tool_infos st = map (te_info \<circ> snd) (ts_registry st)"

definition list_tool_infos_patterns ::
    "tool_env \<Rightarrow> string \<Rightarrow> 'u tool_state \<Rightarrow> string + tool_info list" where
  "list_tool_infos_patterns E patterns st =
    map_ok (\<lambda>match. filter (\<lambda>i. match (ti_name i)) (list_tool_infos st))
      (tv_regex E (filter (\<lambda>l. l \<noteq> []) (map trim (str_lines patterns))))"

definition call_tool :: "'u tools \<Rightarrow> agent_context \<Rightarrow> string \<Rightarrow> agent_value \<Rightarrow> 'u tool_state \<Rightarrow>
    'u tool_state \<times> agent_value result" where
  "call_tool T ctx name args st =
    (if ctx_is_cancelled (cancelled (w_tokens (ts_world st))) ctx then (st, Inl Cancelled)
     else case get_tool name st of
       None \<Rightarrow> (st, Inl (Other (''Tool '' @ [CHR 0x27] @ name @ [CHR 0x27] @ '' not found'')))
     | Some h \<Rightarrow> tl_call (T h) ctx args st)"

definition error_tool_result :: "tool_call \<Rightarrow> string \<Rightarrow> message" where
  "error_tool_result c e =
    (tool_message (fn_name (tc_function c)) e)\<lparr>msg_id := fn_id (tc_function c), msg_is_error := Some True\<rparr>"

section \<open>Arguments and schemas\<close>

definition schema_accepts :: "tool_env \<Rightarrow> json \<Rightarrow> json \<Rightarrow> bool" where
  "schema_accepts E schema v \<longleftrightarrow> tv_compiles E schema \<and> tv_valid E schema v"

definition schema_variants :: "(string \<times> json) list \<Rightarrow> json list option" where
  "schema_variants m =
    (case map_of m ''anyOf'' of
      Some (JArray vs) \<Rightarrow> Some vs
    | _ \<Rightarrow> (case map_of m ''oneOf'' of Some (JArray vs) \<Rightarrow> Some vs | _ \<Rightarrow> None))"

text \<open>The conversion of a string the keyword \<open>type\<close> asks for.\<close>

definition coerce_primitive :: "host \<Rightarrow> string option \<Rightarrow> json \<Rightarrow> json" where
  "coerce_primitive H ty v =
    (case v of
      JString s \<Rightarrow>
        if ty = Some ''integer'' then
          (case parse_i64 s of None \<Rightarrow> v | Some i \<Rightarrow> JNumber (number_of_i64 i))
        else if ty = Some ''number'' then
          (case Option.bind (h_parse_f64 H s) number_from_f64 of None \<Rightarrow> v | Some n \<Rightarrow> JNumber n)
        else if ty = Some ''boolean'' then
          (if s = ''true'' then JBool True else if s = ''false'' then JBool False else v)
        else v
    | _ \<Rightarrow> v)"

text \<open>The coercion of one value, given the coercions of the schemas inside: those of the variants
  of \<open>anyOf\<close> or \<open>oneOf\<close>, of the \<open>properties\<close> and of \<open>items\<close>.\<close>

definition coerce_variants :: "tool_env \<Rightarrow> (json \<times> (json \<Rightarrow> json)) list \<Rightarrow> json \<Rightarrow> json" where
  "coerce_variants E vs v =
    (if list_ex (\<lambda>(s, f). schema_accepts E s v) vs then v
     else (case find (\<lambda>(s, f). schema_accepts E s (f v)) vs of None \<Rightarrow> v | Some (s, f) \<Rightarrow> f v))"

definition coerce_properties :: "(string \<times> (json \<Rightarrow> json)) list \<Rightarrow> json \<Rightarrow> json" where
  "coerce_properties ps v =
    (case v of
      JObject kvs \<Rightarrow> JObject (map (\<lambda>(k, x). (k, case map_of ps k of None \<Rightarrow> x | Some f \<Rightarrow> f x)) kvs)
    | _ \<Rightarrow> v)"

definition coerce_items :: "(json \<Rightarrow> json) \<Rightarrow> json \<Rightarrow> json" where
  "coerce_items f v = (case v of JArray xs \<Rightarrow> JArray (map f xs) | _ \<Rightarrow> v)"

definition coerce_value :: "tool_env \<Rightarrow> string option \<Rightarrow> (json \<times> (json \<Rightarrow> json)) list option \<Rightarrow>
    (string \<times> (json \<Rightarrow> json)) list option \<Rightarrow> (json \<Rightarrow> json) option \<Rightarrow> json \<Rightarrow> json" where
  "coerce_value E ty variants props items v =
    (let v1 = (case variants of None \<Rightarrow> v | Some vs \<Rightarrow> coerce_variants E vs v);
         v2 = coerce_primitive (tv_host E) ty v1;
         v3 = (case props of None \<Rightarrow> v2 | Some ps \<Rightarrow> coerce_properties ps v2)
     in (case items of None \<Rightarrow> v3 | Some f \<Rightarrow> coerce_items f v3))"

definition schema_type :: "(string \<times> json) list \<Rightarrow> string option" where
  "schema_type m = Option.bind (map_of m ''type'') json_as_str"

definition schema_properties :: "(string \<times> json) list \<Rightarrow> (string \<times> json) list option" where
  "schema_properties m = (case map_of m ''properties'' of Some (JObject ps) \<Rightarrow> Some ps | _ \<Rightarrow> None)"

lemma size_map_of_json: "map_of m k = Some j \<Longrightarrow> size j < Suc (size_list (size_prod (\<lambda>x. 0) size) m)"
  by (induction m) (auto split: if_splits)

lemma size_member_json: "j \<in> set js \<Longrightarrow> size j < Suc (size_list size js)"
  by (induction js) auto

lemma size_entry_json: "(k, j) \<in> set m \<Longrightarrow> size j < Suc (size_list (size_prod (\<lambda>x. 0) size) m)"
  by (induction m) auto

lemma size_variants: "schema_variants m = Some vs \<Longrightarrow> s \<in> set vs \<Longrightarrow>
    size s < Suc (size_list (size_prod (\<lambda>x. 0) size) m)"
  by (auto simp: schema_variants_def split: option.splits json.splits
      dest!: size_map_of_json size_member_json)

lemma size_properties: "schema_properties m = Some ps \<Longrightarrow> (k, s) \<in> set ps \<Longrightarrow>
    size s < Suc (size_list (size_prod (\<lambda>x. 0) size) m)"
  by (auto simp: schema_properties_def split: option.splits json.splits
      dest!: size_map_of_json size_entry_json)

function coerce_by_schema :: "tool_env \<Rightarrow> json \<Rightarrow> json \<Rightarrow> json" where
  "coerce_by_schema E schema =
    (case schema of
      JObject m \<Rightarrow>
        coerce_value E (schema_type m)
          (map_option (map (\<lambda>s. (s, coerce_by_schema E s))) (schema_variants m))
          (map_option (map (\<lambda>(k, s). (k, coerce_by_schema E s))) (schema_properties m))
          (map_option (coerce_by_schema E) (map_of m ''items''))
    | _ \<Rightarrow> (\<lambda>v. v))"
  by pat_completeness auto
termination
  by (relation "measure (\<lambda>(E, s). size s)")
    (auto dest: size_map_of_json size_properties size_variants simp del: map_of_eq_Some_iff)

declare coerce_by_schema.simps [simp del]

definition validate_tool_args :: "tool_env \<Rightarrow> json \<Rightarrow> json \<Rightarrow> json \<times> (string + unit)" where
  "validate_tool_args E schema args =
    (if \<not> tv_compiles E schema then (args, Inr ())
     else
       (let args' = coerce_by_schema E schema args;
            errors = map (\<lambda>(p, e). ''at '' @ [CHR 0x27] @ p @ [CHR 0x27] @ '': '' @ e) (tv_errors E schema args')
        in (args', if errors = [] then Inr () else Inl (join_with ''; '' errors))))"

section \<open>One call\<close>

definition image_block :: "host \<Rightarrow> photon_image \<Rightarrow> content_block" where
  "image_block H img =
    ImageBlock (trim_start_matches IMAGE_BASE64_PREFIX (h_img_encode H img)) ''image/png''"

definition result_block :: "host \<Rightarrow> agent_value \<Rightarrow> content_block" where
  "result_block H v =
    (case v of Image img \<Rightarrow> image_block H img | _ \<Rightarrow> TextBlock (h_json_text H (to_json H v)))"

definition tool_result_content :: "host \<Rightarrow> agent_value \<Rightarrow> message_content" where
  "tool_result_content H v =
    (case v of
      Image img \<Rightarrow> Blocks [image_block H img]
    | Array vs \<Rightarrow>
        if list_ex is_image vs then Blocks (map (result_block H) vs)
        else Text (h_json_text H (to_json H v))
    | _ \<Rightarrow> Text (h_json_text H (to_json H v)))"

definition PARSE_FAILURE :: string where
  "PARSE_FAILURE = ''Tool call arguments could not be parsed as JSON; the call was not executed. Re-issue the call with valid JSON arguments. ''"

definition SCHEMA_FAILURE :: string where
  "SCHEMA_FAILURE = ''Tool call arguments failed schema validation; the call was not executed. Re-issue the call with corrected arguments. Errors: ''"

text \<open>The parameters after validation, or what is wrong with them.\<close>

definition checked_parameters ::
    "tool_env \<Rightarrow> 'u tools \<Rightarrow> tool_call \<Rightarrow> 'u tool_state \<Rightarrow> string + json" where
  "checked_parameters E T c st =
    (case get_tool (fn_name (tc_function c)) st of
      None \<Rightarrow> Inr (fn_parameters (tc_function c))
    | Some h \<Rightarrow>
        (case validate_tool_args E (ti_parameters (tl_info (T h))) (fn_parameters (tc_function c)) of
          (args, Inl e) \<Rightarrow> Inl (SCHEMA_FAILURE @ e)
        | (args, Inr _) \<Rightarrow> Inr args))"

definition execute_tool_call :: "tool_env \<Rightarrow> 'u tools \<Rightarrow> agent_context \<Rightarrow> tool_call \<Rightarrow>
    'u tool_state \<Rightarrow> 'u tool_state \<times> message" where
  "execute_tool_call E T ctx c st =
    (case fn_parse_error (tc_function c) of
      Some e \<Rightarrow> (st, error_tool_result c (PARSE_FAILURE @ e))
    | None \<Rightarrow>
        (case checked_parameters E T c st of
          Inl e \<Rightarrow> (st, error_tool_result c e)
        | Inr params \<Rightarrow>
            (case from_json (tv_host E) params of
              Inl e \<Rightarrow> (st, error_tool_result c (''Failed to parse tool call parameters: '' @ error_text e))
            | Inr args \<Rightarrow>
                (case call_tool T ctx (fn_name (tc_function c)) args st of
                  (st', Inr resp) \<Rightarrow>
                    (st', (tool_message_with_content (fn_name (tc_function c))
                      (tool_result_content (tv_host E) resp))\<lparr>msg_id := fn_id (tc_function c)\<rparr>)
                | (st', Inl e) \<Rightarrow> (st', error_tool_result c (error_text e))))))"

section \<open>What coercion can change\<close>

text \<open>\<open>repaired H v w\<close>: \<open>w\<close> is \<open>v\<close> with some strings replaced by the integer, number or boolean
  they spell.\<close>

inductive repaired :: "host \<Rightarrow> json \<Rightarrow> json \<Rightarrow> bool" for H where
  repaired_same: "repaired H v v"
| repaired_integer: "parse_i64 s = Some i \<Longrightarrow> repaired H (JString s) (JNumber (number_of_i64 i))"
| repaired_number: "h_parse_f64 H s = Some x \<Longrightarrow> number_from_f64 x = Some n \<Longrightarrow>
    repaired H (JString s) (JNumber n)"
| repaired_true: "repaired H (JString ''true'') (JBool True)"
| repaired_false: "repaired H (JString ''false'') (JBool False)"
| repaired_array: "list_all2 (repaired H) xs ys \<Longrightarrow> repaired H (JArray xs) (JArray ys)"
| repaired_object: "keys_of m = keys_of n \<Longrightarrow> list_all2 (repaired H) (map snd m) (map snd n) \<Longrightarrow>
    repaired H (JObject m) (JObject n)"

inductive_cases repaired_from_array: "repaired H (JArray xs) w"
inductive_cases repaired_from_object: "repaired H (JObject m) w"
inductive_cases repaired_from_number: "repaired H (JNumber n) w"
inductive_cases repaired_from_bool: "repaired H (JBool b) w"
inductive_cases repaired_from_null: "repaired H JNull w"

lemma repaired_trans: "repaired H u v \<Longrightarrow> repaired H v w \<Longrightarrow> repaired H u w"
proof (induction u v arbitrary: w rule: repaired.induct)
  case (repaired_array xs ys)
  from repaired_array.prems show ?case
  proof (rule repaired_from_array)
    assume w: "w = JArray ys"
    have "list_all2 (repaired H) xs ys" using repaired_array.IH by (auto elim: list_all2_mono)
    then show ?case unfolding w by (rule repaired.repaired_array)
  next
    fix zs assume w: "w = JArray zs" and z: "list_all2 (repaired H) ys zs"
    have "list_all2 (repaired H) xs zs"
      by (rule list_all2_trans [OF _ repaired_array.IH z]) blast
    then show ?case unfolding w by (rule repaired.repaired_array)
  qed
next
  case (repaired_object m n)
  from repaired_object.prems show ?case
  proof (rule repaired_from_object)
    assume w: "w = JObject n"
    have "list_all2 (repaired H) (map snd m) (map snd n)"
      using repaired_object.IH by (rule list_all2_mono) blast
    then show ?case unfolding w by (rule repaired.repaired_object [OF repaired_object.hyps])
  next
    fix r assume w: "w = JObject r" and k: "keys_of n = keys_of r"
      and z: "list_all2 (repaired H) (map snd n) (map snd r)"
    have "list_all2 (repaired H) (map snd m) (map snd r)"
      by (rule list_all2_trans [OF _ repaired_object.IH z]) blast
    then show ?case unfolding w by (rule repaired.repaired_object [OF trans [OF repaired_object.hyps k]])
  qed
next
  case repaired_true
  then show ?case by (auto elim: repaired_from_bool intro: repaired.repaired_true)
next
  case repaired_false
  then show ?case by (auto elim: repaired_from_bool intro: repaired.repaired_false)
next
  case (repaired_integer s i)
  from repaired_integer(2) have "w = JNumber (number_of_i64 i)" by (rule repaired_from_number)
  then show ?case using repaired.repaired_integer [OF repaired_integer(1)] by simp
next
  case (repaired_number s x n)
  from repaired_number(3) have "w = JNumber n" by (rule repaired_from_number)
  then show ?case using repaired.repaired_number [OF repaired_number(1,2)] by simp
qed

lemma coerce_primitive_repaired: "repaired H v (coerce_primitive H ty v)"
proof (cases v)
  case (JString s)
  have "repaired H (JString s) (case Option.bind (h_parse_f64 H s) number_from_f64 of None \<Rightarrow> JString s | Some n \<Rightarrow> JNumber n)"
    by (cases "h_parse_f64 H s") (auto split: option.split intro: repaired_same repaired_number)
  then show ?thesis
    by (simp add: JString coerce_primitive_def repaired_same repaired_true repaired_false repaired_integer
        split: option.split)
qed (simp_all add: coerce_primitive_def repaired_same)

lemma coerce_properties_repaired:
  assumes "\<And>k f x. (k, f) \<in> set ps \<Longrightarrow> repaired H x (f x)"
  shows "repaired H v (coerce_properties ps v)"
proof (cases v)
  case (JObject kvs)
  have "repaired H x (case map_of ps k of None \<Rightarrow> x | Some f \<Rightarrow> f x)" for k x
    using assms by (auto split: option.split dest!: map_of_SomeD intro: repaired_same)
  then have "list_all2 (repaired H) (map snd kvs)
      (map snd (map (\<lambda>(k, x). (k, case map_of ps k of None \<Rightarrow> x | Some f \<Rightarrow> f x)) kvs))"
    by (induction kvs) auto
  moreover have "keys_of kvs = keys_of (map (\<lambda>(k, x). (k, case map_of ps k of None \<Rightarrow> x | Some f \<Rightarrow> f x)) kvs)"
    by (induction kvs) auto
  ultimately show ?thesis unfolding JObject coerce_properties_def json.case by (intro repaired_object)
qed (simp_all add: coerce_properties_def repaired_same)

lemma coerce_items_repaired:
  assumes "\<And>x. repaired H x (f x)"
  shows "repaired H v (coerce_items f v)"
proof (cases v)
  case (JArray xs)
  have "list_all2 (repaired H) xs (map f xs)" using assms by (induction xs) auto
  then show ?thesis by (simp add: JArray coerce_items_def repaired_array)
qed (simp_all add: coerce_items_def repaired_same)

lemma coerce_variants_repaired:
  assumes "\<And>s f x. (s, f) \<in> set vs \<Longrightarrow> repaired H x (f x)"
  shows "repaired H v (coerce_variants E vs v)"
proof (cases "find (\<lambda>(s, f). schema_accepts E s (f v)) vs")
  case None
  then show ?thesis by (simp add: coerce_variants_def repaired_same)
next
  case (Some sf)
  obtain sc f where sf: "sf = (sc, f)" by (cases sf)
  have "(sc, f) \<in> set vs" using Some sf by (metis find_Some_iff nth_mem)
  from assms [OF this, of v] show ?thesis by (simp add: coerce_variants_def Some sf repaired_same)
qed

lemma coerce_value_repaired:
  assumes "\<And>vs s f x. variants = Some vs \<Longrightarrow> (s, f) \<in> set vs \<Longrightarrow> repaired (tv_host E) x (f x)"
    and "\<And>ps k f x. props = Some ps \<Longrightarrow> (k, f) \<in> set ps \<Longrightarrow> repaired (tv_host E) x (f x)"
    and "\<And>f x. items = Some f \<Longrightarrow> repaired (tv_host E) x (f x)"
  shows "repaired (tv_host E) v (coerce_value E ty variants props items v)"
proof -
  let ?H = "tv_host E"
  define v1 where "v1 = (case variants of None \<Rightarrow> v | Some vs \<Rightarrow> coerce_variants E vs v)"
  define v2 where "v2 = coerce_primitive ?H ty v1"
  define v3 where "v3 = (case props of None \<Rightarrow> v2 | Some ps \<Rightarrow> coerce_properties ps v2)"
  have "repaired ?H v v1"
    using assms(1) coerce_variants_repaired [of _ ?H v E] by (auto simp: v1_def repaired_same split: option.split)
  moreover have "repaired ?H v1 v2" unfolding v2_def by (rule coerce_primitive_repaired)
  moreover have "repaired ?H v2 v3"
    using assms(2) coerce_properties_repaired [of _ ?H v2] by (auto simp: v3_def repaired_same split: option.split)
  moreover have "repaired ?H v3 (case items of None \<Rightarrow> v3 | Some f \<Rightarrow> coerce_items f v3)"
    using assms(3) coerce_items_repaired [of ?H _ v3] by (auto simp: repaired_same split: option.split)
  ultimately show ?thesis
    unfolding coerce_value_def Let_def v1_def [symmetric] v2_def [symmetric] v3_def [symmetric]
    by (blast intro: repaired_trans)
qed

lemma coerce_repaired: "repaired (tv_host E) v (coerce_by_schema E schema v)"
proof (induction E schema arbitrary: v rule: coerce_by_schema.induct)
  case (1 E schema)
  show ?case
  proof (cases schema)
    case (JObject m)
    show ?thesis
      unfolding JObject coerce_by_schema.simps [of E "JObject m"] json.case
      by (rule coerce_value_repaired) (use 1 [OF JObject] in \<open>fastforce simp del: map_of_eq_Some_iff\<close>)+
  qed (simp_all add: coerce_by_schema.simps [of E JNull] coerce_by_schema.simps [of E "JBool b" for b]
      coerce_by_schema.simps [of E "JNumber n" for n] coerce_by_schema.simps [of E "JString s" for s]
      coerce_by_schema.simps [of E "JArray xs" for xs] repaired_same)
qed

section \<open>What a call does\<close>

text \<open>A call of a registered tool, with its checks spelled out: \<open>fixed\<close> are the repaired arguments, \<open>f\<close>
  is the tool.\<close>

definition run_checked :: "tool_env \<Rightarrow> json \<Rightarrow> json \<Rightarrow>
    (agent_context \<Rightarrow> agent_value \<Rightarrow> 'u tool_state \<Rightarrow> 'u tool_state \<times> agent_value result) \<Rightarrow>
    agent_context \<Rightarrow> tool_call \<Rightarrow> 'u tool_state \<Rightarrow> 'u tool_state \<times> message" where
  "run_checked E schema fixed f ctx c st =
    (case fn_parse_error (tc_function c) of
       Some e \<Rightarrow> (st, error_tool_result c (PARSE_FAILURE @ e))
     | None \<Rightarrow>
         if tv_compiles E schema \<and> tv_errors E schema fixed \<noteq> [] then
           (st, error_tool_result c (SCHEMA_FAILURE @
             join_with ''; '' (map (\<lambda>(p, e). ''at '' @ [CHR 0x27] @ p @ [CHR 0x27] @ '': '' @ e) (tv_errors E schema fixed))))
         else (case from_json (tv_host E) fixed of
             Inl e \<Rightarrow> (st, error_tool_result c (''Failed to parse tool call parameters: '' @ error_text e))
           | Inr v \<Rightarrow>
               if ctx_is_cancelled (cancelled (w_tokens (ts_world st))) ctx then
                 (st, error_tool_result c (error_text Cancelled))
               else (case f ctx v st of
                 (st', Inr resp) \<Rightarrow>
                   (st', (tool_message_with_content (fn_name (tc_function c))
                     (tool_result_content (tv_host E) resp))\<lparr>msg_id := fn_id (tc_function c)\<rparr>)
               | (st', Inl e) \<Rightarrow> (st', error_tool_result c (error_text e)))))"

lemma execute_tool_call_tool:
  assumes "get_tool (fn_name (tc_function c)) st = Some h"
  shows "execute_tool_call E T ctx c st =
    run_checked E (ti_parameters (tl_info (T h)))
      (if tv_compiles E (ti_parameters (tl_info (T h)))
       then coerce_by_schema E (ti_parameters (tl_info (T h))) (fn_parameters (tc_function c))
       else fn_parameters (tc_function c)) (tl_call (T h)) ctx c st"
  using assms
  by (auto simp: execute_tool_call_def checked_parameters_def validate_tool_args_def call_tool_def run_checked_def
      Let_def split: option.split sum.split prod.split)

section \<open>What a call answers\<close>

text \<open>\<open>answers c m\<close>: \<open>m\<close> is a tool message under the name and the id of the call.\<close>

definition answers :: "tool_call \<Rightarrow> message \<Rightarrow> bool" where
  "answers c m \<longleftrightarrow> msg_role m = ''tool'' \<and> msg_tool_name m = Some (fn_name (tc_function c)) \<and>
    msg_id m = fn_id (tc_function c)"

lemma error_tool_result_answers [simp]: "answers c (error_tool_result c e)"
  by (simp add: answers_def error_tool_result_def tool_message_def new_message_def)

lemma execute_answers [simp]: "answers c (snd (execute_tool_call E T ctx c st))"
  by (simp add: execute_tool_call_def answers_def error_tool_result_def tool_message_def
      tool_message_with_content_def new_message_def split: option.split sum.split prod.split)

end
