(* ===== verification/CallTools.thy ===== *)
theory CallTools
  imports Tool
begin

text \<open>
  tool.rs, \<open>call_tools\<close>: a batch of calls under the scheduling modes of their tools, with
  cancellation.

  What happens between two polls is a list of events: \<open>Complete j\<close> lets the call at position \<open>j\<close>
  of the running batch complete (its whole effect happens then), \<open>Progress f\<close> is a change of the
  state by anything else: other tasks, a cancellation of the flow's token, the partial effect of
  a call that is dropped later. \<open>None\<close> is a wait the events do not end. \<open>buffer_unordered\<close> has the
  first \<open>n\<close> unfinished calls of the batch in flight; an event for another call does nothing.
\<close>

datatype 'u tool_event = Complete nat | Progress "'u tool_state \<Rightarrow> 'u tool_state"

definition ABORTED_TOOL_RESULT :: string where "ABORTED_TOOL_RESULT = ''Operation aborted''"

definition flow_cancelled :: "agent_context \<Rightarrow> 'u tool_state \<Rightarrow> bool" where
  "flow_cancelled ctx st \<longleftrightarrow> ctx_is_cancelled (cancelled (w_tokens (ts_world st))) ctx"

definition in_flight :: "nat \<Rightarrow> message option list \<Rightarrow> nat list" where
  "in_flight n slots = take n (filter (\<lambda>j. slots ! j = None) [0..<length slots])"

definition batch_event :: "tool_env \<Rightarrow> 'u tools \<Rightarrow> agent_context \<Rightarrow> nat \<Rightarrow> tool_call list \<Rightarrow>
    'u tool_event \<Rightarrow> message option list \<Rightarrow> 'u tool_state \<Rightarrow> message option list \<times> 'u tool_state" where
  "batch_event E T ctx n batch e slots st =
    (case e of
      Complete j \<Rightarrow>
        if j \<in> set (in_flight n slots)
        then (let (st', m) = execute_tool_call E T ctx (batch ! j) st in (slots[j := Some m], st'))
        else (slots, st)
    | Progress f \<Rightarrow> (slots, f st))"

fun batch_loop :: "tool_env \<Rightarrow> 'u tools \<Rightarrow> agent_context \<Rightarrow> nat \<Rightarrow> tool_call list \<Rightarrow>
    'u tool_event list \<Rightarrow> message option list \<Rightarrow> 'u tool_state \<Rightarrow>
    ('u tool_event list \<times> message option list \<times> 'u tool_state \<times> bool) option" where
  "batch_loop E T ctx n batch evs slots st =
    (if flow_cancelled ctx st then Some (evs, slots, st, True)
     else if None \<notin> set slots then Some (evs, slots, st, False)
     else case evs of
       [] \<Rightarrow> None
     | e # evs' \<Rightarrow>
         (let (slots', st') = batch_event E T ctx n batch e slots st
          in batch_loop E T ctx n batch evs' slots' st'))"

declare batch_loop.simps [simp del]

text \<open>After a cancellation the results that are ready at once are still taken.\<close>

fun salvage :: "tool_env \<Rightarrow> 'u tools \<Rightarrow> agent_context \<Rightarrow> nat \<Rightarrow> tool_call list \<Rightarrow>
    'u tool_event list \<Rightarrow> message option list \<Rightarrow> 'u tool_state \<Rightarrow>
    'u tool_event list \<times> message option list \<times> 'u tool_state" where
  "salvage E T ctx n batch (Complete j # evs) slots st =
    (let (slots', st') = batch_event E T ctx n batch (Complete j) slots st
     in salvage E T ctx n batch evs slots' st')"
| "salvage E T ctx n batch evs slots st = (evs, slots, st)"

definition aborted_result :: "tool_call \<Rightarrow> message" where
  "aborted_result c = error_tool_result c ABORTED_TOOL_RESULT"

definition fill_slots :: "message option list \<Rightarrow> tool_call list \<Rightarrow> message list" where
  "fill_slots slots batch =
    map2 (\<lambda>s c. case s of Some m \<Rightarrow> m | None \<Rightarrow> aborted_result c) slots batch"

definition flush_parallel_batch :: "tool_env \<Rightarrow> 'u tools \<Rightarrow> agent_context \<Rightarrow> nat \<Rightarrow> tool_call list \<Rightarrow>
    message list \<Rightarrow> 'u tool_event list \<Rightarrow> 'u tool_state \<Rightarrow>
    ('u tool_event list \<times> message list \<times> 'u tool_state \<times> bool) option" where
  "flush_parallel_batch E T ctx n batch out evs st =
    (if batch = [] then Some (evs, out, st, True)
     else case batch_loop E T ctx n batch evs (replicate (length batch) None) st of
       None \<Rightarrow> None
     | Some (evs1, slots, st1, aborted) \<Rightarrow>
         (let (evs2, slots2, st2) =
            (if aborted then salvage E T ctx n batch evs1 slots st1 else (evs1, slots, st1))
          in Some (evs2, out @ fill_slots slots2 batch, st2, \<not> aborted)))"

text \<open>A sequential call alone, dropped when the flow is cancelled first.\<close>

fun sequential_call :: "tool_env \<Rightarrow> 'u tools \<Rightarrow> agent_context \<Rightarrow> tool_call \<Rightarrow> 'u tool_event list \<Rightarrow>
    'u tool_state \<Rightarrow> ('u tool_event list \<times> 'u tool_state \<times> message option) option" where
  "sequential_call E T ctx c evs st =
    (if flow_cancelled ctx st then Some (evs, st, None)
     else case evs of
       [] \<Rightarrow> None
     | Complete j # evs' \<Rightarrow>
         (let (st', m) = execute_tool_call E T ctx c st in Some (evs', st', Some m))
     | Progress f # evs' \<Rightarrow> sequential_call E T ctx c evs' (f st))"

declare sequential_call.simps [simp del]

definition mode_of :: "'u tools \<Rightarrow> tool_call \<Rightarrow> 'u tool_state \<Rightarrow> execution_mode" where
  "mode_of T c st =
    (case get_tool (fn_name (tc_function c)) st of
      None \<Rightarrow> Sequential
    | Some h \<Rightarrow> ti_mode (tl_info (T h)))"

fun run_calls :: "tool_env \<Rightarrow> 'u tools \<Rightarrow> agent_context \<Rightarrow> nat \<Rightarrow> tool_call list \<Rightarrow> tool_call list \<Rightarrow>
    message list \<Rightarrow> 'u tool_event list \<Rightarrow> 'u tool_state \<Rightarrow>
    ('u tool_event list \<times> message list \<times> 'u tool_state \<times> bool) option" where
  "run_calls E T ctx n [] batch out evs st = flush_parallel_batch E T ctx n batch out evs st"
| "run_calls E T ctx n (c # cs) batch out evs st =
    (if mode_of T c st = Parallel then run_calls E T ctx n cs (batch @ [c]) out evs st
     else case flush_parallel_batch E T ctx n batch out evs st of
       None \<Rightarrow> None
     | Some (evs1, out1, st1, finished) \<Rightarrow>
         if \<not> finished then Some (evs1, out1, st1, False)
         else (case sequential_call E T ctx c evs1 st1 of
           None \<Rightarrow> None
         | Some (evs2, st2, None) \<Rightarrow> Some (evs2, out1, st2, False)
         | Some (evs2, st2, Some m) \<Rightarrow> run_calls E T ctx n cs [] (out1 @ [m]) evs2 st2))"

definition call_tools :: "tool_env \<Rightarrow> 'u tools \<Rightarrow> agent_context \<Rightarrow> tool_call list \<Rightarrow> nat \<Rightarrow>
    'u tool_event list \<Rightarrow> 'u tool_state \<Rightarrow> ('u tool_event list \<times> message list \<times> 'u tool_state) option" where
  "call_tools E T ctx calls n evs st =
    (if calls = [] then Some (evs, [], st)
     else map_option (\<lambda>(evs', out, st', finished).
       (evs', if finished then out else out @ map aborted_result (drop (length out) calls), st'))
       (run_calls E T ctx (max n 1) calls [] [] evs st))"

section \<open>Every call is answered\<close>

text \<open>A message that is what some execution of the call answered.\<close>

definition real_result :: "tool_env \<Rightarrow> 'u tools \<Rightarrow> agent_context \<Rightarrow> tool_call \<Rightarrow> message \<Rightarrow> bool" where
  "real_result E T ctx c m \<longleftrightarrow> (\<exists>st. m = snd (execute_tool_call E T ctx c st))"

lemma real_result_answers: "real_result E T ctx c m \<Longrightarrow> answers c m"
  by (auto simp: real_result_def)

lemma aborted_answers [simp]: "answers c (aborted_result c)"
  by (simp add: aborted_result_def)

abbreviation slot_real :: "tool_env \<Rightarrow> 'u tools \<Rightarrow> agent_context \<Rightarrow> message option \<Rightarrow> tool_call \<Rightarrow> bool" where
  "slot_real E T ctx s c \<equiv> (\<forall>m. s = Some m \<longrightarrow> real_result E T ctx c m)"

lemma batch_event_slots:
  assumes "list_all2 (slot_real E T ctx) slots batch"
  shows "list_all2 (slot_real E T ctx) (fst (batch_event E T ctx n batch e slots st)) batch"
proof (cases e)
  case (Complete j)
  obtain st' m where x: "execute_tool_call E T ctx (batch ! j) st = (st', m)" by fastforce
  then have "real_result E T ctx (batch ! j) m" by (auto simp: real_result_def intro!: exI [of _ st])
  then have "list_all2 (slot_real E T ctx) (slots[j := Some m]) (batch[j := batch ! j])"
    by (intro list_all2_update_cong [OF assms]) simp
  then show ?thesis using assms by (simp add: Complete batch_event_def x)
qed (simp add: batch_event_def assms)

lemma batch_loop_slots:
  "list_all2 (slot_real E T ctx) slots batch \<Longrightarrow>
    batch_loop E T ctx n batch evs slots st = Some (evs', slots', st', ab) \<Longrightarrow>
    list_all2 (slot_real E T ctx) slots' batch \<and> (\<not> ab \<longrightarrow> None \<notin> set slots')"
proof (induction evs arbitrary: slots st)
  case Nil
  then show ?case by (subst (asm) batch_loop.simps) (auto split: if_splits)
next
  case (Cons e evs)
  show ?case
  proof (cases "flow_cancelled ctx st \<or> None \<notin> set slots")
    case True
    then show ?thesis using Cons.prems by (subst (asm) batch_loop.simps) (auto split: if_splits)
  next
    case False
    obtain s t where b: "batch_event E T ctx n batch e slots st = (s, t)" by fastforce
    have "batch_loop E T ctx n batch evs s t = Some (evs', slots', st', ab)"
      using Cons.prems(2) False by (subst (asm) batch_loop.simps) (simp add: b)
    moreover have "list_all2 (slot_real E T ctx) s batch"
      using batch_event_slots [OF Cons.prems(1), of n e st] by (simp add: b)
    ultimately show ?thesis by (intro Cons.IH)
  qed
qed

lemma salvage_slots:
  "list_all2 (slot_real E T ctx) slots batch \<Longrightarrow>
    list_all2 (slot_real E T ctx) (fst (snd (salvage E T ctx n batch evs slots st))) batch"
proof (induction E T ctx n batch evs slots st rule: salvage.induct)
  case (1 E T ctx n batch j evs slots st)
  obtain s t where b: "batch_event E T ctx n batch (Complete j) slots st = (s, t)" by fastforce
  show ?case
    using "1.IH" [OF b [symmetric] refl] batch_event_slots [OF "1.prems", of n "Complete j" st] by (simp add: b)
qed simp_all

text \<open>\<open>results c ms\<close> up to the length of \<open>ms\<close>: each is a real result of its call, or the aborted
  one, the latter only when the batch was aborted.\<close>

definition result_of :: "tool_env \<Rightarrow> 'u tools \<Rightarrow> agent_context \<Rightarrow> bool \<Rightarrow> message \<Rightarrow> tool_call \<Rightarrow> bool" where
  "result_of E T ctx ab m c \<longleftrightarrow> real_result E T ctx c m \<or> ab \<and> m = aborted_result c"

lemma fill_slots_results:
  assumes "list_all2 (slot_real E T ctx) slots batch" "\<not> ab \<longrightarrow> None \<notin> set slots"
  shows "list_all2 (result_of E T ctx ab) (fill_slots slots batch) batch"
  using assms
  by (auto simp: fill_slots_def list_all2_conv_all_nth result_of_def in_set_conv_nth split: option.split)

lemma flush_results:
  assumes "flush_parallel_batch E T ctx n batch out evs st = Some (evs', out', st', fin)"
  shows "\<exists>ms. out' = out @ ms \<and> list_all2 (result_of E T ctx (\<not> fin)) ms batch"
proof (cases "batch = []")
  case True
  then show ?thesis using assms by (auto simp: flush_parallel_batch_def)
next
  case False
  have init: "list_all2 (slot_real E T ctx) (replicate (length batch) None) batch"
    by (simp add: list_all2_conv_all_nth)
  obtain evs1 slots st1 ab where l: "batch_loop E T ctx n batch evs (replicate (length batch) None) st =
      Some (evs1, slots, st1, ab)"
    using assms False by (auto simp: flush_parallel_batch_def split: option.splits)
  note s = batch_loop_slots [OF init l]
  show ?thesis
  proof (cases ab)
    case True
    have "list_all2 (slot_real E T ctx) (fst (snd (salvage E T ctx n batch evs1 slots st1))) batch"
      using salvage_slots s by blast
    from fill_slots_results [OF this, of True] show ?thesis
      using assms False l True by (auto simp: flush_parallel_batch_def split: prod.splits)
  next
    case no: False
    from s no have "list_all2 (slot_real E T ctx) slots batch" "\<not> False \<longrightarrow> None \<notin> set slots" by auto
    from fill_slots_results [OF this] show ?thesis
      using assms False l no by (auto simp: flush_parallel_batch_def)
  qed
qed

lemma sequential_result:
  "sequential_call E T ctx c evs st = Some (evs', st', Some m) \<Longrightarrow> real_result E T ctx c m"
proof (induction evs arbitrary: st)
  case Nil
  then show ?case by (subst (asm) sequential_call.simps) (auto split: if_splits)
next
  case (Cons e evs)
  show ?case
  proof (cases e)
    case (Complete j)
    then show ?thesis using Cons.prems
      by (subst (asm) sequential_call.simps) (auto simp: real_result_def split: if_splits prod.splits intro!: exI [of _ st])
  next
    case (Progress f)
    then show ?thesis using Cons.prems Cons.IH [of "f st"]
      by (subst (asm) sequential_call.simps) (auto split: if_splits)
  qed
qed

lemma result_of_weaken: "result_of E T ctx ab m c \<Longrightarrow> result_of E T ctx True m c"
  by (auto simp: result_of_def)

lemma run_calls_results:
  "run_calls E T ctx n cs batch out evs st = Some (evs', out', st', fin) \<Longrightarrow>
    \<exists>ms answered rest. out' = out @ ms \<and> batch @ cs = answered @ rest \<and> (fin \<longrightarrow> rest = []) \<and>
      list_all2 (result_of E T ctx (\<not> fin)) ms answered"
proof (induction E T ctx n cs batch out evs st rule: run_calls.induct)
  case (1 E T ctx n batch out evs st)
  then have "flush_parallel_batch E T ctx n batch out evs st = Some (evs', out', st', fin)" by simp
  from flush_results [OF this] obtain ms where "out' = out @ ms" "list_all2 (result_of E T ctx (\<not> fin)) ms batch"
    by blast
  then show ?case by (intro exI [of _ ms] exI [of _ batch] exI [of _ "[]"]) simp
next
  case (2 E T ctx n c cs batch out evs st)
  show ?case
  proof (cases "mode_of T c st = Parallel")
    case True
    then show ?thesis using 2 by simp
  next
    case False
    obtain evs1 out1 st1 fin1 where f: "flush_parallel_batch E T ctx n batch out evs st = Some (evs1, out1, st1, fin1)"
      using "2.prems" False by (auto split: option.splits)
    obtain ms where ms: "out1 = out @ ms" "list_all2 (result_of E T ctx (\<not> fin1)) ms batch"
      using flush_results [OF f] by blast
    show ?thesis
    proof (cases fin1)
      case no: False
      then show ?thesis using "2.prems" False f ms by (intro exI [of _ ms] exI [of _ batch] exI [of _ "c # cs"]) simp
    next
      case yes: True
      obtain evs2 st2 r where s: "sequential_call E T ctx c evs1 st1 = Some (evs2, st2, r)"
        using "2.prems" False f yes by (auto split: option.splits)
      show ?thesis
      proof (cases r)
        case None
        have "list_all2 (result_of E T ctx True) ms batch"
          using ms(2) by (rule list_all2_mono) (rule result_of_weaken)
        then show ?thesis using "2.prems" False f yes s None ms(1)
          by (intro exI [of _ ms] exI [of _ batch] exI [of _ "c # cs"]) simp
      next
        case (Some m)
        have r: "run_calls E T ctx n cs [] (out1 @ [m]) evs2 st2 = Some (evs', out', st', fin)"
          using "2.prems" False f yes s Some by simp
        obtain ns answered rest where ns: "out' = (out1 @ [m]) @ ns" "cs = answered @ rest" "fin \<longrightarrow> rest = []"
            "list_all2 (result_of E T ctx (\<not> fin)) ns answered"
          using "2.IH" (2) [OF False f refl refl refl _ s refl refl Some r] yes by auto
        have "result_of E T ctx (\<not> fin) m c"
          using sequential_result [OF s [unfolded Some]] by (simp add: result_of_def)
        moreover have "list_all2 (result_of E T ctx (\<not> fin)) ms batch"
          using ms(2) yes by (auto simp: result_of_def elim: list_all2_mono)
        ultimately have "list_all2 (result_of E T ctx (\<not> fin)) (ms @ m # ns) (batch @ c # answered)"
          using ns(4) by (simp add: list_all2_appendI)
        then show ?thesis using ns ms(1)
          by (intro exI [of _ "ms @ m # ns"] exI [of _ "batch @ c # answered"] exI [of _ rest]) simp
      qed
    qed
  qed
qed

text \<open>Without a token nothing is aborted.\<close>

lemma no_token: "ctx_cancel ctx = None \<Longrightarrow> \<not> flow_cancelled ctx st"
  by (simp add: flow_cancelled_def ctx_is_cancelled_def)

lemma batch_loop_aborted:
  "batch_loop E T ctx n batch evs slots st = Some (evs', slots', st', True) \<Longrightarrow> ctx_cancel ctx \<noteq> None"
proof (induction evs arbitrary: slots st)
  case Nil
  then show ?case using no_token [of ctx st] by (subst (asm) batch_loop.simps) (auto split: if_splits)
next
  case (Cons e evs)
  show ?case
  proof (cases "flow_cancelled ctx st \<or> None \<notin> set slots")
    case True
    then show ?thesis using Cons.prems no_token [of ctx st]
      by (subst (asm) batch_loop.simps) (auto split: if_splits)
  next
    case False
    obtain s t where b: "batch_event E T ctx n batch e slots st = (s, t)" by fastforce
    have "batch_loop E T ctx n batch evs s t = Some (evs', slots', st', True)"
      using Cons.prems False by (subst (asm) batch_loop.simps) (simp add: b)
    then show ?thesis by (rule Cons.IH)
  qed
qed

lemma flush_aborted:
  "flush_parallel_batch E T ctx n batch out evs st = Some (evs', out', st', False) \<Longrightarrow> ctx_cancel ctx \<noteq> None"
  by (auto simp: flush_parallel_batch_def dest: batch_loop_aborted split: if_splits option.splits prod.splits)

lemma sequential_aborted:
  "sequential_call E T ctx c evs st = Some (evs', st', None) \<Longrightarrow> ctx_cancel ctx \<noteq> None"
proof (induction evs arbitrary: st)
  case Nil
  then show ?case using no_token [of ctx st] by (subst (asm) sequential_call.simps) (auto split: if_splits)
next
  case (Cons e evs)
  then show ?case using no_token [of ctx st]
    by (subst (asm) sequential_call.simps) (auto split: if_splits tool_event.splits prod.splits)
qed

lemma run_calls_aborted:
  "run_calls E T ctx n cs batch out evs st = Some (evs', out', st', False) \<Longrightarrow> ctx_cancel ctx \<noteq> None"
proof (induction E T ctx n cs batch out evs st rule: run_calls.induct)
  case (1 E T ctx n batch out evs st)
  then show ?case using flush_aborted [of E T ctx n batch out evs st] by simp
next
  case (2 E T ctx n c cs batch out evs st)
  show ?case
  proof (cases "mode_of T c st = Parallel")
    case True
    then show ?thesis using 2 by simp
  next
    case False
    obtain evs1 out1 st1 fin1 where f: "flush_parallel_batch E T ctx n batch out evs st = Some (evs1, out1, st1, fin1)"
      using "2.prems" False by (auto split: option.splits)
    show ?thesis
    proof (cases fin1)
      case yes: True
      obtain evs2 st2 r where s: "sequential_call E T ctx c evs1 st1 = Some (evs2, st2, r)"
        using "2.prems" False f yes by (auto split: option.splits)
      show ?thesis
      proof (cases r)
        case None
        then show ?thesis using s sequential_aborted by blast
      next
        case (Some m)
        then show ?thesis
          using "2.IH" (2) [OF False f refl refl refl _ s refl refl Some] "2.prems" False f yes s by simp
      qed
    next
      case no: False
      then show ?thesis using f flush_aborted [of E T ctx n batch out evs st evs1 out1 st1] by simp
    qed
  qed
qed

lemma call_tools_results:
  assumes "call_tools E T ctx calls n evs st = Some (evs', ms, st')"
  shows "list_all2 (result_of E T ctx (ctx_cancel ctx \<noteq> None)) ms calls"
proof (cases "calls = []")
  case True
  then show ?thesis using assms by (simp add: call_tools_def)
next
  case False
  obtain out fin where r: "run_calls E T ctx (max n 1) calls [] [] evs st = Some (evs', out, st', fin)"
      and ms: "ms = (if fin then out else out @ map aborted_result (drop (length out) calls))"
    using assms False by (auto simp: call_tools_def)
  obtain answered rest where d: "calls = answered @ rest" "fin \<longrightarrow> rest = []"
      "list_all2 (result_of E T ctx (\<not> fin)) out answered"
    using run_calls_results [OF r] by auto
  have len: "length out = length answered" using d(3) by (rule list_all2_lengthD)
  have rest: "list_all2 (result_of E T ctx True) (map aborted_result rest) rest"
    by (induction rest) (auto simp: result_of_def)
  show ?thesis
  proof (cases fin)
    case True
    have "list_all2 (result_of E T ctx (ctx_cancel ctx \<noteq> None)) out answered"
      using d(3) by (rule list_all2_mono) (use True in \<open>auto simp: result_of_def\<close>)
    then show ?thesis using d ms True by simp
  next
    case False
    have tok: "ctx_cancel ctx \<noteq> None" using r False run_calls_aborted [of E T ctx "max n 1"] by auto
    then show ?thesis using d ms len False rest by (simp add: list_all2_appendI)
  qed
qed

section \<open>A wait can always end\<close>

lemma in_flight_hd:
  assumes "1 \<le> n" "None \<in> set slots"
  obtains j where "j \<in> set (in_flight n slots)" "j < length slots" "slots ! j = None"
proof -
  obtain i where i: "i < length slots" "slots ! i = None" using assms(2) by (auto simp: in_set_conv_nth)
  let ?js = "filter (\<lambda>j. slots ! j = None) [0..<length slots]"
  have "?js \<noteq> []" using i by (auto simp: filter_empty_conv)
  then obtain j js where js: "?js = j # js" by (cases ?js) auto
  then have "j \<in> set ?js" by simp
  moreover have "j \<in> set (in_flight n slots)" using assms(1) by (cases n) (simp_all add: in_flight_def js)
  ultimately show ?thesis using that by auto
qed

lemma count_filled:
  assumes "j < length slots" "slots ! j = None"
  shows "length (filter (\<lambda>s. s = None) (slots[j := Some m])) < length (filter (\<lambda>s. s = None) slots)"
proof -
  have s: "slots = take j slots @ None # drop (Suc j) slots" using assms by (metis id_take_nth_drop)
  have "slots[j := Some m] = take j slots @ Some m # drop (Suc j) slots" using assms(1) by (rule upd_conv_take_nth_drop)
  then show ?thesis by (subst (2) s) simp
qed

lemma batch_loop_append:
  "batch_loop E T ctx n batch evs slots st = Some (r, s, t, ab) \<Longrightarrow>
    batch_loop E T ctx n batch (evs @ ext) slots st = Some (r @ ext, s, t, ab)"
proof (induction evs arbitrary: slots st)
  case Nil
  then show ?case by (subst batch_loop.simps, subst (asm) batch_loop.simps) (auto split: if_splits)
next
  case (Cons e evs)
  then show ?case by (subst batch_loop.simps, subst (asm) batch_loop.simps) (auto split: if_splits prod.splits)
qed

lemma batch_loop_ends:
  assumes "1 \<le> n"
  shows "\<exists>ext. batch_loop E T ctx n batch ext slots st \<noteq> None"
proof (induction "length (filter (\<lambda>s. s = None) slots)" arbitrary: slots st rule: less_induct)
  case less
  show ?case
  proof (cases "flow_cancelled ctx st \<or> None \<notin> set slots")
    case True
    then have "batch_loop E T ctx n batch [] slots st \<noteq> None" by (subst batch_loop.simps) auto
    then show ?thesis by blast
  next
    case False
    then obtain j where j: "j \<in> set (in_flight n slots)" "j < length slots" "slots ! j = None"
      using in_flight_hd [OF assms] by blast
    obtain st' m where x: "execute_tool_call E T ctx (batch ! j) st = (st', m)" by fastforce
    obtain ext where "batch_loop E T ctx n batch ext (slots[j := Some m]) st' \<noteq> None"
      using less [OF count_filled [OF j(2,3)]] by blast
    then have "batch_loop E T ctx n batch (Complete j # ext) slots st \<noteq> None"
      using False j(1) by (subst batch_loop.simps) (simp add: batch_event_def x)
    then show ?thesis by blast
  qed
qed

lemma batch_loop_extends:
  assumes "1 \<le> n"
  shows "\<exists>ext. batch_loop E T ctx n batch (evs @ ext) slots st \<noteq> None"
proof (induction evs arbitrary: slots st)
  case Nil
  then show ?case using batch_loop_ends [OF assms] by simp
next
  case (Cons e evs)
  obtain s t where b: "batch_event E T ctx n batch e slots st = (s, t)" by fastforce
  obtain ext where "batch_loop E T ctx n batch (evs @ ext) s t \<noteq> None" using Cons.IH by blast
  then have "batch_loop E T ctx n batch ((e # evs) @ ext) slots st \<noteq> None"
    by (subst batch_loop.simps) (simp add: b del: not_None_eq)
  then show ?case by blast
qed

lemma flush_extends:
  assumes "1 \<le> n"
  shows "\<exists>ext r out' t fin. flush_parallel_batch E T ctx n batch out (evs @ ext) st = Some (r, out', t, fin) \<and>
    (fin \<longrightarrow> (\<forall>m. flush_parallel_batch E T ctx n batch out (evs @ ext @ m) st = Some (r @ m, out', t, True)))"
proof (cases "batch = []")
  case True
  then show ?thesis
    by (intro exI [of _ "[]"] exI [of _ evs] exI [of _ out] exI [of _ st] exI [of _ True])
      (simp add: flush_parallel_batch_def)
next
  case False
  let ?init = "replicate (length batch) None"
  obtain ext where "batch_loop E T ctx n batch (evs @ ext) ?init st \<noteq> None"
    using batch_loop_extends [OF assms] by blast
  then obtain r s t ab where l: "batch_loop E T ctx n batch (evs @ ext) ?init st = Some (r, s, t, ab)" by auto
  have m: "batch_loop E T ctx n batch (evs @ ext @ m) ?init st = Some (r @ m, s, t, ab)" for m
    using batch_loop_append [OF l, of m] by simp
  obtain r' s' t' where v: "salvage E T ctx n batch r s t = (r', s', t')" by (metis prod_cases3)
  show ?thesis
  proof (cases ab)
    case True
    have "flush_parallel_batch E T ctx n batch out (evs @ ext) st = Some (r', out @ fill_slots s' batch, t', False)"
      using False True l v by (simp add: flush_parallel_batch_def)
    then show ?thesis by blast
  next
    case no: False
    have "flush_parallel_batch E T ctx n batch out (evs @ ext @ m) st = Some (r @ m, out @ fill_slots s batch, t, True)" for m
      using False no m [of m] by (simp add: flush_parallel_batch_def)
    from this [of "[]"] this show ?thesis by fastforce
  qed
qed

lemma sequential_append:
  "sequential_call E T ctx c evs st = Some (r, t, x) \<Longrightarrow>
    sequential_call E T ctx c (evs @ ext) st = Some (r @ ext, t, x)"
proof (induction evs arbitrary: st)
  case Nil
  then show ?case by (subst sequential_call.simps, subst (asm) sequential_call.simps) (auto split: if_splits)
next
  case (Cons e evs)
  then show ?case
    by (subst sequential_call.simps, subst (asm) sequential_call.simps)
      (auto split: if_splits tool_event.splits prod.splits)
qed

lemma sequential_extends:
  "\<exists>ext r t x. sequential_call E T ctx c (evs @ ext) st = Some (r, t, x)"
proof (induction evs arbitrary: st)
  case Nil
  have "\<exists>r t x. sequential_call E T ctx c [Complete 0] st = Some (r, t, x)"
    by (subst sequential_call.simps) (auto split: prod.splits)
  then show ?case by (metis append_Nil)
next
  case (Cons e evs)
  show ?case
  proof (cases e)
    case (Complete j)
    have "\<exists>r t x. sequential_call E T ctx c (e # evs) st = Some (r, t, x)"
      by (subst sequential_call.simps) (auto simp: Complete split: prod.splits)
    then show ?thesis by (metis append_Nil2)
  next
    case (Progress f)
    obtain ext r t x where "sequential_call E T ctx c (evs @ ext) (f st) = Some (r, t, x)" using Cons.IH by blast
    then have "\<exists>r t x. sequential_call E T ctx c ((e # evs) @ ext) st = Some (r, t, x)"
      by (subst sequential_call.simps) (auto simp: Progress)
    then show ?thesis by blast
  qed
qed

lemma run_calls_extends:
  assumes "1 \<le> n"
  shows "\<exists>ext. run_calls E T ctx n cs batch out (evs @ ext) st \<noteq> None"
proof (induction cs arbitrary: batch out evs st)
  case Nil
  obtain ext r out' t fin where "flush_parallel_batch E T ctx n batch out (evs @ ext) st = Some (r, out', t, fin)"
    using flush_extends [OF assms] by blast
  then have "run_calls E T ctx n [] batch out (evs @ ext) st \<noteq> None" by simp
  then show ?case by blast
next
  case (Cons c cs)
  show ?case
  proof (cases "mode_of T c st = Parallel")
    case True
    then show ?thesis using Cons.IH by simp
  next
    case seq: False
    obtain m1 r1 out1 st1 fin1 where f: "flush_parallel_batch E T ctx n batch out (evs @ m1) st = Some (r1, out1, st1, fin1)"
        "fin1 \<longrightarrow> (\<forall>m. flush_parallel_batch E T ctx n batch out (evs @ m1 @ m) st = Some (r1 @ m, out1, st1, True))"
      using flush_extends [OF assms] by blast
    show ?thesis
    proof (cases fin1)
      case False
      then show ?thesis using f(1) seq by (intro exI [of _ m1]) simp
    next
      case True
      with f have fm: "flush_parallel_batch E T ctx n batch out (evs @ m1 @ m) st = Some (r1 @ m, out1, st1, True)" for m
        by blast
      obtain m2 r2 st2 x where s: "sequential_call E T ctx c (r1 @ m2) st1 = Some (r2, st2, x)"
        using sequential_extends by blast
      show ?thesis
      proof (cases x)
        case None
        then show ?thesis using fm [of m2] s seq by (intro exI [of _ "m1 @ m2"]) simp
      next
        case (Some m)
        obtain m3 where m3: "run_calls E T ctx n cs [] (out1 @ [m]) (r2 @ m3) st2 \<noteq> None" using Cons.IH by blast
        have "sequential_call E T ctx c (r1 @ m2 @ m3) st1 = Some (r2 @ m3, st2, Some m)"
          using sequential_append [OF s, of m3] Some by simp
        then show ?thesis using fm [of "m2 @ m3"] m3 seq by (intro exI [of _ "m1 @ m2 @ m3"]) simp
      qed
    qed
  qed
qed

lemma call_tools_extends: "\<exists>ext. call_tools E T ctx calls n (evs @ ext) st \<noteq> None"
  using run_calls_extends [of "max n 1" E T ctx calls "[]" "[]" evs st]
  by (cases "calls = []") (simp_all add: call_tools_def)

section \<open>Sequential tools\<close>

fun in_order :: "tool_env \<Rightarrow> 'u tools \<Rightarrow> agent_context \<Rightarrow> tool_call list \<Rightarrow> 'u tool_state \<Rightarrow>
    message list \<times> 'u tool_state" where
  "in_order E T ctx [] st = ([], st)"
| "in_order E T ctx (c # cs) st =
    (let (st1, m) = execute_tool_call E T ctx c st; (ms, st2) = in_order E T ctx cs st1 in (m # ms, st2))"

lemma run_calls_sequential:
  assumes "\<And>h. ti_mode (tl_info (T h)) = Sequential" "ctx_cancel ctx = None"
  shows "run_calls E T ctx n cs [] out (replicate (length cs) (Complete 0)) st =
    (let (ms, st') = in_order E T ctx cs st in Some ([], out @ ms, st', True))"
proof (induction cs arbitrary: out st)
  case Nil
  then show ?case by (simp add: flush_parallel_batch_def)
next
  case (Cons c cs)
  have m: "mode_of T c st = Sequential" by (simp add: mode_of_def assms(1) split: option.split)
  obtain st1 x where x: "execute_tool_call E T ctx c st = (st1, x)" by fastforce
  have s: "sequential_call E T ctx c (Complete 0 # evs) st = Some (evs, st1, Some x)" for evs
    using no_token [OF assms(2)] by (subst sequential_call.simps) (simp add: x)
  show ?case
    by (simp add: m flush_parallel_batch_def s Cons.IH x split: prod.split)
qed

lemma call_tools_sequential:
  assumes "\<And>h. ti_mode (tl_info (T h)) = Sequential" "ctx_cancel ctx = None"
  shows "call_tools E T ctx calls n (replicate (length calls) (Complete 0)) st =
    (let (ms, st') = in_order E T ctx calls st in Some ([], ms, st'))"
  by (cases "in_order E T ctx calls st") (auto simp: call_tools_def run_calls_sequential [OF assms])

end
