(* ===== verification/ToolAgents.thy ===== *)
theory ToolAgents
  imports CallTools
begin

text \<open>
  tool.rs, the agents around the registry: \<open>ListToolsAgent\<close>, \<open>CallToolAgent\<close>,
  \<open>CallToolMessageAgent\<close> (runs the tool calls of a message once per flow), \<open>LoopControlAgent\<close>
  (stops a tool-call cycle after a number of turns) and \<open>PresetToolAgent\<close> (a workflow as a tool).

  The private state of an agent is passed explicitly; \<open>a\<close> is the agent's data, read for its id and
  configuration. An operation that awaits takes the events of the theory CallTools. The maps by
  flow that two of the agents keep are bounded: \<open>track_key\<close> admits a key and drops the oldest one
  when there are 1024.
\<close>

definition MAX_TRACKED_CTX_KEYS :: nat where "MAX_TRACKED_CTX_KEYS = 1024"
definition DEFAULT_TIMEOUT_SECS :: i64 where "DEFAULT_TIMEOUT_SECS = 60"
definition DEFAULT_MAX_ITERATIONS :: i64 where "DEFAULT_MAX_ITERATIONS = 25"
definition DEFAULT_MAX_CONCURRENCY :: i64 where "DEFAULT_MAX_CONCURRENCY = 8"

definition tool_output :: "'u agent \<Rightarrow> agent_context \<Rightarrow> string \<Rightarrow> agent_value \<Rightarrow> 'u tool_state \<Rightarrow>
    'u tool_state \<times> unit result" where
  "tool_output a ctx port v st =
    (let (w, r) = agent_output a ctx port v (ts_world st) in (st\<lparr>ts_world := w\<rparr>, r))"

text \<open>A loop of outputs, each with \<open>?\<close>.\<close>

fun output_all :: "'u agent \<Rightarrow> agent_context \<Rightarrow> string \<Rightarrow> agent_value list \<Rightarrow> 'u tool_state \<Rightarrow>
    'u tool_state \<times> unit result" where
  "output_all a ctx port [] st = (st, Inr ())"
| "output_all a ctx port (v # vs) st =
    (case tool_output a ctx port v st of
      (st', Inl e) \<Rightarrow> (st', Inl e)
    | (st', Inr _) \<Rightarrow> output_all a ctx port vs st')"

section \<open>Listing and calling by name\<close>

definition patterns_error :: "string \<Rightarrow> agent_error" where
  "patterns_error e = InvalidValue (''Invalid regex patterns: '' @ e)"

definition list_tools_process :: "tool_env \<Rightarrow> 'u agent \<Rightarrow> agent_context \<Rightarrow> agent_value \<Rightarrow>
    'u tool_state \<Rightarrow> 'u tool_state \<times> unit result" where
  "list_tools_process E a ctx v st =
    (case as_str v of
      None \<Rightarrow> (st, Inl (InvalidValue ''patterns input must be a string''))
    | Some patterns \<Rightarrow>
        (case (if patterns \<noteq> [] then map_err patterns_error (list_tool_infos_patterns E patterns st)
               else Inr (list_tool_infos st)) of
          Inl e \<Rightarrow> (st, Inl e)
        | Inr infos \<Rightarrow>
            tool_output a ctx ''tools'' (Array (map (tool_info_to_value (tv_host E)) infos)) st))"

definition call_tool_process :: "'u tools \<Rightarrow> 'u agent \<Rightarrow> agent_context \<Rightarrow> agent_value \<Rightarrow>
    'u tool_state \<Rightarrow> 'u tool_state \<times> unit result" where
  "call_tool_process T a ctx v st =
    (case as_object v of
      None \<Rightarrow> (st, Inl (InvalidValue ''tool_call input must be an object''))
    | Some m \<Rightarrow>
        (case Option.bind (map_of m ''name'') as_str of
          None \<Rightarrow> (st, Inl (InvalidValue ''tool_call.name must be a string''))
        | Some name \<Rightarrow>
            (case call_tool T ctx name (unwrap_or (map_of m ''parameters'') Unit) st of
              (st', Inl e) \<Rightarrow> (st', Inl e)
            | (st', Inr resp) \<Rightarrow> tool_output a ctx ''value'' resp st')))"

section \<open>Bounded maps by flow\<close>

record 'v tracked =
  tr_map :: "(string, 'v) btree_map"
  tr_order :: "string list"

definition tracked_new :: "'v tracked" where
  "tracked_new = \<lparr>tr_map = [], tr_order = []\<rparr>"

definition track_key :: "string \<Rightarrow> 'v tracked \<Rightarrow> 'v tracked" where
  "track_key k t =
    (if has_key (tr_map t) k then t
     else
       (let t1 = (if MAX_TRACKED_CTX_KEYS \<le> length (tr_order t)
                  then (case tr_order t of
                      [] \<Rightarrow> t
                    | oldest # rest \<Rightarrow> \<lparr>tr_map = bt_remove oldest (tr_map t), tr_order = rest\<rparr>)
                  else t)
        in t1\<lparr>tr_order := tr_order t1 @ [k]\<rparr>))"

section \<open>Calling the tools of a message\<close>

type_synonym executed = "string list tracked"

definition is_executed :: "string \<Rightarrow> string \<Rightarrow> executed \<Rightarrow> bool" where
  "is_executed k i s = (case map_of (tr_map s) k of None \<Rightarrow> False | Some ids \<Rightarrow> i \<in> set ids)"

definition mark_executed :: "string \<Rightarrow> string \<Rightarrow> executed \<Rightarrow> executed" where
  "mark_executed k i s =
    (let t = track_key k s
     in t\<lparr>tr_map := bt_insert k (List.insert i (unwrap_or (map_of (tr_map t) k) [])) (tr_map t)\<rparr>)"

definition new_calls :: "string \<Rightarrow> executed \<Rightarrow> tool_call list \<Rightarrow> tool_call list" where
  "new_calls k s calls =
    filter (\<lambda>c. case fn_id (tc_function c) of Some i \<Rightarrow> \<not> is_executed k i s | None \<Rightarrow> True) calls"

definition mark_call :: "string \<Rightarrow> tool_call \<Rightarrow> executed \<Rightarrow> executed" where
  "mark_call k c s = (case fn_id (tc_function c) of Some i \<Rightarrow> mark_executed k i s | None \<Rightarrow> s)"

definition allowed_calls :: "tool_env \<Rightarrow> string \<Rightarrow> 'u tool_state \<Rightarrow> tool_call list \<Rightarrow>
    tool_call list result" where
  "allowed_calls E patterns st calls =
    (if patterns = [] then Inr calls
     else map_ok (\<lambda>infos. filter (\<lambda>c. fn_name (tc_function c) \<in> ti_name ` set infos) calls)
       (map_err patterns_error (list_tool_infos_patterns E patterns st)))"

definition truncated_result :: "tool_call \<Rightarrow> message" where
  "truncated_result c = error_tool_result c
    (''Tool call '' @ [CHR 0x22] @ fn_name (tc_function c) @ [CHR 0x22] @
     '' was not executed: output hit the token limit; arguments may be truncated. Re-issue with complete arguments.'')"

definition concurrency_of :: "agent_configs \<Rightarrow> nat" where
  "concurrency_of c =
    nat (max 1 (sint (configs_get_integer_or c ''max_concurrency'' DEFAULT_MAX_CONCURRENCY)))"

text \<open>The part after the calls are chosen and marked.\<close>

definition run_message_calls :: "tool_env \<Rightarrow> 'u tools \<Rightarrow> 'u agent \<Rightarrow> agent_configs \<Rightarrow> agent_context \<Rightarrow>
    bool \<Rightarrow> tool_call list \<Rightarrow> 'u tool_event list \<Rightarrow> 'u tool_state \<Rightarrow> ('u tool_state \<times> unit result) option" where
  "run_message_calls E T a c ctx truncated calls evs st =
    (if truncated
     then Some (output_all a ctx ''message'' (map (\<lambda>x. Message (truncated_result x)) calls) st)
     else (case call_tools E T ctx calls (concurrency_of c) evs st of
         None \<Rightarrow> None
       | Some (evs', ms, st') \<Rightarrow> Some (output_all a ctx ''message'' (map Message ms) st')))"

definition call_message_process :: "tool_env \<Rightarrow> 'u tools \<Rightarrow> 'u agent \<Rightarrow> agent_context \<Rightarrow> agent_value \<Rightarrow>
    'u tool_event list \<Rightarrow> executed \<Rightarrow> 'u tool_state \<Rightarrow> (executed \<times> 'u tool_state \<times> unit result) option" where
  "call_message_process E T a ctx v evs s st =
    (case as_message v of
      None \<Rightarrow> Some (s, st, Inr ())
    | Some m \<Rightarrow>
        (case (if msg_streaming m then None else msg_tool_calls m) of
          None \<Rightarrow> Some (s, st, Inr ())
        | Some calls \<Rightarrow>
            (case and_then (agent_configs_of a) (\<lambda>c.
                and_then (allowed_calls E (configs_get_string_or_default c ''tools'') st calls) (\<lambda>allowed.
                and_then (ctx_key ctx) (\<lambda>k. Inr (c, allowed, k)))) of
              Inl e \<Rightarrow> Some (s, st, Inl e)
            | Inr (c, allowed, k) \<Rightarrow>
                (let fresh = new_calls k s allowed; s' = fold (mark_call k) fresh s
                 in map_option (\<lambda>(st', r). (s', st', r))
                   (run_message_calls E T a c ctx (msg_stop_reason m = Some ''length'') fresh evs st)))))"

definition call_message_stop :: "executed \<Rightarrow> executed" where
  "call_message_stop s = tracked_new"

section \<open>Loop control\<close>

type_synonym loop_counts = "(u32 \<times> string option) tracked"

definition record_count :: "string \<Rightarrow> u32 \<Rightarrow> string option \<Rightarrow> loop_counts \<Rightarrow> loop_counts" where
  "record_count k n i s =
    (let t = track_key k s in t\<lparr>tr_map := bt_insert k (n, i) (tr_map t)\<rparr>)"

definition saturating_succ :: "u32 \<Rightarrow> u32" where
  "saturating_succ n = (if n + 1 = 0 then n else n + 1)"

definition countable :: "agent_value \<Rightarrow> bool" where
  "countable v =
    (case as_message v of
      None \<Rightarrow> False
    | Some m \<Rightarrow> msg_role m = ''assistant'' \<and> \<not> msg_streaming m \<and>
        (case msg_tool_calls m of None \<Rightarrow> False | Some cs \<Rightarrow> cs \<noteq> []))"

definition over_limit :: "i64 \<Rightarrow> u32 \<Rightarrow> bool" where
  "over_limit limit n \<longleftrightarrow> 0 < sint limit \<and> sint limit < int (unat n)"

definition limit_notice :: "i64 \<Rightarrow> message" where
  "limit_notice limit = assistant_message
    (''Loop limit reached: the tool-call cycle exceeded the configured max_iterations of '' @
     i64_to_string limit @ '' and has been stopped.'')"

text \<open>What a countable message does to the entry of its flow and which output it causes.\<close>

definition loop_turn :: "i64 \<Rightarrow> agent_value \<Rightarrow> string option \<Rightarrow> u32 \<times> string option \<Rightarrow>
    (u32 \<times> string option) option \<times> (string \<times> agent_value) option" where
  "loop_turn limit v i entry =
    (case entry of (count, prev) \<Rightarrow>
      if i \<noteq> None \<and> prev = i
      then (None, if over_limit limit count then None else Some (''message'', v))
      else
        (let n = saturating_succ count
         in (Some (n, i),
             if over_limit limit n then Some (''limit_exceeded'', Message (limit_notice limit))
             else Some (''message'', v))))"

definition loop_decide :: "'u agent \<Rightarrow> agent_context \<Rightarrow> agent_value \<Rightarrow> loop_counts \<Rightarrow>
    loop_counts \<times> (string \<times> agent_value) option result" where
  "loop_decide a ctx v s =
    (if \<not> countable v then (s, Inr (Some (''message'', v)))
     else (case and_then (agent_configs_of a) (\<lambda>c. and_then (ctx_key ctx) (\<lambda>k. Inr (c, k))) of
       Inl e \<Rightarrow> (s, Inl e)
     | Inr (c, k) \<Rightarrow>
         (let limit = configs_get_integer_or c ''max_iterations'' DEFAULT_MAX_ITERATIONS;
              i = Option.bind (as_message v) msg_id;
              (entry, out) = loop_turn limit v i (unwrap_or (map_of (tr_map s) k) (0, None))
          in (case entry of None \<Rightarrow> s | Some (n, l) \<Rightarrow> record_count k n l s, Inr out))))"

definition loop_control_process :: "'u agent \<Rightarrow> agent_context \<Rightarrow> agent_value \<Rightarrow> loop_counts \<Rightarrow>
    'u tool_state \<Rightarrow> loop_counts \<times> 'u tool_state \<times> unit result" where
  "loop_control_process a ctx v s st =
    (case loop_decide a ctx v s of
      (s', Inl e) \<Rightarrow> (s', st, Inl e)
    | (s', Inr None) \<Rightarrow> (s', st, Inr ())
    | (s', Inr (Some (port, x))) \<Rightarrow>
        (let (st', r) = tool_output a ctx port x st in (s', st', r)))"

definition loop_control_stop :: "loop_counts \<Rightarrow> loop_counts" where
  "loop_control_stop s = tracked_new"

section \<open>The bounded maps\<close>

text \<open>The map has exactly the keys in the queue, each once, and at most 1024.\<close>

definition tracked_ok :: "'v tracked \<Rightarrow> bool" where
  "tracked_ok t \<longleftrightarrow> dom (map_of (tr_map t)) = set (tr_order t) \<and> sorted_wrt (<) (keys_of (tr_map t)) \<and>
    distinct (tr_order t) \<and> length (tr_order t) \<le> MAX_TRACKED_CTX_KEYS"

text \<open>How many keys are at least as young as \<open>k\<close>.\<close>

definition age :: "string \<Rightarrow> 'v tracked \<Rightarrow> nat" where
  "age k t = length (dropWhile (\<lambda>x. x \<noteq> k) (tr_order t))"

text \<open>Tracking a key and storing a value under it, as both agents do.\<close>

definition track_put :: "string \<Rightarrow> 'v \<Rightarrow> 'v tracked \<Rightarrow> 'v tracked" where
  "track_put k v s = (let t = track_key k s in t\<lparr>tr_map := bt_insert k v (tr_map t)\<rparr>)"

lemma record_count_put: "record_count k n i s = track_put k (n, i) s"
  by (simp add: record_count_def track_put_def)

lemma tracked_new_ok [simp]: "tracked_ok tracked_new"
  by (simp add: tracked_ok_def tracked_new_def)

lemma tracked_key_iff: "tracked_ok t \<Longrightarrow> k \<in> set (tr_order t) \<longleftrightarrow> has_key (tr_map t) k"
  by (auto simp: tracked_ok_def)

lemma age_present: "tracked_ok t \<Longrightarrow> has_key (tr_map t) k \<longleftrightarrow> 0 < age k t"
  using tracked_key_iff [of t k] by (auto simp: age_def dropWhile_eq_Nil_conv)

lemma track_key_cases:
  assumes "tracked_ok t"
  obtains (known) "has_key (tr_map t) k" "track_key k t = t"
  | (room) "\<not> has_key (tr_map t) k" "length (tr_order t) < MAX_TRACKED_CTX_KEYS"
      "track_key k t = t\<lparr>tr_order := tr_order t @ [k]\<rparr>"
  | (full) oldest rest where "\<not> has_key (tr_map t) k" "tr_order t = oldest # rest"
      "length (tr_order t) = MAX_TRACKED_CTX_KEYS"
      "track_key k t = \<lparr>tr_map = bt_remove oldest (tr_map t), tr_order = rest @ [k]\<rparr>"
proof (cases "has_key (tr_map t) k")
  case True
  then show ?thesis using known by (simp add: track_key_def)
next
  case False
  show ?thesis
  proof (cases "MAX_TRACKED_CTX_KEYS \<le> length (tr_order t)")
    case le: True
    then have len: "length (tr_order t) = MAX_TRACKED_CTX_KEYS"
      using assms by (simp add: tracked_ok_def)
    then obtain oldest rest where o: "tr_order t = oldest # rest"
      by (cases "tr_order t") (auto simp: MAX_TRACKED_CTX_KEYS_def)
    then show ?thesis using False le len full [OF False o len] by (simp add: track_key_def)
  next
    case less: False
    then show ?thesis using False room by (simp add: track_key_def)
  qed
qed

lemma track_put_ok:
  assumes "tracked_ok t"
  shows "tracked_ok (track_put k v t)"
  using assms
proof (cases rule: track_key_cases [where k = k])
  case known
  then have "k \<in> set (tr_order t)" using tracked_key_iff [OF assms, of k] by simp
  then show ?thesis using assms known(2) by (auto simp: track_put_def tracked_ok_def)
next
  case room
  then have "k \<notin> set (tr_order t)" using tracked_key_iff [OF assms, of k] by simp
  then show ?thesis using assms room by (auto simp: track_put_def tracked_ok_def)
next
  case (full oldest rest)
  then have "k \<notin> set (tr_order t)" using tracked_key_iff [OF assms, of k] by simp
  moreover have "dom (map_of (bt_remove oldest (tr_map t))) = set rest"
    using assms full(2) by (auto simp: tracked_ok_def)
  ultimately show ?thesis using assms full by (auto simp: track_put_def tracked_ok_def)
qed

lemma track_put_get:
  assumes "tracked_ok t"
  shows "map_of (tr_map (track_put k v t)) k = Some v"
  by (simp add: track_put_def Let_def)

text \<open>Another key stays where it is until it is the oldest of 1024; every new key ages it by one.\<close>

lemma track_put_other:
  assumes "tracked_ok t" "j \<noteq> k" "has_key (tr_map t) j" "age j t < MAX_TRACKED_CTX_KEYS"
  shows "map_of (tr_map (track_put k v t)) j = map_of (tr_map t) j \<and> age j (track_put k v t) \<le> age j t + 1"
  using assms(1)
proof (cases rule: track_key_cases [where k = k])
  case known
  then show ?thesis using assms(2) by (simp add: track_put_def age_def)
next
  case room
  have "j \<in> set (tr_order t)" using tracked_key_iff [OF assms(1)] assms(3) by blast
  then show ?thesis using assms(2) room by (simp add: track_put_def age_def dropWhile_append)
next
  case (full oldest rest)
  have j: "j \<in> set (tr_order t)" using tracked_key_iff [OF assms(1)] assms(3) by blast
  have "j \<noteq> oldest" using assms(4) full(2,3) by (auto simp: age_def)
  then show ?thesis using assms(2) full j by (auto simp: track_put_def age_def dropWhile_append)
qed

lemma age_le: "tracked_ok t \<Longrightarrow> age k t \<le> MAX_TRACKED_CTX_KEYS"
  using length_dropWhile_le [of "\<lambda>x. x \<noteq> k" "tr_order t"] by (simp add: age_def tracked_ok_def)

text \<open>A run of updates.\<close>

fun track_run :: "(string \<times> ('v tracked \<Rightarrow> 'v)) list \<Rightarrow> 'v tracked \<Rightarrow> 'v tracked" where
  "track_run [] t = t"
| "track_run ((k, f) # us) t = track_run us (track_put k (f t) t)"

lemma track_run_ok: "tracked_ok t \<Longrightarrow> tracked_ok (track_run us t)"
  by (induction us t rule: track_run.induct) (simp_all add: track_put_ok)

lemma track_run_other:
  "tracked_ok t \<Longrightarrow> has_key (tr_map t) j \<Longrightarrow> j \<notin> fst ` set us \<Longrightarrow>
    age j t + length us \<le> MAX_TRACKED_CTX_KEYS \<Longrightarrow> map_of (tr_map (track_run us t)) j = map_of (tr_map t) j"
proof (induction us t rule: track_run.induct)
  case (2 k f us t)
  have o: "map_of (tr_map (track_put k (f t) t)) j = map_of (tr_map t) j"
      "age j (track_put k (f t) t) \<le> age j t + 1"
    using track_put_other [of t j k] 2 by auto
  show ?case using "2.IH" [OF track_put_ok [OF "2.prems"(1)]] "2.prems" o by simp
qed simp

section \<open>A message delivered again\<close>

lemma track_key_map:
  assumes "tracked_ok t"
  shows "map_of (tr_map (track_key k t)) k = map_of (tr_map t) k"
  using assms
proof (cases rule: track_key_cases [where k = k])
  case (full oldest rest)
  then show ?thesis by auto
qed simp_all

lemma mark_executed_put:
  "tracked_ok s \<Longrightarrow> mark_executed k i s = track_put k (List.insert i (unwrap_or (map_of (tr_map s) k) [])) s"
  by (simp add: mark_executed_def track_put_def track_key_map Let_def)

lemma mark_executed_ok [simp]: "tracked_ok s \<Longrightarrow> tracked_ok (mark_executed k i s)"
  by (simp add: mark_executed_put track_put_ok)

lemma is_executed_mark:
  "tracked_ok s \<Longrightarrow> is_executed k j (mark_executed k i s) \<longleftrightarrow> j = i \<or> is_executed k j s"
  by (auto simp: is_executed_def mark_executed_put track_put_get unwrap_or_def split: option.splits)

lemma mark_calls:
  "tracked_ok s \<Longrightarrow> tracked_ok (fold (mark_call k) cs s) \<and>
    (\<forall>i. is_executed k i (fold (mark_call k) cs s) \<longleftrightarrow>
      is_executed k i s \<or> Some i \<in> (\<lambda>c. fn_id (tc_function c)) ` set cs)"
proof (induction cs arbitrary: s)
  case (Cons c cs)
  have "tracked_ok (mark_call k c s)" using Cons.prems by (simp add: mark_call_def split: option.split)
  moreover have "is_executed k i (mark_call k c s) \<longleftrightarrow> is_executed k i s \<or> Some i = fn_id (tc_function c)" for i
    using is_executed_mark [OF Cons.prems, of k i] by (auto simp: mark_call_def split: option.split)
  ultimately show ?case using Cons.IH by auto
qed simp

lemma marked_not_new:
  assumes "tracked_ok s" "c \<in> set calls" "fn_id (tc_function c) = Some i"
  shows "is_executed k i (fold (mark_call k) (new_calls k s calls) s)"
proof -
  have "is_executed k i s \<or> c \<in> set (new_calls k s calls)" using assms(2,3) by (auto simp: new_calls_def)
  then show ?thesis using mark_calls [OF assms(1), of k "new_calls k s calls"] assms(3) by force
qed

lemma new_calls_after:
  assumes ok: "tracked_ok s" and ids: "\<forall>c \<in> set calls. fn_id (tc_function c) \<noteq> None"
    and s1: "s1 = fold (mark_call k) (new_calls k s calls) s"
    and other: "k \<notin> fst ` set us" and young: "age k s1 + length us \<le> MAX_TRACKED_CTX_KEYS"
  shows "new_calls k (track_run us s1) calls = []"
proof -
  have ok1: "tracked_ok s1" using mark_calls [OF ok] s1 by simp
  have "is_executed k i (track_run us s1)" if c: "c \<in> set calls" "fn_id (tc_function c) = Some i" for c i
  proof -
    have e: "is_executed k i s1" using marked_not_new [OF ok c] s1 by simp
    then have "has_key (tr_map s1) k" by (auto simp: is_executed_def split: option.splits)
    from track_run_other [OF ok1 this other young] show ?thesis using e by (simp add: is_executed_def)
  qed
  then show ?thesis using ids by (auto simp: new_calls_def filter_empty_conv split: option.splits)
qed

lemma process_nothing_new:
  assumes "agent_configs_of a = Inr c" "ctx_key ctx = Inr k" "\<not> msg_streaming m" "msg_tool_calls m = Some calls"
    and "allowed_calls E (configs_get_string_or_default c ''tools'') st calls = Inr allowed"
    and "new_calls k s allowed = []"
  shows "call_message_process E T a ctx (Message m) evs s st = Some (s, st, Inr ())"
  using assms by (simp add: call_message_process_def run_message_calls_def call_tools_def Let_def)

lemma process_marks:
  assumes "agent_configs_of a = Inr c" "ctx_key ctx = Inr k" "\<not> msg_streaming m" "msg_tool_calls m = Some calls"
    and "allowed_calls E (configs_get_string_or_default c ''tools'') st calls = Inr allowed"
    and "call_message_process E T a ctx (Message m) evs s st = Some (s1, st1, r)"
  shows "s1 = fold (mark_call k) (new_calls k s allowed) s"
  using assms by (auto simp: call_message_process_def Let_def)

section \<open>The turns of a flow\<close>

lemma track_put_within:
  assumes "tracked_ok t" "set (tr_order t) \<subseteq> K" "finite K" "card K \<le> MAX_TRACKED_CTX_KEYS" "k \<in> K"
  shows "map_of (tr_map (track_put k v t)) = (map_of (tr_map t))(k \<mapsto> v) \<and> set (tr_order (track_put k v t)) \<subseteq> K"
  using assms(1)
proof (cases rule: track_key_cases [where k = k])
  case known
  then show ?thesis using assms(2) by (simp add: track_put_def Let_def)
next
  case room
  then show ?thesis using assms(2,5) by (simp add: track_put_def Let_def)
next
  case (full oldest rest)
  have "k \<notin> set (tr_order t)" using tracked_key_iff [OF assms(1), of k] full(1) by simp
  moreover have d: "distinct (tr_order t)" using assms(1) by (simp add: tracked_ok_def)
  ultimately have "Suc (length (tr_order t)) = card (insert k (set (tr_order t)))"
    by (simp add: distinct_card)
  also have "\<dots> \<le> card K" by (rule card_mono) (use assms in auto)
  finally show ?thesis using full(3) assms(4) by simp
qed

text \<open>The turns of a flow by the ids of its countable messages: how many there were and the last id.\<close>

definition next_turn :: "string option \<Rightarrow> nat \<times> string option \<Rightarrow> nat \<times> string option" where
  "next_turn i e = (if i \<noteq> None \<and> snd e = i then e else (fst e + 1, i))"

definition turns :: "string option list \<Rightarrow> nat \<times> string option" where
  "turns is = fold next_turn is (0, None)"

definition delivered_id :: "agent_value \<Rightarrow> string option" where
  "delivered_id v = Option.bind (as_message v) msg_id"

definition flow_ids :: "string \<Rightarrow> (agent_context \<times> agent_value) list \<Rightarrow> string option list" where
  "flow_ids k ds = map (\<lambda>(ctx, v). delivered_id v) (filter (\<lambda>(ctx, v). countable v \<and> ctx_key ctx = Inr k) ds)"

fun loop_run :: "'u agent \<Rightarrow> (agent_context \<times> agent_value) list \<Rightarrow> loop_counts \<Rightarrow> loop_counts" where
  "loop_run a [] s = s"
| "loop_run a ((ctx, v) # ds) s = loop_run a ds (fst (loop_decide a ctx v s))"

definition flows :: "(agent_context \<times> agent_value) list \<Rightarrow> string set" where
  "flows ds = {k. \<exists>ctx v. (ctx, v) \<in> set ds \<and> ctx_key ctx = Inr k}"

lemma finite_flows: "finite (flows ds)"
proof -
  have "flows ds \<subseteq> (\<lambda>(ctx, v). projr (ctx_key ctx)) ` set ds"
    by (force simp: flows_def image_iff)
  then show ?thesis by (rule finite_subset) simp
qed

lemma turns_le: "fst (fold next_turn is e) \<le> fst e + length is"
proof (induction "is" arbitrary: e)
  case (Cons i "is")
  have "fst (next_turn i e) \<le> fst e + 1" by (simp add: next_turn_def)
  with Cons.IH [of "next_turn i e"] show ?case by simp
qed simp

definition entry_is :: "loop_counts \<Rightarrow> string \<Rightarrow> nat \<times> string option \<Rightarrow> bool" where
  "entry_is s k e \<longleftrightarrow> unwrap_or (map_of (tr_map s) k) (0, None) = (word_of_nat (fst e), snd e)"

lemma saturating_succ_of_nat:
  assumes "n + 1 < 2 ^ 32"
  shows "saturating_succ (word_of_nat n) = word_of_nat (n + 1)"
proof -
  have "unat (word_of_nat (n + 1) :: u32) = n + 1"
    using assms by (simp only: unsigned_of_nat) (simp add: take_bit_nat_eq_self)
  then have "(word_of_nat (n + 1) :: u32) \<noteq> 0" by (metis Suc_eq_plus1 nat.distinct(1) unsigned_0)
  then show ?thesis by (simp add: saturating_succ_def add.commute)
qed

lemma unat_of_nat_32: "n < 2 ^ 32 \<Longrightarrow> unat (word_of_nat n :: u32) = n"
  by (simp only: unsigned_of_nat) (simp add: take_bit_nat_eq_self)

definition kept_in :: "string set \<Rightarrow> loop_counts \<Rightarrow> bool" where
  "kept_in K s \<longleftrightarrow> tracked_ok s \<and> set (tr_order s) \<subseteq> K"

text \<open>The limit as the natural number it is compared with; zero switches the guard off.\<close>

definition limit_of :: "agent_configs \<Rightarrow> nat" where
  "limit_of c = nat (sint (configs_get_integer_or c ''max_iterations'' DEFAULT_MAX_ITERATIONS))"

lemma over_limit_of_nat:
  assumes "n < 2 ^ 32"
  shows "over_limit l (word_of_nat n) \<longleftrightarrow> 0 < nat (sint l) \<and> nat (sint l) < n"
  using assms by (auto simp: over_limit_def unat_of_nat_32)

definition verdict :: "agent_configs \<Rightarrow> agent_value \<Rightarrow> nat \<times> string option \<Rightarrow> (string \<times> agent_value) option" where
  "verdict c v e =
    (let e' = next_turn (delivered_id v) e in
     if 0 < limit_of c \<and> limit_of c < fst e'
     then (if e' = e then None
           else Some (''limit_exceeded'', Message (limit_notice
             (configs_get_integer_or c ''max_iterations'' DEFAULT_MAX_ITERATIONS))))
     else Some (''message'', v))"

lemma loop_decide_countable:
  assumes c: "agent_configs_of a = Inr c" and v: "countable v" and k: "ctx_key ctx = Inr k"
    and e: "entry_is s k e" and n: "fst e + 1 < 2 ^ 32"
  shows "snd (loop_decide a ctx v s) = Inr (verdict c v e)"
    and "fst (loop_decide a ctx v s) =
      (if next_turn (delivered_id v) e = e then s
       else track_put k (word_of_nat (fst (next_turn (delivered_id v) e)), snd (next_turn (delivered_id v) e)) s)"
proof -
  obtain m p where me: "e = (m, p)" by (cases e)
  have entry: "unwrap_or (map_of (tr_map s) k) (0, None) = (word_of_nat m, p)" using e me by (simp add: entry_is_def)
  have m: "m < 2 ^ 32" "m + 1 < 2 ^ 32" using n me by simp_all
  note o = over_limit_of_nat [OF m(1)] over_limit_of_nat [OF m(2)] saturating_succ_of_nat [OF m(2)]
  show "snd (loop_decide a ctx v s) = Inr (verdict c v e)"
    using v o by (simp add: loop_decide_def c k entry loop_turn_def verdict_def next_turn_def me Let_def
        limit_of_def delivered_id_def del: of_nat_add)
  show "fst (loop_decide a ctx v s) =
      (if next_turn (delivered_id v) e = e then s
       else track_put k (word_of_nat (fst (next_turn (delivered_id v) e)), snd (next_turn (delivered_id v) e)) s)"
    using v o by (simp add: loop_decide_def c k entry loop_turn_def next_turn_def me Let_def
        record_count_put delivered_id_def del: of_nat_add)
qed

lemma loop_decide_ignored:
  assumes "agent_configs_of a = Inr c" "\<not> (countable v \<and> (\<exists>k. ctx_key ctx = Inr k))"
  shows "fst (loop_decide a ctx v s) = s"
  using assms by (cases "ctx_key ctx") (auto simp: loop_decide_def)

lemma loop_step_entries:
  assumes c: "agent_configs_of a = Inr c" and kept: "kept_in K s" and K: "finite K" "card K \<le> MAX_TRACKED_CTX_KEYS"
    and key: "\<And>k. ctx_key ctx = Inr k \<Longrightarrow> k \<in> K"
    and e: "\<And>k. entry_is s k (e k)" and n: "\<And>k. fst (e k) + 1 < 2 ^ 32"
  shows "kept_in K (fst (loop_decide a ctx v s)) \<and>
    entry_is (fst (loop_decide a ctx v s)) j
      (if countable v \<and> ctx_key ctx = Inr j then next_turn (delivered_id v) (e j) else e j)"
proof (cases "countable v \<and> (\<exists>k. ctx_key ctx = Inr k)")
  case False
  then show ?thesis using loop_decide_ignored [OF c False] kept e by auto
next
  case True
  then obtain k where v: "countable v" and k: "ctx_key ctx = Inr k" by blast
  note d = loop_decide_countable (2) [OF c v k e n]
  let ?e = "next_turn (delivered_id v) (e k)"
  show ?thesis
  proof (cases "?e = e k")
    case True
    then show ?thesis using d kept e v k by auto
  next
    case False
    have "tracked_ok s" "set (tr_order s) \<subseteq> K" using kept by (simp_all add: kept_in_def)
    from track_put_within [OF this K key [OF k]] track_put_ok [OF this(1)] False
    show ?thesis using e [of j] v k by (auto simp: d kept_in_def entry_is_def)
  qed
qed

lemma loop_run_entries:
  assumes c: "agent_configs_of a = Inr c" and K: "finite K" "card K \<le> MAX_TRACKED_CTX_KEYS"
  shows "kept_in K s \<Longrightarrow> flows ds \<subseteq> K \<Longrightarrow> (\<And>k. entry_is s k (e k)) \<Longrightarrow>
    (\<And>k. fst (e k) + length ds < 2 ^ 32) \<Longrightarrow>
    kept_in K (loop_run a ds s) \<and> (\<forall>k. entry_is (loop_run a ds s) k (fold next_turn (flow_ids k ds) (e k)))"
proof (induction ds arbitrary: s e)
  case Nil
  then show ?case by (simp add: flow_ids_def)
next
  case (Cons d ds)
  obtain ctx v where d: "d = (ctx, v)" by (cases d)
  define e' where "e' k = (if countable v \<and> ctx_key ctx = Inr k then next_turn (delivered_id v) (e k) else e k)" for k
  have key: "k \<in> K" if "ctx_key ctx = Inr k" for k using Cons.prems(2) that d by (auto simp: flows_def)
  have n: "fst (e k) + 1 < 2 ^ 32" for k
    using Cons.prems(4) [of k] by simp
  have step: "kept_in K (fst (loop_decide a ctx v s))" "entry_is (fst (loop_decide a ctx v s)) j (e' j)" for j
    using loop_step_entries [OF c Cons.prems(1) K key Cons.prems(3) n, where v = v and ctx = ctx and j = j] by (simp_all add: e'_def)
  have n': "fst (e' k) + length ds < 2 ^ 32" for k
    using Cons.prems(4) [of k] by (auto simp: e'_def next_turn_def)
  have "flows ds \<subseteq> K" using Cons.prems(2) by (auto simp: flows_def)
  from Cons.IH [OF step(1) this step(2) n']
  have "kept_in K (loop_run a (d # ds) s) \<and>
      (\<forall>k. entry_is (loop_run a (d # ds) s) k (fold next_turn (flow_ids k ds) (e' k)))"
    by (simp add: d)
  moreover have "fold next_turn (flow_ids k (d # ds)) (e k) = fold next_turn (flow_ids k ds) (e' k)" for k
    by (simp add: flow_ids_def d e'_def)
  ultimately show ?case by simp
qed

lemma loop_verdict:
  assumes c: "agent_configs_of a = Inr c" and few: "card (flows ds) \<le> MAX_TRACKED_CTX_KEYS"
    and short: "length ds + 1 < 2 ^ 32" and v: "countable v" and k: "ctx_key ctx = Inr k"
  shows "snd (loop_decide a ctx v (loop_run a ds tracked_new)) = Inr (verdict c v (turns (flow_ids k ds)))"
proof -
  have init: "kept_in (flows ds) tracked_new" "entry_is tracked_new j (0, None)" for j
    by (simp_all add: kept_in_def entry_is_def tracked_new_def tracked_ok_def)
  have "entry_is (loop_run a ds tracked_new) k (turns (flow_ids k ds))"
    using loop_run_entries [OF c finite_flows few init(1) subset_refl, of "\<lambda>j. (0, None)"] init(2) short
    by (auto simp: turns_def)
  moreover have "fst (turns (flow_ids k ds)) + 1 < 2 ^ 32"
  proof -
    have "length (flow_ids k ds) \<le> length ds" by (simp add: flow_ids_def)
    then show ?thesis using turns_le [of "flow_ids k ds" "(0, None)"] short by (simp add: turns_def)
  qed
  ultimately show ?thesis by (rule loop_decide_countable (1) [OF c v k])
qed

end
