(* ===== verification/PresetTool.thy ===== *)
theory PresetTool
  imports ToolAgents
begin

text \<open>
  tool.rs, \<open>PresetToolAgent\<close> and \<open>PresetTool\<close>: a workflow that the model can call as a tool. A call
  is emitted on the port \<open>tool_in\<close> of the agent, waits under the id of its context, and is
  answered by the value that arrives on \<open>tool_out\<close> under the same context id.

  A oneshot channel is its index in \<open>pt_oneshots\<close>: waiting, sent, or dropped with its sender.
  \<open>preset_call_begin\<close> is the part of \<open>tool_call\<close> under the agent's lock, \<open>preset_call_end\<close> the
  part after the wait, for one of the three reasons it can end, with the guard that removes the
  pending entry. \<open>ph\<close> names the tool object that is built with a given info.
\<close>

datatype oneshot = Waiting | Sent agent_value | Dropped

record preset_tool_agent =
  pt_name :: string
  pt_description :: string
  pt_parameters :: "json option"
  pt_pending :: "(usize \<times> nat) list"
  pt_oneshots :: "oneshot list"

section \<open>Configuration and registration\<close>

definition tool_parameters :: "host \<Rightarrow> agent_configs option \<Rightarrow> json option" where
  "tool_parameters H c =
    map_option (serialize_value H) (Option.bind c (\<lambda>m. ok (configs_get m ''parameters'')))"

definition preset_tool_new :: "host \<Rightarrow> agent_spec \<Rightarrow> preset_tool_agent" where
  "preset_tool_new H s =
    \<lparr>pt_name = unwrap_or (Option.bind (s_configs s) (\<lambda>c. ok (configs_get_string c ''name''))) (s_def_name s),
     pt_description = unwrap_or (Option.bind (s_configs s) (\<lambda>c. ok (configs_get_string c ''description''))) [],
     pt_parameters = tool_parameters H (s_configs s), pt_pending = [], pt_oneshots = []\<rparr>"

definition preset_tool_info :: "preset_tool_agent \<Rightarrow> tool_info" where
  "preset_tool_info p = tool_info_new (pt_name p) (pt_description p) (pt_parameters p)"

definition register_preset_tool :: "'u tools \<Rightarrow> (string \<Rightarrow> tool_info \<Rightarrow> string) \<Rightarrow> 'u agent \<Rightarrow>
    preset_tool_agent \<Rightarrow> 'u tool_state \<Rightarrow> 'u tool_state \<times> unit result" where
  "register_preset_tool T ph a p st =
    (if has_key (w_agents (ts_world st)) (a_id a)
     then (register_tool T (ph (a_id a) (preset_tool_info p)) st, Inr ())
     else (st, Inl (AgentNotFound (a_id a))))"

definition preset_tool_configs_changed :: "host \<Rightarrow> 'u tools \<Rightarrow> (string \<Rightarrow> tool_info \<Rightarrow> string) \<Rightarrow>
    'u agent \<Rightarrow> preset_tool_agent \<Rightarrow> 'u tool_state \<Rightarrow> preset_tool_agent \<times> 'u tool_state \<times> unit result" where
  "preset_tool_configs_changed H T ph a p st =
    (case agent_configs_of a of
      Inl e \<Rightarrow> (p, st, Inl e)
    | Inr c \<Rightarrow>
        (let p' = p\<lparr>pt_name := configs_get_string_or_default c ''name'',
                    pt_description := configs_get_string_or_default c ''description'',
                    pt_parameters := tool_parameters H (Some c)\<rparr>
         in if a_status a \<noteq> Start then (p', st, Inr ())
            else (case register_preset_tool T ph a p' st of
              (st', Inl e) \<Rightarrow> (p', st', Inl e)
            | (st', Inr _) \<Rightarrow>
                (p', if pt_name p \<noteq> pt_name p' then unregister_tool (pt_name p) st' else st', Inr ()))))"

definition preset_tool_start :: "'u tools \<Rightarrow> (string \<Rightarrow> tool_info \<Rightarrow> string) \<Rightarrow> 'u agent \<Rightarrow>
    preset_tool_agent \<Rightarrow> 'u tool_state \<Rightarrow> 'u tool_state \<times> unit result" where
  "preset_tool_start T ph a p st = register_preset_tool T ph a p st"

section \<open>Calls\<close>

definition drop_sender :: "nat \<Rightarrow> oneshot list \<Rightarrow> oneshot list" where
  "drop_sender r os = (if r < length os \<and> os ! r = Waiting then os[r := Dropped] else os)"

text \<open>\<open>pending.remove\<close> with the entry dropped.\<close>

definition remove_pending :: "usize \<Rightarrow> preset_tool_agent \<Rightarrow> preset_tool_agent" where
  "remove_pending c p =
    (case map_of (pt_pending p) c of
      None \<Rightarrow> p
    | Some r \<Rightarrow> p\<lparr>pt_pending := im_shift_remove c (pt_pending p), pt_oneshots := drop_sender r (pt_oneshots p)\<rparr>)"

text \<open>\<open>pending.insert\<close> with a new channel; an entry it replaces is dropped. The map is a
  \<open>HashMap\<close>: the position of the entry does not matter.\<close>

definition add_pending :: "usize \<Rightarrow> preset_tool_agent \<Rightarrow> preset_tool_agent \<times> nat" where
  "add_pending c p =
    (let p0 = remove_pending c p; n = length (pt_oneshots p0)
     in (p0\<lparr>pt_pending := pt_pending p0 @ [(c, n)], pt_oneshots := pt_oneshots p0 @ [Waiting]\<rparr>, n))"

definition start_tool_call :: "'u agent \<Rightarrow> agent_context \<Rightarrow> agent_value \<Rightarrow> preset_tool_agent \<Rightarrow>
    'u world \<Rightarrow> preset_tool_agent \<times> 'u world \<times> nat result" where
  "start_tool_call a ctx args p w =
    (let (p1, n) = add_pending (ctx_id ctx) p in
     (case agent_try_output a ctx ''tool_in'' args w of
       (w', Inl e) \<Rightarrow> (remove_pending (ctx_id ctx) p1, w', Inl e)
     | (w', Inr _) \<Rightarrow> (p1, w', Inr n)))"

definition preset_tool_stop :: "preset_tool_agent \<Rightarrow> 'u tool_state \<Rightarrow> preset_tool_agent \<times> 'u tool_state \<times> unit result" where
  "preset_tool_stop p st =
    (p\<lparr>pt_pending := [], pt_oneshots := fold (\<lambda>(c, r). drop_sender r) (pt_pending p) (pt_oneshots p)\<rparr>,
     unregister_tool (pt_name p) st, Inr ())"

definition preset_tool_process :: "agent_context \<Rightarrow> agent_value \<Rightarrow> preset_tool_agent \<Rightarrow>
    preset_tool_agent \<times> unit result" where
  "preset_tool_process ctx v p =
    (case map_of (pt_pending p) (ctx_id ctx) of
      None \<Rightarrow> (p, Inr ())
    | Some r \<Rightarrow>
        (p\<lparr>pt_pending := im_shift_remove (ctx_id ctx) (pt_pending p),
           pt_oneshots := (pt_oneshots p)[r := Sent v]\<rparr>, Inr ()))"

text \<open>The flow may be cancelled before the lock is asked for (\<open>early\<close>) or while it is waited for; the
  timeout comes with the channel.\<close>

definition preset_call_begin :: "'u agent \<Rightarrow> agent_context \<Rightarrow> agent_value \<Rightarrow> bool \<Rightarrow> bool \<Rightarrow>
    preset_tool_agent \<Rightarrow> 'u world \<Rightarrow> preset_tool_agent \<times> 'u world \<times> (nat \<times> i64) result" where
  "preset_call_begin a ctx args early is_preset_tool p w =
    (if early then (p, w, Inl Cancelled)
     else if \<not> is_preset_tool then (p, w, Inl (Other ''Agent is not PresetToolAgent''))
     else if ctx_is_cancelled (cancelled (w_tokens w)) ctx then (p, w, Inl Cancelled)
     else
       (let timeout = (case s_configs (a_spec a) of
              None \<Rightarrow> DEFAULT_TIMEOUT_SECS
            | Some c \<Rightarrow> configs_get_integer_or c ''timeout_secs'' DEFAULT_TIMEOUT_SECS)
        in (case start_tool_call a ctx args p w of
          (p', w', Inl e) \<Rightarrow> (p', w', Inl e)
        | (p', w', Inr r) \<Rightarrow> (p', w', Inr (r, timeout)))))"

datatype wake = Resolved | Expired | FlowCancelled

text \<open>What the wait returns for a reason, \<open>None\<close> when it cannot end for it: the channel is not
  resolved, or there is no timeout.\<close>

definition preset_call_wait :: "nat \<Rightarrow> i64 \<Rightarrow> wake \<Rightarrow> preset_tool_agent \<Rightarrow> agent_value result option" where
  "preset_call_wait r timeout why p =
    (case why of
      Resolved \<Rightarrow>
        (case pt_oneshots p ! r of
          Waiting \<Rightarrow> None
        | Sent v \<Rightarrow> Some (Inr v)
        | Dropped \<Rightarrow> Some (Inl (Other ''tool_out dropped'')))
    | Expired \<Rightarrow>
        if sint timeout \<le> 0 then None
        else Some (Inl (Timeout (''Tool call timed out after '' @ i64_to_string timeout @ '' seconds'')))
    | FlowCancelled \<Rightarrow> Some (Inl Cancelled))"

definition preset_call_end :: "agent_context \<Rightarrow> nat \<Rightarrow> i64 \<Rightarrow> wake \<Rightarrow> preset_tool_agent \<Rightarrow>
    (preset_tool_agent \<times> agent_value result) option" where
  "preset_call_end ctx r timeout why p =
    map_option (\<lambda>x. (remove_pending (ctx_id ctx) p, x)) (preset_call_wait r timeout why p)"

section \<open>Calls do not disturb each other\<close>

text \<open>Every pending entry has a waiting channel of its own.\<close>

definition pending_ok :: "preset_tool_agent \<Rightarrow> bool" where
  "pending_ok p \<longleftrightarrow> distinct (keys_of (pt_pending p)) \<and> distinct (map snd (pt_pending p)) \<and>
    (\<forall>r \<in> snd ` set (pt_pending p). r < length (pt_oneshots p) \<and> pt_oneshots p ! r = Waiting)"

text \<open>What anybody else can do: calls that begin or end and answers, under another context.\<close>

inductive other_step :: "usize \<Rightarrow> preset_tool_agent \<Rightarrow> preset_tool_agent \<Rightarrow> bool" for c where
  other_begin: "c' \<noteq> c \<Longrightarrow> add_pending c' p = (p', r) \<Longrightarrow> other_step c p p'"
| other_end: "c' \<noteq> c \<Longrightarrow> other_step c p (remove_pending c' p)"
| other_answer: "ctx_id ctx \<noteq> c \<Longrightarrow> preset_tool_process ctx v p = (p', x) \<Longrightarrow> other_step c p p'"

text \<open>\<open>slot c r o p\<close>: the channel \<open>r\<close> is in state \<open>o\<close>; while it waits it is pending under \<open>c\<close>, and
  otherwise nobody holds its sender.\<close>

definition slot :: "usize \<Rightarrow> nat \<Rightarrow> oneshot \<Rightarrow> preset_tool_agent \<Rightarrow> bool" where
  "slot c r s p \<longleftrightarrow> pending_ok p \<and> r < length (pt_oneshots p) \<and> pt_oneshots p ! r = s \<and>
    (if s = Waiting then map_of (pt_pending p) c = Some r else map_of (pt_pending p) c = None)"

lemma pending_distinct:
  assumes "pending_ok p" "map_of (pt_pending p) c = Some r" "map_of (pt_pending p) c' = Some r"
  shows "c = c'"
proof -
  have "inj_on snd (set (pt_pending p))" using assms(1) by (simp add: pending_ok_def distinct_map)
  then show ?thesis using assms(2,3) map_of_SomeD by (metis inj_onD snd_conv fst_conv)
qed

lemma pending_waiting:
  "pending_ok p \<Longrightarrow> map_of (pt_pending p) c = Some r \<Longrightarrow> r < length (pt_oneshots p) \<and> pt_oneshots p ! r = Waiting"
  by (force simp: pending_ok_def dest: map_of_SomeD)

text \<open>What becomes of the entry under \<open>c\<close>: its channel gets the state \<open>s\<close> and the entry is gone.\<close>

definition resolve :: "usize \<Rightarrow> nat \<Rightarrow> oneshot \<Rightarrow> preset_tool_agent \<Rightarrow> preset_tool_agent" where
  "resolve c r s p =
    p\<lparr>pt_pending := im_shift_remove c (pt_pending p), pt_oneshots := (pt_oneshots p)[r := s]\<rparr>"

lemma remove_pending_eq:
  "pending_ok p \<Longrightarrow> remove_pending c p =
    (case map_of (pt_pending p) c of None \<Rightarrow> p | Some r \<Rightarrow> resolve c r Dropped p)"
  using pending_waiting [of p c]
  by (cases "map_of (pt_pending p) c") (simp_all add: remove_pending_def resolve_def drop_sender_def)

lemma process_eq:
  "fst (preset_tool_process ctx v p) =
    (case map_of (pt_pending p) (ctx_id ctx) of None \<Rightarrow> p | Some r \<Rightarrow> resolve (ctx_id ctx) r (Sent v) p)"
  by (simp add: preset_tool_process_def resolve_def split: option.split)

lemma resolve_sel [simp]:
  "pt_pending (resolve c r s p) = im_shift_remove c (pt_pending p)"
  "pt_oneshots (resolve c r s p) = (pt_oneshots p)[r := s]"
  by (simp_all add: resolve_def)

lemma resolve_ok:
  assumes "pending_ok p" "map_of (pt_pending p) c = Some r"
  shows "pending_ok (resolve c r s p)"
proof -
  have d: "distinct (keys_of (pt_pending p))" "distinct (map snd (pt_pending p))"
    using assms(1) by (simp_all add: pending_ok_def)
  have "q \<noteq> r \<and> q < length (pt_oneshots p) \<and> pt_oneshots p ! q = Waiting"
    if q: "(c', q) \<in> set (pt_pending p)" "c' \<noteq> c" for c' q
  proof -
    have m: "map_of (pt_pending p) c' = Some q" using q(1) d(1) by simp
    have "q \<noteq> r"
    proof
      assume "q = r"
      with m have "map_of (pt_pending p) c' = Some r" by simp
      from pending_distinct [OF assms(1) this assms(2)] q(2) show False by simp
    qed
    then show ?thesis using pending_waiting [OF assms(1) m] by simp
  qed
  then have "\<forall>q \<in> snd ` set (im_shift_remove c (pt_pending p)).
      q < length ((pt_oneshots p)[r := s]) \<and> (pt_oneshots p)[r := s] ! q = Waiting"
    by (fastforce simp: im_shift_remove_def)
  moreover have "distinct (map snd (im_shift_remove c (pt_pending p)))"
    using d(2) by (simp add: im_shift_remove_def distinct_map_filterI)
  ultimately show ?thesis using d(1) by (simp add: pending_ok_def)
qed

lemma resolve_slot_other:
  assumes "slot c r s p" "map_of (pt_pending p) c' = Some q" "c' \<noteq> c"
  shows "slot c r s (resolve c' q x p)"
proof -
  have ok: "pending_ok p" using assms(1) by (simp add: slot_def)
  have "q \<noteq> r"
  proof
    assume "q = r"
    with pending_waiting [OF ok assms(2)] assms(1) have "map_of (pt_pending p) c = Some r"
      by (auto simp: slot_def split: if_splits)
    with assms(2,3) \<open>q = r\<close> pending_distinct [OF ok] show False by blast
  qed
  then show ?thesis using assms(1,3) resolve_ok [OF ok assms(2)] by (simp add: slot_def)
qed

lemma resolve_slot:
  assumes "slot c r Waiting p" "s \<noteq> Waiting"
  shows "slot c r s (resolve c r s p)"
proof -
  have ok: "pending_ok p" and m: "map_of (pt_pending p) c = Some r" and r: "r < length (pt_oneshots p)"
    using assms(1) by (simp_all add: slot_def)
  show ?thesis using resolve_ok [OF ok m] r assms(2) by (simp add: slot_def)
qed

lemma remove_pending_ok: "pending_ok p \<Longrightarrow> pending_ok (remove_pending c p)"
  by (simp add: remove_pending_eq resolve_ok split: option.split)

lemma remove_pending_gone: "pending_ok p \<Longrightarrow> map_of (pt_pending (remove_pending c p)) c = None"
  by (simp add: remove_pending_eq split: option.split)

lemma remove_pending_slot: "slot c r s p \<Longrightarrow> c' \<noteq> c \<Longrightarrow> slot c r s (remove_pending c' p)"
  using remove_pending_eq [of p c'] resolve_slot_other [of c r s p c' _ Dropped]
  by (auto simp: slot_def split: option.splits)

lemma add_pending_ok:
  assumes "pending_ok p" "map_of (pt_pending p) c = None"
  shows "pending_ok (p\<lparr>pt_pending := pt_pending p @ [(c, length (pt_oneshots p))],
    pt_oneshots := pt_oneshots p @ [Waiting]\<rparr>)"
  using assms by (auto simp: pending_ok_def nth_append map_of_eq_None_iff)

lemma add_pending_slot:
  assumes "pending_ok p" "add_pending c p = (p', r)"
  shows "slot c r Waiting p'"
proof -
  note ok = remove_pending_ok [OF assms(1), of c] and gone = remove_pending_gone [OF assms(1), of c]
  show ?thesis using add_pending_ok [OF ok gone] assms(2) gone
    by (auto simp: add_pending_def Let_def slot_def map_add_def)
qed

lemma add_pending_other:
  assumes "slot c r s p" "c' \<noteq> c" "add_pending c' p = (p', q)"
  shows "slot c r s p'"
proof -
  have p: "pending_ok p" using assms(1) by (simp add: slot_def)
  have s: "slot c r s (remove_pending c' p)" by (rule remove_pending_slot [OF assms(1,2)])
  note ok = remove_pending_ok [OF p, of c'] and gone = remove_pending_gone [OF p, of c']
  show ?thesis using add_pending_ok [OF ok gone] assms(2,3) s
    by (auto simp: add_pending_def Let_def slot_def map_add_def nth_append split: if_splits)
qed

lemma other_step_slot: "other_step c p p' \<Longrightarrow> slot c r s p \<Longrightarrow> slot c r s p'"
proof (induction rule: other_step.induct)
  case (other_begin c' p p' q)
  then show ?case using add_pending_other by blast
next
  case (other_end c' p)
  then show ?case using remove_pending_slot by blast
next
  case (other_answer ctx v p p' x)
  then have "p' = fst (preset_tool_process ctx v p)" by simp
  then show ?case using resolve_slot_other [OF other_answer(3)] other_answer(1,3)
    by (simp add: process_eq split: option.split)
qed

lemma other_steps_slot: "(other_step c)\<^sup>*\<^sup>* p p' \<Longrightarrow> slot c r s p \<Longrightarrow> slot c r s p'"
  by (induction rule: rtranclp_induct) (auto intro: other_step_slot)

lemma start_tool_call_slot:
  assumes "pending_ok p" "start_tool_call a ctx args p w = (p', w', Inr r)"
  shows "slot (ctx_id ctx) r Waiting p'"
  using assms add_pending_slot [OF assms(1)]
  by (auto simp: start_tool_call_def split: prod.splits sum.splits)

lemma start_tool_call_failed:
  assumes "pending_ok p" "start_tool_call a ctx args p w = (p', w', Inl e)"
  shows "pending_ok p' \<and> map_of (pt_pending p') (ctx_id ctx) = None"
proof -
  obtain p1 n where add: "add_pending (ctx_id ctx) p = (p1, n)" by fastforce
  have ok: "pending_ok p1" using add_pending_slot [OF assms(1) add] by (simp add: slot_def)
  have "p' = remove_pending (ctx_id ctx) p1"
    using assms(2) by (auto simp: start_tool_call_def add split: prod.splits sum.splits)
  then show ?thesis using remove_pending_ok [OF ok] remove_pending_gone [OF ok] by simp
qed

lemma process_answers:
  assumes "slot (ctx_id ctx) r Waiting p"
  shows "slot (ctx_id ctx) r (Sent v) (fst (preset_tool_process ctx v p))"
  using resolve_slot [OF assms, of "Sent v"] assms by (simp add: process_eq slot_def)

text \<open>Two calls of one tool under the same context: the second one drops the channel of the first,
  and the end of the first one removes the entry of the second.\<close>

lemma overlapping_calls_dropped:
  assumes "pending_ok p" "add_pending c p = (p1, r)" "add_pending c p1 = (p2, q)"
  shows "pt_oneshots p2 ! r = Dropped \<and> pt_oneshots (remove_pending c p2) ! q = Dropped"
proof -
  have s1: "slot c r Waiting p1" by (rule add_pending_slot [OF assms(1,2)])
  then have ok: "pending_ok p1" and m: "map_of (pt_pending p1) c = Some r" and r: "r < length (pt_oneshots p1)"
    by (simp_all add: slot_def)
  have s2: "slot c q Waiting p2" by (rule add_pending_slot [OF ok assms(3)])
  then have ok2: "pending_ok p2" and m2: "map_of (pt_pending p2) c = Some q" and q: "q < length (pt_oneshots p2)"
    by (simp_all add: slot_def)
  have "pt_oneshots p2 ! r = Dropped"
    using assms(3) r by (auto simp: add_pending_def Let_def remove_pending_eq [OF ok] m nth_append)
  moreover have "pt_oneshots (remove_pending c p2) ! q = Dropped"
    using q by (simp add: remove_pending_eq [OF ok2] m2)
  ultimately show ?thesis ..
qed

end
