(* ===== verification/EventRing.thy ===== *)
theory EventRing
  imports World Text
begin

text \<open>
  mcp_server.rs, the parts below its tools: the comparison of bearer tokens and the ring of
  captured events that the polling tools read.

  The two buffers of the ring share one counter. A push holds the lock of its buffer while it
  draws a number, so pushes and polls of one buffer are steps that follow one another; pushes of
  the other buffer may come between them. A reader keeps a cursor, the number of the last record
  it was given. \<open>reader_run\<close> follows one reader of the errors through any such steps and keeps,
  beside what the program has, what was pushed and what was dropped unread.
\<close>

section \<open>Bearer tokens\<close>

definition constant_time_eq :: "u8 list \<Rightarrow> u8 list \<Rightarrow> bool" where
  "constant_time_eq a b =
    (if length a \<noteq> length b then False
     else fold (\<lambda>(x, y) acc. or acc (xor x y)) (zip a b) 0 = 0)"

definition bytes_of :: "string \<Rightarrow> u8 list" where
  "bytes_of s = map (\<lambda>c. word_of_nat (byte c)) s"

text \<open>\<open>header\<close> is the value of the authorization header when there is one and it is visible ASCII.\<close>

definition require_bearer :: "string \<Rightarrow> string option \<Rightarrow> bool" where
  "require_bearer expected header =
    (case Option.bind header (strip_prefix ''Bearer '') of
      None \<Rightarrow> False
    | Some t \<Rightarrow> constant_time_eq (bytes_of t) (bytes_of expected))"

lemma xor_zero_iff: "xor x y = 0 \<longleftrightarrow> x = (y::u8)"
  by (metis xor.assoc xor.left_neutral xor_self_eq)

lemma fold_or_zero:
  "fold (\<lambda>(x, y) acc. or acc (xor x y)) xys acc = 0 \<longleftrightarrow> acc = 0 \<and> (\<forall>(x, y) \<in> set xys. x = (y::u8))"
  by (induction xys arbitrary: acc) (auto simp: or_eq_0_iff xor_zero_iff)

lemma zip_all_eq: "length a = length b \<Longrightarrow> (\<forall>(x, y) \<in> set (zip a b). x = y) \<longleftrightarrow> a = b"
  by (induction a b rule: list_induct2) auto

lemma constant_time_eq_iff: "constant_time_eq a b \<longleftrightarrow> a = b"
  using zip_all_eq [of a b] by (cases "length a = length b") (auto simp: constant_time_eq_def fold_or_zero)

lemma byte_less: "byte c < 256"
proof -
  have "(of_char c :: nat) = of_char c mod 256" by simp
  also have "\<dots> < 256" by (rule mod_less_divisor) simp
  finally show ?thesis by (simp only: byte_def)
qed

lemma byte_inject: "byte c = byte d \<longleftrightarrow> c = d"
  by (simp add: byte_def)

lemma byte_word_inject: "(word_of_nat (byte c) :: u8) = word_of_nat (byte d) \<longleftrightarrow> c = d"
proof
  assume e: "(word_of_nat (byte c) :: u8) = word_of_nat (byte d)"
  have u: "n < 256 \<Longrightarrow> unat (word_of_nat n :: u8) = n" for n
    by (simp only: unsigned_of_nat) (simp add: take_bit_nat_eq_self)
  have "byte c = unat (word_of_nat (byte c) :: u8)" by (rule u [OF byte_less, symmetric])
  also have "\<dots> = byte d" unfolding e by (rule u [OF byte_less])
  finally have "byte c = byte d" .
  then show "c = d" by (simp only: byte_inject)
qed simp

lemma bytes_of_inject: "bytes_of s = bytes_of t \<longleftrightarrow> s = t"
  unfolding bytes_of_def by (rule inj_map_eq_map) (simp add: inj_def byte_word_inject)

lemma require_bearer_iff: "require_bearer e h \<longleftrightarrow> h = Some (''Bearer '' @ e)"
proof (cases h)
  case (Some v)
  show ?thesis
    using strip_prefix_eq_Some [of "''Bearer ''" v e]
    by (cases "strip_prefix ''Bearer '' v")
      (simp_all add: Some require_bearer_def constant_time_eq_iff bytes_of_inject)
qed (simp add: require_bearer_def)

section \<open>The ring\<close>

definition RING_CAPACITY :: nat where "RING_CAPACITY = 200"
definition DEFAULT_POLL_LIMIT :: nat where "DEFAULT_POLL_LIMIT = 50"

record error_record =
  er_seq :: u64
  er_time :: u64
  er_preset :: "string option"
  er_agent :: string
  er_message :: string

record output_record =
  or_seq :: u64
  or_time :: u64
  or_channel :: string
  or_value :: agent_value

record event_ring =
  rg_seq :: u64
  rg_dropped :: u64
  rg_errors :: "error_record list"
  rg_outputs :: "output_record list"

definition ring_new :: event_ring where
  "ring_new = \<lparr>rg_seq = 0, rg_dropped = 0, rg_errors = [], rg_outputs = []\<rparr>"

definition next_seq :: "event_ring \<Rightarrow> event_ring \<times> u64" where
  "next_seq r = (r\<lparr>rg_seq := rg_seq r + 1\<rparr>, rg_seq r + 1)"

text \<open>A full buffer loses its oldest record first.\<close>

definition make_room :: "'a list \<Rightarrow> 'a list" where
  "make_room xs = (if RING_CAPACITY \<le> length xs then tl xs else xs)"

definition push_error :: "u64 \<Rightarrow> string option \<Rightarrow> string \<Rightarrow> string \<Rightarrow> event_ring \<Rightarrow> event_ring" where
  "push_error now p a msg r =
    (let (r1, n) = next_seq r in
     r1\<lparr>rg_errors := make_room (rg_errors r) @
       [\<lparr>er_seq = n, er_time = now, er_preset = p, er_agent = a, er_message = msg\<rparr>]\<rparr>)"

definition push_output :: "u64 \<Rightarrow> string \<Rightarrow> agent_value \<Rightarrow> event_ring \<Rightarrow> event_ring" where
  "push_output now ch v r =
    (let (r1, n) = next_seq r in
     r1\<lparr>rg_outputs := make_room (rg_outputs r) @
       [\<lparr>or_seq = n, or_time = now, or_channel = ch, or_value = v\<rparr>]\<rparr>)"

definition lagged :: "u64 \<Rightarrow> event_ring \<Rightarrow> event_ring" where
  "lagged n r = r\<lparr>rg_dropped := rg_dropped r + n\<rparr>"

definition error_matches :: "string option \<Rightarrow> error_record \<Rightarrow> bool" where
  "error_matches p x \<longleftrightarrow> p = None \<or> er_preset x = p"

definition collect_errors :: "string option \<Rightarrow> u64 \<Rightarrow> nat \<Rightarrow> event_ring \<Rightarrow> error_record list" where
  "collect_errors p since limit r =
    take limit (filter (error_matches p) (filter (\<lambda>x. since < er_seq x) (rg_errors r)))"

definition collect_outputs :: "string option \<Rightarrow> u64 \<Rightarrow> nat \<Rightarrow> event_ring \<Rightarrow> output_record list" where
  "collect_outputs ch since limit r =
    take limit (filter (\<lambda>x. ch = None \<or> Some (or_channel x) = ch)
      (filter (\<lambda>x. since < or_seq x) (rg_outputs r)))"

text \<open>What the tools \<open>get_agent_errors\<close> and \<open>get_external_outputs\<close> return: the cursor of the next
  call, the count of dropped events and the page.\<close>

definition get_agent_errors :: "string option \<Rightarrow> u64 option \<Rightarrow> nat option \<Rightarrow> event_ring \<Rightarrow>
    u64 \<times> u64 \<times> error_record list" where
  "get_agent_errors p since limit r =
    (let s = unwrap_or since 0; es = collect_errors p s (unwrap_or limit DEFAULT_POLL_LIMIT) r
     in (if es = [] then s else er_seq (last es), rg_dropped r, es))"

definition get_external_outputs :: "string option \<Rightarrow> u64 option \<Rightarrow> nat option \<Rightarrow> event_ring \<Rightarrow>
    u64 \<times> u64 \<times> output_record list" where
  "get_external_outputs ch since limit r =
    (let s = unwrap_or since 0; os = collect_outputs ch s (unwrap_or limit DEFAULT_POLL_LIMIT) r
     in (if os = [] then s else or_seq (last os), rg_dropped r, os))"

text \<open>The collector: one received event. \<open>resolve\<close> is what the bounded wait for the agent's lock
  gives, \<open>None\<close> on a timeout.\<close>

datatype received = Event event_envelope | Lagged u64

definition collect_event :: "u64 \<Rightarrow> (string \<Rightarrow> string option) \<Rightarrow> 'u world \<Rightarrow> received \<Rightarrow> event_ring \<Rightarrow> event_ring" where
  "collect_event now resolve w e r =
    (case e of
      Lagged n \<Rightarrow> lagged n r
    | Event env \<Rightarrow>
        (case ev_event env of
          AgentErrorEvent i msg \<Rightarrow>
            push_error now (if has_key (w_agents w) i then resolve i else None) i msg r
        | ExternalOutput ch v \<Rightarrow> push_output now ch v r
        | _ \<Rightarrow> r))"

section \<open>A polling reader\<close>

datatype ring_step =
    RingError u64 "string option" string string
  | RingOutput u64 string agent_value
  | RingLagged u64
  | PollErrors nat

record reader =
  rd_ring :: event_ring
  rd_cursor :: u64
  rd_got :: "error_record list"
  rd_pushed :: "error_record list"
  rd_lost :: "error_record list"

definition reader_new :: reader where
  "reader_new = \<lparr>rd_ring = ring_new, rd_cursor = 0, rd_got = [], rd_pushed = [], rd_lost = []\<rparr>"

text \<open>The records the reader has not been given.\<close>

definition unread :: "string option \<Rightarrow> reader \<Rightarrow> error_record list" where
  "unread p r = filter (error_matches p) (filter (\<lambda>x. rd_cursor r < er_seq x) (rg_errors (rd_ring r)))"

text \<open>What a push drops unread.\<close>

definition dropped_unread :: "string option \<Rightarrow> reader \<Rightarrow> error_record list" where
  "dropped_unread p r =
    (case rg_errors (rd_ring r) of
      [] \<Rightarrow> []
    | x # xs \<Rightarrow> if RING_CAPACITY \<le> length (x # xs) \<and> rd_cursor r < er_seq x \<and> error_matches p x then [x] else [])"

fun reader_step :: "string option \<Rightarrow> ring_step \<Rightarrow> reader \<Rightarrow> reader" where
  "reader_step p (RingError now q a msg) r =
    (let g = push_error now q a msg (rd_ring r)
     in r\<lparr>rd_ring := g, rd_pushed := rd_pushed r @ [last (rg_errors g)],
         rd_lost := rd_lost r @ dropped_unread p r\<rparr>)"
| "reader_step p (RingOutput now ch v) r = r\<lparr>rd_ring := push_output now ch v (rd_ring r)\<rparr>"
| "reader_step p (RingLagged n) r = r\<lparr>rd_ring := lagged n (rd_ring r)\<rparr>"
| "reader_step p (PollErrors n) r =
    (case get_agent_errors p (Some (rd_cursor r)) (Some n) (rd_ring r) of
      (c, d, es) \<Rightarrow> r\<lparr>rd_cursor := c, rd_got := rd_got r @ es\<rparr>)"

fun reader_run :: "string option \<Rightarrow> ring_step list \<Rightarrow> reader \<Rightarrow> reader" where
  "reader_run p [] r = r"
| "reader_run p (s # ss) r = reader_run p ss (reader_step p s r)"

abbreviation by_seq :: "error_record list \<Rightarrow> bool" where
  "by_seq xs \<equiv> sorted_wrt (\<lambda>x y. er_seq x < er_seq y) xs"

text \<open>The buffer is the end of what was pushed and is full once something has been dropped; what the
  reader got and can still get is what was pushed without what was lost.\<close>

definition reader_ok :: "string option \<Rightarrow> reader \<Rightarrow> bool" where
  "reader_ok p r \<longleftrightarrow>
    (\<exists>gone. rd_pushed r = gone @ rg_errors (rd_ring r) \<and>
      (gone \<noteq> [] \<longrightarrow> length (rg_errors (rd_ring r)) = RING_CAPACITY) \<and> set (rd_lost r) \<subseteq> set gone) \<and>
    length (rg_errors (rd_ring r)) \<le> RING_CAPACITY \<and>
    by_seq (rd_pushed r) \<and> (\<forall>x \<in> set (rd_pushed r). er_seq x \<le> rg_seq (rd_ring r)) \<and>
    rd_cursor r \<le> rg_seq (rd_ring r) \<and> (\<forall>x \<in> set (rd_got r). er_seq x \<le> rd_cursor r) \<and>
    rd_got r @ unread p r = filter (\<lambda>x. x \<notin> set (rd_lost r)) (filter (error_matches p) (rd_pushed r))"

lemma by_seq_distinct: "by_seq xs \<Longrightarrow> distinct xs"
  by (induction xs) auto

lemma by_seq_filter: "by_seq xs \<Longrightarrow> by_seq (filter P xs)"
  by (rule sorted_wrt_filter)

text \<open>A page and what is left after it.\<close>

lemma page_split:
  assumes "by_seq xs" "\<forall>x \<in> set xs. c < er_seq x" "take n xs \<noteq> []"
  shows "filter (\<lambda>x. er_seq (last (take n xs)) < er_seq x) xs = drop n xs \<and>
    (\<forall>x \<in> set (take n xs). er_seq x \<le> er_seq (last (take n xs)))"
proof -
  let ?a = "take n xs" and ?b = "drop n xs"
  have s: "by_seq (?a @ ?b)" using assms(1) by simp
  then have ab: "\<forall>x \<in> set ?a. \<forall>y \<in> set ?b. er_seq x < er_seq y" unfolding sorted_wrt_append by blast
  have le: "\<forall>x \<in> set ?a. er_seq x \<le> er_seq (last ?a)"
  proof -
    have "by_seq ?a" using s unfolding sorted_wrt_append by blast
    then have "by_seq (butlast ?a @ [last ?a])" using assms(3) by simp
    then have "\<forall>x \<in> set (butlast ?a). er_seq x < er_seq (last ?a)" by (simp only: sorted_wrt_append) simp
    moreover have "set ?a = insert (last ?a) (set (butlast ?a))"
      using assms(3) by (metis append_butlast_last_id list.simps(15) rotate1.simps(2) set_rotate1)
    ultimately show ?thesis by (auto intro: less_imp_le)
  qed
  have "filter (\<lambda>x. er_seq (last ?a) < er_seq x) (?a @ ?b) = ?b"
  proof -
    have "filter (\<lambda>x. er_seq (last ?a) < er_seq x) ?a = []" using le by (auto simp: filter_empty_conv not_less)
    moreover have "filter (\<lambda>x. er_seq (last ?a) < er_seq x) ?b = ?b"
      using ab last_in_set [OF assms(3)] by (auto intro!: filter_True)
    ultimately show ?thesis unfolding filter_append by (simp only: append_Nil)
  qed
  with le show ?thesis by simp
qed

text \<open>A new record is the youngest.\<close>

lemma push_error_sel:
  "rg_errors (push_error now q a msg g) = make_room (rg_errors g) @
    [\<lparr>er_seq = rg_seq g + 1, er_time = now, er_preset = q, er_agent = a, er_message = msg\<rparr>]"
  "rg_seq (push_error now q a msg g) = rg_seq g + 1"
  "rg_dropped (push_error now q a msg g) = rg_dropped g"
  by (simp_all add: push_error_def next_seq_def)

lemma seq_succ: "unat n + 1 < 2 ^ 64 \<Longrightarrow> n < n + (1::u64)"
  by (simp add: word_less_nat_alt unat_word_ariths)

lemma reader_poll_ok:
  assumes "reader_ok p r"
  shows "reader_ok p (reader_step p (PollErrors n) r)"
proof -
  let ?u = "unread p r" and ?xs = "rg_errors (rd_ring r)"
  obtain gone where gone: "rd_pushed r = gone @ ?xs" using assms by (auto simp: reader_ok_def)
  then have pushed_errors: "set ?xs \<subseteq> set (rd_pushed r)" by simp
  have "by_seq (rd_pushed r)" using assms by (simp add: reader_ok_def)
  then have errs: "by_seq ?xs" unfolding gone sorted_wrt_append by blast
  then have u: "by_seq ?u" "\<forall>x \<in> set ?u. rd_cursor r < er_seq x"
    by (auto simp: unread_def intro!: by_seq_filter)
  have page: "collect_errors p (rd_cursor r) n (rd_ring r) = take n ?u"
    by (simp add: collect_errors_def unread_def)
  show ?thesis
  proof (cases "take n ?u = []")
    case True
    then have "collect_errors p (rd_cursor r) n (rd_ring r) = []" unfolding page .
    then have "reader_step p (PollErrors n) r = r" by (simp add: get_agent_errors_def Let_def)
    then show ?thesis using assms by simp
  next
    case False
    define c where "c = er_seq (last (take n ?u))"
    let ?r = "reader_step p (PollErrors n) r"
    have r: "?r = r\<lparr>rd_cursor := c, rd_got := rd_got r @ take n ?u\<rparr>"
      using False by (simp add: get_agent_errors_def page Let_def c_def)
    note split = page_split [OF u False, folded c_def]
    have lu: "last (take n ?u) \<in> set ?u" using last_in_set [OF False] in_set_takeD by fast
    moreover have "\<forall>x \<in> set ?u. rd_cursor r < er_seq x \<and> x \<in> set ?xs" by (simp add: unread_def)
    ultimately have c: "rd_cursor r < c" "last (take n ?u) \<in> set ?xs" unfolding c_def by blast+
    have "unread p ?r = filter (error_matches p) (filter (\<lambda>x. c < er_seq x) ?xs)"
      unfolding r unread_def by simp
    also have "\<dots> = filter (\<lambda>x. c < er_seq x) ?u"
      unfolding unread_def filter_filter by (rule filter_cong) (use c(1) in \<open>auto intro: less_trans\<close>)
    finally have un: "unread p ?r = drop n ?u" using split by simp
    have got: "rd_got ?r @ unread p ?r = rd_got r @ ?u" unfolding un by (simp only: r) simp
    have "c \<le> rg_seq (rd_ring r)" unfolding c_def using assms c(2) pushed_errors by (auto simp: reader_ok_def)
    moreover have "\<forall>x \<in> set (rd_got r). er_seq x \<le> rd_cursor r" using assms by (simp add: reader_ok_def)
    then have "\<forall>x \<in> set (rd_got r @ take n ?u). er_seq x \<le> c"
      using split c(1) by (fastforce dest: order.strict_implies_order)
    ultimately show ?thesis using assms got unfolding reader_ok_def r by simp
  qed
qed

lemma reader_push_ok:
  assumes ok: "reader_ok p r" and n: "unat (rg_seq (rd_ring r)) + 1 < 2 ^ 64"
  shows "reader_ok p (reader_step p (RingError now q a msg) r)"
proof -
  let ?g = "rd_ring r" and ?xs = "rg_errors (rd_ring r)" and ?r = "reader_step p (RingError now q a msg) r"
  define x where "x = \<lparr>er_seq = rg_seq ?g + 1, er_time = now, er_preset = q, er_agent = a, er_message = msg\<rparr>"
  define new where "new = filter (error_matches p) [x]"
  note lt = seq_succ [OF n]
  obtain gone where gone: "rd_pushed r = gone @ ?xs" "gone \<noteq> [] \<longrightarrow> length ?xs = RING_CAPACITY"
      "set (rd_lost r) \<subseteq> set gone"
    using ok by (auto simp: reader_ok_def)
  have facts: "length ?xs \<le> RING_CAPACITY" "by_seq (rd_pushed r)" "rd_cursor r \<le> rg_seq ?g"
      "\<forall>y \<in> set (rd_pushed r). er_seq y \<le> rg_seq ?g" "\<forall>y \<in> set (rd_got r). er_seq y \<le> rd_cursor r"
      "rd_got r @ unread p r = filter (\<lambda>y. y \<notin> set (rd_lost r)) (filter (error_matches p) (rd_pushed r))"
    using ok by (simp_all add: reader_ok_def)
  have young: "\<forall>y \<in> set (rd_pushed r). er_seq y < er_seq x" "rd_cursor r < er_seq x"
    using facts(3,4) lt by (auto simp: x_def intro: order.strict_trans1)
  have r: "rd_pushed ?r = rd_pushed r @ [x]"
      "rd_lost ?r = rd_lost r @ dropped_unread p r" "rd_cursor ?r = rd_cursor r" "rd_got ?r = rd_got r"
      "rg_errors (rd_ring ?r) = make_room ?xs @ [x]" "rg_seq (rd_ring ?r) = er_seq x"
    by (simp_all add: Let_def push_error_sel x_def)
  have un: "unread p ?r = filter (error_matches p) (filter (\<lambda>y. rd_cursor r < er_seq y) (make_room ?xs)) @ new"
    unfolding unread_def r using young(2) by (simp add: new_def)
  have pushed: "by_seq (rd_pushed ?r)" "\<forall>y \<in> set (rd_pushed ?r). er_seq y \<le> er_seq x"
    unfolding r using facts(2) young(1) by (auto simp: sorted_wrt_append intro: less_imp_le)
  have fresh: "x \<notin> set (rd_pushed r)" using young(1) by blast
  have cursor: "rd_cursor r \<le> er_seq x" using young(2) by simp
  show ?thesis
  proof (cases "length ?xs = RING_CAPACITY")
    case False
    then have "gone = []" "length ?xs < RING_CAPACITY" using gone(2) facts(1) by auto
    moreover have "make_room ?xs = ?xs" "dropped_unread p r = []"
      using calculation(2) by (auto simp: make_room_def dropped_unread_def split: list.split)
    ultimately show ?thesis
      using gone facts(5,6) pushed cursor un
      unfolding reader_ok_def r by (simp add: unread_def new_def)
  next
    case True
    then obtain h t where xs: "?xs = h # t" by (cases ?xs) (simp_all add: RING_CAPACITY_def)
    have room: "make_room ?xs = t" "RING_CAPACITY \<le> length (h # t)" using True xs by (simp_all add: make_room_def)
    have d: "distinct (rd_pushed r)" by (rule by_seq_distinct [OF facts(2)])
    let ?lost = "dropped_unread p r"
    have lost: "?lost = (if rd_cursor r < er_seq h \<and> error_matches p h then [h] else [])"
      using room(2) by (simp add: dropped_unread_def xs)
    have h: "h \<notin> set t" "h \<noteq> x" using d fresh by (auto simp: gone(1) xs)
    have got: "h \<notin> set (rd_got r)" if "rd_cursor r < er_seq h" using facts(5) that by (auto simp: not_le)
    have "unread p r = ?lost @ filter (error_matches p) (filter (\<lambda>y. rd_cursor r < er_seq y) t)"
      by (simp add: unread_def xs lost)
    then have split: "rd_got r @ ?lost @ filter (error_matches p) (filter (\<lambda>y. rd_cursor r < er_seq y) t) =
        filter (\<lambda>y. y \<notin> set (rd_lost r)) (filter (error_matches p) (rd_pushed r))"
      using facts(6) by simp
    let ?t = "filter (error_matches p) (filter (\<lambda>y. rd_cursor r < er_seq y) t)"
    have "filter (\<lambda>y. y \<notin> set ?lost) (rd_got r) = rd_got r" using got by (intro filter_True) (auto simp: lost)
    moreover have "filter (\<lambda>y. y \<notin> set ?lost) ?t = ?t" using h(1) by (intro filter_True) (auto simp: lost)
    moreover have "filter (\<lambda>y. y \<notin> set ?lost) ?lost = []" by (simp add: filter_empty_conv)
    ultimately have "rd_got r @ ?t = filter (\<lambda>y. y \<notin> set ?lost) (rd_got r @ ?lost @ ?t)"
      by (simp only: filter_append append_Nil)
    also have "\<dots> = filter (\<lambda>y. y \<notin> set (rd_lost r @ ?lost)) (filter (error_matches p) (rd_pushed r))"
      by (subst split, unfold filter_filter, rule filter_cong) auto
    finally have kept: "rd_got r @ filter (error_matches p) (filter (\<lambda>y. rd_cursor r < er_seq y) t) =
        filter (\<lambda>y. y \<notin> set (rd_lost r @ ?lost)) (filter (error_matches p) (rd_pushed r))" .
    have "x \<notin> set (rd_lost r @ ?lost)" using gone fresh h(2) by (auto simp: lost)
    then have all: "rd_got r @ unread p ?r =
        filter (\<lambda>y. y \<notin> set (rd_lost r @ ?lost)) (filter (error_matches p) (rd_pushed r @ [x]))"
      unfolding un room(1) using kept by (simp add: new_def)
    have sub: "set (rd_lost r @ ?lost) \<subseteq> set (gone @ [h])" using gone(3) by (auto simp: lost)
    have "rd_pushed r @ [x] = (gone @ [h]) @ t @ [x]" "length (t @ [x]) = RING_CAPACITY"
      using gone(1) True by (simp_all add: xs)
    then show ?thesis
      unfolding reader_ok_def r room(1)
      using sub pushed(1,2) [unfolded r] cursor facts(5) all by (intro conjI exI [of _ "gone @ [h]"]) simp_all
  qed
qed

lemma reader_other_ok:
  assumes "reader_ok p r" "unat (rg_seq (rd_ring r)) + 1 < 2 ^ 64"
  shows "reader_ok p (reader_step p (RingOutput now ch v) r)" "reader_ok p (reader_step p (RingLagged n) r)"
proof -
  have "rg_seq (rd_ring r) \<le> rg_seq (rd_ring r) + 1" using seq_succ [OF assms(2)] by simp
  then have le: "y \<le> rg_seq (rd_ring r) \<Longrightarrow> y \<le> rg_seq (rd_ring r) + 1" for y by (rule order.trans [rotated])
  have "rg_errors (push_output now ch v (rd_ring r)) = rg_errors (rd_ring r)"
      "rg_seq (push_output now ch v (rd_ring r)) = rg_seq (rd_ring r) + 1"
    by (simp_all add: push_output_def next_seq_def)
  then show "reader_ok p (reader_step p (RingOutput now ch v) r)"
    using assms(1) le by (simp add: reader_ok_def unread_def)
  show "reader_ok p (reader_step p (RingLagged n) r)"
    using assms(1) by (simp add: reader_ok_def unread_def lagged_def)
qed

text \<open>What the steps push and how much they report as lagged.\<close>

fun errors_of :: "ring_step list \<Rightarrow> (string option \<times> string \<times> string) list" where
  "errors_of [] = []"
| "errors_of (RingError now q a msg # ss) = (q, a, msg) # errors_of ss"
| "errors_of (s # ss) = errors_of ss"

fun lags_of :: "ring_step list \<Rightarrow> u64" where
  "lags_of [] = 0"
| "lags_of (RingLagged n # ss) = n + lags_of ss"
| "lags_of (s # ss) = lags_of ss"

definition content_of :: "error_record \<Rightarrow> string option \<times> string \<times> string" where
  "content_of x = (er_preset x, er_agent x, er_message x)"

lemma reader_step_frame:
  "map content_of (rd_pushed (reader_step p s r)) = map content_of (rd_pushed r) @ errors_of [s]"
  "rg_dropped (rd_ring (reader_step p s r)) = rg_dropped (rd_ring r) + lags_of [s]"
  "unat (rg_seq (rd_ring r)) + 1 < 2 ^ 64 \<Longrightarrow>
    unat (rg_seq (rd_ring (reader_step p s r))) \<le> unat (rg_seq (rd_ring r)) + 1"
  by (cases s; simp add: Let_def push_error_sel push_output_def next_seq_def lagged_def content_of_def
      get_agent_errors_def unat_word_ariths)+

lemma reader_step_ok:
  "reader_ok p r \<Longrightarrow> unat (rg_seq (rd_ring r)) + 1 < 2 ^ 64 \<Longrightarrow> reader_ok p (reader_step p s r)"
  by (cases s) (simp_all only: reader_push_ok reader_other_ok reader_poll_ok)

lemma errors_of_Cons: "errors_of (s # ss) = errors_of [s] @ errors_of ss"
  by (cases s) simp_all

lemma lags_of_Cons: "lags_of (s # ss) = lags_of [s] + lags_of ss"
  by (cases s) simp_all

lemma reader_run_ok:
  "reader_ok p r \<Longrightarrow> unat (rg_seq (rd_ring r)) + length ss < 2 ^ 64 \<Longrightarrow>
    reader_ok p (reader_run p ss r) \<and>
    map content_of (rd_pushed (reader_run p ss r)) = map content_of (rd_pushed r) @ errors_of ss \<and>
    rg_dropped (rd_ring (reader_run p ss r)) = rg_dropped (rd_ring r) + lags_of ss"
proof (induction ss arbitrary: r)
  case (Cons s ss)
  have n: "unat (rg_seq (rd_ring r)) + 1 < 2 ^ 64" using Cons.prems(2) by simp
  note f = reader_step_frame [where p = p and s = s and r = r]
  have "unat (rg_seq (rd_ring (reader_step p s r))) + length ss < 2 ^ 64"
    using f(3) [OF n] Cons.prems(2) by simp
  from Cons.IH [OF reader_step_ok [OF Cons.prems(1) n] this]
  show ?case by (simp only: reader_run.simps f(1,2) errors_of_Cons [of s ss] lags_of_Cons [of s ss] append_assoc add.assoc)
qed simp

lemma reader_new_ok: "reader_ok p reader_new"
  by (simp add: reader_ok_def reader_new_def ring_new_def unread_def RING_CAPACITY_def)

lemma lost_are_old:
  assumes "reader_ok p r" "x \<in> set (rd_lost r)"
  shows "RING_CAPACITY \<le> length (filter (\<lambda>y. er_seq x < er_seq y) (rd_pushed r))"
proof -
  obtain gone where g: "rd_pushed r = gone @ rg_errors (rd_ring r)"
      "gone \<noteq> [] \<longrightarrow> length (rg_errors (rd_ring r)) = RING_CAPACITY" "set (rd_lost r) \<subseteq> set gone"
    and s: "by_seq (rd_pushed r)"
    using assms(1) by (auto simp: reader_ok_def)
  have x: "x \<in> set gone" using assms(2) g(3) by blast
  then have len: "length (rg_errors (rd_ring r)) = RING_CAPACITY" using g(2) by auto
  have "\<forall>y \<in> set (rg_errors (rd_ring r)). er_seq x < er_seq y"
    using s x unfolding g(1) sorted_wrt_append by blast
  then have "filter (\<lambda>y. er_seq x < er_seq y) (rg_errors (rd_ring r)) = rg_errors (rd_ring r)"
    by (rule filter_True)
  then show ?thesis unfolding g(1) using len by simp
qed

end

