(* ===== verification/Saving.thy ===== *)
theory Saving
  imports Routing
begin

text \<open>
  Presets on disk: the serialization of specifications (spec.rs, config.rs and the specifications of
  definition.rs, by the derived instances) and \<open>save_preset\<close> and \<open>open_preset_from_file\<close> of
  modular_agent.rs.

  A text of JSON is a document: a \<open>json\<close> whose objects keep the order of the text, so that the maps
  that iterate in insertion order keep theirs. A document read as a \<open>serde_json::Value\<close> becomes
  sorted (\<open>doc_value\<close>). A struct with flattened extensions takes its own fields, each at most
  once, and collects the other entries in the order of the text. Writing and reading the text of a
  document are parameters.
\<close>

section \<open>Documents\<close>

fun doc_value :: "json \<Rightarrow> json" where
  "doc_value (JArray js) = JArray (map doc_value js)"
| "doc_value (JObject m) = json_object (map (\<lambda>(k, j). (k, doc_value j)) m)"
| "doc_value j = j"

lemma doc_value_wf: "json_wf j \<Longrightarrow> doc_value j = j"
proof (induction j)
  case (JArray js)
  then show ?case by (auto simp: list_all_iff intro: map_idI)
next
  case (JObject m)
  have "map (\<lambda>(k, j). (k, doc_value j)) m = m"
    using JObject by (intro map_idI) (fastforce simp: list_all_iff)
  then show ?case using JObject.prems by (simp add: json_object_def)
qed simp_all

text \<open>The fields of a struct without extensions that is read from a document, and of one with.\<close>

definition own_fields :: "string list \<Rightarrow> (string \<times> json) list \<Rightarrow> (string \<Rightarrow> json option) option" where
  "own_fields names m =
    (let own = filter (\<lambda>kj. fst kj \<in> set names) m
     in if distinct (keys_of own) then Some (map_of own) else None)"

definition extra_fields :: "string list \<Rightarrow> (string \<times> json) list \<Rightarrow> (string, json) index_map" where
  "extra_fields names m =
    im_from_iter (map (\<lambda>(k, j). (k, doc_value j)) (filter (\<lambda>kj. fst kj \<notin> set names) m))"

definition doc_as_object :: "json \<Rightarrow> (string \<times> json) list option" where
  "doc_as_object j = (case j of JObject m \<Rightarrow> Some m | _ \<Rightarrow> None)"

definition index_map_from_doc :: "(json \<Rightarrow> 'a option) \<Rightarrow> json \<Rightarrow> (string, 'a) index_map option" where
  "index_map_from_doc f j =
    Option.bind (doc_as_object j) (\<lambda>m.
      map_option im_from_iter (collect_options (map (\<lambda>(k, x). map_option (Pair k) (f x)) m)))"

definition strings_to_json :: "string list \<Rightarrow> json" where
  "strings_to_json ss = JArray (map JString ss)"

section \<open>Specifications\<close>

definition value_from_doc :: "host \<Rightarrow> json \<Rightarrow> agent_value option" where
  "value_from_doc H j = ok (deserialize_value H (doc_value j))"

definition configs_to_doc :: "host \<Rightarrow> agent_configs \<Rightarrow> json" where
  "configs_to_doc H c = JObject (map (\<lambda>(k, v). (k, serialize_value H v)) c)"

definition configs_from_doc :: "host \<Rightarrow> json \<Rightarrow> agent_configs option" where
  "configs_from_doc H = index_map_from_doc (value_from_doc H)"

definition config_spec_to_doc :: "host \<Rightarrow> agent_config_spec \<Rightarrow> json" where
  "config_spec_to_doc H s = JObject (
    [(''value'', serialize_value H (cs_value s)),
     (''type'', case cs_type s of None \<Rightarrow> JNull | Some t \<Rightarrow> JString t)] @
    opt_entry ''title'' JString (cs_title s) @ flag_entry ''hide_title'' (cs_hide_title s) @
    opt_entry ''description'' JString (cs_description s) @ flag_entry ''hidden'' (cs_hidden s) @
    flag_entry ''readonly'' (cs_readonly s) @ flag_entry ''detail'' (cs_detail s))"

definition config_spec_fields :: "string list" where
  "config_spec_fields = [''value'', ''type'', ''title'', ''hide_title'', ''description'', ''hidden'',
    ''readonly'', ''detail'']"

text \<open>A derived struct is also read from an array of its fields, which must have a value for every
  field without a default.\<close>

definition doc_fields :: "string list \<Rightarrow> nat \<Rightarrow> json \<Rightarrow> (string \<Rightarrow> json option) option" where
  "doc_fields names req j =
    (case j of JObject m \<Rightarrow> own_fields names m | _ \<Rightarrow> struct_fields names req j)"

definition config_spec_from_doc :: "host \<Rightarrow> json \<Rightarrow> agent_config_spec option" where
  "config_spec_from_doc H j = do {
    f \<leftarrow> doc_fields config_spec_fields 5 j;
    v \<leftarrow> required (value_from_doc H) (f ''value'');
    t \<leftarrow> optional json_as_str (f ''type'');
    title \<leftarrow> optional json_as_str (f ''title'');
    ht \<leftarrow> defaulted False json_as_bool (f ''hide_title'');
    d \<leftarrow> optional json_as_str (f ''description'');
    h \<leftarrow> defaulted False json_as_bool (f ''hidden'');
    r \<leftarrow> defaulted False json_as_bool (f ''readonly'');
    dt \<leftarrow> defaulted False json_as_bool (f ''detail'');
    Some \<lparr>cs_value = v, cs_type = t, cs_title = title, cs_hide_title = ht, cs_description = d,
      cs_hidden = h, cs_readonly = r, cs_detail = dt\<rparr> }"

definition config_specs_to_doc :: "host \<Rightarrow> agent_config_specs \<Rightarrow> json" where
  "config_specs_to_doc H m = JObject (map (\<lambda>(k, s). (k, config_spec_to_doc H s)) m)"

definition config_specs_from_doc :: "host \<Rightarrow> json \<Rightarrow> agent_config_specs option" where
  "config_specs_from_doc H = index_map_from_doc (config_spec_from_doc H)"

definition string_entry :: "string \<Rightarrow> string \<Rightarrow> (string \<times> json) list" where
  "string_entry k s = (if s = [] then [] else [(k, JString s)])"

definition agent_spec_to_doc :: "host \<Rightarrow> agent_spec \<Rightarrow> json" where
  "agent_spec_to_doc H s = JObject (
    string_entry ''id'' (s_id s) @ string_entry ''def_name'' (s_def_name s) @
    opt_entry ''inputs'' strings_to_json (s_inputs s) @ opt_entry ''outputs'' strings_to_json (s_outputs s) @
    opt_entry ''configs'' (configs_to_doc H) (s_configs s) @
    opt_entry ''config_specs'' (config_specs_to_doc H) (s_config_specs s) @
    flag_entry ''disabled'' (s_disabled s) @ s_extensions s)"

definition agent_spec_fields :: "string list" where
  "agent_spec_fields = [''id'', ''def_name'', ''inputs'', ''outputs'', ''configs'', ''config_specs'', ''disabled'']"

definition agent_spec_from_doc :: "host \<Rightarrow> json \<Rightarrow> agent_spec option" where
  "agent_spec_from_doc H j = do {
    m \<leftarrow> doc_as_object j;
    f \<leftarrow> own_fields agent_spec_fields m;
    i \<leftarrow> defaulted [] json_as_str (f ''id'');
    d \<leftarrow> defaulted [] json_as_str (f ''def_name'');
    inp \<leftarrow> optional (vec_from_json json_as_str) (f ''inputs'');
    outp \<leftarrow> optional (vec_from_json json_as_str) (f ''outputs'');
    c \<leftarrow> optional (configs_from_doc H) (f ''configs'');
    cs \<leftarrow> optional (config_specs_from_doc H) (f ''config_specs'');
    dis \<leftarrow> defaulted False json_as_bool (f ''disabled'');
    Some \<lparr>s_id = i, s_def_name = d, s_inputs = inp, s_outputs = outp, s_configs = c,
      s_config_specs = cs, s_disabled = dis, s_extensions = extra_fields agent_spec_fields m\<rparr> }"

definition connection_to_doc :: "connection_spec \<Rightarrow> json" where
  "connection_to_doc c = JObject
    [(''source'', JString (c_source c)), (''source_handle'', JString (c_source_handle c)),
     (''target'', JString (c_target c)), (''target_handle'', JString (c_target_handle c))]"

definition connection_from_doc :: "json \<Rightarrow> connection_spec option" where
  "connection_from_doc j = do {
    f \<leftarrow> doc_fields [''source'', ''source_handle'', ''target'', ''target_handle''] 4 j;
    s \<leftarrow> required json_as_str (f ''source'');
    sh \<leftarrow> required json_as_str (f ''source_handle'');
    t \<leftarrow> required json_as_str (f ''target'');
    th \<leftarrow> required json_as_str (f ''target_handle'');
    Some \<lparr>c_source = s, c_source_handle = sh, c_target = t, c_target_handle = th\<rparr> }"

definition preset_spec_to_doc :: "host \<Rightarrow> preset_spec \<Rightarrow> json" where
  "preset_spec_to_doc H p = JObject (
    [(''agents'', JArray (map (agent_spec_to_doc H) (p_agents p))),
     (''connections'', JArray (map connection_to_doc (p_connections p)))] @ p_extensions p)"

definition preset_spec_from_doc :: "host \<Rightarrow> json \<Rightarrow> preset_spec option" where
  "preset_spec_from_doc H j = do {
    m \<leftarrow> doc_as_object j;
    f \<leftarrow> own_fields [''agents'', ''connections''] m;
    as \<leftarrow> required (vec_from_json (agent_spec_from_doc H)) (f ''agents'');
    cs \<leftarrow> required (vec_from_json connection_from_doc) (f ''connections'');
    Some \<lparr>p_agents = as, p_connections = cs, p_extensions = extra_fields [''agents'', ''connections''] m\<rparr> }"

section \<open>Files\<close>

text \<open>\<open>fe_pretty\<close> and \<open>fe_parse\<close> write and read the text of a document; the texts of errors are
  those of \<open>serde_json\<close> and of the operating system, \<open>fe_fault\<close> says which file operation fails, and
  \<open>fe_written\<close> how many bytes a failing write has written to the truncated file.\<close>

datatype file_op = ReadText string | CreateFile string | WriteText string | CreateDirs string | RemoveFile string

record file_env =
  fe_host :: host
  fe_pretty :: "json \<Rightarrow> string + string"
  fe_parse :: "string \<Rightarrow> json option"
  fe_parse_error :: "string \<Rightarrow> string"
  fe_fault :: "file_op \<Rightarrow> string option"
  fe_written :: nat
  fe_not_found :: string

type_synonym files = "(string \<times> string) list"

definition preset_spec_to_text :: "file_env \<Rightarrow> preset_spec \<Rightarrow> string result" where
  "preset_spec_to_text E p = map_err SerializationError (fe_pretty E (preset_spec_to_doc (fe_host E) p))"

definition preset_spec_from_text :: "file_env \<Rightarrow> string \<Rightarrow> preset_spec result" where
  "preset_spec_from_text E s =
    ok_or (SerializationError (fe_parse_error E s))
      (Option.bind (fe_parse E s) (preset_spec_from_doc (fe_host E)))"

definition read_text :: "file_env \<Rightarrow> string \<Rightarrow> files \<Rightarrow> string result" where
  "read_text E path fs =
    (case fe_fault E (ReadText path) of
      Some e \<Rightarrow> Inl (IoError e)
    | None \<Rightarrow> ok_or (IoError (fe_not_found E)) (map_of fs path))"

definition open_preset_from_file :: "file_env \<Rightarrow> 'u impls \<Rightarrow> string option \<Rightarrow> string \<Rightarrow> string option \<Rightarrow>
    files \<Rightarrow> 'u world \<Rightarrow> 'u world \<times> string result" where
  "open_preset_from_file E I org path name fs w =
    (case and_then (read_text E path fs) (preset_spec_from_text E) of
      Inl e \<Rightarrow> (w, Inl e)
    | Inr spec \<Rightarrow> add_preset_raw I org spec name w)"

definition write_text :: "file_env \<Rightarrow> string \<Rightarrow> string \<Rightarrow> files \<Rightarrow> files \<times> unit result" where
  "write_text E path text fs =
    (case fe_fault E (CreateFile path) of
      Some e \<Rightarrow> (fs, Inl (IoError e))
    | None \<Rightarrow>
        (case fe_fault E (WriteText path) of
          Some e \<Rightarrow> (im_insert path (take (fe_written E) text) fs, Inl (IoError e))
        | None \<Rightarrow> (im_insert path text fs, Inr ())))"

definition save_preset :: "file_env \<Rightarrow> string option \<Rightarrow> string \<Rightarrow> string \<Rightarrow> files \<Rightarrow> 'u world \<Rightarrow>
    files \<times> 'u world \<times> unit result" where
  "save_preset E org i path fs w =
    (case get_preset_spec i w of
      None \<Rightarrow> (fs, w, Inl (PresetNotFound i))
    | Some spec \<Rightarrow>
        (case preset_spec_to_text E spec of
          Inl e \<Rightarrow> (fs, w, Inl e)
        | Inr text \<Rightarrow>
            (case write_text E path text fs of
              (fs', Inl e) \<Rightarrow> (fs', w, Inl e)
            | (fs', Inr _) \<Rightarrow>
                (fs',
                 (case Option.bind (get_preset_info i w) pi_name of
                   None \<Rightarrow> w
                 | Some n \<Rightarrow> notify org (PresetSaved i n) w),
                 Inr ()))))"

section \<open>Reading back a specification\<close>

lemma own_fields_known:
  assumes "distinct (keys_of own)" "set (keys_of own) \<subseteq> set names" "set (keys_of ext) \<inter> set names = {}"
  shows "own_fields names (own @ ext) = Some (map_of own)"
proof -
  have "filter (\<lambda>kj. fst kj \<in> set names) own = own" using assms(2) by (intro filter_True) auto
  moreover have "filter (\<lambda>kj. fst kj \<in> set names) ext = []" using assms(3) by (auto simp: filter_empty_conv)
  ultimately show ?thesis using assms(1) by (simp add: own_fields_def)
qed

text \<open>Extensions the code can hold: distinct keys, none a field, values of \<open>serde_json\<close>.\<close>

definition extensions_ok :: "string list \<Rightarrow> (string, json) index_map \<Rightarrow> bool" where
  "extensions_ok names m \<longleftrightarrow> distinct (keys_of m) \<and> set (keys_of m) \<inter> set names = {} \<and>
    list_all (\<lambda>(k, j). json_wf j) m"

lemma extra_fields_known:
  assumes "set (keys_of own) \<subseteq> set names" "extensions_ok names ext"
  shows "extra_fields names (own @ ext) = ext"
proof -
  have "filter (\<lambda>kj. fst kj \<notin> set names) own = []" using assms(1) by (auto simp: filter_empty_conv)
  moreover have "filter (\<lambda>kj. fst kj \<notin> set names) ext = ext"
    using assms(2) by (intro filter_True) (auto simp: extensions_ok_def)
  moreover have "map (\<lambda>(k, j). (k, doc_value j)) ext = ext"
    using assms(2) by (intro map_idI) (fastforce simp: extensions_ok_def list_all_iff doc_value_wf)
  ultimately show ?thesis using assms(2) by (simp add: extra_fields_def extensions_ok_def im_from_iter_distinct)
qed

lemma index_map_round_trip:
  assumes "distinct (keys_of m)" "\<forall>(k, x) \<in> set m. f (g x) = Some (h x)"
  shows "index_map_from_doc f (JObject (map (\<lambda>(k, x). (k, g x)) m)) = Some (map (\<lambda>(k, x). (k, h x)) m)"
proof -
  have "collect_options (map (\<lambda>(k, x). map_option (Pair k) (f x)) (map (\<lambda>(k, x). (k, g x)) m)) =
      Some (map (\<lambda>(k, x). (k, h x)) m)"
    using assms(2) by (induction m) auto
  moreover have "keys_of (map (\<lambda>(k, x). (k, h x)) m) = keys_of m" by (induction m) auto
  then have "im_from_iter (map (\<lambda>(k, x). (k, h x)) m) = map (\<lambda>(k, x). (k, h x)) m"
    using assms(1) by (simp only: im_from_iter_distinct)
  ultimately show ?thesis by (simp add: index_map_from_doc_def doc_as_object_def)
qed

lemma strings_round_trip [simp]: "vec_from_json json_as_str (strings_to_json ss) = Some ss"
  by (induction ss) (auto simp: vec_from_json_def strings_to_json_def)

text \<open>Values that survive JSON, and a specification made of them.\<close>

definition value_ok :: "host \<Rightarrow> agent_value \<Rightarrow> bool" where
  "value_ok H v \<longleftrightarrow> value_wf v \<and> plain H v"

definition spec_ok :: "host \<Rightarrow> agent_spec \<Rightarrow> bool" where
  "spec_ok H s \<longleftrightarrow> extensions_ok agent_spec_fields (s_extensions s) \<and>
    (\<forall>c. s_configs s = Some c \<longrightarrow> distinct (keys_of c) \<and> list_all (\<lambda>(k, v). value_ok H v) c) \<and>
    (\<forall>m. s_config_specs s = Some m \<longrightarrow> distinct (keys_of m) \<and> list_all (\<lambda>(k, x). value_ok H (cs_value x)) m)"

definition canon_configs :: "agent_configs \<Rightarrow> agent_configs" where
  "canon_configs c = map (\<lambda>(k, v). (k, canon v)) c"

definition canon_spec :: "agent_spec \<Rightarrow> agent_spec" where
  "canon_spec s = s\<lparr>s_configs := map_option canon_configs (s_configs s),
    s_config_specs := map_option (map (\<lambda>(k, x). (k, x\<lparr>cs_value := canon (cs_value x)\<rparr>))) (s_config_specs s)\<rparr>"

lemma plain_finite: "plain H v \<Longrightarrow> finite_tensors v"
  by (induction v rule: finite_tensors.induct) (auto simp: list_all_iff)

lemma json_wf_object: "list_all (\<lambda>(k, j). json_wf j) kvs \<Longrightarrow> json_wf (json_object kvs)"
proof -
  assume all: "list_all (\<lambda>(k, j). json_wf j) kvs"
  have "set (bt_insert k v m) \<subseteq> insert (k, v) (set m)" for k :: string and v :: json and m
    by (induction k v m rule: bt_insert.induct) auto
  then have "set (fold (\<lambda>(k, v). bt_insert k v) kvs acc) \<subseteq> set kvs \<union> set acc" for acc
    by (induction kvs arbitrary: acc) fastforce+
  from this [of "[]"] show ?thesis
    using all by (auto simp: json_object_def bt_from_iter_def list_all_iff sorted_bt_from_iter [unfolded bt_from_iter_def])
qed

lemma to_json_wf: "plain H v \<Longrightarrow> json_wf (to_json H v)"
proof (induction v rule: canon.induct)
  case (2 m)
  then show ?case by (auto simp: list_all_iff intro!: json_wf_object)
qed (auto simp: list_all_iff)

lemma value_round_trip:
  assumes "value_ok H v"
  shows "value_from_doc H (serialize_value H v) = Some (canon v)"
proof -
  have v: "value_wf v" "plain H v" using assms by (simp_all add: value_ok_def)
  have "serialize_value H v = to_json H v" by (rule serialize_eq_to_json [OF plain_finite [OF v(2)]])
  moreover have "doc_value (to_json H v) = to_json H v" by (rule doc_value_wf [OF to_json_wf [OF v(2)]])
  ultimately show ?thesis
    by (simp only: value_from_doc_def deserialize_value_def json_round_trip [OF v]) (simp add: map_err_def ok_def)
qed

lemma configs_round_trip:
  "distinct (keys_of c) \<Longrightarrow> list_all (\<lambda>(k, v). value_ok H v) c \<Longrightarrow>
    configs_from_doc H (configs_to_doc H c) = Some (canon_configs c)"
  unfolding configs_from_doc_def configs_to_doc_def canon_configs_def
  by (rule index_map_round_trip) (auto simp: list_all_iff value_round_trip)

lemma doc_fields_object: "doc_fields names n (JObject m) = own_fields names m"
  by (simp add: doc_fields_def)

text \<open>What the readers give for the entries the serializer writes or skips.\<close>

lemma entry_readers:
  "optional json_as_str (map_option JString x) = Some x"
  "defaulted False json_as_bool (if b then Some (JBool True) else None) = Some b"
  "defaulted [] json_as_str (if t = [] then None else Some (JString t)) = Some t"
  "optional (vec_from_json json_as_str) (map_option strings_to_json y) = Some y"
  by (cases x; simp) (simp_all, cases y, simp_all add: optional_def strings_to_json_def,
    simp add: strings_to_json_def [symmetric])

lemma lookup_entries:
  "map_of ((k, j) # kvs) k' = (if k = k' then Some j else map_of kvs k')"
  "map_of (string_entry k t @ kvs) k' = (if k = k' \<and> t \<noteq> [] then Some (JString t) else map_of kvs k')"
  "map_of (opt_entry k f x @ kvs) k' =
    (if k = k' then (case x of None \<Rightarrow> map_of kvs k' | Some v \<Rightarrow> Some (f v)) else map_of kvs k')"
  "map_of (flag_entry k b @ kvs) k' = (if k = k' \<and> b then Some (JBool True) else map_of kvs k')"
  "map_of (flag_entry k b) k' = (if k = k' \<and> b then Some (JBool True) else None)"
  by (cases x; simp add: string_entry_def flag_entry_def)+

lemmas lookups = lookup_entries map_option_case [symmetric] append.simps append_assoc

lemma config_spec_round_trip:
  assumes "value_ok H (cs_value s)"
  shows "config_spec_from_doc H (config_spec_to_doc H s) = Some (s\<lparr>cs_value := canon (cs_value s)\<rparr>)"
proof -
  define own where "own = [(''value'', serialize_value H (cs_value s)),
     (''type'', case cs_type s of None \<Rightarrow> JNull | Some t \<Rightarrow> JString t)] @
    opt_entry ''title'' JString (cs_title s) @ flag_entry ''hide_title'' (cs_hide_title s) @
    opt_entry ''description'' JString (cs_description s) @ flag_entry ''hidden'' (cs_hidden s) @
    flag_entry ''readonly'' (cs_readonly s) @ flag_entry ''detail'' (cs_detail s)"
  have doc: "config_spec_to_doc H s = JObject (own @ [])" by (simp add: config_spec_to_doc_def own_def)
  have f: "own_fields config_spec_fields (own @ []) = Some (map_of own)"
    by (rule own_fields_known) (auto simp: config_spec_fields_def own_def)
  have look: "map_of own ''value'' = Some (serialize_value H (cs_value s))"
      "map_of own ''title'' = map_option JString (cs_title s)"
      "map_of own ''description'' = map_option JString (cs_description s)"
      "map_of own ''hide_title'' = (if cs_hide_title s then Some (JBool True) else None)"
      "map_of own ''hidden'' = (if cs_hidden s then Some (JBool True) else None)"
      "map_of own ''readonly'' = (if cs_readonly s then Some (JBool True) else None)"
      "map_of own ''detail'' = (if cs_detail s then Some (JBool True) else None)"
    by (simp_all add: own_def lookups del: map_of_append map_of_opt_entry map_of.simps cong: option.case_cong)
  have ty: "optional json_as_str (map_of own ''type'') = Some (cs_type s)"
    by (cases "cs_type s") (simp_all add: own_def)
  show ?thesis
    unfolding config_spec_from_doc_def doc doc_fields_object f
    by (simp only: bind.bind_lunit look ty entry_readers field_readers value_round_trip [OF assms]) simp
qed

lemma config_specs_round_trip:
  "distinct (keys_of m) \<Longrightarrow> list_all (\<lambda>(k, x). value_ok H (cs_value x)) m \<Longrightarrow>
    config_specs_from_doc H (config_specs_to_doc H m) =
      Some (map (\<lambda>(k, x). (k, x\<lparr>cs_value := canon (cs_value x)\<rparr>)) m)"
  unfolding config_specs_from_doc_def config_specs_to_doc_def
  by (rule index_map_round_trip) (auto simp: list_all_iff config_spec_round_trip)

lemma agent_spec_round_trip:
  assumes "spec_ok H s"
  shows "agent_spec_from_doc H (agent_spec_to_doc H s) = Some (canon_spec s)"
proof -
  define own where "own = string_entry ''id'' (s_id s) @ string_entry ''def_name'' (s_def_name s) @
    opt_entry ''inputs'' strings_to_json (s_inputs s) @ opt_entry ''outputs'' strings_to_json (s_outputs s) @
    opt_entry ''configs'' (configs_to_doc H) (s_configs s) @
    opt_entry ''config_specs'' (config_specs_to_doc H) (s_config_specs s) @ flag_entry ''disabled'' (s_disabled s)"
  have doc: "agent_spec_to_doc H s = JObject (own @ s_extensions s)" by (simp add: agent_spec_to_doc_def own_def)
  have ext: "extensions_ok agent_spec_fields (s_extensions s)" using assms by (simp add: spec_ok_def)
  have keys: "set (keys_of own) \<subseteq> set agent_spec_fields" "distinct (keys_of own)"
    by (auto simp: agent_spec_fields_def own_def string_entry_def opt_entry_def flag_entry_def split: option.splits if_splits)
  have f: "own_fields agent_spec_fields (own @ s_extensions s) = Some (map_of own)"
    by (rule own_fields_known [OF keys(2,1)]) (use ext in \<open>simp add: extensions_ok_def\<close>)
  have x: "extra_fields agent_spec_fields (own @ s_extensions s) = s_extensions s"
    by (rule extra_fields_known [OF keys(1) ext])
  have str: "map_of own ''id'' = (if s_id s = [] then None else Some (JString (s_id s)))"
      "map_of own ''def_name'' = (if s_def_name s = [] then None else Some (JString (s_def_name s)))"
      "map_of own ''disabled'' = (if s_disabled s then Some (JBool True) else None)"
    by (simp_all add: own_def lookups del: map_of_append map_of_opt_entry cong: option.case_cong)
  have look: "map_of own ''inputs'' = map_option strings_to_json (s_inputs s)"
      "map_of own ''outputs'' = map_option strings_to_json (s_outputs s)"
      "map_of own ''configs'' = map_option (configs_to_doc H) (s_configs s)"
      "map_of own ''config_specs'' = map_option (config_specs_to_doc H) (s_config_specs s)"
    by (simp_all add: own_def lookups del: map_of_append map_of_opt_entry cong: option.case_cong)
  have c: "optional (configs_from_doc H) (map_option (configs_to_doc H) (s_configs s)) =
      Some (map_option canon_configs (s_configs s))"
  proof (cases "s_configs s")
    case (Some c)
    then have "configs_from_doc H (configs_to_doc H c) = Some (canon_configs c)"
      using assms by (intro configs_round_trip) (simp_all add: spec_ok_def)
    then show ?thesis by (simp add: Some optional_def configs_to_doc_def)
  qed simp
  have cs: "optional (config_specs_from_doc H) (map_option (config_specs_to_doc H) (s_config_specs s)) =
      Some (map_option (map (\<lambda>(k, x). (k, x\<lparr>cs_value := canon (cs_value x)\<rparr>))) (s_config_specs s))"
  proof (cases "s_config_specs s")
    case (Some m)
    then have "config_specs_from_doc H (config_specs_to_doc H m) =
        Some (map (\<lambda>(k, x). (k, x\<lparr>cs_value := canon (cs_value x)\<rparr>)) m)"
      using assms by (intro config_specs_round_trip) (simp_all add: spec_ok_def)
    then show ?thesis by (simp add: Some optional_def config_specs_to_doc_def)
  qed simp
  show ?thesis
    unfolding agent_spec_from_doc_def doc
    by (simp only: doc_as_object_def json.case bind.bind_lunit f str look entry_readers c cs x) (simp add: canon_spec_def)
qed

lemma connection_round_trip: "connection_from_doc (connection_to_doc c) = Some c"
  by (cases c) (simp add: connection_from_doc_def connection_to_doc_def doc_fields_def own_fields_def)

definition preset_ok :: "host \<Rightarrow> preset_spec \<Rightarrow> bool" where
  "preset_ok H p \<longleftrightarrow> extensions_ok [''agents'', ''connections''] (p_extensions p) \<and> list_all (spec_ok H) (p_agents p)"

definition canon_preset :: "preset_spec \<Rightarrow> preset_spec" where
  "canon_preset p = p\<lparr>p_agents := map canon_spec (p_agents p)\<rparr>"

lemma vec_docs_round_trip: "\<forall>x \<in> set xs. f (g x) = Some (h x) \<Longrightarrow> vec_from_json f (JArray (map g xs)) = Some (map h xs)"
  by (induction xs) (auto simp: vec_from_json_def)

lemma preset_spec_round_trip:
  assumes "preset_ok H p"
  shows "preset_spec_from_doc H (preset_spec_to_doc H p) = Some (canon_preset p)"
proof -
  define own where "own = [(''agents'', JArray (map (agent_spec_to_doc H) (p_agents p))),
     (''connections'', JArray (map connection_to_doc (p_connections p)))]"
  have doc: "preset_spec_to_doc H p = JObject (own @ p_extensions p)" by (simp add: preset_spec_to_doc_def own_def)
  have ext: "extensions_ok [''agents'', ''connections''] (p_extensions p)" using assms by (simp add: preset_ok_def)
  have keys: "set (keys_of own) \<subseteq> set [''agents'', ''connections'']" "distinct (keys_of own)" by (simp_all add: own_def)
  have f: "own_fields [''agents'', ''connections''] (own @ p_extensions p) = Some (map_of own)"
    by (rule own_fields_known [OF keys(2,1)]) (use ext in \<open>simp add: extensions_ok_def\<close>)
  have x: "extra_fields [''agents'', ''connections''] (own @ p_extensions p) = p_extensions p"
    by (rule extra_fields_known [OF keys(1) ext])
  have agents: "vec_from_json (agent_spec_from_doc H) (JArray (map (agent_spec_to_doc H) (p_agents p))) =
      Some (map canon_spec (p_agents p))"
    by (rule vec_docs_round_trip) (use assms in \<open>auto simp: preset_ok_def list_all_iff agent_spec_round_trip\<close>)
  have cs: "vec_from_json connection_from_doc (JArray (map connection_to_doc (p_connections p))) =
      Some (map (\<lambda>c. c) (p_connections p))"
    by (rule vec_docs_round_trip) (simp add: connection_round_trip)
  have look: "map_of own ''agents'' = Some (JArray (map (agent_spec_to_doc H) (p_agents p)))"
      "map_of own ''connections'' = Some (JArray (map connection_to_doc (p_connections p)))"
    by (simp_all add: own_def)
  show ?thesis
    unfolding preset_spec_from_doc_def doc
    by (simp only: doc_as_object_def json.case bind.bind_lunit f look field_readers agents cs x)
      (simp add: canon_preset_def)
qed

text \<open>The text of a specification reads back, and no file operation fails.\<close>

definition text_ok :: "file_env \<Rightarrow> string \<Rightarrow> preset_spec \<Rightarrow> bool" where
  "text_ok E path p \<longleftrightarrow> fe_fault E (ReadText path) = None \<and> fe_fault E (CreateFile path) = None \<and>
    fe_fault E (WriteText path) = None \<and>
    (case fe_pretty E (preset_spec_to_doc (fe_host E) p) of
      Inl e \<Rightarrow> False
    | Inr t \<Rightarrow> fe_parse E t = Some (preset_spec_to_doc (fe_host E) p))"

lemma save_and_open:
  assumes p: "get_preset_spec i w = Some p" "preset_ok (fe_host E) p" "text_ok E path p"
    and s: "save_preset E org i path fs w = (fs', w', r)"
  shows "r = Inr () \<and> (\<forall>q. q \<noteq> path \<longrightarrow> map_of fs' q = map_of fs q) \<and>
    open_preset_from_file E I org' path name fs' v = add_preset_raw I org' (canon_preset p) name v"
proof -
  obtain t where t: "fe_pretty E (preset_spec_to_doc (fe_host E) p) = Inr t"
      "fe_parse E t = Some (preset_spec_to_doc (fe_host E) p)"
    using p(3) by (auto simp: text_ok_def split: sum.splits)
  have io: "fe_fault E (ReadText path) = None" "fe_fault E (CreateFile path) = None" "fe_fault E (WriteText path) = None"
    using p(3) by (simp_all add: text_ok_def)
  have written: "preset_spec_to_text E p = Inr t" by (simp add: preset_spec_to_text_def t(1))
  have fs': "fs' = im_insert path t fs" "r = Inr ()"
    using s by (simp_all add: save_preset_def p(1) written write_text_def io(2,3))
  have "read_text E path fs' = Inr t" by (simp add: read_text_def io(1) fs'(1))
  moreover have "preset_spec_from_text E t = Inr (canon_preset p)"
    by (simp add: preset_spec_from_text_def t(2) preset_spec_round_trip [OF p(2)])
  ultimately show ?thesis by (simp add: fs' open_preset_from_file_def)
qed

end

