(* ===== verification/Server.thy ===== *)
theory Server
  imports Saving EventRing
begin

text \<open>
  mcp_server.rs: the tools an external client edits and runs presets with. A request is one call
  of a tool with its parameters, \<open>serve\<close> the handler; the handlers call the operations of the
  orchestrator with the origin \<open>mcp\<close>. Each handler is taken as one step: what other clients do
  while it waits for a lock is not in the model. The transport and the protocol are a third-party
  crate; a reply keeps the document it prints. Printing a value of the types used here cannot
  fail, so the branches for that are left out. The maps of a request iterate in key order.
\<close>

section \<open>Replies\<close>

datatype reply = OkText string | OkJson json | ErrText string

text \<open>The directory for presets, if there is one, and its file operations.\<close>

record server_env =
  sv_io :: file_env
  sv_dir :: "string option"

abbreviation sv_host :: "server_env \<Rightarrow> host" where
  "sv_host E \<equiv> fe_host (sv_io E)"

definition ORIGIN :: "string option" where
  "ORIGIN = Some ''mcp''"

definition preset_error_text :: "agent_error \<Rightarrow> string" where
  "preset_error_text e =
    (case e of
      PresetNameExists n \<Rightarrow> ''Preset name \"'' @ n @ ''\" already exists. Use list_presets to see open presets '' @
        ''(and their ids), then pick a different name or work with the existing preset.''
    | _ \<Rightarrow> error_text e)"

text \<open>A call that only reports.\<close>

definition done_reply :: "string \<Rightarrow> 'u world \<times> unit result \<Rightarrow> 'u world \<times> reply" where
  "done_reply msg x =
    (case x of
      (w, Inl e) \<Rightarrow> (w, ErrText (error_text e))
    | (w, Inr _) \<Rightarrow> (w, OkText msg))"

definition strip_config_specs :: "json \<Rightarrow> json" where
  "strip_config_specs j =
    (case j of JObject m \<Rightarrow> JObject (bt_remove ''config_specs'' m) | _ \<Rightarrow> j)"

definition strip_agents :: "json \<Rightarrow> json" where
  "strip_agents j =
    (case j of JArray as \<Rightarrow> JArray (map strip_config_specs as) | _ \<Rightarrow> j)"

definition preset_spec_result :: "host \<Rightarrow> preset_spec \<Rightarrow> reply" where
  "preset_spec_result H p = OkJson
    (case doc_value (preset_spec_to_doc H p) of
      JObject m \<Rightarrow> JObject (map (\<lambda>(k, j). (k, if k = ''agents'' then strip_agents j else j)) m)
    | j \<Rightarrow> j)"

section \<open>Definitions\<close>

text \<open>The first \<open>n\<close> characters of a text.\<close>

fun take_chars :: "nat \<Rightarrow> string \<Rightarrow> string" where
  "take_chars 0 s = []"
| "take_chars (Suc n) s =
    (case utf8_char s of None \<Rightarrow> [] | Some t \<Rightarrow> take (length s - length t) s @ take_chars n t)"

definition ELLIPSIS :: string where
  "ELLIPSIS = [CHR 0xE2, CHR 0x80, CHR 0xA6]"

definition compact_default :: "host \<Rightarrow> agent_value \<Rightarrow> string" where
  "compact_default H v =
    (let s = h_json_text H (serialize_value H v)
     in if 40 < char_count s then take_chars 40 s @ ELLIPSIS else s)"

definition config_line :: "host \<Rightarrow> string \<times> agent_config_spec \<Rightarrow> string" where
  "config_line H kc =
    fst kc @ '':'' @ unwrap_or (cs_type (snd kc)) ''any'' @ ''='' @ compact_default H (cs_value (snd kc))"

definition shown_configs :: "agent_definition \<Rightarrow> agent_config_specs" where
  "shown_configs d =
    filter (\<lambda>kc. \<not> cs_hidden (snd kc) \<and> \<not> cs_readonly (snd kc)) (unwrap_or (d_configs d) [])"

definition first_line :: "string option \<Rightarrow> string" where
  "first_line d = trim (case d of None \<Rightarrow> [] | Some s \<Rightarrow> (case str_lines s of [] \<Rightarrow> [] | l # ls \<Rightarrow> l))"

definition definition_line :: "host \<Rightarrow> agent_definition \<Rightarrow> string" where
  "definition_line H d =
    d_name d @ '' | '' @ unwrap_or (d_title d) ''-'' @ '' ('' @ unwrap_or (d_category d) ''-'' @ '') | '' @
    first_line (d_description d) @
    '' | in: '' @ join_with '','' (unwrap_or (d_inputs d) []) @
    '' | out: '' @ join_with '','' (unwrap_or (d_outputs d) []) @
    '' | configs: '' @ join_with '', '' (map (config_line H) (shown_configs d))"

definition FORMAT_LINE :: string where
  "FORMAT_LINE = ''Format: def_name | Title (Category) | description | in: input_ports | out: output_ports | configs: key:type=default, ...''"

definition list_agent_definitions :: "host \<Rightarrow> 'u world \<Rightarrow> reply" where
  "list_agent_definitions H w =
    OkText (join_with [newline] ([FORMAT_LINE, []] @ map (\<lambda>(k, d). definition_line H d) (w_defs w)))"

definition definition_to_doc :: "host \<Rightarrow> agent_definition \<Rightarrow> json" where
  "definition_to_doc H d = JObject (
    [(''kind'', JString (d_kind d)), (''name'', JString (d_name d))] @
    opt_entry ''title'' JString (d_title d) @ flag_entry ''hide_title'' (d_hide_title d) @
    opt_entry ''description'' JString (d_description d) @ opt_entry ''category'' JString (d_category d) @
    opt_entry ''inputs'' strings_to_json (d_inputs d) @ opt_entry ''outputs'' strings_to_json (d_outputs d) @
    opt_entry ''configs'' (config_specs_to_doc H) (d_configs d) @
    opt_entry ''global_configs'' (config_specs_to_doc H) (d_global_configs d) @
    (if d_hints d = [] then [] else [(''hints'', JObject (d_hints d))]) @
    flag_entry ''native_thread'' (d_native_thread d))"

definition unknown_definition :: "string \<Rightarrow> reply" where
  "unknown_definition d = ErrText (''Unknown agent definition \"'' @ d @
    ''\". Use list_agent_definitions to see available definitions.'')"

definition get_agent_definition :: "host \<Rightarrow> string \<Rightarrow> 'u world \<Rightarrow> reply" where
  "get_agent_definition H n w =
    (case map_of (w_defs w) n of
      Some d \<Rightarrow> OkJson (definition_to_doc H d)
    | None \<Rightarrow> unknown_definition n)"

section \<open>Checks\<close>

definition validate_preset_name :: "string \<Rightarrow> string + unit" where
  "validate_preset_name n =
    (if n = [] then Inl ''Preset name must not be empty''
     else if CHR 0x5C \<in> set n then Inl ''Preset name must use '/' as the folder separator''
     else if list_all (\<lambda>s. s \<noteq> [] \<and> s \<noteq> ''.'' \<and> s \<noteq> ''..'' \<and> \<not> ends_with '':'' s) (split_on CHR ''/'' n)
     then Inr ()
     else Inl (''Invalid preset name \"'' @ n @
       ''\": must be a relative path without empty, \".\" or \"..\" components''))"

definition is_global_key :: "agent_definition \<Rightarrow> string \<Rightarrow> bool" where
  "is_global_key d k = (case d_global_configs d of None \<Rightarrow> False | Some g \<Rightarrow> has_key g k)"

fun reject_global_config_keys :: "agent_definition \<Rightarrow> string list \<Rightarrow> string + unit" where
  "reject_global_config_keys d [] = Inr ()"
| "reject_global_config_keys d (k # ks) =
    (if is_global_key d k then
       Inl (''\"'' @ k @ ''\" is a GLOBAL configuration of '' @ d_name d @
         ''. Global configs (API keys, tokens, secrets) '' @
         ''are set by the user in the application settings and must never be set on an agent instance.'')
     else reject_global_config_keys d ks)"

definition live_keys :: "agent_spec option \<Rightarrow> string list option" where
  "live_keys live =
    (case live of
      None \<Rightarrow> None
    | Some s \<Rightarrow>
        if s_config_specs s = None \<and> s_configs s = None then None
        else Some (fold (\<lambda>k ks. if k \<in> set ks then ks else ks @ [k])
          (keys_of (unwrap_or (s_config_specs s) []) @ configs_keys (unwrap_or (s_configs s) [])) []))"

definition valid_keys :: "agent_definition \<Rightarrow> agent_spec option \<Rightarrow> string list" where
  "valid_keys d live =
    (case live_keys live of Some ks \<Rightarrow> ks | None \<Rightarrow> keys_of (unwrap_or (d_configs d) []))"

definition valid_list :: "agent_definition \<Rightarrow> agent_spec option \<Rightarrow> string" where
  "valid_list d live = join_with '', '' (filter (\<lambda>k. \<not> starts_with ''_'' k) (valid_keys d live))"

fun check_config_keys :: "agent_definition \<Rightarrow> agent_spec option \<Rightarrow> string list \<Rightarrow> string + unit" where
  "check_config_keys d live [] = Inr ()"
| "check_config_keys d live (k # ks) =
    (if starts_with ''_'' k then
       Inl (''Config \"'' @ k @ ''\" of '' @ d_name d @
         '' is reserved: keys starting with \"_\" hold values parked by a '' @
         ''definition change and cannot be set. Valid configs: ['' @ valid_list d live @ '']'')
     else if k \<notin> set (valid_keys d live) then
       Inl (''Unknown config \"'' @ k @ ''\" for '' @ d_name d @ ''. Valid configs: ['' @ valid_list d live @ '']'')
     else check_config_keys d live ks)"

definition validate_config_keys :: "agent_definition \<Rightarrow> agent_spec option \<Rightarrow> string list \<Rightarrow> string + unit" where
  "validate_config_keys d live ks =
    (case reject_global_config_keys d ks of
      Inl e \<Rightarrow> Inl e
    | Inr _ \<Rightarrow> check_config_keys d live ks)"

definition json_to_agent_value :: "host \<Rightarrow> string \<Rightarrow> json \<Rightarrow> string + agent_value" where
  "json_to_agent_value H k j =
    map_err (\<lambda>e. ''Invalid value for config \"'' @ k @ ''\": '' @ e) (deserialize_value H j)"

section \<open>Presets\<close>

definition info_to_doc :: "preset_info \<Rightarrow> json" where
  "info_to_doc p = JObject [(''id'', JString (pi_id p)),
    (''name'', case pi_name p of None \<Rightarrow> JNull | Some n \<Rightarrow> JString n), (''running'', JBool (pi_running p))]"

definition list_presets :: "'u world \<Rightarrow> reply" where
  "list_presets w = OkJson (JArray (map info_to_doc (get_preset_infos w)))"

definition create_preset :: "'u impls \<Rightarrow> string \<Rightarrow> 'u world \<Rightarrow> 'u world \<times> reply" where
  "create_preset I n w =
    (case validate_preset_name n of
      Inl e \<Rightarrow> (w, ErrText e)
    | Inr _ \<Rightarrow>
        (case new_preset_with_name I ORIGIN n w of
          (w1, Inl e) \<Rightarrow> (w1, ErrText (preset_error_text e))
        | (w1, Inr i) \<Rightarrow> (w1, OkJson (JObject [(''preset_id'', JString i)]))))"

definition tool_preset_spec :: "host \<Rightarrow> string \<Rightarrow> 'u world \<Rightarrow> reply" where
  "tool_preset_spec H i w =
    (case get_preset_spec i w of
      Some p \<Rightarrow> preset_spec_result H p
    | None \<Rightarrow> ErrText (''Preset \"'' @ i @ ''\" not found. Use list_presets to see open presets.''))"

text \<open>\<open>PathBuf::join\<close> with the name of a file, and the directory it is in.\<close>

definition join_path :: "string \<Rightarrow> string \<Rightarrow> string" where
  "join_path d p =
    (if starts_with ''/'' p then p
     else if d = [] \<or> ends_with ''/'' d then d @ p
     else d @ ''/'' @ p)"

definition path_parent :: "string \<Rightarrow> string" where
  "path_parent p =
    (let r = dropWhile (\<lambda>c. c \<noteq> CHR ''/'') (rev p); d = dropWhile (\<lambda>c. c = CHR ''/'') r
     in if d = [] \<and> r \<noteq> [] then ''/'' else rev d)"

definition preset_path :: "string \<Rightarrow> string \<Rightarrow> string" where
  "preset_path dir n = join_path dir (n @ ''.json'')"

definition create_dir_all :: "file_env \<Rightarrow> string \<Rightarrow> string option" where
  "create_dir_all E d = (if d = [] then None else fe_fault E (CreateDirs d))"

definition remove_file :: "file_env \<Rightarrow> string \<Rightarrow> files \<Rightarrow> files" where
  "remove_file E path fs =
    (if has_key fs path \<and> fe_fault E (RemoveFile path) = None then im_shift_remove path fs else fs)"

definition tool_save_preset :: "server_env \<Rightarrow> string \<Rightarrow> string option \<Rightarrow> files \<Rightarrow> 'u world \<Rightarrow>
    files \<times> 'u world \<times> reply" where
  "tool_save_preset E i name fs w =
    (case sv_dir E of
      None \<Rightarrow> (fs, w, ErrText ''Saving is unavailable: this MCP server was started without a presets directory.'')
    | Some dir \<Rightarrow>
        (let current = Option.bind (get_preset_info i w) pi_name in
         case (case name of Some n \<Rightarrow> Some n | None \<Rightarrow> current) of
           None \<Rightarrow> (fs, w, ErrText ''Preset has no name; pass the \"name\" parameter to save it.'')
         | Some n \<Rightarrow>
             (case validate_preset_name n of
               Inl e \<Rightarrow> (fs, w, ErrText e)
             | Inr _ \<Rightarrow>
                 (let from = (case current of Some old \<Rightarrow> if old \<noteq> n then Some old else None | None \<Rightarrow> None) in
                  case (if from = None then (w, Inr ()) else rename_preset ORIGIN i n w) of
                    (w1, Inl e) \<Rightarrow> (fs, w1, ErrText (preset_error_text e))
                  | (w1, Inr _) \<Rightarrow>
                      (let path = preset_path dir n in
                       case create_dir_all (sv_io E) (path_parent path) of
                         Some e \<Rightarrow> (fs, w1, ErrText (''Failed to create preset directory: '' @ e))
                       | None \<Rightarrow>
                           (case save_preset (sv_io E) ORIGIN i path fs w1 of
                             (fs1, w2, Inl e) \<Rightarrow> (fs1, w2, ErrText (error_text e))
                           | (fs1, w2, Inr _) \<Rightarrow>
                               ((case from of
                                   None \<Rightarrow> fs1
                                 | Some old \<Rightarrow> remove_file (sv_io E) (preset_path dir old) fs1),
                                w2, OkText (''Saved preset \"'' @ n @ ''\"''))))))))"

section \<open>Agents\<close>

text \<open>Values for keys the specification has go into it, the others wait until the agent exists.\<close>

fun place_configs :: "host \<Rightarrow> (string \<times> json) list \<Rightarrow> agent_configs option \<Rightarrow> (string \<times> agent_value) list \<Rightarrow>
    string + agent_configs option \<times> (string \<times> agent_value) list" where
  "place_configs H [] sc deferred = Inr (sc, deferred)"
| "place_configs H ((k, j) # m) sc deferred =
    (case json_to_agent_value H k j of
      Inl e \<Rightarrow> Inl e
    | Inr v \<Rightarrow>
        (case sc of
          Some c \<Rightarrow>
            if configs_contains_key c k then place_configs H m (Some (configs_set k v c)) deferred
            else place_configs H m sc (deferred @ [(k, v)])
        | None \<Rightarrow> place_configs H m sc (deferred @ [(k, v)])))"

definition place_layout :: "(string \<times> f64 option) list \<Rightarrow> agent_spec \<Rightarrow> agent_spec" where
  "place_layout xs s =
    fold (\<lambda>(k, x) s. case x of None \<Rightarrow> s | Some v \<Rightarrow> s\<lparr>s_extensions := im_insert k (json_of_f64 v) (s_extensions s)\<rparr>) xs s"

text \<open>What \<open>add_agent\<close> returns: the specification of the agent, with a warning when there is one.\<close>

definition created_reply :: "host \<Rightarrow> string \<Rightarrow> string option \<Rightarrow> 'u world \<Rightarrow> reply" where
  "created_reply H i warning w =
    (case get_agent_spec i w of
      None \<Rightarrow> OkJson (JObject [(''agent_id'', JString i)])
    | Some s \<Rightarrow> OkJson
        (case (warning, strip_config_specs (doc_value (agent_spec_to_doc H s))) of
          (Some e, JObject m) \<Rightarrow> JObject (bt_insert ''warning'' (JString e) m)
        | (_, j) \<Rightarrow> j))"

record add_agent_params =
  ap_preset :: string
  ap_def :: string
  ap_configs :: "(string \<times> json) list option"
  ap_x :: "f64 option"
  ap_y :: "f64 option"
  ap_width :: "f64 option"
  ap_height :: "f64 option"

definition layout_of :: "add_agent_params \<Rightarrow> (string \<times> f64 option) list" where
  "layout_of p = [(''x'', ap_x p), (''y'', ap_y p), (''width'', ap_width p), (''height'', ap_height p)]"

definition rejected_text :: "string \<Rightarrow> string" where
  "rejected_text e = e @ [newline] @ ''Some agents derive extra configs and ports from another config (e.g. \"n\"). '' @
    ''Set that config when adding the agent, then read the returned spec for the keys it generated.''"

text \<open>The values that waited: they are set when the new agent accepts all of them, otherwise the
  agent is removed again.\<close>

definition undo_added_agent :: "'u impls \<Rightarrow> string \<Rightarrow> string \<Rightarrow> string \<Rightarrow> 'u world \<Rightarrow> 'u world \<times> reply" where
  "undo_added_agent I p i e w =
    (case remove_agent I ORIGIN p i w of
      (w1, Inr _) \<Rightarrow> (w1, ErrText (rejected_text e))
    | (w1, Inl r) \<Rightarrow> (w1, ErrText (rejected_text e @ [newline] @
        ''Rolling the agent back failed, so it remains in the preset as \"'' @ i @ ''\": '' @ error_text r)))"

definition apply_deferred :: "host \<Rightarrow> 'u impls \<Rightarrow> agent_definition \<Rightarrow> string \<Rightarrow> string \<Rightarrow>
    (string \<times> agent_value) list \<Rightarrow> 'u world \<Rightarrow> 'u world \<times> reply" where
  "apply_deferred H I d p i deferred w =
    (let constructed = get_agent_spec i w in
     case (case constructed of
             None \<Rightarrow> Inl (''Agent \"'' @ i @ ''\" vanished right after it was added'')
           | Some s \<Rightarrow> validate_config_keys d (Some s) (map fst deferred)) of
       Inl e \<Rightarrow> undo_added_agent I p i e w
     | Inr _ \<Rightarrow>
         (let merged = fold (\<lambda>(k, v). configs_set k v) deferred (unwrap_or (Option.bind constructed s_configs) configs_new);
              (w1, r) = set_agent_configs I ORIGIN i merged w
          in (w1, created_reply H i
               (case r of
                 Inl e \<Rightarrow> Some (''Agent created, but applying configs reported: '' @ error_text e)
               | Inr _ \<Rightarrow> None) w1)))"

definition tool_add_agent :: "host \<Rightarrow> 'u impls \<Rightarrow> add_agent_params \<Rightarrow> 'u world \<Rightarrow> 'u world \<times> reply" where
  "tool_add_agent H I p w =
    (case map_of (w_defs w) (ap_def p) of
      None \<Rightarrow> (w, unknown_definition (ap_def p))
    | Some d \<Rightarrow>
        (case reject_global_config_keys d (keys_of (unwrap_or (ap_configs p) [])) of
          Inl e \<Rightarrow> (w, ErrText e)
        | Inr _ \<Rightarrow>
            (let (s0, n) = to_spec (w_ids w) d; w0 = w\<lparr>w_ids := n\<rparr> in
             case place_configs H (unwrap_or (ap_configs p) []) (s_configs s0) [] of
               Inl e \<Rightarrow> (w0, ErrText e)
             | Inr (sc, deferred) \<Rightarrow>
                 (case add_agent I ORIGIN (ap_preset p) (place_layout (layout_of p) (s0\<lparr>s_configs := sc\<rparr>)) w0 of
                   (w1, Inl e) \<Rightarrow> (w1, ErrText (error_text e))
                 | (w1, Inr i) \<Rightarrow>
                     (if deferred = [] then (w1, created_reply H i None w1)
                      else apply_deferred H I d (ap_preset p) i deferred w1)))))"

definition agent_not_found :: "string \<Rightarrow> reply" where
  "agent_not_found i = ErrText (''Agent \"'' @ i @ ''\" not found. Use get_preset_spec to list agent ids.'')"

text \<open>The check of a patch of configuration values against the definition of the agent, if it has
  one.\<close>

definition check_patch :: "agent_spec \<Rightarrow> string list \<Rightarrow> 'u world \<Rightarrow> string + unit" where
  "check_patch s ks w =
    (case map_of (w_defs w) (s_def_name s) of
      None \<Rightarrow> Inr ()
    | Some d \<Rightarrow> validate_config_keys d (Some s) ks)"

definition tool_update_agent_spec :: "host \<Rightarrow> 'u impls \<Rightarrow> string \<Rightarrow> (string \<times> json) list \<Rightarrow> 'u world \<Rightarrow>
    'u world \<times> reply" where
  "tool_update_agent_spec H I i m w =
    (if has_key m ''id'' \<or> has_key m ''def_name'' then (w, ErrText ''\"id\" and \"def_name\" cannot be changed'')
     else case get_agent_spec i w of
         None \<Rightarrow> (w, agent_not_found i)
       | Some s \<Rightarrow>
           (case (case map_of m ''configs'' of
                    None \<Rightarrow> Inr ()
                  | Some (JObject c) \<Rightarrow> check_patch s (keys_of c) w
                  | Some _ \<Rightarrow> Inl ''\"configs\" must be a JSON object'') of
             Inl e \<Rightarrow> (w, ErrText e)
           | Inr _ \<Rightarrow> done_reply ''Agent spec updated'' (update_agent_spec H I ORIGIN i (JObject m) w)))"

fun merge_values :: "host \<Rightarrow> (string \<times> json) list \<Rightarrow> agent_configs \<Rightarrow> string + agent_configs" where
  "merge_values H [] c = Inr c"
| "merge_values H ((k, j) # m) c =
    (case json_to_agent_value H k j of
      Inl e \<Rightarrow> Inl e
    | Inr v \<Rightarrow> merge_values H m (configs_set k v c))"

definition tool_set_agent_configs :: "host \<Rightarrow> 'u impls \<Rightarrow> string \<Rightarrow> (string \<times> json) list \<Rightarrow> 'u world \<Rightarrow>
    'u world \<times> reply" where
  "tool_set_agent_configs H I i m w =
    (case get_agent_spec i w of
      None \<Rightarrow> (w, agent_not_found i)
    | Some s \<Rightarrow>
        (case check_patch s (keys_of m) w of
          Inl e \<Rightarrow> (w, ErrText e)
        | Inr _ \<Rightarrow>
            (case merge_values H m (unwrap_or (s_configs s) configs_new) of
              Inl e \<Rightarrow> (w, ErrText e)
            | Inr c \<Rightarrow> done_reply ''Agent configs updated'' (set_agent_configs I ORIGIN i c w))))"

section \<open>Connections\<close>

text \<open>The handles an agent offers as the target of a connection.\<close>

definition target_handle_ok :: "agent_spec \<Rightarrow> string \<Rightarrow> bool" where
  "target_handle_ok s h =
    (case strip_prefix ''config:'' h of
      Some k \<Rightarrow> k \<in> set (configs_keys (unwrap_or (s_configs s) []))
    | None \<Rightarrow> h \<in> set (unwrap_or (s_inputs s) []))"

definition source_handle_ok :: "agent_spec \<Rightarrow> string \<Rightarrow> bool" where
  "source_handle_ok s h \<longleftrightarrow> h = ''err'' \<or> h \<in> set (unwrap_or (s_outputs s) [])"

definition end_not_found :: "string \<Rightarrow> string \<Rightarrow> reply" where
  "end_not_found what i = ErrText (what @ '' agent \"'' @ i @ ''\" not found. Use get_preset_spec to list agent ids.'')"

definition tool_add_connection :: "string \<Rightarrow> connection_spec \<Rightarrow> 'u world \<Rightarrow> 'u world \<times> reply" where
  "tool_add_connection p c w =
    (case get_agent_spec (c_source c) w of
      None \<Rightarrow> (w, end_not_found ''Source'' (c_source c))
    | Some s \<Rightarrow>
        (case get_agent_spec (c_target c) w of
          None \<Rightarrow> (w, end_not_found ''Target'' (c_target c))
        | Some t \<Rightarrow>
            if \<not> source_handle_ok s (c_source_handle c) then
              (w, ErrText (''Invalid source_handle \"'' @ c_source_handle c @ ''\" for agent '' @ c_source c @ '' ('' @
                s_def_name s @ ''). Valid source handles: ['' @ join_with '', '' (unwrap_or (s_outputs s) []) @ ''] or \"err\".''))
            else if \<not> target_handle_ok t (c_target_handle c) then
              (w, ErrText (''Invalid target_handle \"'' @ c_target_handle c @ ''\" for agent '' @ c_target c @ '' ('' @
                s_def_name t @ ''). Valid target handles: ['' @ join_with '', '' (unwrap_or (s_inputs t) []) @ ''] or ['' @
                join_with '', '' (map (\<lambda>k. ''config:'' @ k) (configs_keys (unwrap_or (s_configs t) []))) @ ''].''))
            else done_reply ''Connection added'' (add_connection ORIGIN p c w)))"

definition tool_write_external_input :: "host \<Rightarrow> string \<Rightarrow> json \<Rightarrow> 'u world \<Rightarrow> 'u world \<times> reply" where
  "tool_write_external_input H ch j w =
    (case deserialize_value H j of
      Inl e \<Rightarrow> (w, ErrText (''Invalid value: '' @ e))
    | Inr v \<Rightarrow> done_reply ''Input written'' (write_external_input ch v w))"

text \<open>The tools that only pass a call on.\<close>

abbreviation tool_remove_agent :: "'u impls \<Rightarrow> string \<Rightarrow> string \<Rightarrow> 'u world \<Rightarrow> 'u world \<times> reply" where
  "tool_remove_agent I p i w \<equiv> done_reply ''Agent removed'' (remove_agent I ORIGIN p i w)"

abbreviation tool_remove_connection :: "string \<Rightarrow> connection_spec \<Rightarrow> 'u world \<Rightarrow> 'u world \<times> reply" where
  "tool_remove_connection p c w \<equiv> done_reply ''Connection removed'' (remove_connection ORIGIN p c w)"

abbreviation tool_start_preset :: "string \<Rightarrow> 'u world \<Rightarrow> 'u world \<times> reply" where
  "tool_start_preset i w \<equiv> done_reply ''Preset started'' (start_preset i w)"

abbreviation tool_stop_preset :: "'u impls \<Rightarrow> string \<Rightarrow> 'u world \<Rightarrow> 'u world \<times> reply" where
  "tool_stop_preset I i w \<equiv> done_reply ''Preset stopped'' (stop_preset I i w)"

section \<open>Polling\<close>

definition error_record_to_json :: "error_record \<Rightarrow> json" where
  "error_record_to_json x = json_object
    [(''seq'', json_of_u64 (er_seq x)), (''time_ms'', json_of_u64 (er_time x)),
     (''preset_id'', case er_preset x of None \<Rightarrow> JNull | Some p \<Rightarrow> JString p),
     (''agent_id'', JString (er_agent x)), (''message'', JString (er_message x))]"

definition output_record_to_json :: "host \<Rightarrow> output_record \<Rightarrow> json" where
  "output_record_to_json H x = json_object
    [(''seq'', json_of_u64 (or_seq x)), (''time_ms'', json_of_u64 (or_time x)),
     (''channel'', JString (or_channel x)), (''value'', serialize_value H (or_value x))]"

definition page_reply :: "string \<Rightarrow> ('a \<Rightarrow> json) \<Rightarrow> u64 \<times> u64 \<times> 'a list \<Rightarrow> reply" where
  "page_reply what f x =
    (case x of (c, dropped, rs) \<Rightarrow>
      OkJson (json_object [(''latest_seq'', json_of_u64 c), (''dropped'', json_of_u64 dropped),
        (what, JArray (map f rs))]))"

section \<open>Requests\<close>

datatype request =
    ListAgentDefinitions
  | GetAgentDefinition string
  | ListPresets
  | CreatePreset string
  | GetPresetSpec string
  | AddAgent add_agent_params
  | UpdateAgentSpec string "(string \<times> json) list"
  | SetAgentConfigs string "(string \<times> json) list"
  | RemoveAgent string string
  | AddConnection string connection_spec
  | RemoveConnection string connection_spec
  | SavePreset string "string option"
  | StartPreset string
  | StopPreset string
  | WriteExternalInput string json
  | GetAgentErrors "string option" "u64 option" "nat option"
  | GetExternalOutputs "string option" "u64 option" "nat option"

record 'u server =
  sv_world :: "'u world"
  sv_files :: files
  sv_ring :: event_ring

definition on_world :: "('u world \<Rightarrow> 'u world \<times> reply) \<Rightarrow> 'u server \<Rightarrow> 'u server \<times> reply" where
  "on_world f s = (let (w, r) = f (sv_world s) in (s\<lparr>sv_world := w\<rparr>, r))"

fun serve :: "server_env \<Rightarrow> 'u impls \<Rightarrow> request \<Rightarrow> 'u server \<Rightarrow> 'u server \<times> reply" where
  "serve E I ListAgentDefinitions s = (s, list_agent_definitions (sv_host E) (sv_world s))"
| "serve E I (GetAgentDefinition n) s = (s, get_agent_definition (sv_host E) n (sv_world s))"
| "serve E I ListPresets s = (s, list_presets (sv_world s))"
| "serve E I (CreatePreset n) s = on_world (create_preset I n) s"
| "serve E I (GetPresetSpec i) s = (s, tool_preset_spec (sv_host E) i (sv_world s))"
| "serve E I (AddAgent p) s = on_world (tool_add_agent (sv_host E) I p) s"
| "serve E I (UpdateAgentSpec i m) s = on_world (tool_update_agent_spec (sv_host E) I i m) s"
| "serve E I (SetAgentConfigs i m) s = on_world (tool_set_agent_configs (sv_host E) I i m) s"
| "serve E I (RemoveAgent p i) s = on_world (tool_remove_agent I p i) s"
| "serve E I (AddConnection p c) s = on_world (tool_add_connection p c) s"
| "serve E I (RemoveConnection p c) s =
    on_world (tool_remove_connection p c) s"
| "serve E I (SavePreset i n) s =
    (let (fs, w, r) = tool_save_preset E i n (sv_files s) (sv_world s)
     in (s\<lparr>sv_world := w, sv_files := fs\<rparr>, r))"
| "serve E I (StartPreset i) s = on_world (tool_start_preset i) s"
| "serve E I (StopPreset i) s = on_world (tool_stop_preset I i) s"
| "serve E I (WriteExternalInput ch j) s = on_world (tool_write_external_input (sv_host E) ch j) s"
| "serve E I (GetAgentErrors p since limit) s =
    (s, page_reply ''errors'' error_record_to_json (get_agent_errors p since limit (sv_ring s)))"
| "serve E I (GetExternalOutputs ch since limit) s =
    (s, page_reply ''outputs'' (output_record_to_json (sv_host E)) (get_external_outputs ch since limit (sv_ring s)))"

end
