(* ===== verification/Serving.thy ===== *)
theory Serving
  imports Server Batch Names
begin

text \<open>
  What the tools of the server promise: configuration keys are checked before anything changes, an
  agent that cannot be configured is taken back, connections join existing handles, and files are
  written and removed below the directory of the presets only.
\<close>

section \<open>Configuration keys\<close>

text \<open>The keys a client may set on an agent: known to the live specification, or to the definition
  when the agent has none, not parked and not global.\<close>

definition settable :: "agent_definition \<Rightarrow> agent_spec option \<Rightarrow> string \<Rightarrow> bool" where
  "settable d live k \<longleftrightarrow> \<not> is_global_key d k \<and> \<not> starts_with ''_'' k \<and>
    (case live of
      None \<Rightarrow> k \<in> set (keys_of (unwrap_or (d_configs d) []))
    | Some s \<Rightarrow>
        if s_config_specs s = None \<and> s_configs s = None then k \<in> set (keys_of (unwrap_or (d_configs d) []))
        else k \<in> set (keys_of (unwrap_or (s_config_specs s) [])) \<or> k \<in> set (keys_of (unwrap_or (s_configs s) [])))"

lemma fold_dedup: "set (fold (\<lambda>k ks. if k \<in> set ks then ks else ks @ [k]) xs acc) = set xs \<union> set acc"
  by (induction xs arbitrary: acc) auto

lemma settable_valid: "settable d live k \<longleftrightarrow> \<not> is_global_key d k \<and> \<not> starts_with ''_'' k \<and> k \<in> set (valid_keys d live)"
proof (cases live)
  case (Some s)
  show ?thesis
  proof (cases "s_config_specs s = None \<and> s_configs s = None")
    case True
    then show ?thesis by (simp add: Some settable_def valid_keys_def live_keys_def)
  next
    case False
    then show ?thesis
      by (simp only: Some settable_def valid_keys_def live_keys_def option.case if_False fold_dedup set_append configs_keys_def)
        simp
  qed
qed (simp add: settable_def valid_keys_def live_keys_def)

lemma global_not_settable: "is_global_key d k \<Longrightarrow> \<not> settable d live k"
  by (simp add: settable_def)

lemma reject_iff: "reject_global_config_keys d ks = Inr () \<longleftrightarrow> (\<forall>k \<in> set ks. \<not> is_global_key d k)"
  by (induction ks) auto

lemma check_iff: "check_config_keys d live ks = Inr () \<longleftrightarrow>
    (\<forall>k \<in> set ks. \<not> starts_with ''_'' k \<and> k \<in> set (valid_keys d live))"
  by (induction ks) auto

lemma validate_iff: "validate_config_keys d live ks = Inr () \<longleftrightarrow> (\<forall>k \<in> set ks. settable d live k)"
  using reject_iff [of d ks] check_iff [of d live ks]
  by (auto simp: validate_config_keys_def settable_valid split: sum.splits)

lemma set_keys_im_insert: "set (keys_of (im_insert k v m)) = insert k (set (keys_of m))"
  by (simp only: keys_im_insert) auto

lemma unit_result: "(x :: 'e + unit) \<noteq> Inr () \<Longrightarrow> \<exists>e. x = Inl e"
  by (cases x) auto

text \<open>The specification of the agent \<open>add_agent\<close> builds, as the agent has it right after its
  construction: some agents derive further configurations there.\<close>

definition built_agent :: "host \<Rightarrow> 'u impls \<Rightarrow> agent_definition \<Rightarrow> add_agent_params \<Rightarrow> 'u world \<Rightarrow>
    agent_spec option" where
  "built_agent H I d p w =
    (let (s0, n) = to_spec (w_ids w) d
     in case place_configs H (unwrap_or (ap_configs p) []) (s_configs s0) [] of
          Inl e \<Rightarrow> None
        | Inr (sc, deferred) \<Rightarrow>
            (case add_agent I ORIGIN (ap_preset p) (place_layout (layout_of p) (s0\<lparr>s_configs := sc\<rparr>))
                (w\<lparr>w_ids := n\<rparr>) of
              (w1, Inl e) \<Rightarrow> None
            | (w1, Inr i) \<Rightarrow> get_agent_spec i w1))"

text \<open>The configuration keys a request names, with the definition and the live specification of the
  agent it is for. For \<open>add_agent\<close> these are the keys the definition does not declare, or declares
  as global, and the specification is that of the agent once it is built.\<close>

definition agent_keys :: "string \<Rightarrow> (string \<times> json) list \<Rightarrow> 'u world \<Rightarrow>
    (agent_definition \<times> agent_spec option \<times> string list) option" where
  "agent_keys i m w =
    (case get_agent_spec i w of
      None \<Rightarrow> None
    | Some s \<Rightarrow> map_option (\<lambda>d. (d, Some s, keys_of m)) (map_of (w_defs w) (s_def_name s)))"

fun named_keys :: "host \<Rightarrow> 'u impls \<Rightarrow> request \<Rightarrow> 'u world \<Rightarrow>
    (agent_definition \<times> agent_spec option \<times> string list) option" where
  "named_keys H I (AddAgent p) w =
    map_option (\<lambda>d. (d, built_agent H I d p w,
        filter (\<lambda>k. is_global_key d k \<or> k \<notin> set (keys_of (unwrap_or (d_configs d) [])))
          (keys_of (unwrap_or (ap_configs p) []))))
      (map_of (w_defs w) (ap_def p))"
| "named_keys H I (SetAgentConfigs i m) w = agent_keys i m w"
| "named_keys H I (UpdateAgentSpec i m) w =
    (case map_of m ''configs'' of Some (JObject c) \<Rightarrow> agent_keys i c w | _ \<Rightarrow> None)"
| "named_keys H I r w = None"

lemma on_world_same: "f (sv_world s) = (sv_world s, r) \<Longrightarrow> on_world f s = (s, r)"
  by (simp add: on_world_def)

lemma check_patch_fails:
  assumes "agent_keys i m w = Some (d, live, ks)" "k \<in> set ks" "\<not> settable d live k"
  shows "\<exists>s e. get_agent_spec i w = Some s \<and> check_patch s (keys_of m) w = Inl e"
proof -
  obtain s where s: "get_agent_spec i w = Some s" "map_of (w_defs w) (s_def_name s) = Some d" "live = Some s" "ks = keys_of m"
    using assms(1) by (auto simp: agent_keys_def simp del: map_of_eq_Some_iff split: option.splits)
  have "validate_config_keys d (Some s) (keys_of m) \<noteq> Inr ()"
    using assms(2,3) by (auto simp: validate_iff s(3,4))
  then show ?thesis using unit_result s(1,2) by (auto simp: check_patch_def)
qed

text \<open>On an agent that exists, one key it does not accept refuses the request.\<close>

lemma unsettable_refused:
  assumes n: "named_keys H I q (sv_world s) = Some (d, live, ks)" and k: "k \<in> set ks"
    and bad: "live = None \<or> \<not> settable d live k" and q: "\<And>p. q \<noteq> AddAgent p"
  shows "\<exists>e. serve E I q s = (s, ErrText e)"
  using n
proof (cases q)
  case (AddAgent p)
  then show ?thesis using q by simp
next
  case (UpdateAgentSpec i m)
  then obtain c where c: "map_of m ''configs'' = Some (JObject c)" "agent_keys i c (sv_world s) = Some (d, live, ks)"
    using n by (auto simp del: map_of_eq_Some_iff split: option.splits json.splits)
  have "\<not> settable d live k" using bad c(2) by (auto simp: agent_keys_def split: option.splits)
  from check_patch_fails [OF c(2) k this] obtain sp e where
      "get_agent_spec i (sv_world s) = Some sp" "check_patch sp (keys_of c) (sv_world s) = Inl e" by blast
  then have "\<exists>e. tool_update_agent_spec (sv_host E) I i m (sv_world s) = (sv_world s, ErrText e)"
    by (simp add: tool_update_agent_spec_def c(1) del: map_of_eq_Some_iff)
  then show ?thesis using UpdateAgentSpec by (auto simp: on_world_same)
next
  case (SetAgentConfigs i m)
  then have a: "agent_keys i m (sv_world s) = Some (d, live, ks)" using n by simp
  have "\<not> settable d live k" using bad a by (auto simp: agent_keys_def split: option.splits)
  from check_patch_fails [OF a k this] obtain sp e where
      "get_agent_spec i (sv_world s) = Some sp" "check_patch sp (keys_of m) (sv_world s) = Inl e" by blast
  then have "\<exists>e. tool_set_agent_configs (sv_host E) I i m (sv_world s) = (sv_world s, ErrText e)"
    by (simp add: tool_set_agent_configs_def)
  then show ?thesis using SetAgentConfigs by (auto simp: on_world_same)
qed simp_all

lemma global_add_refused:
  assumes "map_of (w_defs w) (ap_def p) = Some d" and "k \<in> set (keys_of (unwrap_or (ap_configs p) []))"
    and "is_global_key d k"
  shows "\<exists>e. tool_add_agent H I p w = (w, ErrText e)"
proof -
  have "reject_global_config_keys d (keys_of (unwrap_or (ap_configs p) [])) \<noteq> Inr ()"
    using assms(2,3) unfolding reject_iff by blast
  then obtain e where "reject_global_config_keys d (keys_of (unwrap_or (ap_configs p) [])) = Inl e"
    using unit_result by blast
  then show ?thesis using assms(1) by (simp add: tool_add_agent_def del: map_of_eq_Some_iff)
qed

text \<open>The keys that wait until the agent exists are those its definition does not declare.\<close>

lemma place_configs_deferred:
  assumes "place_configs H m sc df = Inr (sc', df')"
  shows "set (map fst df') = set (map fst df) \<union>
    {k \<in> set (keys_of m). k \<notin> set (keys_of (unwrap_or sc []))}"
  using assms
proof (induction H m sc df arbitrary: sc' df' rule: place_configs.induct)
  case (2 H k j m sc df)
  obtain v where v: "json_to_agent_value H k j = Inr v"
    using 2(4) by (cases "json_to_agent_value H k j") auto
  show ?case
  proof (cases "\<exists>c. sc = Some c \<and> configs_contains_key c k")
    case True
    then obtain c where c: "sc = Some c" "has_key c k" by (auto simp: configs_contains_key_def)
    have kc: "k \<in> set (keys_of c)" using c(2) unfolding key_iff_lookup .
    then have "set (keys_of (configs_set k v c)) = set (keys_of c)"
      by (simp only: configs_set_def set_keys_im_insert) blast
    then show ?thesis
      using 2(2) [OF v c(1)] 2(4) c v kc by (auto simp: configs_contains_key_def)
  next
    case False
    then have d: "place_configs H m sc (df @ [(k, v)]) = Inr (sc', df')"
      using 2(4) v by (auto split: option.splits if_splits)
    have "k \<notin> set (keys_of (unwrap_or sc []))"
      using False by (cases sc) (auto simp: configs_contains_key_def map_of_eq_None_iff)
    moreover have "set (map fst df') = set (map fst (df @ [(k, v)])) \<union>
        {k \<in> set (keys_of m). k \<notin> set (keys_of (unwrap_or sc []))}"
      using 2(1,3) v d False by (cases sc) auto
    ultimately show ?thesis by auto
  qed
qed simp

lemma set_keys_from_iter: "set (keys_of (fold (\<lambda>(k, v). configs_set k v) xs c)) = set (keys_of xs) \<union> set (keys_of c)"
proof (induction xs arbitrary: c)
  case (Cons kv xs)
  obtain k v where kv: "kv = (k, v)" by (cases kv)
  have "set (keys_of (configs_set k v c)) = insert k (set (keys_of c))"
    unfolding configs_set_def by (rule set_keys_im_insert)
  then show ?case by (simp add: kv Cons.IH del: set_map)
qed simp

lemma declared_keys:
  assumes "to_spec n d = (s0, n')"
  shows "set (keys_of (unwrap_or (s_configs s0) [])) = set (keys_of (unwrap_or (d_configs d) []))"
proof (cases "d_configs d")
  case (Some ds)
  then have "s_configs s0 = Some (fold (\<lambda>(k, v). configs_set k v) (map (\<lambda>(k, c). (k, cs_value c)) ds) configs_new)"
    using assms by (auto simp: to_spec_def new_id_def default_configs_def configs_from_iter_def)
  then show ?thesis
    by (simp only: Some unwrap_or_simps set_keys_from_iter) (simp add: configs_new_def comp_def case_prod_beta)
qed (use assms in \<open>auto simp: to_spec_def new_id_def\<close>)

lemma undo_is_error: "\<exists>w' e. undo_added_agent I p i x w = (w', ErrText e)"
  by (cases "remove_agent I ORIGIN p i w") (auto simp: undo_added_agent_def split: sum.split)

text \<open>A key that is not declared and that the built agent does not accept makes \<open>add_agent\<close> fail.\<close>

lemma unaccepted_add_fails:
  assumes d: "map_of (w_defs w) (ap_def p) = Some d" and k: "k \<in> set (keys_of (unwrap_or (ap_configs p) []))"
    and u: "k \<notin> set (keys_of (unwrap_or (d_configs d) []))"
    and bad: "\<And>sp. built_agent H I d p w = Some sp \<Longrightarrow> \<not> settable d (Some sp) k"
  shows "\<exists>w' e. tool_add_agent H I p w = (w', ErrText e)"
proof (cases "reject_global_config_keys d (keys_of (unwrap_or (ap_configs p) []))")
  case (Inl err)
  then show ?thesis using d by (simp add: tool_add_agent_def del: map_of_eq_Some_iff)
next
  case (Inr x)
  obtain s0 n where s0: "to_spec (w_ids w) d = (s0, n)" by (cases "to_spec (w_ids w) d")
  show ?thesis
  proof (cases "place_configs H (unwrap_or (ap_configs p) []) (s_configs s0) []")
    case (Inl err)
    then show ?thesis using d Inr s0 by (simp add: tool_add_agent_def del: map_of_eq_Some_iff)
  next
    case P: (Inr sd)
    obtain sc df where sd: "sd = (sc, df)" by (cases sd)
    have kd: "k \<in> set (map fst df)"
      using place_configs_deferred [OF P [unfolded sd]] declared_keys [OF s0] k u by blast
    let ?s = "place_layout (layout_of p) (s0\<lparr>s_configs := sc\<rparr>)"
    obtain w1 y where a: "add_agent I ORIGIN (ap_preset p) ?s (w\<lparr>w_ids := n\<rparr>) = (w1, y)"
      by (cases "add_agent I ORIGIN (ap_preset p) ?s (w\<lparr>w_ids := n\<rparr>)")
    have eq: "tool_add_agent H I p w = (case y of
        Inl e \<Rightarrow> (w1, ErrText (error_text e))
      | Inr i \<Rightarrow> if df = [] then (w1, created_reply H i None w1)
          else apply_deferred H I d (ap_preset p) i df w1)"
      using a by (simp add: tool_add_agent_def d Inr s0 P sd del: map_of_eq_Some_iff)
    show ?thesis
    proof (cases y)
      case (Inl e)
      then show ?thesis using eq by simp
    next
      case I: (Inr i)
      have "df \<noteq> []" using kd by auto
      have b: "built_agent H I d p w = get_agent_spec i w1"
        using a I by (simp add: built_agent_def s0 P sd)
      have "\<exists>e. apply_deferred H I d (ap_preset p) i df w1 = undo_added_agent I (ap_preset p) i e w1"
      proof (cases "get_agent_spec i w1")
        case (Some sp)
        then have "validate_config_keys d (Some sp) (map fst df) \<noteq> Inr ()"
          using bad [of sp] b kd unfolding validate_iff by metis
        then obtain e where "validate_config_keys d (Some sp) (map fst df) = Inl e" using unit_result by blast
        then show ?thesis using Some by (auto simp: apply_deferred_def)
      qed (auto simp: apply_deferred_def)
      then show ?thesis using eq I \<open>df \<noteq> []\<close> undo_is_error [of I "ap_preset p" i _ w1] by auto
    qed
  qed
qed

section \<open>Taking an agent back\<close>

context agent_contract
begin

lemma add_agent_op_spec:
  assumes r: "add_agent I org p s w = (w', x)" and h: "get_preset p w = Some h" "h < length (w_preset_objs w)"
  shows "w_connections w' = w_connections w \<and> w_presets w' = w_presets w \<and>
    length (w_preset_objs w') = length (w_preset_objs w) \<and>
    (case x of
      Inl e \<Rightarrow> w_agents w' = w_agents w \<and> w_preset_objs w' = w_preset_objs w
    | Inr i \<Rightarrow> i = usize_to_string (w_ids w) \<and> map_of (w_agents w) i = None \<and>
        w_agents w' = im_insert i (length (w_objs w)) (w_agents w) \<and>
        length (w_objs w') = Suc (length (w_objs w)) \<and> a_status (w_objs w' ! length (w_objs w)) = Init \<and>
        (\<exists>c. s_id c = i \<and> spec_of h w' = preset_add_agent c (spec_of h w)))"
proof -
  let ?i = "usize_to_string (w_ids w)" and ?w = "w\<lparr>w_ids := w_ids w + 1\<rparr>"
  have h1: "map_of (w_presets w) p = Some h" using h by (simp add: get_preset_def)
  obtain w2 y where a: "add_agent_internal I p (s\<lparr>s_id := ?i\<rparr>) ?w = (w2, y)"
    by (cases "add_agent_internal I p (s\<lparr>s_id := ?i\<rparr>) ?w")
  note A = add_agent_internal_spec [OF a]
  have e: "add_agent I org p s w = (case y of Inl e \<Rightarrow> (w2, Inl e)
    | Inr c \<Rightarrow> (notify org (PresetStructureChanged p) (update_preset_obj h (map_spec (preset_add_agent c)) w2), Inr ?i))"
    by (simp add: add_agent_def h1 world_new_id_def new_id_def a del: map_of_eq_Some_iff)
  show ?thesis
  proof (cases y)
    case (Inl err)
    then show ?thesis using r e A by auto
  next
    case (Inr c)
    have "a_status (last (w_objs w2)) = Init"
      using a Inr by (auto simp: add_agent_internal_def agent_new_def Let_def
          simp del: map_of_eq_Some_iff split: if_splits option.splits prod.splits sum.splits)
    moreover obtain b where "w_objs w2 = w_objs w @ [b]" using A Inr by auto
    ultimately have st: "length (w_objs w2) = Suc (length (w_objs w))" "a_status (w_objs w2 ! length (w_objs w)) = Init"
      by simp_all
    have w': "w' = notify org (PresetStructureChanged p) (update_preset_obj h (map_spec (preset_add_agent c)) w2)"
      "x = Inr ?i" using r e Inr by auto
    have sel: "w_agents w' = w_agents w2" "w_objs w' = w_objs w2" "w_connections w' = w_connections w2"
      "w_presets w' = w_presets w2" "length (w_preset_objs w') = length (w_preset_objs w2)"
      by (simp_all add: w' notify_def update_preset_obj_def)
    have sp: "spec_of h w' = preset_add_agent c (spec_of h w2)"
      using h(2) A by (simp add: w' notify_def spec_of_def update_preset_obj_def map_spec_def)
    have "spec_of h w2 = spec_of h w" using A by (simp add: spec_of_def)
    then have "\<exists>c. s_id c = ?i \<and> spec_of h w' = preset_add_agent c (spec_of h w)"
      using A Inr sp by (intro exI [of _ c]) simp
    then show ?thesis using A Inr st by (simp add: sel w'(2))
  qed
qed

text \<open>An agent that is not running is removed without a call into its implementation.\<close>

lemma stop_idle:
  assumes "map_of (w_agents w) i = Some k" "a_status (w_objs w ! k) \<noteq> Start"
  shows "is_ok (snd (stop_agent I i w))"
proof -
  let ?w1 = "cancel_agent_token i (send_stop i w)"
  have "w_agents ?w1 = w_agents w" "w_objs ?w1 = w_objs w"
    by (simp_all add: cancel_agent_token_def send_stop_def Let_def case_prod_beta split: option.split)
  then show ?thesis using assms by (simp add: stop_agent_def Let_def del: map_of_eq_Some_iff)
qed

lemma remove_idle:
  assumes "get_preset p w = Some h" "is_ok (snd (stop_agent I i w))"
  shows "\<exists>w'. remove_agent I org p i w = (w', Inr ())"
proof -
  obtain w1 u where "stop_agent I i w = (w1, Inr u)"
    using assms(2) by (cases "stop_agent I i w"; cases "snd (stop_agent I i w)") auto
  then show ?thesis using assms(1)
    by (auto simp: get_preset_def remove_agent_def remove_agent_internal_def Let_def simp del: map_of_eq_Some_iff)
qed

lemma add_agent_undone:
  assumes r: "add_agent I org p s w = (w1, Inr i)" and h: "get_preset p w = Some h" "h < length (w_preset_objs w)"
    and d: "distinct (keys_of (w_agents w))" and wf: "conns_wf (w_connections w)"
    and fresh: "\<forall>c \<in> edges (w_connections w). c_source c \<noteq> i \<and> c_target c \<noteq> i"
      "\<forall>a \<in> set (p_agents (spec_of h w)). s_id a \<noteq> i"
    and u: "undo_added_agent I p i e w1 = (w2, q)"
  shows "q = ErrText (rejected_text e) \<and> map_of (w_agents w2) = map_of (w_agents w) \<and>
    edges (w_connections w2) = edges (w_connections w) \<and> spec_of h w2 = spec_of h w"
proof -
  note A = add_agent_op_spec [OF r h, simplified]
  have h1: "get_preset p w1 = Some h" "h < length (w_preset_objs w1)" using A h by (simp_all add: get_preset_def)
  have ok: "is_ok (snd (stop_agent I i w1))" by (rule stop_idle [of w1 i "length (w_objs w)"]) (use A in simp_all)
  obtain w' where w': "remove_agent I ORIGIN p i w1 = (w', Inr ())" using remove_idle [OF h1(1) ok] by blast
  have d1: "distinct (keys_of (w_agents w1))" and wf1: "conns_wf (w_connections w1)" using A d wf by simp_all
  note R = remove_agent_spec [OF w' d1 wf1 h1]
  have u': "w2 = w'" "q = ErrText (rejected_text e)" using u w' by (simp_all add: undo_added_agent_def)
  obtain c where c: "s_id c = i" "spec_of h w1 = preset_add_agent c (spec_of h w)" using A by auto
  have "filter (\<lambda>a. s_id a \<noteq> i) (p_agents (spec_of h w)) = p_agents (spec_of h w)" using fresh(2) by (auto intro: filter_True)
  then have "preset_remove_agent i (preset_add_agent c (spec_of h w)) = spec_of h w"
    by (simp add: preset_remove_agent_def preset_add_agent_def c(1))
  moreover have "map_of (w_agents w') = map_of (w_agents w)"
    using R(1) ok A by (auto simp: fun_eq_iff simp del: map_of_eq_Some_iff)
  moreover have "edges (w_connections w') = edges (w_connections w)" using R(3) ok A fresh(1) by auto
  ultimately show ?thesis using R(4) c(2) by (simp add: u')
qed

lemma failed_add_undone:
  assumes t: "tool_add_agent H I q w = (w', ErrText e)"
    and h: "get_preset (ap_preset q) w = Some h" "h < length (w_preset_objs w)"
    and d: "distinct (keys_of (w_agents w))" and wf: "conns_wf (w_connections w)"
    and fresh: "\<forall>c \<in> edges (w_connections w). c_source c \<noteq> usize_to_string (w_ids w + 1) \<and> c_target c \<noteq> usize_to_string (w_ids w + 1)"
      "\<forall>a \<in> set (p_agents (spec_of h w)). s_id a \<noteq> usize_to_string (w_ids w + 1)"
  shows "map_of (w_agents w') = map_of (w_agents w) \<and> edges (w_connections w') = edges (w_connections w) \<and>
    spec_of h w' = spec_of h w"
proof (cases "map_of (w_defs w) (ap_def q)")
  case None
  then show ?thesis using t by (simp add: tool_add_agent_def)
next
  case (Some df)
  show ?thesis
  proof (cases "reject_global_config_keys df (keys_of (unwrap_or (ap_configs q) []))")
    case (Inl err)
    then show ?thesis using t Some by (simp add: tool_add_agent_def del: map_of_eq_Some_iff)
  next
    case (Inr u)
    define w0 where "w0 = w\<lparr>w_ids := w_ids w + 1\<rparr>"
    obtain s0 where s0: "to_spec (w_ids w) df = (s0, w_ids w + 1)" by (simp add: to_spec_def new_id_def)
    show ?thesis
    proof (cases "place_configs H (unwrap_or (ap_configs q) []) (s_configs s0) []")
      case (Inl err)
      then show ?thesis using t Some Inr s0 by (auto simp: tool_add_agent_def spec_of_def simp del: map_of_eq_Some_iff)
    next
      case P: (Inr sd)
      obtain sc df' where sd: "sd = (sc, df')" by (cases sd)
      let ?s = "place_layout (layout_of q) (s0\<lparr>s_configs := sc\<rparr>)"
      obtain w1 x where a: "add_agent I ORIGIN (ap_preset q) ?s w0 = (w1, x)"
        by (cases "add_agent I ORIGIN (ap_preset q) ?s w0")
      have h0: "get_preset (ap_preset q) w0 = Some h" "h < length (w_preset_objs w0)"
        using h by (simp_all add: w0_def get_preset_def)
      note A = add_agent_op_spec [OF a h0]
      have eq: "tool_add_agent H I q w = (case x of
          Inl e \<Rightarrow> (w1, ErrText (error_text e))
        | Inr i \<Rightarrow> if df' = [] then (w1, created_reply H i None w1)
            else apply_deferred H I df (ap_preset q) i df' w1)"
        using a by (simp add: tool_add_agent_def Some Inr s0 P sd w0_def del: map_of_eq_Some_iff)
      show ?thesis
      proof (cases x)
        case (Inl err)
        then show ?thesis using t eq A by (auto simp: w0_def spec_of_def)
      next
        case I: (Inr i)
        have i: "i = usize_to_string (w_ids w + 1)" using A I by (simp add: w0_def)
        have no: "created_reply H i v w'' \<noteq> ErrText e" for v and w'' :: "'u world"
          by (simp add: created_reply_def split: option.split)
        have "df' \<noteq> []" using t eq I no by auto
        then have ad: "apply_deferred H I df (ap_preset q) i df' w1 = (w', ErrText e)" using t eq I by simp
        obtain err where un: "undo_added_agent I (ap_preset q) i err w1 = (w', ErrText e)"
          using ad no by (auto simp: apply_deferred_def Let_def case_prod_beta split: sum.splits option.splits)
        show ?thesis
          using add_agent_undone [OF a [unfolded I] h0 _ _ _ _ un] d wf fresh by (simp add: w0_def i spec_of_def)
      qed
    qed
  qed
qed

end

text \<open>What adding an agent relies on: the tables are well formed, and the id the new agent will get is
  not in use.\<close>

definition graph_ok :: "'u world \<Rightarrow> bool" where
  "graph_ok w \<longleftrightarrow> distinct (keys_of (w_agents w)) \<and> conns_wf (w_connections w) \<and>
    (\<forall>p h. get_preset p w = Some h \<longrightarrow> h < length (w_preset_objs w) \<and>
      (\<forall>a \<in> set (p_agents (spec_of h w)). s_id a \<noteq> usize_to_string (w_ids w + 1))) \<and>
    (\<forall>c \<in> edges (w_connections w).
      c_source c \<noteq> usize_to_string (w_ids w + 1) \<and> c_target c \<noteq> usize_to_string (w_ids w + 1))"

definition same_graph :: "string \<Rightarrow> 'u world \<Rightarrow> 'u world \<Rightarrow> bool" where
  "same_graph p w w' \<longleftrightarrow> map_of (w_agents w') = map_of (w_agents w) \<and>
    edges (w_connections w') = edges (w_connections w) \<and>
    (\<forall>h. get_preset p w = Some h \<longrightarrow> spec_of h w' = spec_of h w)"

context agent_contract
begin

lemma failed_add_same_graph:
  assumes t: "tool_add_agent H I q w = (w', ErrText e)" and ok: "graph_ok w"
  shows "same_graph (ap_preset q) w w'"
proof (cases "get_preset (ap_preset q) w")
  case (Some h)
  then show ?thesis
    using failed_add_undone [OF t Some] ok unfolding graph_ok_def same_graph_def by fastforce
next
  case None
  then have "map_of (w_presets w) (ap_preset q) = None" by (simp add: get_preset_def)
  then have "w_agents w' = w_agents w \<and> w_connections w' = w_connections w"
    using t by (auto simp: tool_add_agent_def add_agent_def Let_def to_spec_def new_id_def
        simp del: map_of_eq_Some_iff split: option.splits sum.splits prod.splits)
  then show ?thesis using None by (simp add: same_graph_def)
qed

lemma bad_key_refused:
  assumes n: "named_keys (sv_host E) I q (sv_world s) = Some (d, live, ks)" and k: "k \<in> set ks"
    and bad: "live = None \<or> \<not> settable d live k" and ok: "graph_ok (sv_world s)"
  obtains s' e where "serve E I q s = (s', ErrText e)"
    and "(\<forall>p. q \<noteq> AddAgent p) \<or> is_global_key d k \<Longrightarrow> s' = s"
    and "sv_files s' = sv_files s"
    and "\<And>p. q = AddAgent p \<Longrightarrow> same_graph (ap_preset p) (sv_world s) (sv_world s')"
proof (cases "\<exists>p. q = AddAgent p")
  case False
  then obtain e where "serve E I q s = (s, ErrText e)" using unsettable_refused [OF n k bad] by blast
  then show thesis using that [of s e] False by auto
next
  case True
  then obtain p where p: "q = AddAgent p" by blast
  let ?w = "sv_world s"
  from n p have d: "map_of (w_defs ?w) (ap_def p) = Some d" and live: "live = built_agent (sv_host E) I d p ?w"
    and ks: "ks = filter (\<lambda>k. is_global_key d k \<or> k \<notin> set (keys_of (unwrap_or (d_configs d) [])))
      (keys_of (unwrap_or (ap_configs p) []))"
    by (auto simp del: map_of_eq_Some_iff)
  have kk: "k \<in> set (keys_of (unwrap_or (ap_configs p) []))"
    and or: "is_global_key d k \<or> k \<notin> set (keys_of (unwrap_or (d_configs d) []))"
    using k unfolding ks by simp_all
  have "\<exists>w' e. tool_add_agent (sv_host E) I p ?w = (w', ErrText e) \<and> (is_global_key d k \<longrightarrow> w' = ?w)"
  proof (cases "is_global_key d k")
    case True
    then show ?thesis using global_add_refused [OF d kk] by blast
  next
    case False
    with or have u: "k \<notin> set (keys_of (unwrap_or (d_configs d) []))" by blast
    have "\<not> settable d (Some sp) k" if "built_agent (sv_host E) I d p ?w = Some sp" for sp
      using bad that live by simp
    then show ?thesis using unaccepted_add_fails [OF d kk u] False by blast
  qed
  then obtain w' e where t: "tool_add_agent (sv_host E) I p ?w = (w', ErrText e)" and g: "is_global_key d k \<Longrightarrow> w' = ?w"
    by blast
  have sv: "serve E I q s = (s\<lparr>sv_world := w'\<rparr>, ErrText e)" using t p by (simp add: on_world_def)
  show thesis
    by (rule that [OF sv]) (use p g failed_add_same_graph [OF t ok] in auto)
qed

end

section \<open>Files\<close>

text \<open>A path below a directory: a few names, none empty or a step back, after the directory.\<close>

definition inside :: "string \<Rightarrow> string \<Rightarrow> bool" where
  "inside dir path \<longleftrightarrow> (\<exists>ps. ps \<noteq> [] \<and>
    (\<forall>p \<in> set ps. p \<noteq> [] \<and> p \<noteq> ''.'' \<and> p \<noteq> ''..'' \<and> CHR ''/'' \<notin> set p) \<and>
    path = (if dir = [] \<or> ends_with ''/'' dir then dir else dir @ ''/'') @ join_with ''/'' ps)"

lemma join_split: "join_with [c] (split_on c s) = s"
proof (induction s)
  case (Cons d s)
  then show ?case by (cases "split_on c s"; cases "tl (split_on c s)") auto
qed simp

lemma split_no_sep: "p \<in> set (split_on c s) \<Longrightarrow> c \<notin> set p"
  by (induction s arbitrary: p) (auto split: if_splits list.splits)

lemma join_last: "join_with sep (xs @ [x]) @ t = join_with sep (xs @ [x @ t])"
proof (induction xs)
  case (Cons y xs)
  then show ?case by (cases xs) simp_all
qed simp

abbreviation valid_name :: "string \<Rightarrow> bool" where
  "valid_name n \<equiv> validate_preset_name n = Inr ()"

lemma valid_name_iff: "valid_name n \<longleftrightarrow> n \<noteq> [] \<and> CHR 0x5C \<notin> set n \<and>
    (\<forall>s \<in> set (split_on CHR ''/'' n). s \<noteq> [] \<and> s \<noteq> ''.'' \<and> s \<noteq> ''..'' \<and> \<not> ends_with '':'' s)"
  by (auto simp: validate_preset_name_def list_all_iff)

lemma valid_inside:
  assumes "valid_name n"
  shows "inside dir (preset_path dir n)"
proof -
  let ?ss = "split_on CHR ''/'' n"
  obtain xs x where ss: "?ss = xs @ [x]" using split_on_nonempty by (metis rev_exhaust)
  let ?ps = "xs @ [x @ ''.json'']"
  have seg: "\<forall>s \<in> set ?ss. s \<noteq> [] \<and> s \<noteq> ''.'' \<and> s \<noteq> ''..'' \<and> CHR ''/'' \<notin> set s"
    using assms split_no_sep by (auto simp: valid_name_iff)
  then have ps: "\<forall>p \<in> set ?ps. p \<noteq> [] \<and> p \<noteq> ''.'' \<and> p \<noteq> ''..'' \<and> CHR ''/'' \<notin> set p"
    by (auto simp: ss append_eq_Cons_conv)
  have rel: "n @ ''.json'' = join_with ''/'' ?ps" using join_split [of "CHR ''/''" n] join_last [of "''/''" xs x] by (simp add: ss)
  have "hd ?ss \<noteq> []" "CHR ''/'' \<notin> set (hd ?ss)" using seg by (simp_all add: hd_in_set)
  then have "\<not> starts_with ''/'' (n @ ''.json'')"
    by (cases n) (auto split: list.splits if_splits)
  then show ?thesis unfolding inside_def preset_path_def join_path_def rel [symmetric]
    using ps rel by (intro exI [of _ ?ps]) auto
qed

lemma save_preset_other:
  "save_preset E org i path fs w = (fs', w', r) \<Longrightarrow> q \<noteq> path \<Longrightarrow> map_of fs' q = map_of fs q"
  by (auto simp: save_preset_def write_text_def split: option.splits sum.splits prod.splits)

lemma remove_file_other: "q \<noteq> path \<Longrightarrow> map_of (remove_file E path fs) q = map_of fs q"
  by (simp add: remove_file_def)

definition name_of :: "string \<Rightarrow> 'u world \<Rightarrow> string option" where
  "name_of i w = Option.bind (get_preset_info i w) pi_name"

lemma tool_save_files:
  assumes t: "tool_save_preset E i name fs w = (fs', w', r)" and q: "map_of fs' q \<noteq> map_of fs q"
  shows "\<exists>dir n. sv_dir E = Some dir \<and> q = preset_path dir n \<and> (valid_name n \<or> name_of i w = Some n)"
proof (cases "sv_dir E")
  case None
  then show ?thesis using t q by (simp add: tool_save_preset_def)
next
  case (Some dir)
  show ?thesis
  proof (rule ccontr)
    assume n: "\<not> ?thesis"
    have v: "q \<noteq> preset_path dir n" if "valid_name n" for n using n that Some by blast
    have o: "q \<noteq> preset_path dir n" if "name_of i w = Some n" for n using n that Some by blast
    have "map_of fs' q = map_of fs q"
      using t unfolding tool_save_preset_def name_of_def [symmetric]
      by (cases "name_of i w")
        (auto simp: Some Let_def remove_file_other v o dest: save_preset_other [OF _ v]
          split: option.splits sum.splits prod.splits if_splits)
    with q show False by simp
  qed
qed

section \<open>Names\<close>

text \<open>The name index is right and has valid names only.\<close>

definition valid_names :: "'u world \<Rightarrow> bool" where
  "valid_names w \<longleftrightarrow> names_ok w \<and> (\<forall>n \<in> set (keys_of (w_preset_names w)). valid_name n)"

lemma valid_names_view: "names_view w' = names_view w \<Longrightarrow> valid_names w \<Longrightarrow> valid_names w'"
  using names_ok_view [of w' w] by (auto simp: valid_names_def names_view_def)

lemma valid_names_subset:
  "names_ok w' \<Longrightarrow> valid_names w \<Longrightarrow> valid_name n \<Longrightarrow>
    set (keys_of (w_preset_names w')) \<subseteq> insert n (set (keys_of (w_preset_names w))) \<Longrightarrow> valid_names w'"
  unfolding valid_names_def by blast

lemma valid_names_name:
  assumes "valid_names w" "name_of i w = Some n"
  shows "valid_name n"
proof -
  obtain h where h: "get_preset i w = Some h" "pr_name (w_preset_objs w ! h) = Some n"
    using assms(2) by (auto simp: name_of_def get_preset_info_def info_of_def split: bind_splits)
  then have "find_preset_id_by_name n w = Some i" using assms(1) by (auto simp: valid_names_def names_ok_lookup)
  then have "n \<in> set (keys_of (w_preset_names w))"
    by (force simp: find_preset_id_by_name_def dest: map_of_SomeD)
  then show ?thesis using assms(1) unfolding valid_names_def by blast
qed

lemma set_keys_im_retain: "set (keys_of (im_retain P m)) \<subseteq> set (keys_of m)"
  by auto

lemma keys_im_swap_subset: "set (keys_of (im_swap_remove k m)) \<subseteq> set (keys_of m)"
proof -
  have l: "last m \<in> set m" if "has_key m k" using that by (cases m) auto
  have "set (im_swap_remove k m) \<subseteq> set m"
    using l by (auto simp: im_swap_remove_def Let_def dest: in_set_butlastD)
  then show ?thesis unfolding set_map by (rule image_mono)
qed

lemma rename_names_keys:
  "set (keys_of (w_preset_names (fst (rename_preset org i n w)))) \<subseteq> insert n (set (keys_of (w_preset_names w)))"
proof -
  obtain w1 x where r1: "rename_reserve i n w = (w1, x)" by fastforce
  obtain w2 y where r2: "rename_recheck i n w1 = (w2, y)" by fastforce
  have "w_preset_names w1 \<in> {w_preset_names w, im_insert n i (im_retain (\<lambda>_ v. v \<noteq> i) (w_preset_names w))}"
    using r1 by (auto simp: rename_reserve_def simp del: map_of_eq_Some_iff split: option.splits if_splits)
  then have k1: "set (keys_of (w_preset_names w1)) \<subseteq> insert n (set (keys_of (w_preset_names w)))"
    using set_keys_im_retain [of "\<lambda>_ v. v \<noteq> i" "w_preset_names w"]
    by (elim insertE emptyE) (simp_all only: set_keys_im_insert, blast+)
  have "w_preset_names w2 \<in> {w_preset_names w1, im_swap_remove n (w_preset_names w1)}"
    using r2 by (auto simp: rename_recheck_def simp del: map_of_eq_Some_iff split: if_splits)
  then have k2: "set (keys_of (w_preset_names w2)) \<subseteq> set (keys_of (w_preset_names w1))"
    using keys_im_swap_subset [of n "w_preset_names w1"] by (elim insertE emptyE) simp_all
  have "w_preset_names (fst (rename_preset org i n w)) \<in> {w_preset_names w, w_preset_names w1, w_preset_names w2}"
    by (simp add: rename_preset_def r1 r2 rename_commit_def notify_def update_preset_obj_def split: option.split sum.split)
  then show ?thesis using k1 k2 by (elim insertE emptyE) (simp_all only:, blast+)
qed

context agent_contract
begin

lemma add_preset_names_keys:
  "set (keys_of (w_preset_names (fst (add_preset_raw I org s (Some n) w)))) \<subseteq> insert n (set (keys_of (w_preset_names w)))"
proof -
  let ?w1 = "fst (preset_new s w)" and ?p = "named_preset s (Some n) w"
  have 1: "w_preset_names ?w1 = w_preset_names w"
    using view_preset_new [of s w] by (simp only: names_view_def prod.inject)
  have "w_preset_names (populated I ?p ?w1) = im_insert n (pr_id ?p) (w_preset_names w)"
    using view_populated [of ?p ?w1] 1 by (simp add: names_view_def reserve_name_def)
  then have 4: "set (keys_of (w_preset_names (populated I ?p ?w1))) \<subseteq> insert n (set (keys_of (w_preset_names w)))"
    by (simp only: set_keys_im_insert)
  have "w_preset_names (fst (add_preset_raw I org s (Some n) w)) \<in>
      {w_preset_names w, w_preset_names (populated I ?p ?w1), im_swap_remove n (w_preset_names (populated I ?p ?w1))}"
    by (simp add: add_preset_raw_eq Let_def notify_def 1)
  then show ?thesis
    using 4 keys_im_swap_subset [of n "w_preset_names (populated I ?p ?w1)"]
    by (elim insertE emptyE) (simp_all only:, blast+)
qed

lemma view_set_agent_configs: "names_view (fst (set_agent_configs I org i c w)) = names_view w"
proof -
  have o: "names_view (fst (with_obj h (agent_set_configs I c) w)) = names_view w" for h
    by (rule view_obj_frame, rule with_obj_frame) (use set_configs_frame in \<open>fastforce simp: ident_of_def\<close>)
  have s: "names_view (fst (agent_send ch m what w)) = names_view w" for ch m what
    by (simp add: agent_send_def set_chan_def names_view_def split: option.split)
  have e: "names_view (emit_configs_updated org i c v) = names_view v" for v :: "'u world"
    unfolding emit_configs_updated_def by (rule view_fold) auto
  show ?thesis
    using o s by (auto simp: set_agent_configs_def e split: option.split prod.split sum.split) (metis fst_conv)+
qed

lemma view_update_agent_spec: "names_view (fst (update_agent_spec H I org i j w)) = names_view w"
proof -
  have u: "agent_update_spec H I j w a = (w', a', r) \<Longrightarrow> core_of w' = core_of w \<and> ident_of a' = ident_of a"
    for w :: "'u world" and a w' a' r
    by (auto simp: agent_update_spec_def ident_of_def Let_def split: prod.splits sum.splits if_splits
        dest!: configs_changed_frame)
  have "names_view (fst (with_obj h (agent_update_spec H I j) w)) = names_view w" for h
    by (rule view_obj_frame, rule with_obj_frame) (use u in \<open>fastforce simp: ident_of_def\<close>)
  then show ?thesis
    by (auto simp: update_agent_spec_def Let_def case_prod_beta split: option.split)
qed

lemma view_write_external_input: "names_view (fst (write_external_input ch v w)) = names_view w"
  by (rule view_core) (simp add: write_external_input_def case_prod_beta, simp add: world_new_ctx_def core_of_def case_prod_beta)

end

section \<open>Any requests\<close>

fun serve_all :: "server_env \<Rightarrow> 'u impls \<Rightarrow> request list \<Rightarrow> 'u server \<Rightarrow> 'u server" where
  "serve_all E I [] s = s"
| "serve_all E I (q # qs) s = serve_all E I qs (fst (serve E I q s))"

lemma fst_done_reply [simp]: "fst (done_reply msg x) = fst x"
  by (simp add: done_reply_def split: prod.split sum.split)

lemma world_on_world [simp]:
  "sv_world (fst (on_world f s)) = fst (f (sv_world s))" "sv_files (fst (on_world f s)) = sv_files s"
  by (simp_all add: on_world_def case_prod_beta)

lemma fst_after: "f x = (y, r) \<Longrightarrow> P (fst (f x)) \<Longrightarrow> P y"
  by simp

context agent_contract
begin

lemma view_tool_add_connection: "names_view (fst (tool_add_connection p c w)) = names_view w"
  by (simp add: tool_add_connection_def view_add_connection_op split: option.split)

lemma view_tool_update: "names_view (fst (tool_update_agent_spec H I i m w)) = names_view w"
  by (simp add: tool_update_agent_spec_def view_update_agent_spec split: option.split sum.split json.split)

lemma view_tool_set: "names_view (fst (tool_set_agent_configs H I i m w)) = names_view w"
  by (simp add: tool_set_agent_configs_def view_set_agent_configs split: option.split sum.split)

lemma view_tool_write: "names_view (fst (tool_write_external_input H ch j w)) = names_view w"
  by (simp add: tool_write_external_input_def view_write_external_input split: sum.split)

lemma view_undo_added: "names_view (fst (undo_added_agent I p i e w)) = names_view w"
  using view_remove_agent_op [of ORIGIN p i w]
  by (cases "remove_agent I ORIGIN p i w") (simp add: undo_added_agent_def split: sum.split)

lemma view_apply_deferred: "names_view (fst (apply_deferred H I d p i ds w)) = names_view w"
  by (simp add: apply_deferred_def Let_def case_prod_beta view_undo_added view_set_agent_configs split: sum.split)

lemma view_tool_add: "names_view (fst (tool_add_agent H I q w)) = names_view w"
proof -
  have a: "add_agent I ORIGIN p s (w\<lparr>w_ids := n\<rparr>) = (w1, x) \<Longrightarrow> names_view w1 = names_view w" for p s n w1 x
    using view_add_agent_op [of ORIGIN p s "w\<lparr>w_ids := n\<rparr>"] view_ids [of n w] by simp
  show ?thesis
    by (auto simp: tool_add_agent_def Let_def view_ids view_apply_deferred dest: a
        split: option.split sum.split prod.split)
qed

lemma view_save_preset: "save_preset E org i path fs w = (fs', w', r) \<Longrightarrow> names_view w' = names_view w"
  by (auto simp: save_preset_def split: option.splits sum.splits prod.splits)

lemma create_valid:
  assumes "valid_names w"
  shows "valid_names (fst (create_preset I n w))"
proof (cases "valid_name n")
  case True
  let ?w = "fst (new_preset_with_name I ORIGIN n w)"
  have "names_ok ?w" unfolding new_preset_with_name_def
    by (rule add_preset_names_ok) (use assms in \<open>simp add: valid_names_def\<close>)
  moreover have "set (keys_of (w_preset_names ?w)) \<subseteq> insert n (set (keys_of (w_preset_names w)))"
    unfolding new_preset_with_name_def by (rule add_preset_names_keys)
  ultimately have "valid_names ?w" by (rule valid_names_subset [OF _ assms True])
  then show ?thesis using True
    by (cases "new_preset_with_name I ORIGIN n w") (simp add: create_preset_def split: sum.split)
next
  case False
  then show ?thesis using assms unit_result [OF False] by (auto simp: create_preset_def)
qed

lemma save_valid:
  assumes "valid_names w" "tool_save_preset E i name fs w = (fs', w', r)"
  shows "valid_names w'"
proof -
  have rn: "valid_names w1" if "valid_name n" "rename_preset ORIGIN i n w = (w1, x)" for n w1 x
  proof -
    have "names_ok w1" using rename_names_ok [of w ORIGIN i n] assms(1) that(2) by (simp add: valid_names_def)
    then show ?thesis
      by (rule valid_names_subset [OF _ assms(1) that(1)]) (use rename_names_keys [of ORIGIN i n w] that(2) in simp)
  qed
  have sv: "valid_names w1 \<Longrightarrow> save_preset io org i path fs w1 = (fs1, w2, x) \<Longrightarrow> valid_names w2" for io org path w1 fs1 w2 x
    using valid_names_view [OF view_save_preset] by blast
  show ?thesis
    using assms unfolding tool_save_preset_def name_of_def [symmetric]
    by (auto simp: Let_def intro: rn sv split: option.splits sum.splits prod.splits if_splits)
qed

lemma serve_valid:
  assumes "valid_names (sv_world s)"
  shows "valid_names (sv_world (fst (serve E I q s)))"
proof (cases q)
  case (SavePreset i n)
  obtain fs w r where t: "tool_save_preset E i n (sv_files s) (sv_world s) = (fs, w, r)"
    by (cases "tool_save_preset E i n (sv_files s) (sv_world s)")
  then show ?thesis using save_valid [OF assms t] by (simp add: SavePreset)
next
  case (StartPreset i)
  have "names_view (fst (start_preset i (sv_world s))) = names_view (sv_world s)" by (simp add: start_preset_def split: option.split)
  then have "valid_names (fst (start_preset i (sv_world s)))" by (rule valid_names_view [OF _ assms])
  then show ?thesis by (simp add: StartPreset)
next
  case (StopPreset i)
  have "names_view (fst (stop_preset I i (sv_world s))) = names_view (sv_world s)" by (simp add: stop_preset_def split: option.split)
  then have "valid_names (fst (stop_preset I i (sv_world s)))" by (rule valid_names_view [OF _ assms])
  then show ?thesis by (simp add: StopPreset)
qed (simp_all add: assms create_valid valid_names_view [OF _ assms] view_tool_add view_tool_update view_tool_set
    view_tool_write view_tool_add_connection view_remove_agent_op view_remove_connection_op)

lemma serve_files:
  assumes "valid_names (sv_world s)" "sv_dir E = Some dir"
    and "map_of (sv_files (fst (serve E I q s))) path \<noteq> map_of (sv_files s) path"
  shows "inside dir path"
proof -
  obtain i n where q: "q = SavePreset i n" using assms(3) by (cases q) auto
  obtain fs w r where t: "tool_save_preset E i n (sv_files s) (sv_world s) = (fs, w, r)"
    by (cases "tool_save_preset E i n (sv_files s) (sv_world s)")
  then have "map_of fs path \<noteq> map_of (sv_files s) path" using assms(3) by (simp add: q)
  from tool_save_files [OF t this] obtain n' where
      n: "path = preset_path dir n'" "valid_name n' \<or> name_of i (sv_world s) = Some n'"
    using assms(2) by auto
  then have "valid_name n'" using valid_names_name [OF assms(1)] by blast
  then show ?thesis unfolding n(1) by (rule valid_inside)
qed

lemma serve_all_files:
  "valid_names (sv_world s) \<Longrightarrow> sv_dir E = Some dir \<Longrightarrow>
    valid_names (sv_world (serve_all E I qs s)) \<and>
    (\<forall>path. map_of (sv_files (serve_all E I qs s)) path \<noteq> map_of (sv_files s) path \<longrightarrow> inside dir path)"
proof (induction qs arbitrary: s)
  case (Cons q qs)
  from Cons.IH [OF serve_valid [OF Cons.prems(1)] Cons.prems(2)]
  show ?case using serve_files [OF Cons.prems] by (simp del: serve.simps) metis
qed simp

end

section \<open>Connections\<close>

definition joinable :: "connection_spec \<Rightarrow> 'u world \<Rightarrow> bool" where
  "joinable c w \<longleftrightarrow>
    (case (get_agent_spec (c_source c) w, get_agent_spec (c_target c) w) of
      (Some s, Some t) \<Rightarrow> source_handle_ok s (c_source_handle c) \<and> target_handle_ok t (c_target_handle c)
    | _ \<Rightarrow> False)"

lemma tool_connection_spec:
  assumes wf: "conns_wf (w_connections w)" and h: "get_preset p w = Some h" "h < length (w_preset_objs w)"
    and t: "tool_add_connection p c w = (w', r)"
  shows "if joinable c w \<and> c_source_handle c \<noteq> [] \<and> c_target_handle c \<noteq> [] \<and> c \<notin> edges (w_connections w)
    then r = OkText ''Connection added'' \<and> edges (w_connections w') = insert c (edges (w_connections w)) \<and>
      spec_of h w' = preset_add_connection c (spec_of h w)
    else w' = w \<and> (\<exists>e. r = ErrText e)"
proof (cases "joinable c w")
  case True
  obtain v x where a: "add_connection ORIGIN p c w = (v, x)" by fastforce
  note A = add_connection_spec [OF wf h a]
  have k: "has_key (w_agents w) (c_source c)" "has_key (w_agents w) (c_target c)"
    using True by (auto simp: joinable_def get_agent_spec_def split: option.splits)
  have "tool_add_connection p c w = done_reply ''Connection added'' (v, x)"
    using True a by (auto simp: tool_add_connection_def joinable_def split: option.splits)
  then have "w' = v" "r = (case x of Inl e \<Rightarrow> ErrText (error_text e) | Inr _ \<Rightarrow> OkText ''Connection added'')"
    using t by (auto simp: done_reply_def split: sum.splits)
  then show ?thesis using A True k by (auto split: if_splits)
next
  case False
  then show ?thesis
    using t by (auto simp: tool_add_connection_def joinable_def end_not_found_def split: option.splits if_splits)
qed

section \<open>Saving under another name\<close>

lemma rename_spec: "rename_preset org i n w = (w', Inr ()) \<Longrightarrow> get_preset_spec j w' = get_preset_spec j w"
proof -
  assume "rename_preset org i n w = (w', Inr ())"
  then obtain h m where w': "w' = rename_commit org h i n (w\<lparr>w_preset_names := m\<rparr>)"
    by (auto simp: rename_preset_def rename_reserve_def rename_recheck_def split: option.splits if_splits)
  have "spec_of k w' = spec_of k w" for k
    by (cases "h < length (w_preset_objs w)")
      (simp_all add: spec_of_def w' rename_commit_def notify_def update_preset_obj_def nth_list_update list_update_beyond)
  moreover have "get_agent_spec a w' = get_agent_spec a w" "get_preset j w' = get_preset j w" for a
    by (simp_all add: get_agent_spec_def get_preset_def w' rename_commit_def notify_def update_preset_obj_def)
  ultimately show ?thesis by (simp add: get_preset_spec_def cong: option.case_cong)
qed

lemma preset_path_valid:
  assumes "valid_name n"
  shows "preset_path dir n = (if dir = [] \<or> ends_with ''/'' dir then dir else dir @ ''/'') @ n @ ''.json''"
proof -
  have "hd (split_on CHR ''/'' n) \<noteq> []" "n \<noteq> []" using assms by (auto simp: valid_name_iff hd_in_set)
  then have "\<not> starts_with ''/'' (n @ ''.json'')" by (cases n) (auto split: list.splits if_splits)
  then show ?thesis by (simp add: preset_path_def join_path_def)
qed

lemma preset_path_inject: "valid_name n \<Longrightarrow> valid_name m \<Longrightarrow> preset_path dir n = preset_path dir m \<longleftrightarrow> n = m"
  by (simp add: preset_path_valid)

lemma tool_save_moves:
  assumes ok: "valid_names w" and dir: "sv_dir E = Some dir" and p: "get_preset_spec i w = Some p"
    and pk: "preset_ok (sv_host E) p" "text_ok (sv_io E) (preset_path dir n) p"
    and t: "tool_save_preset E i (Some n) fs w = (fs', w', OkText m)"
  shows "open_preset_from_file (sv_io E) I org (preset_path dir n) name fs' v = add_preset_raw I org (canon_preset p) name v \<and>
    (\<forall>q. q \<noteq> preset_path dir n \<and> (\<forall>old. name_of i w = Some old \<longrightarrow> q \<noteq> preset_path dir old) \<longrightarrow> map_of fs' q = map_of fs q) \<and>
    (\<forall>old. name_of i w = Some old \<and> old \<noteq> n \<and> fe_fault (sv_io E) (RemoveFile (preset_path dir old)) = None \<longrightarrow>
      map_of fs' (preset_path dir old) = None) \<and>
    (\<forall>old. name_of i w = Some old \<and> old \<noteq> n \<longrightarrow> find_preset_id_by_name n w' = Some i)"
proof -
  let ?path = "preset_path dir n"
  define prev where "prev = (case name_of i w of Some old \<Rightarrow> if old \<noteq> n then Some old else None | None \<Rightarrow> None)"
  obtain w1 fs1 where v: "valid_name n"
    and rn: "(if prev = None then (w, Inr ()) else rename_preset ORIGIN i n w) = (w1, Inr ())"
    and sv: "save_preset (sv_io E) ORIGIN i ?path fs w1 = (fs1, w', Inr ())"
    and fs': "fs' = (case prev of None \<Rightarrow> fs1 | Some old \<Rightarrow> remove_file (sv_io E) (preset_path dir old) fs1)"
    using t unfolding tool_save_preset_def name_of_def [symmetric] dir option.case Let_def prev_def [symmetric]
    by (auto split: sum.splits prod.splits option.splits)
  have p1: "get_preset_spec i w1 = Some p" using rn p rename_spec by (fastforce split: if_splits)
  note S = save_and_open [OF p1 pk sv]
  have val: "valid_name old" if "name_of i w = Some old" for old by (rule valid_names_name [OF ok that])
  have other: "map_of fs' q = map_of fs1 q" if "\<forall>old. prev = Some old \<longrightarrow> q \<noteq> preset_path dir old" for q
    using that by (cases prev) (simp_all add: fs' remove_file_other)
  have prev_old: "prev = Some old \<longleftrightarrow> name_of i w = Some old \<and> old \<noteq> n" for old
    by (auto simp: prev_def split: option.split)
  have "map_of fs' ?path = map_of fs1 ?path"
    by (rule other) (use val v preset_path_inject in \<open>auto simp: prev_old\<close>)
  then have "open_preset_from_file (sv_io E) I org ?path name fs' v = open_preset_from_file (sv_io E) I org ?path name fs1 v"
    by (simp add: open_preset_from_file_def read_text_def cong: option.case_cong)
  then have 1: "open_preset_from_file (sv_io E) I org ?path name fs' v = add_preset_raw I org (canon_preset p) name v"
    by (rule trans [OF _ conjunct2 [OF conjunct2 [OF S]]])
  have 2: "map_of fs' q = map_of fs q"
    if "q \<noteq> ?path \<and> (\<forall>old. name_of i w = Some old \<longrightarrow> q \<noteq> preset_path dir old)" for q
    using other [of q] save_preset_other [OF sv, of q] that by (simp add: prev_old)
  have 3: "map_of fs' (preset_path dir old) = None"
    if "name_of i w = Some old \<and> old \<noteq> n \<and> fe_fault (sv_io E) (RemoveFile (preset_path dir old)) = None" for old
    using that prev_old [of old] by (auto simp: fs' remove_file_def map_of_eq_None_iff im_shift_remove_def)
  have 4: "find_preset_id_by_name n w' = Some i" if "name_of i w = Some old \<and> old \<noteq> n" for old
  proof -
    have "prev = Some old" using that prev_old by simp
    then have r: "rename_preset ORIGIN i n w = (w1, Inr ())" using rn by simp
    have "names_ok w" using ok by (simp add: valid_names_def)
    then have "find_preset_id_by_name n w1 = Some i" using names_ok_rename r by blast
    moreover have "w_preset_names w' = w_preset_names w1"
      using sv by (auto simp: save_preset_def notify_def split: option.splits sum.splits prod.splits)
    ultimately show ?thesis by (simp add: find_preset_id_by_name_def)
  qed
  show ?thesis by (intro conjI allI impI 1; (rule 2 | rule 3 | rule 4); assumption)
qed

end
