(* ===== verification/McpClient.thy ===== *)
theory McpClient
  imports Tool
begin

text \<open>
  mcp.rs: the tools of external servers. A pool keeps one connection per server; a tool call takes a
  connection from it, sends its request, and after a failure replaces the connection and sends the
  request once more.

  Connections are shared: \<open>mc_conns\<close> are the objects behind the handles, each with its service (the
  number of the process that was started), the lock a running request holds, and the flag \<open>dead\<close>,
  which lives outside that lock. Calls run concurrently. A \<open>mcp_call\<close> is one of them, and
  \<open>pool_step\<close> one of its turns, one turn of a background task that cancels a service, or one of the
  shutdown; a caller may also abandon its call; between any two of them the others may take theirs. The pool is locked while a service
  is started, so looking a connection up and replacing it are one turn. What a process answers, and
  whether it starts, comes with the step. An entry whose service is being cancelled counts as
  cancelled, also when the cancellation reports an error, which is only logged.
\<close>

section \<open>Results\<close>

datatype raw_content = RawText string | RawOther

record call_tool_result =
  cr_content :: "raw_content list"
  cr_is_error :: "bool option"

definition call_tool_result_to_agent_value :: "host \<Rightarrow> call_tool_result \<Rightarrow> agent_value result" where
  "call_tool_result_to_agent_value H r =
    (let data = Array (List.map_filter (\<lambda>c. case c of RawText t \<Rightarrow> Some (String t) | RawOther \<Rightarrow> None) (cr_content r))
     in if cr_is_error r = Some True then Inl (Other (h_json_text H (serialize_value H data))) else Inr data)"

definition tool_arguments :: "host \<Rightarrow> agent_value \<Rightarrow> (string \<times> json) list option" where
  "tool_arguments H v =
    map_option (\<lambda>m. bt_from_iter (map (\<lambda>(k, x). (k, serialize_value H x)) m)) (as_object v)"

section \<open>Connections\<close>

record mcp_server_config =
  mc_command :: string
  mc_args :: "string list"
  mc_env :: "(string \<times> string) list option"

record connection =
  cn_service :: "nat option"
  cn_busy :: bool
  cn_dead :: bool

text \<open>\<open>mc_started\<close> are the services that were started, by number, with the server they are for;
  \<open>mc_cancelling\<close> the background tasks, \<open>mc_shutdown\<close> what the shutdown has still to close, and
  \<open>mc_cancelled\<close> the services that have been told to end.\<close>

record pool =
  mc_pool :: "(string \<times> nat) list"
  mc_conns :: "connection list"
  mc_started :: "string list"
  mc_cancelling :: "nat list"
  mc_shutdown :: "nat list"
  mc_cancelled :: "nat list"

definition pool_new :: pool where
  "pool_new = \<lparr>mc_pool = [], mc_conns = [], mc_started = [], mc_cancelling = [], mc_shutdown = [], mc_cancelled = []\<rparr>"

definition on_conn :: "nat \<Rightarrow> (connection \<Rightarrow> connection) \<Rightarrow> pool \<Rightarrow> pool" where
  "on_conn n f p = p\<lparr>mc_conns := (mc_conns p)[n := f (mc_conns p ! n)]\<rparr>"

definition mark_dead :: "nat \<Rightarrow> pool \<Rightarrow> pool" where
  "mark_dead n = on_conn n (\<lambda>c. c\<lparr>cn_dead := True\<rparr>)"

definition cancel_in_background :: "nat \<Rightarrow> pool \<Rightarrow> pool" where
  "cancel_in_background n p = (mark_dead n p)\<lparr>mc_cancelling := mc_cancelling p @ [n]\<rparr>"

text \<open>Taking the service out of a connection and cancelling it, under its lock.\<close>

definition cancel_service :: "nat \<Rightarrow> pool \<Rightarrow> pool" where
  "cancel_service n p =
    (case cn_service (mc_conns p ! n) of
      None \<Rightarrow> p
    | Some k \<Rightarrow> (on_conn n (\<lambda>c. c\<lparr>cn_service := None\<rparr>) p)\<lparr>mc_cancelled := mc_cancelled p @ [k]\<rparr>)"

text \<open>\<open>try_lock\<close> fails on a busy connection, which then counts as live.\<close>

definition service_gone :: "connection \<Rightarrow> bool" where
  "service_gone c \<longleftrightarrow> \<not> cn_busy c \<and> cn_service c = None"

datatype start_outcome = SpawnFailed string | ServeFailed string | Started

definition start_error :: "string \<Rightarrow> string \<Rightarrow> string \<Rightarrow> agent_error" where
  "start_error what server e = Other (''Failed to start MCP '' @ what @ '' for '' @ [CHR 0x27] @ server @ [CHR 0x27] @ '': '' @ e)"

definition start_service :: "start_outcome \<Rightarrow> string \<Rightarrow> pool \<Rightarrow> pool \<times> nat result" where
  "start_service out server p =
    (case out of
      SpawnFailed e \<Rightarrow> (p, Inl (start_error ''process'' server e))
    | ServeFailed e \<Rightarrow> (p, Inl (start_error ''service'' server e))
    | Started \<Rightarrow>
        (p\<lparr>mc_started := mc_started p @ [server],
           mc_conns := mc_conns p @ [\<lparr>cn_service = Some (length (mc_started p)), cn_busy = False, cn_dead = False\<rparr>],
           mc_pool := im_insert server (length (mc_conns p)) (mc_pool p)\<rparr>,
         Inr (length (mc_conns p))))"

definition get_or_create :: "start_outcome \<Rightarrow> string \<Rightarrow> pool \<Rightarrow> pool \<times> nat result" where
  "get_or_create out server p =
    (case map_of (mc_pool p) server of
      None \<Rightarrow> start_service out server p
    | Some n \<Rightarrow>
        if \<not> cn_dead (mc_conns p ! n) \<and> \<not> service_gone (mc_conns p ! n) then (p, Inr n)
        else start_service out server
          (cancel_in_background n (p\<lparr>mc_pool := im_shift_remove server (mc_pool p)\<rparr>)))"

definition invalidate :: "string \<Rightarrow> pool \<Rightarrow> pool" where
  "invalidate server p =
    (case map_of (mc_pool p) server of
      None \<Rightarrow> p
    | Some n \<Rightarrow>
        if cn_dead (mc_conns p ! n)
        then cancel_in_background n (p\<lparr>mc_pool := im_shift_remove server (mc_pool p)\<rparr>)
        else p)"

definition take_all :: "pool \<Rightarrow> pool \<times> nat list" where
  "take_all p = (p\<lparr>mc_pool := []\<rparr>, map snd (mc_pool p))"

section \<open>Calls\<close>

text \<open>Where a call of a tool is: it wants a connection for its first or second attempt, has one and
  waits for its lock, has sent the request, has failed and not yet said so, or has ended. A call
  that lists the tools of a server has one attempt.\<close>

datatype call_phase =
    Wanting nat
  | Holding nat nat
  | Calling nat nat
  | Failing nat nat agent_error
  | Ended "agent_error + call_tool_result"

text \<open>\<open>ml_sent\<close> records the connections the requests went to, \<open>ml_failed\<close> those of them (or without
  a service) that failed.\<close>

record mcp_call =
  ml_server :: string
  ml_name :: string
  ml_retries :: bool
  ml_phase :: call_phase
  ml_sent :: "nat list"
  ml_failed :: "nat list"

record mcp_state =
  ms_pool :: pool
  ms_calls :: "mcp_call list"

definition set_call :: "nat \<Rightarrow> mcp_call \<Rightarrow> mcp_state \<Rightarrow> mcp_state" where
  "set_call i c s = s\<lparr>ms_calls := (ms_calls s)[i := c]\<rparr>"

definition unavailable :: "mcp_call \<Rightarrow> agent_error" where
  "unavailable c = Other (''MCP service for '' @ [CHR 0x27] @ ml_server c @ [CHR 0x27] @ '' is not available'' @
    (if ml_retries c then '' (tool '' @ [CHR 0x27] @ ml_server c @ ''::'' @ ml_name c @ [CHR 0x27] @ '')'' else []))"

definition transport_error :: "mcp_call \<Rightarrow> string \<Rightarrow> agent_error" where
  "transport_error c e =
    (if ml_retries c
     then Other (''Failed to call MCP tool '' @ [CHR 0x27] @ ml_server c @ ''::'' @ ml_name c @ [CHR 0x27] @ '': '' @ e)
     else Other (''Failed to list MCP tools for '' @ [CHR 0x27] @ ml_server c @ [CHR 0x27] @ '': '' @ e))"

text \<open>Under the lock of the pool: a retry first removes the connection that failed.\<close>

definition call_acquire :: "start_outcome \<Rightarrow> nat \<Rightarrow> nat \<Rightarrow> mcp_call \<Rightarrow> mcp_state \<Rightarrow> mcp_state" where
  "call_acquire out i a c s =
    (let p = (if a = 0 then ms_pool s else invalidate (ml_server c) (ms_pool s)) in
     case get_or_create out (ml_server c) p of
       (p1, Inl e) \<Rightarrow> set_call i (c\<lparr>ml_phase := Ended (Inl e)\<rparr>) (s\<lparr>ms_pool := p1\<rparr>)
     | (p1, Inr n) \<Rightarrow> set_call i (c\<lparr>ml_phase := Holding n a\<rparr>) (s\<lparr>ms_pool := p1\<rparr>))"

text \<open>\<open>call_once\<close>: with the lock of the connection, until the answer.\<close>

definition call_begin :: "nat \<Rightarrow> nat \<Rightarrow> nat \<Rightarrow> mcp_call \<Rightarrow> mcp_state \<Rightarrow> mcp_state" where
  "call_begin i n a c s =
    (case cn_service (mc_conns (ms_pool s) ! n) of
      None \<Rightarrow> set_call i (c\<lparr>ml_phase := Failing n a (unavailable c), ml_failed := ml_failed c @ [n]\<rparr>) s
    | Some k \<Rightarrow> set_call i (c\<lparr>ml_phase := Calling n a, ml_sent := ml_sent c @ [n]\<rparr>)
        (s\<lparr>ms_pool := on_conn n (\<lambda>x. x\<lparr>cn_busy := True\<rparr>) (ms_pool s)\<rparr>))"

definition call_answer :: "string + call_tool_result \<Rightarrow> nat \<Rightarrow> nat \<Rightarrow> nat \<Rightarrow> mcp_call \<Rightarrow> mcp_state \<Rightarrow> mcp_state" where
  "call_answer r i n a c s =
    (let s1 = s\<lparr>ms_pool := on_conn n (\<lambda>x. x\<lparr>cn_busy := False\<rparr>) (ms_pool s)\<rparr> in
     case r of
       Inr v \<Rightarrow> set_call i (c\<lparr>ml_phase := Ended (Inr v)\<rparr>) s1
     | Inl e \<Rightarrow> set_call i (c\<lparr>ml_phase := Failing n a (transport_error c e), ml_failed := ml_failed c @ [n]\<rparr>) s1)"

text \<open>After a failure a call of a tool marks its connection dead, also the second time; a listing
  just returns the error.\<close>

definition call_failed :: "nat \<Rightarrow> nat \<Rightarrow> nat \<Rightarrow> agent_error \<Rightarrow> mcp_call \<Rightarrow> mcp_state \<Rightarrow> mcp_state" where
  "call_failed i n a e c s =
    (if \<not> ml_retries c then set_call i (c\<lparr>ml_phase := Ended (Inl e)\<rparr>) s
     else set_call i (c\<lparr>ml_phase := (if a = 0 then Wanting 1 else Ended (Inl e))\<rparr>)
       (s\<lparr>ms_pool := mark_dead n (ms_pool s)\<rparr>))"

section \<open>Steps\<close>

datatype mcp_event =
    NewCall string string bool
  | Acquire nat start_outcome
  | Begin nat
  | Answer nat "string + call_tool_result"
  | Report nat
  | Abandon nat
  | CancelTask nat
  | ShutdownBegin
  | ShutdownLock nat
  | ShutdownTimeout nat

definition new_call :: "string \<Rightarrow> string \<Rightarrow> bool \<Rightarrow> mcp_call" where
  "new_call server name retries =
    \<lparr>ml_server = server, ml_name = name, ml_retries = retries, ml_phase = Wanting 0, ml_sent = [], ml_failed = []\<rparr>"

definition phase_of :: "nat \<Rightarrow> mcp_state \<Rightarrow> call_phase option" where
  "phase_of i s = (if i < length (ms_calls s) then Some (ml_phase (ms_calls s ! i)) else None)"

definition remove_at :: "nat \<Rightarrow> 'a list \<Rightarrow> 'a list" where
  "remove_at t xs = take t xs @ drop (Suc t) xs"

text \<open>A step, \<open>None\<close> when it cannot be taken now. The shutdown works through its connections in the
  order of a \<open>HashMap\<close>, so any of them may be next.\<close>

fun pool_step :: "mcp_event \<Rightarrow> mcp_state \<Rightarrow> mcp_state option" where
  "pool_step (NewCall server name retries) s = Some (s\<lparr>ms_calls := ms_calls s @ [new_call server name retries]\<rparr>)"
| "pool_step (Acquire i out) s =
    (case phase_of i s of Some (Wanting a) \<Rightarrow> Some (call_acquire out i a (ms_calls s ! i) s) | _ \<Rightarrow> None)"
| "pool_step (Begin i) s =
    (case phase_of i s of
      Some (Holding n a) \<Rightarrow>
        if cn_busy (mc_conns (ms_pool s) ! n) then None else Some (call_begin i n a (ms_calls s ! i) s)
    | _ \<Rightarrow> None)"
| "pool_step (Answer i r) s =
    (case phase_of i s of Some (Calling n a) \<Rightarrow> Some (call_answer r i n a (ms_calls s ! i) s) | _ \<Rightarrow> None)"
| "pool_step (Report i) s =
    (case phase_of i s of Some (Failing n a e) \<Rightarrow> Some (call_failed i n a e (ms_calls s ! i) s) | _ \<Rightarrow> None)"
| "pool_step (Abandon i) s =
    (case phase_of i s of
      None \<Rightarrow> None
    | Some (Ended r) \<Rightarrow> None
    | Some (Calling n a) \<Rightarrow> Some (set_call i ((ms_calls s ! i)\<lparr>ml_phase := Ended (Inl Cancelled)\<rparr>)
        (s\<lparr>ms_pool := on_conn n (\<lambda>x. x\<lparr>cn_busy := False\<rparr>) (ms_pool s)\<rparr>))
    | _ \<Rightarrow> Some (set_call i ((ms_calls s ! i)\<lparr>ml_phase := Ended (Inl Cancelled)\<rparr>) s))"
| "pool_step (CancelTask t) s =
    (let p = ms_pool s; n = mc_cancelling p ! t in
     if t < length (mc_cancelling p) \<and> \<not> cn_busy (mc_conns p ! n)
     then Some (s\<lparr>ms_pool := (cancel_service n p)\<lparr>mc_cancelling := remove_at t (mc_cancelling p)\<rparr>\<rparr>)
     else None)"
| "pool_step ShutdownBegin s =
    (let (p, ns) = take_all (ms_pool s) in Some (s\<lparr>ms_pool := p\<lparr>mc_shutdown := mc_shutdown p @ ns\<rparr>\<rparr>))"
| "pool_step (ShutdownLock t) s =
    (let p = ms_pool s; n = mc_shutdown p ! t in
     if t < length (mc_shutdown p) \<and> \<not> cn_busy (mc_conns p ! n)
     then Some (s\<lparr>ms_pool := (cancel_service n (mark_dead n p))\<lparr>mc_shutdown := remove_at t (mc_shutdown p)\<rparr>\<rparr>)
     else None)"
| "pool_step (ShutdownTimeout t) s =
    (let p = ms_pool s; n = mc_shutdown p ! t in
     if t < length (mc_shutdown p) \<and> cn_busy (mc_conns p ! n)
     then Some (s\<lparr>ms_pool := (cancel_in_background n (mark_dead n p))\<lparr>mc_shutdown := remove_at t (mc_shutdown p)\<rparr>\<rparr>)
     else None)"

fun pool_run :: "mcp_event list \<Rightarrow> mcp_state \<Rightarrow> mcp_state option" where
  "pool_run [] s = Some s"
| "pool_run (e # es) s = Option.bind (pool_step e s) (pool_run es)"

definition mcp_start :: mcp_state where
  "mcp_start = \<lparr>ms_pool = pool_new, ms_calls = []\<rparr>"

end
