(* ===== verification/McpPool.thy ===== *)
theory McpPool
  imports McpClient "HOL-Library.Multiset"
begin

text \<open>
  The pool of connections to tool servers (McpClient) under concurrent calls: an invariant of every
  state its steps reach (\<open>mcp_ok\<close>), preserved by each event (\<open>step_ok\<close>). It says who is responsible
  for every service that was started, who holds every lock, and what each call has done so far.
  Calls make progress (\<open>turns_left\<close>, \<open>not_stuck\<close>), and a connection that works stays
  (\<open>run_keeps\<close>).
\<close>

section \<open>One place for every service\<close>

text \<open>The handles somebody is responsible for: the pool, a background task, the shutdown.\<close>

definition owned :: "pool \<Rightarrow> nat list" where
  "owned p = map snd (mc_pool p) @ mc_cancelling p @ mc_shutdown p"

definition pool_ok :: "pool \<Rightarrow> bool" where
  "pool_ok p \<longleftrightarrow> length (mc_conns p) = length (mc_started p) \<and> distinct (keys_of (mc_pool p)) \<and>
    mset (owned p @ mc_cancelled p) = mset [0..<length (mc_started p)] \<and>
    (\<forall>n < length (mc_conns p). cn_service (mc_conns p ! n) = (if n \<in> set (mc_cancelled p) then None else Some n)) \<and>
    (\<forall>(server, n) \<in> set (mc_pool p). mc_started p ! n = server)"

lemma pool_ok_members:
  assumes "pool_ok p"
  shows "set (owned p) \<union> set (mc_cancelled p) = {..<length (mc_started p)}"
    "distinct (owned p)" "distinct (mc_cancelled p)" "set (owned p) \<inter> set (mc_cancelled p) = {}"
proof -
  have m: "mset (owned p @ mc_cancelled p) = mset [0..<length (mc_started p)]" using assms by (simp add: pool_ok_def)
  show "set (owned p) \<union> set (mc_cancelled p) = {..<length (mc_started p)}"
    using arg_cong [OF m, of set_mset] by auto
  have "distinct (owned p @ mc_cancelled p)" using mset_eq_imp_distinct_iff [OF m] by simp
  then show "distinct (owned p)" "distinct (mc_cancelled p)" "set (owned p) \<inter> set (mc_cancelled p) = {}" by auto
qed

lemma owned_less: "pool_ok p \<Longrightarrow> n \<in> set (owned p) \<Longrightarrow> n < length (mc_conns p)"
  using pool_ok_members(1) [of p] by (auto simp: pool_ok_def)

lemma pooled_owned: "map_of (mc_pool p) server = Some n \<Longrightarrow> n \<in> set (owned p)"
  by (force simp: owned_def dest: map_of_SomeD)

lemma owned_service: "pool_ok p \<Longrightarrow> n \<in> set (owned p) \<Longrightarrow> cn_service (mc_conns p ! n) = Some n"
  using owned_less [of p n] pool_ok_members(4) [of p] by (auto simp: pool_ok_def)

text \<open>What later turns keep of the connections.\<close>

definition extends :: "pool \<Rightarrow> pool \<Rightarrow> bool" where
  "extends p q \<longleftrightarrow> length (mc_conns p) \<le> length (mc_conns q) \<and> (\<exists>xs. mc_started q = mc_started p @ xs) \<and>
    (\<forall>n < length (mc_conns p). (cn_dead (mc_conns p ! n) \<longrightarrow> cn_dead (mc_conns q ! n)) \<and>
      cn_busy (mc_conns q ! n) = cn_busy (mc_conns p ! n)) \<and>
    (\<forall>n < length (mc_conns q). length (mc_conns p) \<le> n \<longrightarrow> \<not> cn_busy (mc_conns q ! n))"

lemma extends_refl [simp]: "extends p p"
  by (simp add: extends_def)

lemma extends_trans:
  assumes "extends p q" "extends q r"
  shows "extends p r"
proof -
  have fresh: "\<not> cn_busy (mc_conns r ! n)" if n: "n < length (mc_conns r)" "length (mc_conns p) \<le> n" for n
  proof (cases "n < length (mc_conns q)")
    case True
    then have "cn_busy (mc_conns r ! n) = cn_busy (mc_conns q ! n)" using assms(2) by (simp add: extends_def)
    then show ?thesis using assms(1) n True by (simp add: extends_def)
  qed (use assms(2) n in \<open>simp add: extends_def\<close>)
  have le: "length (mc_conns p) \<le> length (mc_conns q)" using assms(1) by (simp add: extends_def)
  show ?thesis unfolding extends_def
  proof (intro conjI allI impI)
    fix n
    assume n: "n < length (mc_conns p)"
    then have "n < length (mc_conns q)" using le by simp
    then show "cn_busy (mc_conns r ! n) = cn_busy (mc_conns p ! n)" using assms n by (simp add: extends_def)
    show "cn_dead (mc_conns r ! n)" if "cn_dead (mc_conns p ! n)"
      using assms n that \<open>n < length (mc_conns q)\<close> by (simp add: extends_def)
  next
    show "\<exists>xs. mc_started r = mc_started p @ xs" using assms unfolding extends_def by fastforce
  qed (use assms fresh in \<open>simp_all add: extends_def\<close>)
qed

lemma on_conn_ok:
  "pool_ok p \<Longrightarrow> (\<And>c. cn_service (f c) = cn_service c) \<Longrightarrow> pool_ok (on_conn n f p)"
proof -
  assume p: "pool_ok p" and f: "\<And>c. cn_service (f c) = cn_service c"
  have "cn_service (mc_conns (on_conn n f p) ! m) = cn_service (mc_conns p ! m)" if "m < length (mc_conns p)" for m
    using that f by (cases "m = n") (simp_all add: on_conn_def)
  then show ?thesis using p by (simp add: pool_ok_def) (simp add: on_conn_def owned_def)
qed

lemma mark_dead_ok: "pool_ok p \<Longrightarrow> pool_ok (mark_dead n p)"
  unfolding mark_dead_def by (rule on_conn_ok) simp_all

lemma mark_dead_extends: "extends p (mark_dead n p)"
  by (cases "n < length (mc_conns p)") (auto simp: extends_def mark_dead_def on_conn_def nth_list_update)

lemma mark_dead_sel [simp]:
  "mc_pool (mark_dead n p) = mc_pool p" "mc_started (mark_dead n p) = mc_started p"
  "mc_cancelling (mark_dead n p) = mc_cancelling p" "mc_shutdown (mark_dead n p) = mc_shutdown p"
  "mc_cancelled (mark_dead n p) = mc_cancelled p" "length (mc_conns (mark_dead n p)) = length (mc_conns p)"
  "owned (mark_dead n p) = owned p"
  "n < length (mc_conns p) \<Longrightarrow> cn_dead (mc_conns (mark_dead n p) ! n)"
  "m \<noteq> n \<Longrightarrow> mc_conns (mark_dead n p) ! m = mc_conns p ! m"
  by (simp_all add: mark_dead_def on_conn_def owned_def)

lemma mset_shift_remove:
  "distinct (keys_of m) \<Longrightarrow> map_of m k = Some v \<Longrightarrow>
    mset (map snd m) = add_mset v (mset (map snd (im_shift_remove k m)))"
proof (induction m)
  case (Cons e m)
  show ?case
  proof (cases "fst e = k")
    case True
    then have "im_shift_remove k m = m" using Cons.prems(1) by (intro im_shift_remove_fresh) auto
    then show ?thesis using True Cons.prems(2) by (cases e) (simp add: im_shift_remove_def)
  next
    case False
    then show ?thesis using Cons by (cases e) (simp add: im_shift_remove_def)
  qed
qed simp

definition evict :: "string \<Rightarrow> nat \<Rightarrow> pool \<Rightarrow> pool" where
  "evict server n p = cancel_in_background n (p\<lparr>mc_pool := im_shift_remove server (mc_pool p)\<rparr>)"

lemma evict_sel:
  "mc_pool (evict server n p) = im_shift_remove server (mc_pool p)" "mc_started (evict server n p) = mc_started p"
  "mc_cancelling (evict server n p) = mc_cancelling p @ [n]" "mc_shutdown (evict server n p) = mc_shutdown p"
  "mc_cancelled (evict server n p) = mc_cancelled p" "mc_conns (evict server n p) = mc_conns (mark_dead n p)"
  by (simp_all add: evict_def cancel_in_background_def) (simp add: mark_dead_def on_conn_def)

lemma evict_ok:
  assumes "pool_ok p" "map_of (mc_pool p) server = Some n"
  shows "pool_ok (evict server n p)" "extends p (evict server n p)" "map_of (mc_pool (evict server n p)) server = None"
proof -
  have m: "mset (map snd (mc_pool p)) = add_mset n (mset (map snd (im_shift_remove server (mc_pool p))))"
    by (rule mset_shift_remove) (use assms in \<open>simp_all add: pool_ok_def\<close>)
  have d: "pool_ok (mark_dead n p)" by (rule mark_dead_ok [OF assms(1)])
  have "mset (owned (evict server n p) @ mc_cancelled (evict server n p)) = mset (owned p @ mc_cancelled p)"
    using m by (simp add: owned_def evict_sel)
  moreover have "set (im_shift_remove server (mc_pool p)) \<subseteq> set (mc_pool p)" by (auto simp: im_shift_remove_def)
  ultimately show "pool_ok (evict server n p)"
    using d assms(1) unfolding pool_ok_def evict_sel mark_dead_sel by auto
  show "extends p (evict server n p)" using mark_dead_extends [of p n] by (simp add: extends_def evict_sel)
  show "map_of (mc_pool (evict server n p)) server = None" by (simp add: evict_sel)
qed

lemma start_ok:
  assumes "pool_ok p" "map_of (mc_pool p) server = None" "start_service out server p = (q, r)"
  shows "pool_ok q \<and> extends p q \<and>
    (\<forall>n. r = Inr n \<longrightarrow> n = length (mc_conns p) \<and> n < length (mc_conns q) \<and> mc_started q ! n = server \<and>
      \<not> cn_dead (mc_conns q ! n) \<and> map_of (mc_pool q) server = Some n) \<and>
    (\<forall>k. k \<noteq> server \<longrightarrow> map_of (mc_pool q) k = map_of (mc_pool p) k)"
proof (cases out)
  case Started
  let ?n = "length (mc_conns p)" and ?c = "\<lparr>cn_service = Some (length (mc_started p)), cn_busy = False, cn_dead = False\<rparr>"
  have q: "q = p\<lparr>mc_started := mc_started p @ [server], mc_conns := mc_conns p @ [?c],
      mc_pool := im_insert server ?n (mc_pool p)\<rparr>" and r: "r = Inr ?n"
    using assms(3) Started by (auto simp: start_service_def)
  have len: "length (mc_started p) = ?n" using assms(1) by (simp add: pool_ok_def)
  have fresh: "im_insert server ?n (mc_pool p) = mc_pool p @ [(server, ?n)]"
    using assms(2) by (intro im_insert_fresh) (simp add: map_of_eq_None_iff)
  have members: "set (owned p) \<union> set (mc_cancelled p) = {..<?n}" using pool_ok_members(1) [OF assms(1)] len by simp
  then have small: "x \<in> set (mc_pool p) \<Longrightarrow> snd x < ?n" "x' \<in> set (mc_cancelled p) \<Longrightarrow> x' < ?n" for x x'
    by (auto simp: owned_def)
  have "pool_ok q"
    using assms(1,2) small len
    unfolding pool_ok_def q
    by (auto simp: owned_def fresh nth_append less_Suc_eq map_of_eq_None_iff split: prod.splits dest!: small)
  then show ?thesis using len by (simp add: q r extends_def nth_append)
qed (use assms in \<open>auto simp: start_service_def\<close>)

text \<open>What \<open>get_or_create\<close> returns is pooled, for that server, and not dead. A pooled connection
  always has its service, so only the flag makes the pool replace it.\<close>

lemma get_or_create_ok:
  assumes p: "pool_ok p" and g: "get_or_create out server p = (q, r)"
  shows "pool_ok q \<and> extends p q \<and>
    (\<forall>n. r = Inr n \<longrightarrow> n < length (mc_conns q) \<and> mc_started q ! n = server \<and> \<not> cn_dead (mc_conns q ! n)) \<and>
    (\<forall>k n. map_of (mc_pool p) k = Some n \<and> \<not> cn_dead (mc_conns p ! n) \<longrightarrow> map_of (mc_pool q) k = Some n)"
proof (cases "map_of (mc_pool p) server")
  case None
  then have "start_service out server p = (q, r)" using g by (simp add: get_or_create_def)
  note S = start_ok [OF p None this]
  have "k \<noteq> server" if "map_of (mc_pool p) k = Some n" for k n using that None by auto
  then have "map_of (mc_pool q) k = Some n" if "map_of (mc_pool p) k = Some n" for k n
    using S that by simp
  then show ?thesis using S by blast
next
  case (Some n)
  have n: "n < length (mc_conns p)" "cn_service (mc_conns p ! n) = Some n"
    using owned_less [OF p pooled_owned [OF Some]] owned_service [OF p pooled_owned [OF Some]] by simp_all
  have sv: "mc_started p ! n = server" using p Some by (fastforce simp: pool_ok_def dest: map_of_SomeD)
  show ?thesis
  proof (cases "cn_dead (mc_conns p ! n)")
    case False
    then have "q = p" "r = Inr n" using g Some n by (simp_all add: get_or_create_def service_gone_def)
    then show ?thesis using p n(1) sv False by simp
  next
    case True
    note e = evict_ok [OF p Some]
    have "start_service out server (evict server n p) = (q, r)" using g Some True by (simp add: get_or_create_def evict_def)
    note S = start_ok [OF e(1,3) this]
    have "map_of (mc_pool q) k = Some m" if "map_of (mc_pool p) k = Some m" "\<not> cn_dead (mc_conns p ! m)" for k m
    proof -
      have "k \<noteq> server" using that True Some by auto
      then show ?thesis using S that(1) by (simp add: evict_sel)
    qed
    then show ?thesis using S extends_trans [OF e(2)] by auto
  qed
qed

lemma invalidate_ok:
  assumes p: "pool_ok p"
  shows "pool_ok (invalidate server p) \<and> extends p (invalidate server p) \<and>
    (\<forall>k n. map_of (mc_pool p) k = Some n \<and> \<not> cn_dead (mc_conns p ! n) \<longrightarrow>
      map_of (mc_pool (invalidate server p)) k = Some n \<and> \<not> cn_dead (mc_conns (invalidate server p) ! n))"
proof (cases "map_of (mc_pool p) server")
  case (Some n)
  show ?thesis
  proof (cases "cn_dead (mc_conns p ! n)")
    case True
    then have i: "invalidate server p = evict server n p" using Some by (simp add: invalidate_def evict_def)
    have "map_of (mc_pool (evict server n p)) k = Some m \<and> \<not> cn_dead (mc_conns (evict server n p) ! m)"
      if m: "map_of (mc_pool p) k = Some m" "\<not> cn_dead (mc_conns p ! m)" for k m
    proof -
      have "k \<noteq> server" "m \<noteq> n" using m True Some by auto
      then show ?thesis using m by (simp add: evict_sel)
    qed
    then show ?thesis using evict_ok [OF p Some] i by auto
  qed (use p Some in \<open>simp add: invalidate_def\<close>)
qed (use p in \<open>simp add: invalidate_def\<close>)

text \<open>Closing a connection: its handle leaves the list, its service is cancelled.\<close>

lemma cancel_service_ok:
  assumes p: "pool_ok p" and n: "n \<in> set (owned p)"
    and q: "mset (map snd (mc_pool q) @ mc_cancelling q @ mc_shutdown q) + {#n#} = mset (owned p)"
      "mc_pool q = mc_pool p" "mc_started q = mc_started p" "mc_conns q = mc_conns (cancel_service n p)"
      "mc_cancelled q = mc_cancelled (cancel_service n p)"
  shows "pool_ok q"
proof -
  have sv: "cn_service (mc_conns p ! n) = Some n" "n < length (mc_conns p)"
    using owned_service [OF p n] owned_less [OF p n] by simp_all
  have c: "mc_conns q = (mc_conns p)[n := (mc_conns p ! n)\<lparr>cn_service := None\<rparr>]" "mc_cancelled q = mc_cancelled p @ [n]"
    using q(4,5) sv by (simp_all add: cancel_service_def on_conn_def)
  have "mset (owned q @ mc_cancelled q) = mset (owned p @ mc_cancelled p)"
    using q(1) by (simp add: owned_def c(2))
  moreover have "cn_service (mc_conns q ! m) = (if m \<in> set (mc_cancelled q) then None else Some m)"
    if "m < length (mc_conns q)" for m
    using p that by (cases "m = n") (simp_all add: pool_ok_def c)
  ultimately show ?thesis using p by (simp add: pool_ok_def q(2,3)) (simp add: c)
qed

lemma remove_at_mset: "t < length xs \<Longrightarrow> mset (remove_at t xs) + {#xs ! t#} = mset xs"
  unfolding remove_at_def by (metis add_mset_add_single id_take_nth_drop mset.simps(2) mset_append union_mset_add_mset_right)

lemma cancel_service_sel [simp]:
  "mc_pool (cancel_service n p) = mc_pool p" "mc_started (cancel_service n p) = mc_started p"
  "mc_cancelling (cancel_service n p) = mc_cancelling p" "mc_shutdown (cancel_service n p) = mc_shutdown p"
  by (simp_all add: cancel_service_def on_conn_def split: option.split)

lemma cancel_service_extends: "extends p (cancel_service n p)"
  by (cases "n < length (mc_conns p)")
    (auto simp: extends_def cancel_service_def on_conn_def nth_list_update split: option.split)

section \<open>Calls that share the pool\<close>

text \<open>What a call has done: at most two attempts, the second after the first has marked its connection
  dead, on another one.\<close>

definition one_failed :: "pool \<Rightarrow> mcp_call \<Rightarrow> nat \<Rightarrow> bool" where
  "one_failed p c n \<longleftrightarrow> ml_failed c = [n] \<and> cn_dead (mc_conns p ! n) \<and> ml_retries c"

definition phase_ok :: "pool \<Rightarrow> mcp_call \<Rightarrow> bool" where
  "phase_ok p c \<longleftrightarrow>
    (case ml_phase c of
      Wanting a \<Rightarrow> a = 0 \<and> ml_sent c = [] \<and> ml_failed c = [] \<or>
        a = 1 \<and> (\<exists>n. one_failed p c n \<and> set (ml_sent c) \<subseteq> {n})
    | Holding m a \<Rightarrow> m < length (mc_conns p) \<and> mc_started p ! m = ml_server c \<and>
        (a = 0 \<and> ml_sent c = [] \<and> ml_failed c = [] \<or>
         a = 1 \<and> (\<exists>n. one_failed p c n \<and> n \<noteq> m \<and> set (ml_sent c) \<subseteq> {n}))
    | Calling m a \<Rightarrow>
        a = 0 \<and> ml_sent c = [m] \<and> ml_failed c = [] \<or>
        a = 1 \<and> (\<exists>n xs. one_failed p c n \<and> n \<noteq> m \<and> ml_sent c = xs @ [m] \<and> set xs \<subseteq> {n})
    | Failing m a e \<Rightarrow>
        a = 0 \<and> ml_failed c = [m] \<and> set (ml_sent c) \<subseteq> {m} \<or>
        a = 1 \<and> ml_retries c \<and> (\<exists>n. ml_failed c = [n, m] \<and> n \<noteq> m \<and> cn_dead (mc_conns p ! n) \<and> set (ml_sent c) \<subseteq> {n, m})
    | Ended r \<Rightarrow> length (ml_sent c) \<le> 2 \<and> length (ml_failed c) \<le> 2 \<and>
        (\<forall>v. r = Inr v \<longrightarrow> ml_sent c \<noteq> [] \<and> last (ml_sent c) \<notin> set (ml_failed c) \<and> length (ml_failed c) \<le> 1))"

definition after_failure :: "pool \<Rightarrow> nat list \<Rightarrow> nat list \<Rightarrow> bool" where
  "after_failure p sent failed \<longleftrightarrow> (\<forall>m n. sent = [m, n] \<longrightarrow> m \<in> set failed \<and> cn_dead (mc_conns p ! m))"

lemma after_failure_short [simp]: "after_failure p [] fs" "after_failure p [m] fs"
  by (simp_all add: after_failure_def)

lemma after_failure_more: "after_failure p xs fs \<Longrightarrow> set fs \<subseteq> set fs' \<Longrightarrow> after_failure p xs fs'"
  by (auto simp: after_failure_def)

lemma after_failure_sent:
  "set xs \<subseteq> {m} \<Longrightarrow> m \<in> set fs \<Longrightarrow> cn_dead (mc_conns p ! m) \<Longrightarrow> after_failure p (xs @ [n]) fs"
  by (auto simp: after_failure_def append_eq_Cons_conv)

definition call_ok :: "pool \<Rightarrow> mcp_call \<Rightarrow> bool" where
  "call_ok p c \<longleftrightarrow> distinct (ml_sent c) \<and> distinct (ml_failed c) \<and> phase_ok p c \<and>
    (ml_retries c \<or> length (ml_sent c) \<le> 1) \<and> after_failure p (ml_sent c) (ml_failed c) \<and>
    (\<forall>n \<in> set (ml_sent c) \<union> set (ml_failed c). n < length (mc_conns p) \<and> mc_started p ! n = ml_server c)"

text \<open>A lock has one owner, and no service is cancelled under a request.\<close>

definition calling :: "mcp_state \<Rightarrow> nat \<Rightarrow> nat \<Rightarrow> bool" where
  "calling s i n \<longleftrightarrow> i < length (ms_calls s) \<and> (\<exists>a. ml_phase (ms_calls s ! i) = Calling n a)"

definition lock_ok :: "mcp_state \<Rightarrow> bool" where
  "lock_ok s \<longleftrightarrow>
    (\<forall>n < length (mc_conns (ms_pool s)). cn_busy (mc_conns (ms_pool s) ! n) \<longleftrightarrow> (\<exists>i. calling s i n)) \<and>
    (\<forall>i j n. calling s i n \<and> calling s j n \<longrightarrow> i = j) \<and>
    (\<forall>i n. calling s i n \<longrightarrow> n < length (mc_conns (ms_pool s)) \<and> n \<notin> set (mc_cancelled (ms_pool s)))"

lemma lock_okD:
  assumes "lock_ok s"
  shows "calling s i n \<Longrightarrow> n < length (mc_conns (ms_pool s))" "calling s i n \<Longrightarrow> n \<notin> set (mc_cancelled (ms_pool s))"
    "calling s i n \<Longrightarrow> calling s j n \<Longrightarrow> i = j"
    "n < length (mc_conns (ms_pool s)) \<Longrightarrow> cn_busy (mc_conns (ms_pool s) ! n) \<longleftrightarrow> (\<exists>i. calling s i n)"
proof -
  show "calling s i n \<Longrightarrow> calling s j n \<Longrightarrow> i = j" using assms unfolding lock_ok_def by blast
qed (use assms in \<open>simp_all add: lock_ok_def\<close>)

lemma lock_okI:
  assumes "\<And>n. n < length (mc_conns (ms_pool s)) \<Longrightarrow> cn_busy (mc_conns (ms_pool s) ! n) \<longleftrightarrow> (\<exists>i. calling s i n)"
    and "\<And>i j n. calling s i n \<Longrightarrow> calling s j n \<Longrightarrow> i = j"
    and "\<And>i n. calling s i n \<Longrightarrow> n < length (mc_conns (ms_pool s)) \<and> n \<notin> set (mc_cancelled (ms_pool s))"
  shows "lock_ok s"
  unfolding lock_ok_def
proof (intro conjI allI impI)
  show "i = j" if "calling s i n \<and> calling s j n" for i j n by (rule assms(2) [of i n j]) (use that in simp_all)
qed (use assms(1,3) in simp_all)

definition pooled :: "pool \<Rightarrow> nat set" where
  "pooled p = snd ` set (mc_pool p)"

definition blamed :: "mcp_state \<Rightarrow> nat \<Rightarrow> bool" where
  "blamed s n \<longleftrightarrow> (\<exists>c \<in> set (ms_calls s). n \<in> set (ml_failed c))"

definition mcp_ok :: "mcp_state \<Rightarrow> bool" where
  "mcp_ok s \<longleftrightarrow> pool_ok (ms_pool s) \<and> (\<forall>c \<in> set (ms_calls s). call_ok (ms_pool s) c) \<and> lock_ok s \<and>
    (\<forall>n \<in> pooled (ms_pool s). cn_dead (mc_conns (ms_pool s) ! n) \<longrightarrow> blamed s n)"

text \<open>\<open>later\<close> is \<open>extends\<close> without the locks.\<close>

definition later :: "pool \<Rightarrow> pool \<Rightarrow> bool" where
  "later p q \<longleftrightarrow> length (mc_conns p) \<le> length (mc_conns q) \<and> (\<exists>xs. mc_started q = mc_started p @ xs) \<and>
    (\<forall>n < length (mc_conns p). cn_dead (mc_conns p ! n) \<longrightarrow> cn_dead (mc_conns q ! n))"

lemma extends_later: "extends p q \<Longrightarrow> later p q"
  by (simp add: extends_def later_def)

lemma later_started: "pool_ok p \<Longrightarrow> later p q \<Longrightarrow> n < length (mc_conns p) \<Longrightarrow> mc_started q ! n = mc_started p ! n"
  by (auto simp: pool_ok_def later_def nth_append)

lemma one_failed_later: "call_ok p c \<Longrightarrow> later p q \<Longrightarrow> one_failed p c n \<Longrightarrow> one_failed q c n"
  by (auto simp: one_failed_def later_def call_ok_def)

lemma call_ok_later:
  assumes p: "pool_ok p" and c: "call_ok p c" and l: "later p q"
  shows "call_ok q c"
proof -
  have used: "\<forall>n \<in> set (ml_sent c) \<union> set (ml_failed c). n < length (mc_conns q) \<and> mc_started q ! n = ml_server c"
  proof
    fix n
    assume "n \<in> set (ml_sent c) \<union> set (ml_failed c)"
    then have n: "n < length (mc_conns p)" "mc_started p ! n = ml_server c" using c by (auto simp: call_ok_def)
    show "n < length (mc_conns q) \<and> mc_started q ! n = ml_server c"
      using n later_started [OF p l n(1)] l by (simp add: later_def)
  qed
  have d: "cn_dead (mc_conns q ! n)" if "n \<in> set (ml_failed c)" "cn_dead (mc_conns p ! n)" for n
    using c l that by (auto simp: call_ok_def later_def)
  have "phase_ok q c"
  proof (cases "ml_phase c")
    case (Holding m a)
    then have "m < length (mc_conns p)" using c by (simp add: call_ok_def phase_ok_def)
    then have "m < length (mc_conns q) \<and> mc_started q ! m = mc_started p ! m"
      using later_started [OF p l] l by (auto simp: later_def)
    then show ?thesis using c one_failed_later [OF c l] Holding by (auto simp: call_ok_def phase_ok_def)
  next
    case (Calling m a)
    show ?thesis using c one_failed_later [OF c l] Calling by (simp add: call_ok_def phase_ok_def) blast
  next
    case (Failing m a e)
    have "cn_dead (mc_conns p ! n) \<longrightarrow> cn_dead (mc_conns q ! n)" if "ml_failed c = [n, m]" for n using d that by simp
    then show ?thesis using c Failing by (auto simp: call_ok_def phase_ok_def)
  qed (use c one_failed_later [OF c l] in \<open>auto simp: call_ok_def phase_ok_def\<close>)
  moreover have "after_failure q (ml_sent c) (ml_failed c)"
    using c l by (auto simp: after_failure_def call_ok_def later_def)
  ultimately show ?thesis using c used by (simp add: call_ok_def)
qed

text \<open>A turn of one call, for all parts of the invariant but the locks.\<close>

lemma turn_ok:
  assumes s: "mcp_ok s" and i: "i < length (ms_calls s)" and q: "pool_ok q" "later (ms_pool s) q"
    and c: "call_ok q c" "set (ml_failed (ms_calls s ! i)) \<subseteq> set (ml_failed c)"
    and l: "lock_ok (set_call i c (s\<lparr>ms_pool := q\<rparr>))"
    and d: "\<And>n. n \<in> pooled q \<Longrightarrow> cn_dead (mc_conns q ! n) \<Longrightarrow> n \<in> set (ml_failed c) \<or> blamed s n"
  shows "mcp_ok (set_call i c (s\<lparr>ms_pool := q\<rparr>))"
proof -
  let ?s = "set_call i c (s\<lparr>ms_pool := q\<rparr>)"
  have calls: "call_ok q x" if "x \<in> set (ms_calls ?s)" for x
  proof -
    have "x = c \<or> x \<in> set (ms_calls s)" using that by (auto simp: set_call_def dest: set_update_subset_insert [THEN subsetD])
    then show ?thesis using c(1) call_ok_later [OF _ _ q(2)] s by (auto simp: mcp_ok_def)
  qed
  have "c \<in> set (ms_calls ?s)" using i by (simp add: set_call_def set_update_memI)
  moreover have "x \<in> set (ms_calls ?s)" if "x \<in> set (ms_calls s)" "x \<noteq> ms_calls s ! i" for x
    using that i by (auto simp: set_call_def in_set_conv_nth) (metis length_list_update nth_list_update_neq)
  ultimately have "blamed ?s n" if "n \<in> set (ml_failed c) \<or> blamed s n" for n
    using that c(2) unfolding blamed_def by blast
  then show ?thesis using calls q(1) l d by (simp add: mcp_ok_def) (simp add: set_call_def)
qed

section \<open>What looking a connection up changes\<close>

definition no_new_dead :: "pool \<Rightarrow> pool \<Rightarrow> bool" where
  "no_new_dead p q \<longleftrightarrow>
    (\<forall>n \<in> pooled q. cn_dead (mc_conns q ! n) \<longrightarrow> n \<in> pooled p \<and> cn_dead (mc_conns p ! n))"

lemma no_new_dead_refl [simp]: "no_new_dead p p"
  by (simp add: no_new_dead_def)

lemma no_new_dead_trans: "no_new_dead p q \<Longrightarrow> no_new_dead q r \<Longrightarrow> no_new_dead p r"
  by (simp add: no_new_dead_def)

lemma evict_no_new_dead:
  assumes "pool_ok p" "map_of (mc_pool p) server = Some n"
  shows "no_new_dead p (evict server n p)"
proof -
  have m: "mset (map snd (mc_pool p)) = add_mset n (mset (map snd (im_shift_remove server (mc_pool p))))"
    by (rule mset_shift_remove) (use assms in \<open>simp_all add: pool_ok_def\<close>)
  have "distinct (map snd (mc_pool p))" using pool_ok_members(2) [OF assms(1)] by (simp add: owned_def)
  then have "distinct (n # map snd (im_shift_remove server (mc_pool p)))" using mset_eq_imp_distinct_iff m by (metis mset.simps(2))
  then have "n \<notin> pooled (evict server n p)" by (simp add: pooled_def evict_sel)
  moreover have "pooled (evict server n p) \<subseteq> pooled p" by (auto simp: pooled_def evict_sel im_shift_remove_def)
  moreover have "mc_conns (evict server n p) ! m = mc_conns p ! m" if "m \<noteq> n" for m using that by (simp add: evict_sel)
  ultimately show ?thesis unfolding no_new_dead_def by (metis subsetD)
qed

lemma start_no_new_dead:
  assumes p: "pool_ok p" and n: "map_of (mc_pool p) server = None" and q: "start_service out server p = (q, r)"
  shows "no_new_dead p q \<and> mc_cancelled q = mc_cancelled p"
proof (cases out)
  case Started
  have "im_insert server (length (mc_conns p)) (mc_pool p) = mc_pool p @ [(server, length (mc_conns p))]"
    using n by (intro im_insert_fresh) (simp add: map_of_eq_None_iff)
  then have "pooled q = insert (length (mc_conns p)) (pooled p)" "mc_cancelled q = mc_cancelled p"
      "mc_conns q = mc_conns p @ [\<lparr>cn_service = Some (length (mc_started p)), cn_busy = False, cn_dead = False\<rparr>]"
    using q Started by (auto simp: start_service_def pooled_def)
  moreover have "m < length (mc_conns p)" if "m \<in> pooled p" for m
    by (rule owned_less [OF p]) (use that in \<open>auto simp: owned_def pooled_def\<close>)
  ultimately show ?thesis by (simp add: no_new_dead_def nth_append)
qed (use q in \<open>simp_all add: start_service_def\<close>)

lemma get_or_create_no_new_dead:
  assumes p: "pool_ok p" and g: "get_or_create out server p = (q, r)"
  shows "no_new_dead p q \<and> mc_cancelled q = mc_cancelled p"
proof (cases "map_of (mc_pool p) server")
  case None
  then show ?thesis using start_no_new_dead [OF p None] g by (simp add: get_or_create_def)
next
  case (Some n)
  note e = evict_ok [OF p Some] evict_no_new_dead [OF p Some]
  show ?thesis
  proof (cases "\<not> cn_dead (mc_conns p ! n) \<and> \<not> service_gone (mc_conns p ! n)")
    case False
    then have "start_service out server (evict server n p) = (q, r)"
      using g Some by (simp add: get_or_create_def evict_def split: if_splits)
    from start_no_new_dead [OF e(1,3) this] show ?thesis using no_new_dead_trans [OF e(4)] by (simp add: evict_sel)
  qed (use g Some in \<open>simp add: get_or_create_def\<close>)
qed

lemma invalidate_no_new_dead:
  assumes p: "pool_ok p"
  shows "no_new_dead p (invalidate server p) \<and> mc_cancelled (invalidate server p) = mc_cancelled p"
proof (cases "map_of (mc_pool p) server")
  case (Some n)
  then show ?thesis using evict_no_new_dead [OF p Some]
    by (simp add: invalidate_def evict_def) (simp add: cancel_in_background_def)
qed (simp add: invalidate_def)

section \<open>Turns\<close>

lemma calling_set_call:
  "calling (set_call i c s) j n \<longleftrightarrow>
    (if j = i then i < length (ms_calls s) \<and> (\<exists>a. ml_phase c = Calling n a) else calling s j n)"
  by (auto simp: calling_def set_call_def)

lemma calling_pool [simp]: "calling (s\<lparr>ms_pool := q\<rparr>) = calling s"
  by (simp add: calling_def fun_eq_iff)

lemma set_call_sel [simp]: "ms_pool (set_call i c s) = ms_pool s"
  by (simp add: set_call_def)

lemma lock_same:
  assumes l: "lock_ok s" and e: "extends (ms_pool s) (ms_pool t)" and c: "calling t = calling s"
    and x: "\<And>n. n \<in> set (mc_cancelled (ms_pool t)) \<Longrightarrow> n \<in> set (mc_cancelled (ms_pool s)) \<or>
      n < length (mc_conns (ms_pool s)) \<and> \<not> cn_busy (mc_conns (ms_pool s) ! n)"
  shows "lock_ok t"
proof -
  have len: "length (mc_conns (ms_pool s)) \<le> length (mc_conns (ms_pool t))" using e by (simp add: extends_def)
  have bound: "calling s i n \<Longrightarrow> n < length (mc_conns (ms_pool s))" for i n using l by (simp add: lock_ok_def)
  have "cn_busy (mc_conns (ms_pool t) ! n) \<longleftrightarrow> (\<exists>i. calling t i n)" if n: "n < length (mc_conns (ms_pool t))" for n
  proof (cases "n < length (mc_conns (ms_pool s))")
    case True
    then show ?thesis using l e unfolding c by (simp add: lock_ok_def extends_def)
  next
    case False
    then have "\<not> calling s i n" for i using bound by blast
    then show ?thesis using e n False unfolding c by (simp add: extends_def)
  qed
  moreover have "n < length (mc_conns (ms_pool t)) \<and> n \<notin> set (mc_cancelled (ms_pool t))" if "calling s i n" for i n
  proof -
    have "n < length (mc_conns (ms_pool s))" "n \<notin> set (mc_cancelled (ms_pool s))" "cn_busy (mc_conns (ms_pool s) ! n)"
      using l that by (auto simp: lock_ok_def)
    then show ?thesis using x [of n] len by auto
  qed
  moreover have "\<forall>i j n. calling s i n \<and> calling s j n \<longrightarrow> i = j" using l by (simp add: lock_ok_def)
  ultimately show ?thesis unfolding lock_ok_def c by blast
qed

text \<open>A turn that neither takes nor gives a lock.\<close>

lemma quiet_turn:
  assumes l: "lock_ok s" and e: "extends (ms_pool s) q" and q: "mc_cancelled q = mc_cancelled (ms_pool s)"
    and i: "\<And>n a. ml_phase (ms_calls s ! i) \<noteq> Calling n a" and c: "\<And>n a. ml_phase c \<noteq> Calling n a"
  shows "lock_ok (set_call i c (s\<lparr>ms_pool := q\<rparr>))"
proof (rule lock_same [OF l])
  show "calling (set_call i c (s\<lparr>ms_pool := q\<rparr>)) = calling s"
    using i c by (auto simp: fun_eq_iff calling_set_call) (auto simp: calling_def)
qed (use e q in simp_all)

lemma at_most_two:
  assumes "distinct xs" "set xs \<subseteq> {a, b}"
  shows "length xs \<le> 2"
proof -
  have "length xs = card (set xs)" using assms(1) by (simp add: distinct_card)
  also have "\<dots> \<le> card {a, b}" by (rule card_mono) (use assms(2) in simp_all)
  also have "\<dots> \<le> 2" by (simp add: card_insert_if)
  finally show ?thesis .
qed

lemma at_most_one: "distinct xs \<Longrightarrow> set xs \<subseteq> {a} \<Longrightarrow> length xs \<le> 1"
  using card_mono [of "{a}" "set xs"] by (simp add: distinct_card)

lemma call_two:
  assumes "call_ok p c"
  shows "length (ml_sent c) \<le> 2" "length (ml_failed c) \<le> 2"
proof -
  have d: "distinct (ml_sent c)" "phase_ok p c" using assms by (simp_all add: call_ok_def)
  show "length (ml_failed c) \<le> 2" using d(2) by (auto simp: phase_ok_def one_failed_def split: call_phase.splits)
  have "length (ml_sent c) \<le> 2 \<or> (\<exists>a b. set (ml_sent c) \<subseteq> {a, b})"
    using d(2) by (cases "ml_phase c") (fastforce simp: phase_ok_def)+
  then show "length (ml_sent c) \<le> 2" using at_most_two [OF d(1)] by blast
qed

lemma mcp_okD:
  assumes "mcp_ok s"
  shows "pool_ok (ms_pool s)" "lock_ok s" "i < length (ms_calls s) \<Longrightarrow> call_ok (ms_pool s) (ms_calls s ! i)"
    "n \<in> pooled (ms_pool s) \<Longrightarrow> cn_dead (mc_conns (ms_pool s) ! n) \<Longrightarrow> blamed s n"
  using assms by (simp_all add: mcp_ok_def)

lemma acquire_ok:
  assumes s: "mcp_ok s" and i: "i < length (ms_calls s)" and ph: "ml_phase (ms_calls s ! i) = Wanting a"
  shows "mcp_ok (call_acquire out i a (ms_calls s ! i) s)"
proof -
  let ?c = "ms_calls s ! i"
  define p where "p = (if a = 0 then ms_pool s else invalidate (ml_server ?c) (ms_pool s))"
  obtain q r where g: "get_or_create out (ml_server ?c) p = (q, r)" by fastforce
  have p: "pool_ok p" "extends (ms_pool s) p" "no_new_dead (ms_pool s) p" "mc_cancelled p = mc_cancelled (ms_pool s)"
    using invalidate_ok [OF mcp_okD(1) [OF s]] invalidate_no_new_dead [OF mcp_okD(1) [OF s]] mcp_okD(1) [OF s]
    by (simp_all add: p_def)
  have q: "pool_ok q" "extends p q"
      "\<forall>n. r = Inr n \<longrightarrow> n < length (mc_conns q) \<and> mc_started q ! n = ml_server ?c \<and> \<not> cn_dead (mc_conns q ! n)"
      "no_new_dead p q" "mc_cancelled q = mc_cancelled p"
    using get_or_create_ok [OF p(1) g] get_or_create_no_new_dead [OF p(1) g] by simp_all
  have e: "extends (ms_pool s) q" and d: "no_new_dead (ms_pool s) q" and x: "mc_cancelled q = mc_cancelled (ms_pool s)"
    using extends_trans [OF p(2) q(2)] no_new_dead_trans [OF p(3) q(4)] p(4) q(5) by simp_all
  define c where "c = ?c\<lparr>ml_phase := (case r of Inl e \<Rightarrow> Ended (Inl e) | Inr n \<Rightarrow> Holding n a)\<rparr>"
  have eq: "call_acquire out i a ?c s = set_call i c (s\<lparr>ms_pool := q\<rparr>)"
    using g by (cases r) (simp_all add: call_acquire_def p_def c_def Let_def)
  have old: "call_ok q ?c" by (rule call_ok_later [OF mcp_okD(1,3) [OF s] extends_later [OF e]]) (rule i)
  have "call_ok q c"
  proof (cases r)
    case (Inl e)
    then show ?thesis using old ph by (auto simp: call_ok_def phase_ok_def c_def one_failed_def dest: at_most_one)
  next
    case (Inr n)
    have "n' \<noteq> n" if "one_failed q ?c n'" for n' using that q(3) Inr by (auto simp: one_failed_def)
    then show ?thesis using old ph q(3) Inr by (auto simp: call_ok_def phase_ok_def c_def one_failed_def)
  qed
  moreover have "lock_ok (set_call i c (s\<lparr>ms_pool := q\<rparr>))"
    by (rule quiet_turn [OF mcp_okD(2) [OF s] e x]) (simp_all add: ph c_def split: sum.split)
  moreover have "blamed s n" if "n \<in> pooled q" "cn_dead (mc_conns q ! n)" for n
    using d that mcp_okD(4) [OF s] by (simp add: no_new_dead_def)
  ultimately show ?thesis
    unfolding eq by (intro turn_ok [OF s i q(1) extends_later [OF e]]) (simp_all add: c_def)
qed

lemma set_busy_ok:
  assumes "pool_ok p"
  shows "pool_ok (on_conn n (cn_busy_update f) p)" "later p (on_conn n (cn_busy_update f) p)"
    "pooled (on_conn n (cn_busy_update f) p) = pooled p"
    "mc_cancelled (on_conn n (cn_busy_update f) p) = mc_cancelled p"
    "length (mc_conns (on_conn n (cn_busy_update f) p)) = length (mc_conns p)"
    "cn_dead (mc_conns (on_conn n (cn_busy_update f) p) ! m) = cn_dead (mc_conns p ! m)"
    "mc_started (on_conn n (cn_busy_update f) p) = mc_started p"
    "n < length (mc_conns p) \<Longrightarrow> cn_busy (mc_conns (on_conn n (cn_busy_update f) p) ! m) =
      (if m = n then f (cn_busy (mc_conns p ! n)) else cn_busy (mc_conns p ! m))"
proof -
  show "pool_ok (on_conn n (cn_busy_update f) p)" by (rule on_conn_ok [OF assms]) simp
  show dead: "cn_dead (mc_conns (on_conn n (cn_busy_update f) p) ! m) = cn_dead (mc_conns p ! m)" for m
    by (cases "n < length (mc_conns p)"; cases "m = n") (simp_all add: on_conn_def list_update_beyond)
  then show "later p (on_conn n (cn_busy_update f) p)" by (simp add: later_def) (simp add: on_conn_def)
  show "n < length (mc_conns p) \<Longrightarrow> cn_busy (mc_conns (on_conn n (cn_busy_update f) p) ! m) =
      (if m = n then f (cn_busy (mc_conns p ! n)) else cn_busy (mc_conns p ! m))"
    by (simp add: on_conn_def)
qed (simp_all add: on_conn_def pooled_def)

lemma lock_taken:
  assumes s: "mcp_ok s" and n: "n < length (mc_conns (ms_pool s))" "\<not> cn_busy (mc_conns (ms_pool s) ! n)"
    "n \<notin> set (mc_cancelled (ms_pool s))" and i: "i < length (ms_calls s)"
    and ph: "\<And>m a. ml_phase (ms_calls s ! i) \<noteq> Calling m a" and c: "ml_phase c = Calling n a"
  shows "lock_ok (set_call i c (s\<lparr>ms_pool := on_conn n (cn_busy_update (\<lambda>_. True)) (ms_pool s)\<rparr>))" (is "lock_ok ?t")
proof -
  have call: "calling ?t j m \<longleftrightarrow> (if j = i then m = n else calling s j m)" for j m
    using i c by (auto simp: calling_set_call)
  have l: "lock_ok s" by (rule mcp_okD(2) [OF s])
  have free: "\<not> calling s j n" for j using l n by (auto simp: lock_ok_def)
  have i': "\<not> calling s i m" for m using ph by (simp add: calling_def)
  note b = set_busy_ok [OF mcp_okD(1) [OF s], of n "\<lambda>_. True"]
  show ?thesis
  proof (rule lock_okI)
    fix m
    assume "m < length (mc_conns (ms_pool ?t))"
    moreover have "(\<exists>j. calling ?t j m) \<longleftrightarrow> m = n \<or> (\<exists>j. calling s j m)" unfolding call using i' by metis
    ultimately show "cn_busy (mc_conns (ms_pool ?t) ! m) \<longleftrightarrow> (\<exists>j. calling ?t j m)"
      using lock_okD(4) [OF l, of m] n(1) by (simp add: b)
  next
    show "j = k" if "calling ?t j m" "calling ?t k m" for j k m
      using that lock_okD(3) [OF l] free unfolding call by (metis (full_types))
    show "m < length (mc_conns (ms_pool ?t)) \<and> m \<notin> set (mc_cancelled (ms_pool ?t))" if "calling ?t j m" for j m
      using that lock_okD(1,2) [OF l] n unfolding call by (cases "j = i") (simp_all add: b)
  qed
qed

lemma lock_given:
  assumes s: "mcp_ok s" and i: "i < length (ms_calls s)"
    and ph: "ml_phase (ms_calls s ! i) = Calling n a" and c: "\<And>m b. ml_phase c \<noteq> Calling m b"
  shows "lock_ok (set_call i c (s\<lparr>ms_pool := on_conn n (cn_busy_update (\<lambda>_. False)) (ms_pool s)\<rparr>))" (is "lock_ok ?t")
proof -
  have call: "calling ?t j m \<longleftrightarrow> j \<noteq> i \<and> calling s j m" for j m
    using c by (auto simp: calling_set_call)
  have l: "lock_ok s" by (rule mcp_okD(2) [OF s])
  have mine: "calling s i m \<longleftrightarrow> m = n" for m using ph i by (auto simp: calling_def)
  then have n: "n < length (mc_conns (ms_pool s))" using lock_okD(1) [OF l, of i n] by simp
  have only: "j = i" if "calling s j n" for j using lock_okD(3) [OF l that] mine by simp
  note b = set_busy_ok [OF mcp_okD(1) [OF s], of n "\<lambda>_. False"]
  show ?thesis
  proof (rule lock_okI)
    fix m
    assume "m < length (mc_conns (ms_pool ?t))"
    moreover have "(\<exists>j. calling ?t j m) \<longleftrightarrow> m \<noteq> n \<and> (\<exists>j. calling s j m)" unfolding call using only mine by metis
    ultimately show "cn_busy (mc_conns (ms_pool ?t) ! m) \<longleftrightarrow> (\<exists>j. calling ?t j m)"
      using lock_okD(4) [OF l, of m] n by (simp add: b)
  next
    show "j = k" if "calling ?t j m" "calling ?t k m" for j k m
      using that lock_okD(3) [OF l] unfolding call by blast
    show "m < length (mc_conns (ms_pool ?t)) \<and> m \<notin> set (mc_cancelled (ms_pool ?t))" if "calling ?t j m" for j m
      using that lock_okD(1,2) [OF l] unfolding call by (auto simp: b)
  qed
qed

lemma begin_ok:
  assumes s: "mcp_ok s" and i: "i < length (ms_calls s)" and ph: "ml_phase (ms_calls s ! i) = Holding n a"
    and idle: "\<not> cn_busy (mc_conns (ms_pool s) ! n)"
  shows "mcp_ok (call_begin i n a (ms_calls s ! i) s)"
proof -
  let ?c = "ms_calls s ! i" and ?p = "ms_pool s"
  note p = mcp_okD(1) [OF s]
  have c: "call_ok ?p ?c" by (rule mcp_okD(3) [OF s i])
  then have n: "n < length (mc_conns ?p)" "mc_started ?p ! n = ml_server ?c" using ph by (simp_all add: call_ok_def phase_ok_def)
  show ?thesis
  proof (cases "cn_service (mc_conns ?p ! n)")
    case None
    define c' where "c' = ?c\<lparr>ml_phase := Failing n a (unavailable ?c), ml_failed := ml_failed ?c @ [n]\<rparr>"
    have "call_begin i n a ?c s = set_call i c' (s\<lparr>ms_pool := ?p\<rparr>)" using None by (simp add: call_begin_def c'_def)
    moreover have "call_ok ?p c'"
      using c n ph by (auto simp: call_ok_def phase_ok_def one_failed_def c'_def elim: after_failure_more)
    moreover have "lock_ok (set_call i c' (s\<lparr>ms_pool := ?p\<rparr>))"
      by (rule quiet_turn [OF mcp_okD(2) [OF s]]) (simp_all add: ph c'_def)
    ultimately show ?thesis
      using turn_ok [OF s i p extends_later [OF extends_refl], of c'] mcp_okD(4) [OF s] by (simp add: c'_def subset_insertI)
  next
    case (Some k)
    let ?q = "on_conn n (cn_busy_update (\<lambda>_. True)) ?p"
    define c' where "c' = ?c\<lparr>ml_phase := Calling n a, ml_sent := ml_sent ?c @ [n]\<rparr>"
    note b = set_busy_ok [OF p, of n "\<lambda>_. True"]
    have alive: "n \<notin> set (mc_cancelled ?p)" using p n(1) Some by (auto simp: pool_ok_def)
    have eq: "call_begin i n a ?c s = set_call i c' (s\<lparr>ms_pool := ?q\<rparr>)" using Some by (simp add: call_begin_def c'_def)
    have "call_ok ?p c'" using c n ph by (auto simp: call_ok_def phase_ok_def one_failed_def c'_def intro: after_failure_sent dest: at_most_one)
    then have "call_ok ?q c'" by (rule call_ok_later [OF p _ b(2)])
    moreover have "lock_ok (set_call i c' (s\<lparr>ms_pool := ?q\<rparr>))"
      by (rule lock_taken [OF s n(1) idle alive i]) (simp_all add: ph c'_def)
    ultimately show ?thesis
      unfolding eq by (intro turn_ok [OF s i b(1,2)]) (simp_all add: b(3,6) c'_def mcp_okD(4) [OF s])
  qed
qed

text \<open>The end of a request: an answer, a failure, or the caller gives up.\<close>

lemma call_over:
  assumes s: "mcp_ok s" and i: "i < length (ms_calls s)" and ph: "ml_phase (ms_calls s ! i) = Calling n a"
    and c: "call_ok (ms_pool s) c" "set (ml_failed (ms_calls s ! i)) \<subseteq> set (ml_failed c)" "\<And>m b. ml_phase c \<noteq> Calling m b"
  shows "mcp_ok (set_call i c (s\<lparr>ms_pool := on_conn n (cn_busy_update (\<lambda>_. False)) (ms_pool s)\<rparr>))"
proof -
  note p = mcp_okD(1) [OF s]
  note b = set_busy_ok [OF p, of n "\<lambda>_. False"]
  show ?thesis
    by (rule turn_ok [OF s i b(1,2) call_ok_later [OF p c(1) b(2)] c(2) lock_given [OF s i ph c(3)]])
      (simp_all add: b(3,6) mcp_okD(4) [OF s])
qed

lemma answer_ok:
  assumes s: "mcp_ok s" and i: "i < length (ms_calls s)" and ph: "ml_phase (ms_calls s ! i) = Calling n a"
  shows "mcp_ok (call_answer r i n a (ms_calls s ! i) s)"
proof -
  let ?c = "ms_calls s ! i"
  define c where "c = (case r of Inr v \<Rightarrow> ?c\<lparr>ml_phase := Ended (Inr v)\<rparr>
    | Inl e \<Rightarrow> ?c\<lparr>ml_phase := Failing n a (transport_error ?c e), ml_failed := ml_failed ?c @ [n]\<rparr>)"
  have ok: "call_ok (ms_pool s) ?c" by (rule mcp_okD(3) [OF s i])
  have "call_ok (ms_pool s) c"
    using ok ph call_two [OF ok] by (cases r) (auto simp: c_def call_ok_def phase_ok_def one_failed_def elim: after_failure_more)
  moreover have "call_answer r i n a ?c s = set_call i c (s\<lparr>ms_pool := on_conn n (cn_busy_update (\<lambda>_. False)) (ms_pool s)\<rparr>)"
    by (cases r) (simp_all add: call_answer_def c_def)
  moreover have "set (ml_failed ?c) \<subseteq> set (ml_failed c)" "\<And>m b. ml_phase c \<noteq> Calling m b"
    by (auto simp: c_def split: sum.split)
  ultimately show ?thesis using call_over [OF s i ph, of c] by simp
qed

lemma report_ok:
  assumes s: "mcp_ok s" and i: "i < length (ms_calls s)" and ph: "ml_phase (ms_calls s ! i) = Failing n a e"
  shows "mcp_ok (call_failed i n a e (ms_calls s ! i) s)"
proof -
  let ?c = "ms_calls s ! i" and ?p = "ms_pool s"
  note p = mcp_okD(1) [OF s]
  have c: "call_ok ?p ?c" by (rule mcp_okD(3) [OF s i])
  have n: "n \<in> set (ml_failed ?c)" "n < length (mc_conns ?p)" using c ph by (auto simp: call_ok_def phase_ok_def)
  note two = call_two [OF c]
  define q where "q = (if ml_retries ?c then mark_dead n ?p else ?p)"
  define c' where "c' = ?c\<lparr>ml_phase := (if ml_retries ?c \<and> a = 0 then Wanting 1 else Ended (Inl e))\<rparr>"
  have eq: "call_failed i n a e ?c s = set_call i c' (s\<lparr>ms_pool := q\<rparr>)"
    by (simp add: call_failed_def q_def c'_def)
  have q: "pool_ok q" "extends ?p q" "mc_cancelled q = mc_cancelled ?p" "pooled q = pooled ?p"
      "\<And>m. m \<noteq> n \<Longrightarrow> mc_conns q ! m = mc_conns ?p ! m"
    using p mark_dead_ok [OF p] mark_dead_extends by (simp_all add: q_def pooled_def)
  have "call_ok q ?c" by (rule call_ok_later [OF p c extends_later [OF q(2)]])
  moreover have "cn_dead (mc_conns q ! n)" if "ml_retries ?c" using that n(2) by (simp add: q_def)
  ultimately have "call_ok q c'"
    using ph two by (auto simp: call_ok_def phase_ok_def one_failed_def c'_def)
  moreover have "lock_ok (set_call i c' (s\<lparr>ms_pool := q\<rparr>))"
    by (rule quiet_turn [OF mcp_okD(2) [OF s] q(2,3)]) (simp_all add: ph c'_def)
  moreover have "m \<in> set (ml_failed c') \<or> blamed s m" if "m \<in> pooled q" "cn_dead (mc_conns q ! m)" for m
    using that n(1) q(4,5) mcp_okD(4) [OF s, of m] by (cases "m = n") (simp_all add: c'_def)
  ultimately show ?thesis
    unfolding eq by (intro turn_ok [OF s i q(1) extends_later [OF q(2)]]) (simp_all add: c'_def)
qed

section \<open>The tasks that close connections\<close>

lemma pool_turn:
  assumes s: "mcp_ok s" and q: "pool_ok q" "extends (ms_pool s) q" "no_new_dead (ms_pool s) q"
    and x: "\<And>n. n \<in> set (mc_cancelled q) \<Longrightarrow> n \<in> set (mc_cancelled (ms_pool s)) \<or>
      n < length (mc_conns (ms_pool s)) \<and> \<not> cn_busy (mc_conns (ms_pool s) ! n)"
  shows "mcp_ok (s\<lparr>ms_pool := q\<rparr>)"
proof -
  have "lock_ok (s\<lparr>ms_pool := q\<rparr>)" by (rule lock_same [OF mcp_okD(2) [OF s]]) (use q(2) x in simp_all)
  moreover have "call_ok q c" if "c \<in> set (ms_calls s)" for c
    using call_ok_later [OF mcp_okD(1) [OF s] _ extends_later [OF q(2)]] s that by (simp add: mcp_ok_def)
  moreover have "blamed (s\<lparr>ms_pool := q\<rparr>) n \<longleftrightarrow> blamed s n" for n by (simp add: blamed_def)
  ultimately show ?thesis using q(1,3) mcp_okD(4) [OF s] by (simp add: mcp_ok_def no_new_dead_def)
qed

lemma handles_moved:
  assumes "pool_ok p" and "mset (owned q) = mset (owned p)" and "mc_conns q = mc_conns p" "mc_started q = mc_started p"
    "mc_cancelled q = mc_cancelled p" "mc_pool q = mc_pool p \<or> mc_pool q = []"
  shows "pool_ok q"
  using assms unfolding pool_ok_def by auto

lemma closed_ok:
  assumes p: "pool_ok p" and n: "n \<in> set (owned p)"
    and q: "mset (map snd (mc_pool q) @ mc_cancelling q @ mc_shutdown q) + {#n#} = mset (owned p)"
      "mc_pool q = mc_pool p" "mc_started q = mc_started p" "mc_conns q = mc_conns (cancel_service n p)"
      "mc_cancelled q = mc_cancelled (cancel_service n p)"
  shows "pool_ok q \<and> extends p q \<and> no_new_dead p q \<and> mc_cancelled q = mc_cancelled p @ [n]"
proof -
  have sv: "cn_service (mc_conns p ! n) = Some n" "n < length (mc_conns p)"
    using owned_service [OF p n] owned_less [OF p n] by simp_all
  have dead: "cn_dead (mc_conns (cancel_service n p) ! m) = cn_dead (mc_conns p ! m)" for m
    using sv by (cases "m = n") (simp_all add: cancel_service_def on_conn_def)
  show ?thesis
    using cancel_service_ok [OF assms] cancel_service_extends [of p n] sv dead q(2-)
    by (simp add: extends_def no_new_dead_def pooled_def) (simp add: cancel_service_def)
qed

lemma cancel_task_ok:
  assumes s: "mcp_ok s" and t: "t < length (mc_cancelling (ms_pool s))"
    and idle: "\<not> cn_busy (mc_conns (ms_pool s) ! (mc_cancelling (ms_pool s) ! t))"
  shows "mcp_ok (s\<lparr>ms_pool := (cancel_service (mc_cancelling (ms_pool s) ! t) (ms_pool s))
    \<lparr>mc_cancelling := remove_at t (mc_cancelling (ms_pool s))\<rparr>\<rparr>)" (is "mcp_ok (s\<lparr>ms_pool := ?q\<rparr>)")
proof -
  let ?p = "ms_pool s" and ?n = "mc_cancelling (ms_pool s) ! t"
  have n: "?n \<in> set (owned ?p)" using t by (simp add: owned_def)
  have "mset (map snd (mc_pool ?q) @ mc_cancelling ?q @ mc_shutdown ?q) + {#?n#} = mset (owned ?p)"
    using remove_at_mset [OF t] by (simp add: owned_def)
  from closed_ok [OF mcp_okD(1) [OF s] n this] have q: "pool_ok ?q" "extends ?p ?q" "no_new_dead ?p ?q"
      "mc_cancelled ?q = mc_cancelled ?p @ [?n]" by simp_all
  show ?thesis
    by (rule pool_turn [OF s q(1-3)]) (use q(4) idle owned_less [OF mcp_okD(1) [OF s] n] in auto)
qed

lemma unpooled_dead:
  assumes p: "pool_ok p" and n: "n \<in> set (mc_shutdown p)"
  shows "pool_ok (mark_dead n p)" "extends p (mark_dead n p)" "no_new_dead p (mark_dead n p)"
proof -
  have "n \<notin> pooled p" using pool_ok_members(2) [OF p] n by (force simp: owned_def pooled_def)
  then have "mc_conns (mark_dead n p) ! m = mc_conns p ! m" if "m \<in> pooled p" for m
    using that mark_dead_sel(9) [of m n p] by metis
  then show "no_new_dead p (mark_dead n p)" by (simp add: no_new_dead_def) (simp add: pooled_def)
qed (rule mark_dead_ok [OF p], rule mark_dead_extends)

lemma shutdown_lock_ok:
  assumes s: "mcp_ok s" and t: "t < length (mc_shutdown (ms_pool s))" and n: "n = mc_shutdown (ms_pool s) ! t" and idle: "\<not> cn_busy (mc_conns (ms_pool s) ! n)"
  shows "mcp_ok (s\<lparr>ms_pool := (cancel_service n (mark_dead n (ms_pool s)))\<lparr>mc_shutdown := remove_at t (mc_shutdown (ms_pool s))\<rparr>\<rparr>)" (is "mcp_ok (s\<lparr>ms_pool := ?q\<rparr>)")
proof -
  let ?p = "ms_pool s" and ?d = "mark_dead n (ms_pool s)"
  have n': "n \<in> set (mc_shutdown ?p)" using n t by simp
  note d = unpooled_dead [OF mcp_okD(1) [OF s] n']
  have o: "n \<in> set (owned ?d)" using n' by (simp add: owned_def)
  have "mset (map snd (mc_pool ?q) @ mc_cancelling ?q @ mc_shutdown ?q) + {#n#} = mset (owned ?d)"
    using remove_at_mset [OF t] n by (simp add: owned_def)
  from closed_ok [OF d(1) o this] have q: "pool_ok ?q" "extends ?d ?q" "no_new_dead ?d ?q"
      "mc_cancelled ?q = mc_cancelled ?p @ [n]" by simp_all
  show ?thesis
    by (rule pool_turn [OF s q(1) extends_trans [OF d(2) q(2)] no_new_dead_trans [OF d(3) q(3)]])
      (use q(4) idle owned_less [OF d(1) o] in auto)
qed

lemma shutdown_timeout_ok:
  assumes s: "mcp_ok s" and t: "t < length (mc_shutdown (ms_pool s))" and n: "n = mc_shutdown (ms_pool s) ! t"
  shows "mcp_ok (s\<lparr>ms_pool := (cancel_in_background n (mark_dead n (ms_pool s)))\<lparr>mc_shutdown := remove_at t (mc_shutdown (ms_pool s))\<rparr>\<rparr>)" (is "mcp_ok (s\<lparr>ms_pool := ?q\<rparr>)")
proof -
  let ?p = "ms_pool s" and ?d = "mark_dead n (ms_pool s)"
  have n': "n \<in> set (mc_shutdown ?p)" using n t by simp
  note d = unpooled_dead [OF mcp_okD(1) [OF s] n']
  have twice: "mark_dead n ?d = ?d" by (cases "n < length (mc_conns ?p)") (simp_all add: mark_dead_def on_conn_def list_update_beyond)
  have q: "mc_conns ?q = mc_conns ?d" "mc_started ?q = mc_started ?d" "mc_cancelled ?q = mc_cancelled ?d"
      "mc_pool ?q = mc_pool ?d" "mset (owned ?q) = mset (owned ?d)"
    using remove_at_mset [OF t, folded n] by (simp_all add: cancel_in_background_def twice owned_def)
  have "pool_ok ?q" by (rule handles_moved [OF d(1) q(5,1,2,3)]) (simp add: q(4))
  moreover have "extends ?p ?q" using d(2) q by (simp add: extends_def)
  moreover have "no_new_dead ?p ?q" using d(3) q by (simp add: no_new_dead_def pooled_def)
  ultimately show ?thesis by (rule pool_turn [OF s]) (simp add: q(3))
qed

lemma shutdown_begin_ok:
  assumes s: "mcp_ok s"
  shows "mcp_ok (s\<lparr>ms_pool := (ms_pool s)\<lparr>mc_pool := [], mc_shutdown := mc_shutdown (ms_pool s) @ map snd (mc_pool (ms_pool s))\<rparr>\<rparr>)"
    (is "mcp_ok (s\<lparr>ms_pool := ?q\<rparr>)")
proof (rule pool_turn [OF s])
  show "pool_ok ?q" by (rule handles_moved [OF mcp_okD(1) [OF s]]) (simp_all add: owned_def)
  show "extends (ms_pool s) ?q" by (simp add: extends_def)
qed (simp_all add: no_new_dead_def pooled_def)

lemma new_call_ok:
  assumes s: "mcp_ok s"
  shows "mcp_ok (s\<lparr>ms_calls := ms_calls s @ [new_call server name retries]\<rparr>)" (is "mcp_ok ?t")
proof -
  have "calling ?t = calling s"
    by (auto simp: fun_eq_iff calling_def nth_append new_call_def)
  then have "lock_ok ?t" by (intro lock_same [OF mcp_okD(2) [OF s]]) simp_all
  moreover have "call_ok p (new_call server name retries)" for p by (simp add: call_ok_def phase_ok_def new_call_def)
  moreover have "blamed s n \<Longrightarrow> blamed ?t n" for n by (auto simp: blamed_def)
  ultimately show ?thesis using s by (simp add: mcp_ok_def)
qed

lemma abandon_ok:
  assumes s: "mcp_ok s" and i: "i < length (ms_calls s)" and ph: "\<And>m a. ml_phase (ms_calls s ! i) \<noteq> Calling m a"
  shows "mcp_ok (set_call i ((ms_calls s ! i)\<lparr>ml_phase := Ended (Inl e)\<rparr>) s)"
proof -
  let ?c = "ms_calls s ! i" and ?c' = "(ms_calls s ! i)\<lparr>ml_phase := Ended (Inl e)\<rparr>"
  have c: "call_ok (ms_pool s) ?c" by (rule mcp_okD(3) [OF s i])
  have "call_ok (ms_pool s) ?c'" using c call_two [OF c] by (simp add: call_ok_def phase_ok_def)
  moreover have "lock_ok (set_call i ?c' (s\<lparr>ms_pool := ms_pool s\<rparr>))"
    by (rule quiet_turn [OF mcp_okD(2) [OF s]]) (simp_all add: ph)
  ultimately show ?thesis
    using turn_ok [OF s i mcp_okD(1) [OF s] extends_later [OF extends_refl], of ?c'] mcp_okD(4) [OF s] by simp
qed

section \<open>Every run\<close>

lemma phase_of_Some: "phase_of i s = Some ph \<longleftrightarrow> i < length (ms_calls s) \<and> ml_phase (ms_calls s ! i) = ph"
  by (auto simp: phase_of_def)

theorem step_ok: "mcp_ok s \<Longrightarrow> pool_step e s = Some s' \<Longrightarrow> mcp_ok s'"
proof (cases e)
  case (Abandon i)
  assume s: "mcp_ok s" and t: "pool_step e s = Some s'"
  then obtain ph where ph: "i < length (ms_calls s)" "ml_phase (ms_calls s ! i) = ph" "phase_of i s = Some ph"
    using Abandon by (auto simp: phase_of_def split: if_splits)
  show "mcp_ok s'"
  proof (cases ph)
    case (Calling n a)
    have c: "call_ok (ms_pool s) (ms_calls s ! i)" by (rule mcp_okD(3) [OF s ph(1)])
    have "call_ok (ms_pool s) ((ms_calls s ! i)\<lparr>ml_phase := Ended (Inl Cancelled)\<rparr>)"
      using c call_two [OF c] by (simp add: call_ok_def phase_ok_def)
    from call_over [OF s ph(1) _ this] show ?thesis using t Abandon ph Calling by simp
  qed (use t Abandon ph abandon_ok [OF s ph(1), of Cancelled] in auto)
qed (auto simp: phase_of_Some Let_def take_all_def new_call_ok cancel_task_ok shutdown_lock_ok shutdown_timeout_ok
      shutdown_begin_ok acquire_ok begin_ok answer_ok report_ok
    split: option.splits call_phase.splits if_splits list.splits)

lemma run_ok: "mcp_ok s \<Longrightarrow> pool_run es s = Some s' \<Longrightarrow> mcp_ok s'"
  by (induction es arbitrary: s) (auto simp: bind_eq_Some_conv intro: step_ok)

lemma start_mcp_ok: "mcp_ok mcp_start"
  by (simp add: mcp_ok_def mcp_start_def pool_new_def pool_ok_def owned_def lock_ok_def calling_def pooled_def)

lemmas reachable_ok = run_ok [OF start_mcp_ok]

lemma pool_run_append: "pool_run (es @ fs) s = Option.bind (pool_run es s) (pool_run fs)"
  by (induction es arbitrary: s) (simp_all split: Option.bind_split)

section \<open>Progress\<close>

fun call_turn :: "mcp_event \<Rightarrow> bool" where
  "call_turn (Acquire i out) = True"
| "call_turn (Begin i) = True"
| "call_turn (Answer i r) = True"
| "call_turn (Report i) = True"
| "call_turn (Abandon i) = True"
| "call_turn _ = False"

fun turns_left :: "call_phase \<Rightarrow> nat" where
  "turns_left (Wanting a) = (if a = 0 then 8 else 4)"
| "turns_left (Holding n a) = (if a = 0 then 7 else 3)"
| "turns_left (Calling n a) = (if a = 0 then 6 else 2)"
| "turns_left (Failing n a e) = (if a = 0 then 5 else 1)"
| "turns_left (Ended r) = 0"

definition all_turns_left :: "mcp_state \<Rightarrow> nat" where
  "all_turns_left s = sum_list (map (\<lambda>c. turns_left (ml_phase c)) (ms_calls s))"

lemma set_call_turns:
  assumes "i < length (ms_calls s)" "turns_left (ml_phase c) < turns_left (ml_phase (ms_calls s ! i))"
  shows "all_turns_left (set_call i c s) < all_turns_left s"
proof -
  have "turns_left (ml_phase (ms_calls s ! i)) \<le> all_turns_left s"
    unfolding all_turns_left_def by (rule member_le_sum_list) (use assms(1) in simp_all)
  then show ?thesis
    using assms by (simp add: all_turns_left_def set_call_def map_update sum_list_update)
qed

lemma all_turns_pool [simp]: "all_turns_left (s\<lparr>ms_pool := q\<rparr>) = all_turns_left s"
  by (simp add: all_turns_left_def)

lemma set_call_turns_pool:
  assumes "i < length (ms_calls s)" "turns_left (ml_phase c) < turns_left (ml_phase (ms_calls s ! i))"
  shows "all_turns_left (set_call i c (s\<lparr>ms_pool := q\<rparr>)) < all_turns_left s"
  using set_call_turns [of i "s\<lparr>ms_pool := q\<rparr>" c] assms by simp

lemma step_turns:
  assumes "pool_step e s = Some s'"
  shows "all_turns_left s' + (if call_turn e then 1 else 0) \<le>
    all_turns_left s + 8 * (length (ms_calls s') - length (ms_calls s))"
proof (cases "call_turn e")
  case True
  then have "all_turns_left s' < all_turns_left s"
    using assms
    by (cases e) (auto simp: phase_of_Some call_acquire_def call_begin_def call_answer_def call_failed_def Let_def
        intro!: set_call_turns_pool set_call_turns split: option.splits call_phase.splits prod.splits sum.splits if_splits)
  then show ?thesis using True by simp
next
  case False
  then show ?thesis
    using assms by (cases e) (auto simp: all_turns_left_def new_call_def take_all_def Let_def split: if_splits list.splits)
qed

lemma step_calls: "pool_step e s = Some s' \<Longrightarrow> length (ms_calls s) \<le> length (ms_calls s')"
  by (cases e) (auto simp: set_call_def call_acquire_def call_begin_def call_answer_def call_failed_def take_all_def Let_def
      split: option.splits call_phase.splits prod.splits sum.splits if_splits list.splits)

lemma run_calls_grow: "pool_run es s = Some s' \<Longrightarrow> length (ms_calls s) \<le> length (ms_calls s')"
  by (induction es arbitrary: s) (auto simp: bind_eq_Some_conv dest: step_calls order_trans)

lemma run_turns:
  "pool_run es s = Some s' \<Longrightarrow>
    all_turns_left s' + length (filter call_turn es) \<le> all_turns_left s + 8 * (length (ms_calls s') - length (ms_calls s))"
proof (induction es arbitrary: s)
  case (Cons e es)
  then obtain t where t: "pool_step e s = Some t" "pool_run es t = Some s'" by (auto simp: bind_eq_Some_conv)
  show ?case using Cons.IH [OF t(2)] step_turns [OF t(1)] step_calls [OF t(1)] run_calls_grow [OF t(2)]
    by (auto split: if_splits)
qed simp

text \<open>Somebody can always go on: a call that waits for a lock waits for one that has sent its request.\<close>

definition can_turn :: "mcp_state \<Rightarrow> bool" where
  "can_turn s \<longleftrightarrow> (\<exists>i. (\<forall>out. pool_step (Acquire i out) s \<noteq> None) \<or> pool_step (Begin i) s \<noteq> None \<or>
    (\<forall>r. pool_step (Answer i r) s \<noteq> None) \<or> pool_step (Report i) s \<noteq> None)"

lemma calling_can_turn: "calling s i n \<Longrightarrow> can_turn s"
  unfolding can_turn_def by (rule exI [of _ i]) (auto simp: calling_def phase_of_def)

lemma not_stuck:
  assumes s: "mcp_ok s" and i: "i < length (ms_calls s)" and "\<And>r. ml_phase (ms_calls s ! i) \<noteq> Ended r"
  shows "can_turn s"
proof (cases "ml_phase (ms_calls s ! i)")
  case (Holding n a)
  show ?thesis
  proof (cases "cn_busy (mc_conns (ms_pool s) ! n)")
    case True
    have "n < length (mc_conns (ms_pool s))" using mcp_okD(3) [OF s i] Holding by (simp add: call_ok_def phase_ok_def)
    then obtain j where "calling s j n" using lock_okD(4) [OF mcp_okD(2) [OF s]] True by blast
    then show ?thesis by (rule calling_can_turn)
  next
    case False
    then have "pool_step (Begin i) s \<noteq> None" using i Holding by (simp add: phase_of_def)
    then show ?thesis unfolding can_turn_def by blast
  qed
qed (use i assms(3) in \<open>auto simp: can_turn_def phase_of_def intro!: exI [of _ i]\<close>)

section \<open>Connections that work are kept\<close>

lemma blamed_nth: "blamed s n \<longleftrightarrow> (\<exists>j < length (ms_calls s). n \<in> set (ml_failed (ms_calls s ! j)))"
  unfolding blamed_def by (metis in_set_conv_nth)

lemma blamed_set_call:
  assumes b: "blamed t n" and f: "set (ml_failed (ms_calls t ! i)) \<subseteq> set (ml_failed c)"
  shows "blamed (set_call i c t) n"
proof -
  obtain j where j: "j < length (ms_calls t)" "n \<in> set (ml_failed (ms_calls t ! j))"
    using b unfolding blamed_nth by blast
  then have "n \<in> set (ml_failed (ms_calls (set_call i c t) ! j))"
    using f by (cases "j = i") (auto simp: set_call_def)
  moreover have "j < length (ms_calls (set_call i c t))" using j by (simp add: set_call_def)
  ultimately show ?thesis unfolding blamed_nth by blast
qed

lemma blamed_new: "blamed s n \<Longrightarrow> blamed (s\<lparr>ms_calls := ms_calls s @ [c]\<rparr>) n"
  by (auto simp: blamed_def)

lemma blamed_pool [simp]: "blamed (s\<lparr>ms_pool := q\<rparr>) n \<longleftrightarrow> blamed s n"
  by (simp add: blamed_def)

lemma step_blamed: "pool_step e s = Some s' \<Longrightarrow> blamed s n \<Longrightarrow> blamed s' n"
  by (cases e) (auto simp: call_acquire_def call_begin_def call_answer_def call_failed_def take_all_def Let_def
      intro!: blamed_set_call blamed_new
      split: option.splits call_phase.splits prod.splits sum.splits if_splits list.splits)

lemma acquire_keeps:
  assumes s: "mcp_ok s" and k: "map_of (mc_pool (ms_pool s)) k = Some n" "\<not> cn_dead (mc_conns (ms_pool s) ! n)"
  shows "map_of (mc_pool (ms_pool (call_acquire out i a c s))) k = Some n"
proof -
  define p where "p = (if a = 0 then ms_pool s else invalidate (ml_server c) (ms_pool s))"
  obtain q r where g: "get_or_create out (ml_server c) p = (q, r)" by fastforce
  have p: "pool_ok p" "map_of (mc_pool p) k = Some n" "\<not> cn_dead (mc_conns p ! n)"
    using invalidate_ok [OF mcp_okD(1) [OF s]] mcp_okD(1) [OF s] k by (simp_all add: p_def)
  then have "map_of (mc_pool q) k = Some n" using get_or_create_ok [OF p(1) g] by blast
  moreover have "ms_pool (call_acquire out i a c s) = q"
    using g by (cases r) (simp_all add: call_acquire_def p_def)
  ultimately show ?thesis by simp
qed

lemma step_keeps:
  assumes s: "mcp_ok s" and t: "pool_step e s = Some s'" "e \<noteq> ShutdownBegin"
    and k: "map_of (mc_pool (ms_pool s)) k = Some n" "\<not> blamed s n"
  shows "map_of (mc_pool (ms_pool s')) k = Some n"
proof -
  have "n \<in> pooled (ms_pool s)" using k(1) by (force simp: pooled_def dest: map_of_SomeD)
  then have "\<not> cn_dead (mc_conns (ms_pool s) ! n)" using mcp_okD(4) [OF s] k(2) by blast
  note a = acquire_keeps [OF s k(1) this]
  show ?thesis
    using t k(1) a
    by (cases e) (auto simp: call_begin_def call_answer_def call_failed_def on_conn_def cancel_in_background_def Let_def
        split: option.splits call_phase.splits sum.splits if_splits list.splits)
qed

lemma run_keeps:
  "mcp_ok s \<Longrightarrow> pool_run es s = Some s' \<Longrightarrow> ShutdownBegin \<notin> set es \<Longrightarrow>
    map_of (mc_pool (ms_pool s)) k = Some n \<Longrightarrow> \<not> blamed s' n \<Longrightarrow> map_of (mc_pool (ms_pool s')) k = Some n"
proof (induction es arbitrary: s)
  case (Cons e es)
  then obtain t where t: "pool_step e s = Some t" "pool_run es t = Some s'" by (auto simp: bind_eq_Some_conv)
  have later: "blamed u n \<Longrightarrow> pool_run fs u = Some s' \<Longrightarrow> blamed s' n" for u fs
    by (induction fs arbitrary: u) (auto simp: bind_eq_Some_conv dest: step_blamed)
  have "map_of (mc_pool (ms_pool t)) k = Some n"
    using step_keeps [OF Cons.prems(1) t(1) _ Cons.prems(4)] Cons.prems later [of s "e # es"] by auto
  then show ?case using Cons.IH [OF step_ok [OF Cons.prems(1) t(1)] t(2)] Cons.prems by simp
qed simp

lemma kept_alive:
  "mcp_ok s \<Longrightarrow> map_of (mc_pool (ms_pool s)) k = Some n \<Longrightarrow> \<not> blamed s n \<Longrightarrow>
    cn_service (mc_conns (ms_pool s) ! n) = Some n \<and> \<not> cn_dead (mc_conns (ms_pool s) ! n)"
  using mcp_okD(4) [of s n] owned_service [OF mcp_okD(1) pooled_owned] by (force simp: pooled_def dest: map_of_SomeD)

text \<open>What the invariant says of one call.\<close>

lemma call_ok_facts:
  assumes "call_ok p c"
  shows "length (ml_sent c) \<le> (if ml_retries c then 2 else 1) \<and> distinct (ml_sent c) \<and>
    (\<forall>n \<in> set (ml_sent c). mc_started p ! n = ml_server c) \<and>
    (\<forall>m n. ml_sent c = [m, n] \<longrightarrow> m \<in> set (ml_failed c) \<and> cn_dead (mc_conns p ! m)) \<and>
    (\<forall>v. ml_phase c = Ended (Inr v) \<longrightarrow> ml_sent c \<noteq> [] \<and> last (ml_sent c) \<notin> set (ml_failed c))"
proof (intro conjI)
  show "\<forall>v. ml_phase c = Ended (Inr v) \<longrightarrow> ml_sent c \<noteq> [] \<and> last (ml_sent c) \<notin> set (ml_failed c)"
    using assms by (auto simp: call_ok_def phase_ok_def)
  show "length (ml_sent c) \<le> (if ml_retries c then 2 else 1)" using assms call_two [OF assms] by (auto simp: call_ok_def)
qed (use assms in \<open>auto simp: call_ok_def after_failure_def\<close>)

end
