(* ===== verification/McpTools.thy ===== *)
theory McpTools
  imports McpClient Saving
begin

text \<open>
  mcp.rs: the file that names the tool servers, and the registration of their tools. The servers
  come in the order of a \<open>HashMap\<close>, here the order of the file. Listing the tools of one server is
  taken without other calls in between; among them it is a call without retries of McpClient. Whether
  a server starts and what it lists are parameters.
\<close>

section \<open>The file of servers\<close>

definition string_map_from_doc :: "json \<Rightarrow> (string \<times> string) list option" where
  "string_map_from_doc = index_map_from_doc json_as_str"

definition mcp_server_config_from_doc :: "json \<Rightarrow> mcp_server_config option" where
  "mcp_server_config_from_doc j = do {
    f \<leftarrow> doc_fields [''command'', ''args'', ''env''] 2 j;
    c \<leftarrow> required json_as_str (f ''command'');
    as \<leftarrow> required (vec_from_json json_as_str) (f ''args'');
    e \<leftarrow> optional string_map_from_doc (f ''env'');
    Some \<lparr>mc_command = c, mc_args = as, mc_env = e\<rparr> }"

definition mcp_config_from_doc :: "json \<Rightarrow> (string \<times> mcp_server_config) list option" where
  "mcp_config_from_doc j = do {
    f \<leftarrow> doc_fields [''mcpServers''] 1 j;
    required (index_map_from_doc mcp_server_config_from_doc) (f ''mcpServers'') }"

definition read_mcp_config :: "file_env \<Rightarrow> string \<Rightarrow> files \<Rightarrow> (string \<times> mcp_server_config) list result" where
  "read_mcp_config E path fs =
    (case (case fe_fault E (ReadText path) of Some e \<Rightarrow> Inl e | None \<Rightarrow> ok_or (fe_not_found E) (map_of fs path)) of
      Inl e \<Rightarrow> Inl (Other (''Failed to read MCP config file: '' @ e))
    | Inr text \<Rightarrow> ok_or (Other (''Failed to parse MCP config JSON: '' @ fe_parse_error E text))
        (Option.bind (fe_parse E text) mcp_config_from_doc))"

section \<open>Tools of a server\<close>

text \<open>What a server says of a tool.\<close>

record mcp_tool =
  mt_name :: string
  mt_description :: "string option"
  mt_schema :: json

definition mcp_tool_name :: "string \<Rightarrow> mcp_tool \<Rightarrow> string" where
  "mcp_tool_name server t = server @ ''::'' @ mt_name t"

definition mcp_tool_info :: "string \<Rightarrow> mcp_tool \<Rightarrow> tool_info" where
  "mcp_tool_info server t =
    tool_info_new (mcp_tool_name server t) (unwrap_or (mt_description t) []) (Some (mt_schema t))"

text \<open>\<open>register_tool\<close> for an \<open>MCPTool\<close>, whose handle is its name.\<close>

definition register_mcp_tool :: "string \<Rightarrow> mcp_tool \<Rightarrow> 'u tool_state \<Rightarrow> 'u tool_state" where
  "register_mcp_tool server t st =
    st\<lparr>ts_registry := im_insert (mcp_tool_name server t)
      \<lparr>te_info = mcp_tool_info server t, te_tool = mcp_tool_name server t\<rparr> (ts_registry st)\<rparr>"

lemma register_mcp_tool_is:
  "tl_info (T (mcp_tool_name server t)) = mcp_tool_info server t \<Longrightarrow>
    register_mcp_tool server t st = register_tool T (mcp_tool_name server t) st"
  by (simp add: register_mcp_tool_def register_tool_def tool_entry_new_def mcp_tool_info_def tool_info_new_def)

definition register_listed :: "string \<Rightarrow> mcp_tool list \<Rightarrow> 'u tool_state \<Rightarrow> 'u tool_state \<times> string list" where
  "register_listed server ts st = (fold (register_mcp_tool server) ts st, map (mcp_tool_name server) ts)"

definition register_tools_from_server :: "start_outcome \<Rightarrow> string + mcp_tool list \<Rightarrow> string \<Rightarrow>
    pool \<Rightarrow> 'u tool_state \<Rightarrow> pool \<times> 'u tool_state \<times> string list result" where
  "register_tools_from_server out listed server p st =
    (case get_or_create out server p of
      (p1, Inl e) \<Rightarrow> (p1, st, Inl e)
    | (p1, Inr n) \<Rightarrow>
        (case cn_service (mc_conns p1 ! n) of
          None \<Rightarrow> (p1, st, Inl (unavailable (new_call server [] False)))
        | Some k \<Rightarrow>
            (case listed of
              Inl e \<Rightarrow> (p1, st, Inl (transport_error (new_call server [] False) e))
            | Inr ts \<Rightarrow> (case register_listed server ts st of (st1, names) \<Rightarrow> (p1, st1, Inr names)))))"

text \<open>The servers one after the other, up to the first that fails.\<close>

type_synonym answers = "string \<Rightarrow> mcp_server_config \<Rightarrow> start_outcome \<times> (string + mcp_tool list)"

fun register_servers :: "answers \<Rightarrow> (string \<times> mcp_server_config) list \<Rightarrow> pool \<Rightarrow> 'u tool_state \<Rightarrow>
    pool \<times> 'u tool_state \<times> string list result" where
  "register_servers A [] p st = (p, st, Inr [])"
| "register_servers A ((server, c) # m) p st =
    (case register_tools_from_server (fst (A server c)) (snd (A server c)) server p st of
      (p1, st1, Inl e) \<Rightarrow> (p1, st1, Inl e)
    | (p1, st1, Inr names) \<Rightarrow>
        (case register_servers A m p1 st1 of
          (p2, st2, r) \<Rightarrow> (p2, st2, map_ok (\<lambda>more. names @ more) r)))"

definition register_tools_from_mcp_json :: "file_env \<Rightarrow> answers \<Rightarrow> string \<Rightarrow> files \<Rightarrow> pool \<Rightarrow> 'u tool_state \<Rightarrow>
    pool \<times> 'u tool_state \<times> string list result" where
  "register_tools_from_mcp_json E A path fs p st =
    (case read_mcp_config E path fs of
      Inl e \<Rightarrow> (p, st, Inl e)
    | Inr m \<Rightarrow> register_servers A m p st)"

section \<open>What is registered\<close>

text \<open>The tools of the first servers of a file, each with its server.\<close>

definition listed_tools :: "answers \<Rightarrow> (string \<times> mcp_server_config) list \<Rightarrow> (string \<times> mcp_tool) list" where
  "listed_tools A m =
    concat (map (\<lambda>(server, c). case snd (A server c) of Inl e \<Rightarrow> [] | Inr ts \<Rightarrow> map (Pair server) ts) m)"

definition register_all :: "(string \<times> mcp_tool) list \<Rightarrow> 'u tool_state \<Rightarrow> 'u tool_state" where
  "register_all = fold (\<lambda>(server, t). register_mcp_tool server t)"

definition names_of :: "(string \<times> mcp_tool) list \<Rightarrow> string list" where
  "names_of = map (\<lambda>(server, t). mcp_tool_name server t)"

lemma fold_register: "fold (register_mcp_tool server) ts = register_all (map (Pair server) ts)"
  by (simp add: register_all_def fold_map comp_def)

lemma register_all_append: "register_all (xs @ ys) st = register_all ys (register_all xs st)"
  by (simp add: register_all_def)

lemma register_servers_spec:
  assumes "register_servers A m p st = (p', st', r)"
  shows "\<exists>k \<le> length m. st' = register_all (listed_tools A (take k m)) st \<and>
    (case r of Inr names \<Rightarrow> k = length m \<and> names = names_of (listed_tools A m) | Inl e \<Rightarrow> k < length m)"
  using assms
proof (induction m arbitrary: p st p' st' r)
  case Nil
  then show ?case by (auto simp: listed_tools_def register_all_def names_of_def)
next
  case (Cons sc m)
  obtain server c where sc: "sc = (server, c)" by fastforce
  obtain p1 st1 r1 where one: "register_tools_from_server (fst (A server c)) (snd (A server c)) server p st = (p1, st1, r1)"
    by (metis prod_cases3)
  show ?case
  proof (cases r1)
    case (Inl e)
    then have "st1 = st"
      using one by (auto simp: register_tools_from_server_def register_listed_def split: prod.splits sum.splits option.splits)
    then show ?thesis using Cons.prems one Inl sc by (intro exI [of _ 0]) (auto simp: listed_tools_def register_all_def)
  next
    case (Inr names)
    obtain ts where ts: "snd (A server c) = Inr ts" "st1 = register_all (map (Pair server) ts) st" "names = map (mcp_tool_name server) ts"
      using one Inr by (auto simp: register_tools_from_server_def register_listed_def fold_register split: prod.splits sum.splits option.splits)
    obtain p2 st2 r2 where two: "register_servers A m p1 st1 = (p2, st2, r2)" by (metis prod_cases3)
    from Cons.IH [OF this] obtain k where k: "k \<le> length m" "st2 = register_all (listed_tools A (take k m)) st1"
        "case r2 of Inr names \<Rightarrow> k = length m \<and> names = names_of (listed_tools A m) | Inl e \<Rightarrow> k < length m" by blast
    have hd: "listed_tools A (sc # xs) = map (Pair server) ts @ listed_tools A xs" for xs
      using ts(1) by (simp add: listed_tools_def sc)
    have res: "st' = st2" "r = map_ok (\<lambda>more. names @ more) r2" using Cons.prems one Inr two sc by simp_all
    have "st' = register_all (listed_tools A (take (Suc k) (sc # m))) st"
      by (simp add: res hd k(2) ts(2) register_all_append)
    moreover have "names_of (map (Pair server) ts @ xs) = names @ names_of xs" for xs by (simp add: names_of_def ts(3))
    ultimately show ?thesis
      using k res(2) by (intro exI [of _ "Suc k"]) (cases r2, simp_all add: map_ok_def hd)
  qed
qed

lemma get_registered:
  "get_tool n (register_all xs st) = (if n \<in> set (names_of xs) then Some n else get_tool n st)"
proof (induction xs arbitrary: st)
  case (Cons x xs)
  have one: "get_tool n (register_mcp_tool server t st) = (if n = mcp_tool_name server t then Some n else get_tool n st)" for server t
    by (simp add: get_tool_def register_mcp_tool_def)
  have "register_all (x # xs) st = register_all xs (register_mcp_tool (fst x) (snd x) st)"
    by (simp add: register_all_def case_prod_beta)
  moreover have "names_of (x # xs) = mcp_tool_name (fst x) (snd x) # names_of xs"
    by (simp add: names_of_def case_prod_beta)
  ultimately show ?case by (simp only: Cons.IH one) simp
qed (simp add: register_all_def names_of_def)

lemma registered_world: "ts_world (register_all xs st) = ts_world st"
  by (induction xs arbitrary: st) (auto simp: register_all_def register_mcp_tool_def)

text \<open>The separator is no character of a name the language models accept.\<close>

lemma mcp_name_invalid: "n \<in> set (names_of xs) \<Longrightarrow> \<not> is_valid_tool_name n"
  by (auto simp: names_of_def mcp_tool_name_def is_valid_tool_name_def is_ascii_alphanumeric_def byte_def)

end
