(* ===== verification/Macro.thy ===== *)
theory Macro
  imports Definition Text
begin

text \<open>
  modular-agent-macros/src/lib.rs: the attribute \<open>#[modular_agent(...)]\<close>, from its arguments to the
  calls of the builders of definition.rs it generates, and what those calls build.

  Parsing the tokens of an attribute is a library (\<open>syn\<close>): an argument is a \<open>meta\<close>, which for a list
  has what its tokens read as, as arguments and as expressions. An expression the macro looks into is
  a string literal or an array, any other one its code. Errors are texts without their place. The
  generated code is the list of builder calls in its order; its value is \<open>build_calls\<close> below, over the
  values of the expressions, which belong to the crate that uses the attribute. The rest of the
  generated code (\<open>HasAgentData\<close>, \<open>register\<close>, the inventory entry) has no conditions in it.
\<close>

section \<open>Arguments\<close>

datatype expr = StrLit string | ArrayExpr "expr list" | Code string

type_synonym path = "string list"

datatype meta =
    MPath path
  | MNameValue path expr
  | MList path "string + meta list" "string + expr list"

record struct_field =
  sf_name :: "string option"
  sf_type :: "path option"

record item_struct =
  it_ident :: string
  it_fields :: "struct_field list"
  it_attrs :: "meta list"

record common_config =
  cc_name :: "expr option"
  cc_default :: "expr option"
  cc_title :: "expr option"
  cc_description :: "expr option"
  cc_hide_title :: bool
  cc_hidden :: bool
  cc_readonly :: bool
  cc_detail :: bool

record custom_config =
  xc_name :: expr
  xc_default :: expr
  xc_type :: expr
  xc_title :: "expr option"
  xc_description :: "expr option"
  xc_hide_title :: bool
  xc_hidden :: bool
  xc_readonly :: bool
  xc_detail :: bool

datatype config_spec =
    UnitConfig common_config
  | BooleanConfig common_config
  | IntegerConfig common_config
  | NumberConfig common_config
  | StringConfig common_config
  | TextConfig common_config
  | ArrayConfig common_config
  | ObjectConfig common_config
  | CustomConfig custom_config

record agent_args =
  aa_kind :: "expr option"
  aa_name :: "expr option"
  aa_title :: "expr option"
  aa_hide_title :: bool
  aa_description :: "expr option"
  aa_category :: "expr option"
  aa_inputs :: "expr list"
  aa_outputs :: "expr list"
  aa_configs :: "config_spec list"
  aa_global_configs :: "config_spec list"
  aa_hints :: "(expr \<times> expr) list"

section \<open>Reading the arguments\<close>

text \<open>A loop that stops at the first error.\<close>

fun try_fold :: "('a \<Rightarrow> 'b \<Rightarrow> 'e + 'b) \<Rightarrow> 'a list \<Rightarrow> 'b \<Rightarrow> 'e + 'b" where
  "try_fold f [] b = Inr b"
| "try_fold f (x # xs) b = and_then (f x b) (try_fold f xs)"

text \<open>A name the macro can see to be reserved.\<close>

definition reserved_name :: "expr \<Rightarrow> bool" where
  "reserved_name e = (case e of StrLit s \<Rightarrow> starts_with ''_'' s | _ \<Rightarrow> False)"

definition RESERVED :: string where
  "RESERVED = ''config name must not start with `_` (reserved for stale key migration)''"

definition common_default :: common_config where
  "common_default = \<lparr>cc_name = None, cc_default = None, cc_title = None, cc_description = None,
    cc_hide_title = False, cc_hidden = False, cc_readonly = False, cc_detail = False\<rparr>"

definition COMMON_SUPPORTS :: string where
  "COMMON_SUPPORTS = ''config supports name, default, title, description, hide_title, hidden, readonly, detail''"

fun common_meta :: "meta \<Rightarrow> common_config \<Rightarrow> string + common_config" where
  "common_meta (MNameValue p e) c =
    (if p = [''name''] then (if reserved_name e then Inl RESERVED else Inr (c\<lparr>cc_name := Some e\<rparr>))
     else if p = [''default''] then Inr (c\<lparr>cc_default := Some e\<rparr>)
     else if p = [''title''] then Inr (c\<lparr>cc_title := Some e\<rparr>)
     else if p = [''description''] then Inr (c\<lparr>cc_description := Some e\<rparr>)
     else Inl COMMON_SUPPORTS)"
| "common_meta (MPath p) c =
    (if p = [''hide_title''] then Inr (c\<lparr>cc_hide_title := True\<rparr>)
     else if p = [''hidden''] then Inr (c\<lparr>cc_hidden := True\<rparr>)
     else if p = [''readonly''] then Inr (c\<lparr>cc_readonly := True\<rparr>)
     else if p = [''detail''] then Inr (c\<lparr>cc_detail := True\<rparr>)
     else Inl COMMON_SUPPORTS)"
| "common_meta (MList p ms es) c = Inl COMMON_SUPPORTS"

definition parse_common_config :: "string + meta list \<Rightarrow> string + common_config" where
  "parse_common_config nested =
    and_then nested (\<lambda>ms. and_then (try_fold common_meta ms common_default) (\<lambda>c.
      if cc_name c = None then Inl ''config missing `name`'' else Inr c))"

text \<open>The local variables of \<open>parse_custom_config\<close>.\<close>

record custom_parts = common_config +
  cp_type :: "expr option"

definition parts_default :: custom_parts where
  "parts_default = \<lparr>cc_name = None, cc_default = None, cc_title = None, cc_description = None,
    cc_hide_title = False, cc_hidden = False, cc_readonly = False, cc_detail = False, cp_type = None\<rparr>"

fun parse_name_type_title_description :: "meta \<Rightarrow> custom_parts \<Rightarrow> custom_parts option" where
  "parse_name_type_title_description (MNameValue p e) c =
    (if p = [''name''] then Some (c\<lparr>cc_name := Some e\<rparr>)
     else if p = [''type''] then Some (c\<lparr>cp_type := Some e\<rparr>)
     else if p = [''type_''] then Some (c\<lparr>cp_type := Some e\<rparr>)
     else if p = [''title''] then Some (c\<lparr>cc_title := Some e\<rparr>)
     else if p = [''description''] then Some (c\<lparr>cc_description := Some e\<rparr>)
     else None)"
| "parse_name_type_title_description m c = None"

definition CUSTOM_SUPPORTS :: string where
  "CUSTOM_SUPPORTS = ''custom_config supports name, default, type/type_, title, description, hide_title, hidden, readonly, detail''"

definition custom_meta :: "meta \<Rightarrow> custom_parts \<Rightarrow> string + custom_parts" where
  "custom_meta m c =
    (case parse_name_type_title_description m c of
      Some c' \<Rightarrow> Inr c'
    | None \<Rightarrow>
        (case m of
          MNameValue p e \<Rightarrow> if p = [''default''] then Inr (c\<lparr>cc_default := Some e\<rparr>) else Inl CUSTOM_SUPPORTS
        | MPath p \<Rightarrow>
            if p = [''hide_title''] then Inr (c\<lparr>cc_hide_title := True\<rparr>)
            else if p = [''hidden''] then Inr (c\<lparr>cc_hidden := True\<rparr>)
            else if p = [''readonly''] then Inr (c\<lparr>cc_readonly := True\<rparr>)
            else if p = [''detail''] then Inr (c\<lparr>cc_detail := True\<rparr>)
            else Inl CUSTOM_SUPPORTS
        | MList p ms es \<Rightarrow> Inl CUSTOM_SUPPORTS))"

definition parse_custom_config :: "string + meta list \<Rightarrow> string + custom_config" where
  "parse_custom_config nested =
    and_then nested (\<lambda>ms. and_then (try_fold custom_meta ms parts_default) (\<lambda>c.
      case cc_name c of
        None \<Rightarrow> Inl ''config missing `name`''
      | Some n \<Rightarrow>
          if reserved_name n then Inl RESERVED
          else
            (case cc_default c of
              None \<Rightarrow> Inl ''config missing `default`''
            | Some d \<Rightarrow>
                (case cp_type c of
                  None \<Rightarrow> Inl ''config missing `type`''
                | Some t \<Rightarrow> Inr \<lparr>xc_name = n, xc_default = d, xc_type = t, xc_title = cc_title c,
                    xc_description = cc_description c, xc_hide_title = cc_hide_title c, xc_hidden = cc_hidden c,
                    xc_readonly = cc_readonly c, xc_detail = cc_detail c\<rparr>))))"

definition parse_expr_array :: "expr \<Rightarrow> string + expr list" where
  "parse_expr_array e = (case e of ArrayExpr es \<Rightarrow> Inr es | _ \<Rightarrow> Inl ''inputs/outputs expect array expressions'')"

fun hint_pair :: "meta \<Rightarrow> string + expr \<times> expr" where
  "hint_pair (MNameValue [k] e) = Inr (StrLit k, e)"
| "hint_pair (MNameValue p e) = Inl ''hint key must be a simple identifier''"
| "hint_pair m = Inl ''hint expects `key = value` pairs (e.g., `hint(color = 3)`)''"

definition parse_hint_pairs :: "string + meta list \<Rightarrow> string + (expr \<times> expr) list" where
  "parse_hint_pairs nested = and_then nested (\<lambda>ms. collect_results (map hint_pair ms))"

definition LOCAL_CONFIGS :: "(string \<times> (common_config \<Rightarrow> config_spec)) list" where
  "LOCAL_CONFIGS = [(''string_config'', StringConfig), (''text_config'', TextConfig), (''array_config'', ArrayConfig),
    (''boolean_config'', BooleanConfig), (''integer_config'', IntegerConfig), (''number_config'', NumberConfig),
    (''object_config'', ObjectConfig), (''unit_config'', UnitConfig)]"

definition GLOBAL_CONFIGS :: "(string \<times> (common_config \<Rightarrow> config_spec)) list" where
  "GLOBAL_CONFIGS = [(''string_global_config'', StringConfig), (''text_global_config'', TextConfig),
    (''boolean_global_config'', BooleanConfig), (''array_global_config'', ArrayConfig),
    (''integer_global_config'', IntegerConfig), (''number_global_config'', NumberConfig),
    (''object_global_config'', ObjectConfig), (''unit_global_config'', UnitConfig)]"

text \<open>A list argument that declares a configuration of an instance or of the definition.\<close>

definition local_config :: "string \<Rightarrow> string + meta list \<Rightarrow> (string + config_spec) option" where
  "local_config k ms =
    (if k = ''custom_config'' then Some (map_ok CustomConfig (parse_custom_config ms))
     else map_option (\<lambda>K. map_ok K (parse_common_config ms)) (map_of LOCAL_CONFIGS k))"

definition global_config :: "string \<Rightarrow> string + meta list \<Rightarrow> (string + config_spec) option" where
  "global_config k ms =
    (if k = ''custom_global_config'' then Some (map_ok CustomConfig (parse_custom_config ms))
     else map_option (\<lambda>K. map_ok K (parse_common_config ms)) (map_of GLOBAL_CONFIGS k))"

definition UNSUPPORTED :: string where
  "UNSUPPORTED = ''unsupported modular_agent argument''"

definition agent_list :: "string \<Rightarrow> string + meta list \<Rightarrow> string + expr list \<Rightarrow> agent_args \<Rightarrow> string + agent_args" where
  "agent_list k ms es a =
    (if k = ''inputs'' then map_ok (\<lambda>xs. a\<lparr>aa_inputs := xs\<rparr>) es
     else if k = ''outputs'' then map_ok (\<lambda>xs. a\<lparr>aa_outputs := xs\<rparr>) es
     else if k = ''hint'' then map_ok (\<lambda>hs. a\<lparr>aa_hints := aa_hints a @ hs\<rparr>) (parse_hint_pairs ms)
     else
       (case local_config k ms of
         Some r \<Rightarrow> map_ok (\<lambda>c. a\<lparr>aa_configs := aa_configs a @ [c]\<rparr>) r
       | None \<Rightarrow>
           (case global_config k ms of
             Some r \<Rightarrow> map_ok (\<lambda>c. a\<lparr>aa_global_configs := aa_global_configs a @ [c]\<rparr>) r
           | None \<Rightarrow> Inl UNSUPPORTED)))"

fun agent_meta :: "meta \<Rightarrow> agent_args \<Rightarrow> string + agent_args" where
  "agent_meta (MNameValue p e) a =
    (if p = [''kind''] then Inr (a\<lparr>aa_kind := Some e\<rparr>)
     else if p = [''name''] then Inr (a\<lparr>aa_name := Some e\<rparr>)
     else if p = [''title''] then Inr (a\<lparr>aa_title := Some e\<rparr>)
     else if p = [''description''] then Inr (a\<lparr>aa_description := Some e\<rparr>)
     else if p = [''category''] then Inr (a\<lparr>aa_category := Some e\<rparr>)
     else if p = [''inputs''] then map_ok (\<lambda>xs. a\<lparr>aa_inputs := xs\<rparr>) (parse_expr_array e)
     else if p = [''outputs''] then map_ok (\<lambda>xs. a\<lparr>aa_outputs := xs\<rparr>) (parse_expr_array e)
     else Inl UNSUPPORTED)"
| "agent_meta (MPath p) a = (if p = [''hide_title''] then Inr (a\<lparr>aa_hide_title := True\<rparr>) else Inl UNSUPPORTED)"
| "agent_meta (MList [k] ms es) a = agent_list k ms es a"
| "agent_meta (MList p ms es) a = Inl UNSUPPORTED"

definition args_default :: agent_args where
  "args_default = \<lparr>aa_kind = None, aa_name = None, aa_title = None, aa_hide_title = False, aa_description = None,
    aa_category = None, aa_inputs = [], aa_outputs = [], aa_configs = [], aa_global_configs = [], aa_hints = []\<rparr>"

section \<open>The generated code\<close>

datatype entry_call = EntryTitle expr | EntryDescription expr | EntryHideTitle | EntryHidden | EntryReadonly | EntryDetail

text \<open>A builder call with its arguments, one with a \<open>vec!\<close>, and one with the closure over the entry.\<close>

datatype builder_call =
    Call string "expr list"
  | CallVec string "expr list"
  | CallWith string "expr list" "entry_call list"

definition entry_calls :: "'a common_config_scheme \<Rightarrow> entry_call list" where
  "entry_calls c =
    (case cc_title c of None \<Rightarrow> [] | Some t \<Rightarrow> [EntryTitle t]) @
    (case cc_description c of None \<Rightarrow> [] | Some d \<Rightarrow> [EntryDescription d]) @
    (if cc_hide_title c then [EntryHideTitle] else []) @
    (if cc_hidden c then [EntryHidden] else []) @
    (if cc_readonly c then [EntryReadonly] else []) @
    (if cc_detail c then [EntryDetail] else [])"

definition typed_call :: "string \<Rightarrow> expr \<Rightarrow> common_config \<Rightarrow> string + builder_call" where
  "typed_call k dflt c =
    (case cc_name c of
      None \<Rightarrow> Inl (k @ '' missing `name`'')
    | Some n \<Rightarrow> Inr (CallWith (k @ ''_with'') [n, unwrap_or (cc_default c) dflt] (entry_calls c)))"

definition untyped_call :: "string \<Rightarrow> common_config \<Rightarrow> string + builder_call" where
  "untyped_call k c =
    (case cc_name c of
      None \<Rightarrow> Inl (k @ '' missing `name`'')
    | Some n \<Rightarrow> Inr (CallWith (k @ ''_with'') [n] (entry_calls c)))"

definition custom_config_call :: "string \<Rightarrow> custom_config \<Rightarrow> string + builder_call" where
  "custom_config_call method c = Inr (CallWith method [xc_name c, xc_default c, xc_type c]
    (entry_calls \<lparr>cc_name = None, cc_default = None, cc_title = xc_title c, cc_description = xc_description c,
      cc_hide_title = xc_hide_title c, cc_hidden = xc_hidden c, cc_readonly = xc_readonly c, cc_detail = xc_detail c\<rparr>))"

definition FALSE_CODE :: expr where "FALSE_CODE = Code ''false''"
definition INT_CODE :: expr where "INT_CODE = Code ''0i64''"
definition NUMBER_CODE :: expr where "NUMBER_CODE = Code ''0.0f64''"
definition ARRAY_CODE :: expr where "ARRAY_CODE = Code ''::modular_agent_core::AgentValue::array_default()''"
definition OBJECT_CODE :: expr where "OBJECT_CODE = Code ''::modular_agent_core::AgentValue::object_default()''"

text \<open>The arms of the two loops over the configurations.\<close>

definition unit_call where "unit_call = untyped_call ''unit_config''"
definition boolean_call where "boolean_call = typed_call ''boolean_config'' FALSE_CODE"
definition integer_call where "integer_call = typed_call ''integer_config'' INT_CODE"
definition number_call where "number_call = typed_call ''number_config'' NUMBER_CODE"
definition string_call where "string_call = typed_call ''string_config'' (StrLit [])"
definition text_call where "text_call = typed_call ''text_config'' (StrLit [])"
definition array_call where "array_call = typed_call ''array_config'' ARRAY_CODE"
definition object_call where "object_call = typed_call ''object_config'' OBJECT_CODE"

fun config_call :: "config_spec \<Rightarrow> string + builder_call" where
  "config_call (UnitConfig c) = unit_call c"
| "config_call (BooleanConfig c) = boolean_call c"
| "config_call (IntegerConfig c) = integer_call c"
| "config_call (NumberConfig c) = number_call c"
| "config_call (StringConfig c) = string_call c"
| "config_call (TextConfig c) = text_call c"
| "config_call (ArrayConfig c) = array_call c"
| "config_call (ObjectConfig c) = object_call c"
| "config_call (CustomConfig c) = custom_config_call ''custom_config_with'' c"

definition unit_global_call where "unit_global_call = untyped_call ''unit_global_config''"
definition boolean_global_call where "boolean_global_call = typed_call ''boolean_global_config'' FALSE_CODE"
definition integer_global_call where "integer_global_call = typed_call ''integer_global_config'' INT_CODE"
definition number_global_call where "number_global_call = typed_call ''number_global_config'' NUMBER_CODE"
definition string_global_call where "string_global_call = typed_call ''string_global_config'' (StrLit [])"
definition text_global_call where "text_global_call = typed_call ''text_global_config'' (StrLit [])"
definition array_global_call where "array_global_call = typed_call ''array_global_config'' ARRAY_CODE"
definition object_global_call where "object_global_call = typed_call ''object_global_config'' OBJECT_CODE"

fun global_config_call :: "config_spec \<Rightarrow> string + builder_call" where
  "global_config_call (UnitConfig c) = unit_global_call c"
| "global_config_call (BooleanConfig c) = boolean_global_call c"
| "global_config_call (IntegerConfig c) = integer_global_call c"
| "global_config_call (NumberConfig c) = number_global_call c"
| "global_config_call (StringConfig c) = string_global_call c"
| "global_config_call (TextConfig c) = text_global_call c"
| "global_config_call (ArrayConfig c) = array_global_call c"
| "global_config_call (ObjectConfig c) = object_global_call c"
| "global_config_call (CustomConfig c) = custom_config_call ''custom_global_config_with'' c"

definition doc_line :: "meta \<Rightarrow> string option" where
  "doc_line m = (case m of MNameValue p (StrLit s) \<Rightarrow> if p = [''doc''] then Some s else None | _ \<Rightarrow> None)"

definition extract_doc_comment :: "meta list \<Rightarrow> string option" where
  "extract_doc_comment attrs =
    (let ls = List.map_filter doc_line attrs in
     if ls = [] then None
     else
       (let text = trim (join_with [newline] (map (\<lambda>l. unwrap_or (strip_prefix '' '' l) l) ls))
        in if text = [] then None else Some text))"

definition has_data_field :: "item_struct \<Rightarrow> bool" where
  "has_data_field item \<longleftrightarrow>
    list_ex (\<lambda>f. sf_name f = Some ''data'' \<and>
      (case sf_type f of None \<Rightarrow> False | Some p \<Rightarrow> p \<noteq> [] \<and> last p = ''AgentData'')) (it_fields item)"

text \<open>The name of a definition: the given one, or the module and the identifier of the struct.\<close>

datatype name_tokens = Given expr | ModuleName string

record expansion =
  ex_kind :: expr
  ex_name :: name_tokens
  ex_boxed :: string
  ex_calls :: "builder_call list"

definition ports_call :: "string \<Rightarrow> expr list \<Rightarrow> builder_call list" where
  "ports_call m es = (if es = [] then [] else [CallVec m es])"

text \<open>The calls in the order of the generated code, for a title and a category that are given.\<close>

definition definition_builder :: "agent_args \<Rightarrow> expr \<Rightarrow> expr \<Rightarrow> builder_call list \<Rightarrow> builder_call list \<Rightarrow> builder_call list" where
  "definition_builder a title category cs gs =
    [Call ''title'' [title]] @
    (if aa_hide_title a then [Call ''hide_title'' []] else []) @
    (case aa_description a of None \<Rightarrow> [] | Some d \<Rightarrow> [Call ''description'' [d]]) @
    [Call ''category'' [category]] @
    ports_call ''inputs'' (aa_inputs a) @ ports_call ''outputs'' (aa_outputs a) @
    cs @ gs @ map (\<lambda>(k, v). Call ''hint'' [k, v]) (aa_hints a)"

definition with_doc_comment :: "item_struct \<Rightarrow> agent_args \<Rightarrow> agent_args" where
  "with_doc_comment item a =
    (if aa_description a = None
     then (case extract_doc_comment (it_attrs item) of None \<Rightarrow> a | Some doc \<Rightarrow> a\<lparr>aa_description := Some (StrLit doc)\<rparr>)
     else a)"

definition generate :: "item_struct \<Rightarrow> agent_args \<Rightarrow> string + expansion" where
  "generate item a =
    and_then (ok_or ''modular_agent: missing `title`'' (aa_title a)) (\<lambda>title.
    and_then (ok_or ''modular_agent: missing `category`'' (aa_category a)) (\<lambda>category.
    and_then (collect_results (map config_call (aa_configs a))) (\<lambda>cs.
    and_then (collect_results (map global_config_call (aa_global_configs a))) (\<lambda>gs.
      Inr \<lparr>ex_kind = unwrap_or (aa_kind a) (StrLit ''Agent''),
        ex_name = (case aa_name a of Some n \<Rightarrow> Given n | None \<Rightarrow> ModuleName (it_ident item)),
        ex_boxed = it_ident item,
        ex_calls = definition_builder a title category cs gs\<rparr>))))"

definition expand_modular_agent :: "meta list \<Rightarrow> item_struct \<Rightarrow> string + expansion" where
  "expand_modular_agent args item =
    (if \<not> has_data_field item then Inl ''#[modular_agent] expects the struct to have a `data: AgentData` field''
     else and_then (try_fold agent_meta args args_default) (\<lambda>a. generate item (with_doc_comment item a)))"

section \<open>What the generated code builds\<close>

text \<open>The value of an expression at each type the builders take, where it has that type, and the
  module path of the struct.\<close>

record rust_env =
  re_str :: "expr \<Rightarrow> string option"
  re_bool :: "expr \<Rightarrow> bool option"
  re_i64 :: "expr \<Rightarrow> i64 option"
  re_f64 :: "expr \<Rightarrow> f64 option"
  re_value :: "expr \<Rightarrow> agent_value option"
  re_json :: "expr \<Rightarrow> json option"
  re_module :: string

definition entry_step :: "rust_env \<Rightarrow> entry_call \<Rightarrow> (agent_config_spec \<Rightarrow> agent_config_spec) option" where
  "entry_step V c =
    (case c of
      EntryTitle e \<Rightarrow> map_option cs_with_title (re_str V e)
    | EntryDescription e \<Rightarrow> map_option cs_with_description (re_str V e)
    | EntryHideTitle \<Rightarrow> Some cs_with_hide_title
    | EntryHidden \<Rightarrow> Some cs_with_hidden
    | EntryReadonly \<Rightarrow> Some cs_with_readonly
    | EntryDetail \<Rightarrow> Some cs_with_detail)"

definition entry_fun :: "rust_env \<Rightarrow> entry_call list \<Rightarrow> (agent_config_spec \<Rightarrow> agent_config_spec) option" where
  "entry_fun V cs = map_option (fold (\<lambda>f s. f s)) (collect_options (map (entry_step V) cs))"

text \<open>The methods of \<open>AgentDefinition\<close> with a closure, by name. A call of another method, or with an
  argument of another type, does not compile.\<close>

definition run_with :: "rust_env \<Rightarrow> string \<Rightarrow> expr list \<Rightarrow> (agent_config_spec \<Rightarrow> agent_config_spec) \<Rightarrow>
    agent_definition \<Rightarrow> agent_definition option" where
  "run_with V method args f d =
    (case args of
      [n] \<Rightarrow>
        if method = ''unit_config_with'' then map_option (\<lambda>k. unit_config_with k f d) (re_str V n) else None
    | [n, v] \<Rightarrow>
        (case re_str V n of
          None \<Rightarrow> None
        | Some k \<Rightarrow>
            if method = ''boolean_config_with'' then map_option (\<lambda>x. boolean_config_with k x f d) (re_bool V v)
            else if method = ''integer_config_with'' then map_option (\<lambda>x. integer_config_with k x f d) (re_i64 V v)
            else if method = ''number_config_with'' then map_option (\<lambda>x. number_config_with k x f d) (re_f64 V v)
            else if method = ''string_config_with'' then map_option (\<lambda>x. string_config_with k x f d) (re_str V v)
            else if method = ''text_config_with'' then map_option (\<lambda>x. text_config_with k x f d) (re_str V v)
            else if method = ''array_config_with'' then map_option (\<lambda>x. array_config_with k x f d) (re_value V v)
            else if method = ''object_config_with'' then map_option (\<lambda>x. object_config_with k x f d) (re_value V v)
            else if method = ''boolean_global_config_with'' then map_option (\<lambda>x. boolean_global_config_with k x f d) (re_bool V v)
            else if method = ''integer_global_config_with'' then map_option (\<lambda>x. integer_global_config_with k x f d) (re_i64 V v)
            else if method = ''number_global_config_with'' then map_option (\<lambda>x. number_global_config_with k x f d) (re_f64 V v)
            else if method = ''string_global_config_with'' then map_option (\<lambda>x. string_global_config_with k x f d) (re_str V v)
            else if method = ''text_global_config_with'' then map_option (\<lambda>x. text_global_config_with k x f d) (re_str V v)
            else if method = ''array_global_config_with'' then map_option (\<lambda>x. array_global_config_with k x f d) (re_value V v)
            else if method = ''object_global_config_with'' then map_option (\<lambda>x. object_global_config_with k x f d) (re_value V v)
            else None)
    | [n, v, t] \<Rightarrow>
        (case (re_str V n, re_value V v, re_str V t) of
          (Some k, Some x, Some ty) \<Rightarrow>
            if method = ''custom_config_with'' then Some (custom_config_with k x ty f d)
            else if method = ''custom_global_config_with'' then Some (custom_global_config_with k x ty f d)
            else None
        | _ \<Rightarrow> None)
    | _ \<Rightarrow> None)"

fun run_call :: "rust_env \<Rightarrow> builder_call \<Rightarrow> agent_definition \<Rightarrow> agent_definition option" where
  "run_call V (Call m args) d =
    (case args of
      [] \<Rightarrow> if m = ''hide_title'' then Some (with_hide_title d) else None
    | [e] \<Rightarrow>
        (case re_str V e of
          None \<Rightarrow> None
        | Some s \<Rightarrow>
            if m = ''title'' then Some (with_title s d)
            else if m = ''description'' then Some (with_description s d)
            else if m = ''category'' then Some (with_category s d)
            else None)
    | [k, v] \<Rightarrow>
        (case (re_str V k, re_json V v) of
          (Some s, Some j) \<Rightarrow> if m = ''hint'' then Some (with_hint s j d) else None
        | _ \<Rightarrow> None)
    | _ \<Rightarrow> None)"
| "run_call V (CallVec m es) d =
    (case collect_options (map (re_str V) es) of
      None \<Rightarrow> None
    | Some ps \<Rightarrow>
        if m = ''inputs'' then Some (with_inputs ps d)
        else if m = ''outputs'' then Some (with_outputs ps d)
        else None)"
| "run_call V (CallWith m args es) d = Option.bind (entry_fun V es) (\<lambda>f. run_with V m args f d)"

fun build_calls :: "rust_env \<Rightarrow> builder_call list \<Rightarrow> agent_definition \<Rightarrow> agent_definition option" where
  "build_calls V [] d = Some d"
| "build_calls V (c # cs) d = Option.bind (run_call V c d) (build_calls V cs)"

definition name_value :: "rust_env \<Rightarrow> name_tokens \<Rightarrow> string option" where
  "name_value V n = (case n of Given e \<Rightarrow> re_str V e | ModuleName i \<Rightarrow> Some (re_module V @ ''::'' @ i))"

definition generated_definition :: "rust_env \<Rightarrow> expansion \<Rightarrow> agent_definition option" where
  "generated_definition V x =
    (case (re_str V (ex_kind x), name_value V (ex_name x)) of
      (Some k, Some n) \<Rightarrow> build_calls V (ex_calls x) (definition_new k n (Some (ex_boxed x)))
    | _ \<Rightarrow> None)"

end
