(* ===== verification/Generated.thy ===== *)
theory Generated
  imports Macro
begin

text \<open>
  What an attribute declares (\<open>declared\<close>, read off its arguments without the intermediate structures
  of the macro) and the lemmas that the generated code builds exactly that definition.
\<close>

section \<open>Reading an argument list\<close>

text \<open>The last value given under one of some names, and the flags.\<close>

definition given_any :: "string list \<Rightarrow> meta list \<Rightarrow> expr option" where
  "given_any ks ms =
    fold (\<lambda>m r. case m of MNameValue p e \<Rightarrow> if p \<in> (\<lambda>k. [k]) ` set ks then Some e else r | _ \<Rightarrow> r) ms None"

abbreviation arg_given :: "string \<Rightarrow> meta list \<Rightarrow> expr option" where
  "arg_given k \<equiv> given_any [k]"

definition flagged :: "string \<Rightarrow> meta list \<Rightarrow> bool" where
  "flagged k ms \<longleftrightarrow> MPath [k] \<in> set ms"

lemma given_any_Nil [simp]: "given_any ks [] = None"
  by (simp add: given_any_def)

lemma given_any_snoc [simp]:
  "given_any ks (ms @ [m]) =
    (case m of MNameValue p e \<Rightarrow> if p \<in> (\<lambda>k. [k]) ` set ks then Some e else given_any ks ms | _ \<Rightarrow> given_any ks ms)"
  by (cases m) (simp_all add: given_any_def)

lemma flagged_simps [simp]: "\<not> flagged k []" "flagged k (ms @ [m]) \<longleftrightarrow> flagged k ms \<or> m = MPath [k]"
  by (auto simp: flagged_def)

lemma try_fold_snoc [simp]: "try_fold f (xs @ [x]) b = and_then (try_fold f xs b) (f x)"
  by (induction xs arbitrary: b) (simp_all add: and_then_def split: sum.split)

definition common_read :: "meta list \<Rightarrow> common_config" where
  "common_read ms = \<lparr>cc_name = arg_given ''name'' ms, cc_default = arg_given ''default'' ms, cc_title = arg_given ''title'' ms,
    cc_description = arg_given ''description'' ms, cc_hide_title = flagged ''hide_title'' ms, cc_hidden = flagged ''hidden'' ms,
    cc_readonly = flagged ''readonly'' ms, cc_detail = flagged ''detail'' ms\<rparr>"

lemma common_meta_read:
  "try_fold common_meta ms common_default = Inr c \<Longrightarrow>
    c = common_read ms \<and> (\<forall>n. arg_given ''name'' ms = Some n \<longrightarrow> \<not> reserved_name n)"
proof (induction ms arbitrary: c rule: rev_induct)
  case Nil
  then show ?case by (simp add: common_default_def common_read_def)
next
  case (snoc m ms)
  then obtain c' where c': "try_fold common_meta ms common_default = Inr c'" "common_meta m c' = Inr c"
    by (auto simp: and_then_def split: sum.splits)
  show ?case using snoc.IH [OF c'(1)] c'(2)
    by (cases m) (auto simp: common_read_def split: if_splits)
qed

lemma parse_common_read:
  assumes "parse_common_config nested = Inr c"
  obtains ms n where "nested = Inr ms" "c = common_read ms" "arg_given ''name'' ms = Some n" "\<not> reserved_name n"
proof -
  obtain ms where ms: "nested = Inr ms" "try_fold common_meta ms common_default = Inr c" "cc_name c \<noteq> None"
    using assms by (auto simp: parse_common_config_def and_then_def split: sum.splits if_splits)
  then show thesis using common_meta_read [OF ms(2)] that by (auto simp: common_read_def)
qed

definition parts_read :: "meta list \<Rightarrow> custom_parts" where
  "parts_read ms = \<lparr>cc_name = arg_given ''name'' ms, cc_default = arg_given ''default'' ms, cc_title = arg_given ''title'' ms,
    cc_description = arg_given ''description'' ms, cc_hide_title = flagged ''hide_title'' ms, cc_hidden = flagged ''hidden'' ms,
    cc_readonly = flagged ''readonly'' ms, cc_detail = flagged ''detail'' ms, cp_type = given_any [''type'', ''type_''] ms\<rparr>"

lemma custom_meta_step: "custom_meta m (parts_read ms) = Inr c \<Longrightarrow> c = parts_read (ms @ [m])"
  by (cases m) (auto simp: custom_meta_def parts_read_def split: if_splits)

lemma custom_meta_read: "try_fold custom_meta ms parts_default = Inr c \<Longrightarrow> c = parts_read ms"
proof (induction ms arbitrary: c rule: rev_induct)
  case Nil
  then show ?case by (simp add: parts_default_def parts_read_def)
next
  case (snoc m ms)
  then obtain c' where c': "try_fold custom_meta ms parts_default = Inr c'" "custom_meta m c' = Inr c"
    by (auto simp: and_then_def split: sum.splits)
  from custom_meta_step [of m ms c] show ?case using snoc.IH [OF c'(1)] c'(2) by simp
qed

lemma parse_custom_read:
  assumes "parse_custom_config nested = Inr c"
  obtains ms where "nested = Inr ms" "arg_given ''name'' ms = Some (xc_name c)" "\<not> reserved_name (xc_name c)"
    "arg_given ''default'' ms = Some (xc_default c)" "given_any [''type'', ''type_''] ms = Some (xc_type c)"
    "entry_calls (common_read ms) = entry_calls \<lparr>cc_name = None, cc_default = None, cc_title = xc_title c,
      cc_description = xc_description c, cc_hide_title = xc_hide_title c, cc_hidden = xc_hidden c,
      cc_readonly = xc_readonly c, cc_detail = xc_detail c\<rparr>"
proof -
  obtain ms p where ms: "nested = Inr ms" "try_fold custom_meta ms parts_default = Inr p"
    using assms by (auto simp: parse_custom_config_def and_then_def split: sum.splits)
  have r: "cc_name p = arg_given ''name'' ms" "cc_default p = arg_given ''default'' ms" "cp_type p = given_any [''type'', ''type_''] ms"
      "cc_title p = arg_given ''title'' ms" "cc_description p = arg_given ''description'' ms" "cc_hide_title p = flagged ''hide_title'' ms"
      "cc_hidden p = flagged ''hidden'' ms" "cc_readonly p = flagged ''readonly'' ms" "cc_detail p = flagged ''detail'' ms"
    using custom_meta_read [OF ms(2)] by (simp_all add: parts_read_def)
  obtain n d t where f: "cc_name p = Some n" "\<not> reserved_name n" "cc_default p = Some d" "cp_type p = Some t"
      "c = \<lparr>xc_name = n, xc_default = d, xc_type = t, xc_title = cc_title p, xc_description = cc_description p,
        xc_hide_title = cc_hide_title p, xc_hidden = cc_hidden p, xc_readonly = cc_readonly p, xc_detail = cc_detail p\<rparr>"
    using assms ms by (auto simp: parse_custom_config_def and_then_def split: option.splits if_splits)
  show thesis
    by (rule that [of ms]) (use ms(1) f r in \<open>simp_all add: entry_calls_def common_read_def\<close>)
qed

section \<open>The declared configurations\<close>

definition entry_of :: "rust_env \<Rightarrow> meta list \<Rightarrow> agent_value \<Rightarrow> string \<Rightarrow> agent_config_spec" where
  "entry_of V ms v t = \<lparr>cs_value = v, cs_type = Some t, cs_title = Option.bind (arg_given ''title'' ms) (re_str V),
    cs_hide_title = flagged ''hide_title'' ms, cs_description = Option.bind (arg_given ''description'' ms) (re_str V),
    cs_hidden = flagged ''hidden'' ms, cs_readonly = flagged ''readonly'' ms, cs_detail = flagged ''detail'' ms\<rparr>"

lemma entry_fun_Nil [simp]: "entry_fun V [] = Some (\<lambda>s. s)"
  by (simp add: entry_fun_def fun_eq_iff)

lemma entry_fun_Cons [simp]:
  "entry_fun V (c # cs) = Option.bind (entry_step V c) (\<lambda>g. map_option (\<lambda>f s. f (g s)) (entry_fun V cs))"
  by (cases "entry_step V c") (auto simp: entry_fun_def option.map_comp comp_def fun_eq_iff split: option.splits)

lemma entry_fun_read:
  "entry_fun V (entry_calls (common_read ms)) = Some f \<Longrightarrow> f (config_spec_new v t) = entry_of V ms v t"
  by (auto simp: entry_calls_def common_read_def entry_step_def entry_of_def config_spec_new_def bind_eq_Some_conv
      cs_with_title_def cs_with_description_def cs_with_hide_title_def cs_with_hidden_def cs_with_readonly_def cs_with_detail_def
      split: option.splits if_splits)

definition default_values :: "(string \<times> agent_value) list" where
  "default_values = [(''boolean'', Boolean False), (''integer'', Integer 0), (''number'', Number f_zero), (''string'', String []),
    (''text'', String []), (''array'', Array []), (''object'', Object [])]"

definition value_as :: "rust_env \<Rightarrow> string \<Rightarrow> expr \<Rightarrow> agent_value option" where
  "value_as V ty e =
    (if ty = ''boolean'' then map_option Boolean (re_bool V e)
     else if ty = ''integer'' then map_option Integer (re_i64 V e)
     else if ty = ''number'' then map_option Number (re_f64 V e)
     else if ty = ''string'' \<or> ty = ''text'' then map_option String (re_str V e)
     else re_value V e)"

text \<open>The value and the type of a configuration argument, for its name without the suffix.\<close>

definition declared_value :: "rust_env \<Rightarrow> string \<Rightarrow> meta list \<Rightarrow> (agent_value \<times> string) option" where
  "declared_value V ty ms =
    (if ty = ''unit'' then Some (Unit, ty)
     else if ty = ''custom'' then
       Option.bind (Option.bind (arg_given ''default'' ms) (re_value V)) (\<lambda>v.
         map_option (Pair v) (Option.bind (given_any [''type'', ''type_''] ms) (re_str V)))
     else
       (case map_of default_values ty of
         None \<Rightarrow> None
       | Some dflt \<Rightarrow>
           map_option (\<lambda>v. (v, ty)) (case arg_given ''default'' ms of None \<Rightarrow> Some dflt | Some e \<Rightarrow> value_as V ty e)))"

definition declared_entry :: "rust_env \<Rightarrow> string \<Rightarrow> meta list \<Rightarrow> (string \<times> agent_config_spec) option" where
  "declared_entry V ty ms =
    Option.bind (Option.bind (arg_given ''name'' ms) (re_str V)) (\<lambda>n.
      map_option (\<lambda>(v, t). (n, entry_of V ms v t)) (declared_value V ty ms))"

definition declared :: "rust_env \<Rightarrow> string \<Rightarrow> meta \<Rightarrow> (string \<times> agent_config_spec) option" where
  "declared V suffix m =
    (case m of
      MList [k] (Inr ms) es \<Rightarrow> Option.bind (strip_suffix suffix k) (\<lambda>ty. declared_entry V ty ms)
    | _ \<Rightarrow> None)"

text \<open>Rust's meaning of the code the macro inserts.\<close>

definition rust_ok :: "rust_env \<Rightarrow> bool" where
  "rust_ok V \<longleftrightarrow> (\<forall>s. re_str V (StrLit s) = Some s) \<and> re_bool V FALSE_CODE = Some False \<and> re_i64 V INT_CODE = Some 0 \<and>
    re_f64 V NUMBER_CODE = Some f_zero \<and> re_value V ARRAY_CODE = Some (Array []) \<and> re_value V OBJECT_CODE = Some (Object [])"

section \<open>The calls of the generated code\<close>

text \<open>The types with a default, their constructors and the code the macro inserts for the default.\<close>

definition TYPED :: "(string \<times> (common_config \<Rightarrow> config_spec)) list" where
  "TYPED = [(''string'', StringConfig), (''text'', TextConfig), (''array'', ArrayConfig), (''boolean'', BooleanConfig),
    (''integer'', IntegerConfig), (''number'', NumberConfig), (''object'', ObjectConfig)]"

definition default_code :: "string \<Rightarrow> expr" where
  "default_code ty =
    (if ty = ''boolean'' then FALSE_CODE else if ty = ''integer'' then INT_CODE else if ty = ''number'' then NUMBER_CODE
     else if ty = ''array'' then ARRAY_CODE else if ty = ''object'' then OBJECT_CODE else StrLit [])"

lemma config_kinds:
  "map_of LOCAL_CONFIGS k = Some K \<Longrightarrow> k = ''unit_config'' \<and> K = UnitConfig \<or> (\<exists>ty. k = ty @ ''_config'' \<and> (ty, K) \<in> set TYPED)"
  "map_of GLOBAL_CONFIGS k = Some K \<Longrightarrow>
    k = ''unit_global_config'' \<and> K = UnitConfig \<or> (\<exists>ty. k = ty @ ''_global_config'' \<and> (ty, K) \<in> set TYPED)"
  by (auto simp: LOCAL_CONFIGS_def GLOBAL_CONFIGS_def TYPED_def split: if_splits)

text \<open>A fact about every type is checked by running through the list.\<close>

lemma typed_all: "list_all (\<lambda>(ty, K). P ty K) TYPED \<Longrightarrow> (ty, K) \<in> set TYPED \<Longrightarrow> P ty K"
  by (auto simp: list_all_iff)

lemma typed_calls:
  "(ty, K) \<in> set TYPED \<Longrightarrow> config_call (K c) = typed_call (ty @ ''_config'') (default_code ty) c"
  "(ty, K) \<in> set TYPED \<Longrightarrow> global_config_call (K c) = typed_call (ty @ ''_global_config'') (default_code ty) c"
proof -
  have "list_all (\<lambda>(ty, K). config_call (K c) = typed_call (ty @ ''_config'') (default_code ty) c) TYPED"
    by (simp add: TYPED_def default_code_def boolean_call_def integer_call_def number_call_def string_call_def text_call_def
        array_call_def object_call_def)
  then show "(ty, K) \<in> set TYPED \<Longrightarrow> config_call (K c) = typed_call (ty @ ''_config'') (default_code ty) c"
    by (rule typed_all)
  have "list_all (\<lambda>(ty, K). global_config_call (K c) = typed_call (ty @ ''_global_config'') (default_code ty) c) TYPED"
    by (simp add: TYPED_def default_code_def boolean_global_call_def integer_global_call_def number_global_call_def
        string_global_call_def text_global_call_def array_global_call_def object_global_call_def)
  then show "(ty, K) \<in> set TYPED \<Longrightarrow> global_config_call (K c) = typed_call (ty @ ''_global_config'') (default_code ty) c"
    by (rule typed_all)
qed

text \<open>The arms of \<open>run_with\<close>, one by one.\<close>

lemma run_config_with:
  "run_with V ''boolean_config_with'' [n, v] f d =
    Option.bind (re_str V n) (\<lambda>k. map_option (\<lambda>x. boolean_config_with k x f d) (re_bool V v))"
  "run_with V ''integer_config_with'' [n, v] f d =
    Option.bind (re_str V n) (\<lambda>k. map_option (\<lambda>x. integer_config_with k x f d) (re_i64 V v))"
  "run_with V ''number_config_with'' [n, v] f d =
    Option.bind (re_str V n) (\<lambda>k. map_option (\<lambda>x. number_config_with k x f d) (re_f64 V v))"
  "run_with V ''string_config_with'' [n, v] f d =
    Option.bind (re_str V n) (\<lambda>k. map_option (\<lambda>x. string_config_with k x f d) (re_str V v))"
  "run_with V ''text_config_with'' [n, v] f d =
    Option.bind (re_str V n) (\<lambda>k. map_option (\<lambda>x. text_config_with k x f d) (re_str V v))"
  "run_with V ''array_config_with'' [n, v] f d =
    Option.bind (re_str V n) (\<lambda>k. map_option (\<lambda>x. array_config_with k x f d) (re_value V v))"
  "run_with V ''object_config_with'' [n, v] f d =
    Option.bind (re_str V n) (\<lambda>k. map_option (\<lambda>x. object_config_with k x f d) (re_value V v))"
  by (cases "re_str V n"; simp add: run_with_def)+

lemma run_global_config_with:
  "run_with V ''boolean_global_config_with'' [n, v] f d =
    Option.bind (re_str V n) (\<lambda>k. map_option (\<lambda>x. boolean_global_config_with k x f d) (re_bool V v))"
  "run_with V ''integer_global_config_with'' [n, v] f d =
    Option.bind (re_str V n) (\<lambda>k. map_option (\<lambda>x. integer_global_config_with k x f d) (re_i64 V v))"
  "run_with V ''number_global_config_with'' [n, v] f d =
    Option.bind (re_str V n) (\<lambda>k. map_option (\<lambda>x. number_global_config_with k x f d) (re_f64 V v))"
  "run_with V ''string_global_config_with'' [n, v] f d =
    Option.bind (re_str V n) (\<lambda>k. map_option (\<lambda>x. string_global_config_with k x f d) (re_str V v))"
  "run_with V ''text_global_config_with'' [n, v] f d =
    Option.bind (re_str V n) (\<lambda>k. map_option (\<lambda>x. text_global_config_with k x f d) (re_str V v))"
  "run_with V ''array_global_config_with'' [n, v] f d =
    Option.bind (re_str V n) (\<lambda>k. map_option (\<lambda>x. array_global_config_with k x f d) (re_value V v))"
  "run_with V ''object_global_config_with'' [n, v] f d =
    Option.bind (re_str V n) (\<lambda>k. map_option (\<lambda>x. object_global_config_with k x f d) (re_value V v))"
  by (cases "re_str V n"; simp add: run_with_def)+

lemma typed_methods:
  "(ty, K) \<in> set TYPED \<Longrightarrow> run_with V (ty @ ''_config_with'') [n, v] f d =
    Option.bind (re_str V n) (\<lambda>k. map_option (\<lambda>x. insert_config_entry k (f (config_spec_new x ty)) d) (value_as V ty v))"
proof (erule typed_all [rotated])
  show "list_all (\<lambda>(ty, K). run_with V (ty @ ''_config_with'') [n, v] f d =
      Option.bind (re_str V n) (\<lambda>k. map_option (\<lambda>x. insert_config_entry k (f (config_spec_new x ty)) d) (value_as V ty v))) TYPED"
    by (cases "re_str V n")
      (simp_all add: TYPED_def run_config_with value_as_def option.map_comp comp_def config_type_with_def
        boolean_config_with_def integer_config_with_def number_config_with_def string_config_with_def text_config_with_def
        array_config_with_def object_config_with_def)
qed

lemma typed_global_methods:
  "(ty, K) \<in> set TYPED \<Longrightarrow> run_with V (ty @ ''_global_config_with'') [n, v] f d =
    Option.bind (re_str V n) (\<lambda>k. map_option (\<lambda>x. insert_global_config_entry k (f (config_spec_new x ty)) d) (value_as V ty v))"
proof (erule typed_all [rotated])
  show "list_all (\<lambda>(ty, K). run_with V (ty @ ''_global_config_with'') [n, v] f d =
      Option.bind (re_str V n) (\<lambda>k. map_option (\<lambda>x. insert_global_config_entry k (f (config_spec_new x ty)) d) (value_as V ty v))) TYPED"
    by (cases "re_str V n")
      (simp_all add: TYPED_def run_global_config_with value_as_def option.map_comp comp_def global_config_type_with_def
        boolean_global_config_with_def integer_global_config_with_def number_global_config_with_def
        string_global_config_with_def text_global_config_with_def array_global_config_with_def object_global_config_with_def)
qed

lemma typed_default:
  assumes "rust_ok V"
  shows "(ty, K) \<in> set TYPED \<Longrightarrow>
    map_option (\<lambda>x. (x, ty)) (value_as V ty (unwrap_or (arg_given ''default'' ms) (default_code ty))) = declared_value V ty ms"
proof (erule typed_all [rotated])
  show "list_all (\<lambda>(ty, K). map_option (\<lambda>x. (x, ty)) (value_as V ty (unwrap_or (arg_given ''default'' ms) (default_code ty))) =
      declared_value V ty ms) TYPED"
    using assms
    by (cases "arg_given ''default'' ms")
      (simp_all add: TYPED_def rust_ok_def declared_value_def default_values_def value_as_def default_code_def unwrap_or_def)
qed

text \<open>A configuration call that runs inserts the declared entry.\<close>

lemma typed_entry:
  assumes V: "rust_ok V" and ty: "(ty, K) \<in> set TYPED" and n: "arg_given ''name'' ms = Some n"
    and f: "entry_fun V (entry_calls (common_read ms)) = Some f"
    and k: "re_str V n = Some k" and x: "value_as V ty (unwrap_or (arg_given ''default'' ms) (default_code ty)) = Some x"
  shows "declared_entry V ty ms = Some (k, f (config_spec_new x ty))"
  using typed_default [OF V ty, of ms, symmetric] n k x entry_fun_read [OF f] by (simp add: declared_entry_def)

lemma typed_runs:
  assumes V: "rust_ok V" and ty: "(ty, K) \<in> set TYPED" and n: "arg_given ''name'' ms = Some n"
    and call: "config_call (K (common_read ms)) = Inr call" and run: "run_call V call d = Some d'"
  shows "\<exists>k s. declared_entry V ty ms = Some (k, s) \<and> d' = insert_config_entry k s d"
proof -
  have c: "call = CallWith (ty @ ''_config_with'') [n, unwrap_or (arg_given ''default'' ms) (default_code ty)] (entry_calls (common_read ms))"
    using call n by (simp add: typed_calls(1) [OF ty] typed_call_def) (simp add: common_read_def)
  then show ?thesis
    using run typed_entry [OF V ty n]
    by (fastforce simp: typed_methods [OF ty] bind_eq_Some_conv)
qed

lemma typed_global_runs:
  assumes V: "rust_ok V" and ty: "(ty, K) \<in> set TYPED" and n: "arg_given ''name'' ms = Some n"
    and call: "global_config_call (K (common_read ms)) = Inr call" and run: "run_call V call d = Some d'"
  shows "\<exists>k s. declared_entry V ty ms = Some (k, s) \<and> d' = insert_global_config_entry k s d"
proof -
  have c: "call = CallWith (ty @ ''_global_config_with'') [n, unwrap_or (arg_given ''default'' ms) (default_code ty)]
      (entry_calls (common_read ms))"
    using call n by (simp add: typed_calls(2) [OF ty] typed_call_def) (simp add: common_read_def)
  then show ?thesis
    using run typed_entry [OF V ty n]
    by (fastforce simp: typed_global_methods [OF ty] bind_eq_Some_conv)
qed

lemma unit_runs:
  assumes n: "arg_given ''name'' ms = Some n" and call: "unit_call (common_read ms) = Inr call" and run: "run_call V call d = Some d'"
  shows "\<exists>k s. declared_entry V ''unit'' ms = Some (k, s) \<and> d' = insert_config_entry k s d"
proof -
  have "call = CallWith ''unit_config_with'' [n] (entry_calls (common_read ms))"
    using call n by (simp add: unit_call_def untyped_call_def) (simp add: common_read_def)
  then obtain f k where "entry_fun V (entry_calls (common_read ms)) = Some f" "re_str V n = Some k" "d' = unit_config_with k f d"
    using run by (auto simp: run_with_def bind_eq_Some_conv)
  then show ?thesis
    using n by (simp add: declared_entry_def declared_value_def unit_config_with_def config_type_with_def entry_fun_read)
qed

lemma unit_global_stuck:
  assumes n: "arg_given ''name'' ms = Some n" and call: "unit_global_call (common_read ms) = Inr call"
  shows "run_call V call d = None"
proof -
  have "call = CallWith ''unit_global_config_with'' [n] (entry_calls (common_read ms))"
    using call n by (simp add: unit_global_call_def untyped_call_def) (simp add: common_read_def)
  then show ?thesis by (cases "entry_fun V (entry_calls (common_read ms))") (simp_all add: run_with_def)
qed

lemma run_custom:
  "run_with V ''custom_config_with'' [n, v, t] f d =
    Option.bind (re_str V n) (\<lambda>k. Option.bind (re_value V v) (\<lambda>x. map_option (\<lambda>ty. custom_config_with k x ty f d) (re_str V t)))"
  "run_with V ''custom_global_config_with'' [n, v, t] f d =
    Option.bind (re_str V n) (\<lambda>k. Option.bind (re_value V v) (\<lambda>x. map_option (\<lambda>ty. custom_global_config_with k x ty f d) (re_str V t)))"
  by (simp_all add: run_with_def split: option.split)

lemma custom_entry:
  assumes c: "parse_custom_config nested = Inr c"
    and f: "entry_fun V (entry_calls \<lparr>cc_name = None, cc_default = None, cc_title = xc_title c,
      cc_description = xc_description c, cc_hide_title = xc_hide_title c, cc_hidden = xc_hidden c,
      cc_readonly = xc_readonly c, cc_detail = xc_detail c\<rparr>) = Some f"
    and "re_str V (xc_name c) = Some k" "re_value V (xc_default c) = Some x" "re_str V (xc_type c) = Some t"
  shows "\<exists>ms. nested = Inr ms \<and> declared_entry V ''custom'' ms = Some (k, f (config_spec_new x t))"
  using c
proof (rule parse_custom_read)
  fix ms
  assume "nested = Inr ms" "arg_given ''name'' ms = Some (xc_name c)" "arg_given ''default'' ms = Some (xc_default c)"
    "given_any [''type'', ''type_''] ms = Some (xc_type c)"
    and "entry_calls (common_read ms) = entry_calls \<lparr>cc_name = None, cc_default = None, cc_title = xc_title c,
      cc_description = xc_description c, cc_hide_title = xc_hide_title c, cc_hidden = xc_hidden c,
      cc_readonly = xc_readonly c, cc_detail = xc_detail c\<rparr>"
  then show ?thesis using assms(2-) entry_fun_read [of V ms f] by (simp add: declared_entry_def declared_value_def)
qed

text \<open>The same for an argument of the attribute.\<close>

lemma strip_suffix_append [simp]: "strip_suffix p (s @ p) = Some s"
  by (simp add: strip_suffix_def)

lemma declared_append: "declared V suffix (MList [ty @ suffix] (Inr ms) es) = declared_entry V ty ms"
  by (simp add: declared_def)

lemma local_runs:
  assumes V: "rust_ok V" and c: "local_config k nested = Some (Inr c)" and call: "config_call c = Inr call"
    and run: "run_call V call d = Some d'"
  shows "\<exists>n s. declared V ''_config'' (MList [k] nested es) = Some (n, s) \<and> d' = insert_config_entry n s d"
proof (cases "k = ''custom_config''")
  case True
  then obtain x where x: "parse_custom_config nested = Inr x" "c = CustomConfig x"
    using c by (auto simp: local_config_def map_ok_def split: sum.splits)
  from call run obtain f n v t where f: "entry_fun V (entry_calls \<lparr>cc_name = None, cc_default = None, cc_title = xc_title x,
      cc_description = xc_description x, cc_hide_title = xc_hide_title x, cc_hidden = xc_hidden x,
      cc_readonly = xc_readonly x, cc_detail = xc_detail x\<rparr>) = Some f"
      "re_str V (xc_name x) = Some n" "re_value V (xc_default x) = Some v" "re_str V (xc_type x) = Some t"
      "d' = custom_config_with n v t f d"
    by (auto simp: x(2) custom_config_call_def run_custom bind_eq_Some_conv)
  from custom_entry [OF x(1) f(1-4)] obtain ms where ms: "nested = Inr ms"
      "declared_entry V ''custom'' ms = Some (n, f (config_spec_new v t))" by blast
  then show ?thesis
    using declared_append [of V "''_config''" "''custom''" ms es] True f(5) by (simp add: custom_config_with_def config_type_with_def)
next
  case False
  then obtain K cc where K: "map_of LOCAL_CONFIGS k = Some K" "parse_common_config nested = Inr cc" "c = K cc"
    using c by (cases "parse_common_config nested") (auto simp: local_config_def map_ok_def)
  obtain ms n where ms: "nested = Inr ms" "cc = common_read ms" "arg_given ''name'' ms = Some n"
    using K(2) by (rule parse_common_read)
  from config_kinds(1) [OF K(1)] show ?thesis
  proof (elim disjE conjE exE)
    assume u: "k = ''unit_config''" "K = UnitConfig"
    then show ?thesis
      using unit_runs [OF ms(3) _ run] call K(3) ms declared_append [of V "''_config''" "''unit''" ms es] by simp
  next
    fix ty
    assume t: "k = ty @ ''_config''" "(ty, K) \<in> set TYPED"
    then show ?thesis
      using typed_runs [OF V t(2) ms(3) _ run] call K(3) ms declared_append [of V "''_config''" ty ms es] by simp
  qed
qed

lemma global_runs:
  assumes V: "rust_ok V" and c: "global_config k nested = Some (Inr c)" and call: "global_config_call c = Inr call"
    and run: "run_call V call d = Some d'"
  shows "\<exists>n s. declared V ''_global_config'' (MList [k] nested es) = Some (n, s) \<and> d' = insert_global_config_entry n s d"
proof (cases "k = ''custom_global_config''")
  case True
  then obtain x where x: "parse_custom_config nested = Inr x" "c = CustomConfig x"
    using c by (auto simp: global_config_def map_ok_def split: sum.splits)
  from call run obtain f n v t where f: "entry_fun V (entry_calls \<lparr>cc_name = None, cc_default = None, cc_title = xc_title x,
      cc_description = xc_description x, cc_hide_title = xc_hide_title x, cc_hidden = xc_hidden x,
      cc_readonly = xc_readonly x, cc_detail = xc_detail x\<rparr>) = Some f"
      "re_str V (xc_name x) = Some n" "re_value V (xc_default x) = Some v" "re_str V (xc_type x) = Some t"
      "d' = custom_global_config_with n v t f d"
    by (auto simp: x(2) custom_config_call_def run_custom bind_eq_Some_conv)
  from custom_entry [OF x(1) f(1-4)] obtain ms where ms: "nested = Inr ms"
      "declared_entry V ''custom'' ms = Some (n, f (config_spec_new v t))" by blast
  then show ?thesis
    using declared_append [of V "''_global_config''" "''custom''" ms es] True f(5)
    by (simp add: custom_global_config_with_def global_config_type_with_def)
next
  case False
  then obtain K cc where K: "map_of GLOBAL_CONFIGS k = Some K" "parse_common_config nested = Inr cc" "c = K cc"
    using c by (cases "parse_common_config nested") (auto simp: global_config_def map_ok_def)
  obtain ms n where ms: "nested = Inr ms" "cc = common_read ms" "arg_given ''name'' ms = Some n"
    using K(2) by (rule parse_common_read)
  from config_kinds(2) [OF K(1)] show ?thesis
  proof (elim disjE conjE exE)
    assume u: "k = ''unit_global_config''" "K = UnitConfig"
    then have "run_call V call d = None"
      using unit_global_stuck [OF ms(3)] call K(3) ms(2) by simp
    then show ?thesis using run by simp
  next
    fix ty
    assume t: "k = ty @ ''_global_config''" "(ty, K) \<in> set TYPED"
    then show ?thesis
      using typed_global_runs [OF V t(2) ms(3) _ run] call K(3) ms declared_append [of V "''_global_config''" ty ms es] by simp
  qed
qed

section \<open>The arguments of the attribute\<close>

definition config_attr :: "(string \<Rightarrow> string + meta list \<Rightarrow> (string + config_spec) option) \<Rightarrow> meta \<Rightarrow> config_spec option" where
  "config_attr f m =
    (case m of MList [k] ms es \<Rightarrow> (case f k ms of Some (Inr c) \<Rightarrow> Some c | _ \<Rightarrow> None) | _ \<Rightarrow> None)"

text \<open>The ports given last, as an array or as a list, and the hints.\<close>

definition port_exprs :: "string \<Rightarrow> meta list \<Rightarrow> expr list" where
  "port_exprs k ms =
    fold (\<lambda>m r. case m of
        MNameValue p e \<Rightarrow> if p = [k] then (case e of ArrayExpr es \<Rightarrow> es | _ \<Rightarrow> r) else r
      | MList p ns es \<Rightarrow> if p = [k] then (case es of Inr xs \<Rightarrow> xs | Inl _ \<Rightarrow> r) else r
      | MPath p \<Rightarrow> r) ms []"

definition hint_attr :: "meta \<Rightarrow> (expr \<times> expr) list" where
  "hint_attr m =
    (case m of
      MList p ms es \<Rightarrow> if p = [''hint''] then (case parse_hint_pairs ms of Inr hs \<Rightarrow> hs | Inl _ \<Rightarrow> []) else []
    | _ \<Rightarrow> [])"

definition args_read :: "meta list \<Rightarrow> agent_args" where
  "args_read ms = \<lparr>aa_kind = arg_given ''kind'' ms, aa_name = arg_given ''name'' ms, aa_title = arg_given ''title'' ms,
    aa_hide_title = flagged ''hide_title'' ms, aa_description = arg_given ''description'' ms, aa_category = arg_given ''category'' ms,
    aa_inputs = port_exprs ''inputs'' ms, aa_outputs = port_exprs ''outputs'' ms,
    aa_configs = List.map_filter (config_attr local_config) ms,
    aa_global_configs = List.map_filter (config_attr global_config) ms, aa_hints = concat (map hint_attr ms)\<rparr>"

lemma ports_Nil [simp]: "port_exprs k [] = []"
  by (simp add: port_exprs_def)

lemma ports_snoc [simp]:
  "port_exprs k (ms @ [m]) =
    (case m of
        MNameValue p e \<Rightarrow> if p = [k] then (case e of ArrayExpr es \<Rightarrow> es | _ \<Rightarrow> port_exprs k ms) else port_exprs k ms
      | MList p ns es \<Rightarrow> if p = [k] then (case es of Inr xs \<Rightarrow> xs | Inl _ \<Rightarrow> port_exprs k ms) else port_exprs k ms
      | MPath p \<Rightarrow> port_exprs k ms)"
  unfolding port_exprs_def by (cases m) simp_all

lemma map_filter_snoc: "List.map_filter f (xs @ [x]) = List.map_filter f xs @ (case f x of None \<Rightarrow> [] | Some y \<Rightarrow> [y])"
  by (simp add: List.map_filter_def split: option.split)

text \<open>No argument is two things.\<close>

lemma not_config [simp]:
  "local_config ''inputs'' ms = None" "local_config ''outputs'' ms = None" "local_config ''hint'' ms = None"
  "global_config ''inputs'' ms = None" "global_config ''outputs'' ms = None" "global_config ''hint'' ms = None"
  by (simp_all add: local_config_def global_config_def LOCAL_CONFIGS_def GLOBAL_CONFIGS_def)

lemma local_not_global: "local_config k ms = Some r \<Longrightarrow> global_config k ms = None"
proof -
  have "list_all (\<lambda>(k, K). map_of GLOBAL_CONFIGS k = None \<and> k \<noteq> ''custom_global_config'') LOCAL_CONFIGS"
    by (simp add: LOCAL_CONFIGS_def GLOBAL_CONFIGS_def)
  moreover have "global_config ''custom_config'' ms = None" by (simp add: global_config_def GLOBAL_CONFIGS_def)
  moreover assume "local_config k ms = Some r"
  ultimately show ?thesis
    by (auto simp: local_config_def global_config_def list_all_iff split: if_splits dest!: map_of_SomeD)
qed

lemma args_step: "agent_meta m (args_read ms) = Inr a \<Longrightarrow> a = args_read (ms @ [m])"
proof (cases m)
  case (MList p ns es)
  assume a: "agent_meta m (args_read ms) = Inr a"
  then obtain k where p: "p = [k]" using MList by (cases p; cases "tl p") auto
  then have a: "agent_list k ns es (args_read ms) = Inr a" using a MList by simp
  show ?thesis
  proof (cases "local_config k ns")
    case (Some r)
    then have "k \<noteq> ''inputs'' \<and> k \<noteq> ''outputs'' \<and> k \<noteq> ''hint''" by auto
    then show ?thesis
      using a Some local_not_global [OF Some] MList p
      by (cases r) (auto simp: agent_list_def map_ok_def args_read_def map_filter_snoc config_attr_def hint_attr_def)
  next
    case None
    then show ?thesis
      using a MList p
      by (auto simp: agent_list_def map_ok_def args_read_def map_filter_snoc config_attr_def hint_attr_def
          split: if_splits sum.splits option.splits)
  qed
next
  case (MNameValue p e)
  assume "agent_meta m (args_read ms) = Inr a"
  then show ?thesis
    using MNameValue
    by (auto simp: args_read_def map_filter_snoc config_attr_def hint_attr_def parse_expr_array_def map_ok_def
        split: if_splits expr.splits)
next
  case (MPath p)
  assume "agent_meta m (args_read ms) = Inr a"
  then show ?thesis
    using MPath by (auto simp: args_read_def map_filter_snoc config_attr_def hint_attr_def split: if_splits)
qed

lemma args_fold:
  "try_fold agent_meta args args_default = Inr a \<Longrightarrow>
    a = args_read args \<and> (\<forall>m \<in> set args. \<exists>b b'. agent_meta m b = Inr b')"
proof (induction args arbitrary: a rule: rev_induct)
  case Nil
  then show ?case by (simp add: args_default_def args_read_def List.map_filter_def)
next
  case (snoc m ms)
  then obtain b where b: "try_fold agent_meta ms args_default = Inr b" "agent_meta m b = Inr a"
    by (auto simp: and_then_def split: sum.splits)
  from args_step [of m ms a] show ?case using snoc.IH [OF b(1)] b(2) by auto
qed

text \<open>An accepted argument that declares a configuration is read as one.\<close>

lemma declared_kind:
  assumes "declared_entry V ty ms = Some e"
  shows "local_config (ty @ ''_config'') (Inr ms) \<noteq> None" "global_config (ty @ ''_global_config'') (Inr ms) \<noteq> None"
proof -
  have all: "list_all (\<lambda>(ty, v). map_of LOCAL_CONFIGS (ty @ ''_config'') \<noteq> None \<and> map_of GLOBAL_CONFIGS (ty @ ''_global_config'') \<noteq> None)
      default_values"
    by (simp add: default_values_def LOCAL_CONFIGS_def GLOBAL_CONFIGS_def)
  have "ty = ''unit'' \<or> ty = ''custom'' \<or> (\<exists>v. (ty, v) \<in> set default_values)"
    using assms by (auto simp: declared_entry_def declared_value_def bind_eq_Some_conv split: if_splits option.splits
        dest: map_of_SomeD)
  then have "local_config (ty @ ''_config'') (Inr ms) \<noteq> None \<and> global_config (ty @ ''_global_config'') (Inr ms) \<noteq> None"
  proof (elim disjE exE)
    fix v
    assume "(ty, v) \<in> set default_values"
    then have "map_of LOCAL_CONFIGS (ty @ ''_config'') \<noteq> None \<and> map_of GLOBAL_CONFIGS (ty @ ''_global_config'') \<noteq> None"
      using all by (auto simp only: list_all_iff split: prod.splits)
    then show ?thesis by (simp add: local_config_def global_config_def)
  qed (simp_all add: local_config_def LOCAL_CONFIGS_def global_config_def GLOBAL_CONFIGS_def)
  then show "local_config (ty @ ''_config'') (Inr ms) \<noteq> None" "global_config (ty @ ''_global_config'') (Inr ms) \<noteq> None"
    by (rule conjunct1, rule conjunct2)
qed

lemma strip_suffix_Some: "strip_suffix p s = Some t \<Longrightarrow> s = t @ p"
  by (auto simp: strip_suffix_def strip_prefix_eq_Some) (metis rev_append rev_rev_ident)

lemma declared_cases:
  assumes "declared V suffix m = Some e"
  obtains ty ms es where "m = MList [ty @ suffix] (Inr ms) es" "declared_entry V ty ms = Some e"
  using assms
  by (auto simp: declared_def bind_eq_Some_conv dest!: strip_suffix_Some split: meta.splits list.splits sum.splits)

lemma accepted_attr:
  assumes "agent_meta (MList [k] ms es) b = Inr b'" "k \<noteq> ''inputs''" "k \<noteq> ''outputs''" "k \<noteq> ''hint''"
  shows "local_config k ms = Some r \<Longrightarrow> config_attr local_config (MList [k] ms es) \<noteq> None"
    "local_config k ms = None \<Longrightarrow> global_config k ms = Some r \<Longrightarrow> config_attr global_config (MList [k] ms es) \<noteq> None"
  using assms by (cases r; simp add: agent_list_def map_ok_def config_attr_def)+

lemma undeclared:
  assumes a: "agent_meta m b = Inr b'" and n: "config_attr local_config m = None"
  shows "declared V ''_config'' m = None"
proof (rule ccontr)
  assume "declared V ''_config'' m \<noteq> None"
  then obtain e where "declared V ''_config'' m = Some e" by blast
  then obtain ty ms es where m: "m = MList [ty @ ''_config''] (Inr ms) es" "declared_entry V ty ms = Some e"
    by (rule declared_cases)
  define k where "k = ty @ ''_config''"
  obtain r where r: "local_config k (Inr ms) = Some r" using declared_kind(1) [OF m(2)] unfolding k_def by blast
  then have "k \<noteq> ''inputs''" "k \<noteq> ''outputs''" "k \<noteq> ''hint''" by auto
  from accepted_attr(1) [OF a [unfolded m(1), folded k_def] this r] show False using n by (simp add: m(1) k_def)
qed

lemma undeclared_global:
  assumes a: "agent_meta m b = Inr b'" and n: "config_attr global_config m = None"
  shows "declared V ''_global_config'' m = None"
proof (rule ccontr)
  assume "declared V ''_global_config'' m \<noteq> None"
  then obtain e where "declared V ''_global_config'' m = Some e" by blast
  then obtain ty ms es where m: "m = MList [ty @ ''_global_config''] (Inr ms) es" "declared_entry V ty ms = Some e"
    by (rule declared_cases)
  define k where "k = ty @ ''_global_config''"
  obtain r where r: "global_config k (Inr ms) = Some r" using declared_kind(2) [OF m(2)] unfolding k_def by blast
  then have "k \<noteq> ''inputs''" "k \<noteq> ''outputs''" "k \<noteq> ''hint''" by auto
  moreover have "local_config k (Inr ms) = None"
  proof (rule ccontr)
    assume "local_config k (Inr ms) \<noteq> None"
    then show False using local_not_global r by fastforce
  qed
  ultimately show False using accepted_attr(2) [OF a [unfolded m(1), folded k_def]] r n by (simp add: m(1) k_def)
qed

section \<open>Running the generated code\<close>

lemma build_calls_append: "build_calls V (xs @ ys) d = Option.bind (build_calls V xs d) (build_calls V ys)"
  by (induction xs arbitrary: d) (simp_all split: Option.bind_split)

lemma run_configs:
  assumes "collect_results (map callf (List.map_filter attr args)) = Inr cs" "build_calls V cs d = Some d'"
    and "\<And>m. m \<in> set args \<Longrightarrow> attr m = None \<Longrightarrow> decl m = None"
    and "\<And>m c call d d'. attr m = Some c \<Longrightarrow> callf c = Inr call \<Longrightarrow> run_call V call d = Some d' \<Longrightarrow>
      \<exists>n s. decl m = Some (n, s) \<and> d' = ins n s d"
  shows "d' = fold (\<lambda>(n, s). ins n s) (List.map_filter decl args) d"
  using assms(1-3)
proof (induction args arbitrary: cs d)
  case (Cons m args)
  show ?case
  proof (cases "attr m")
    case None
    then have "decl m = None" using Cons.prems(3) by simp
    then show ?thesis using Cons.IH [of cs d] Cons.prems None by (simp add: map_filter_simps)
  next
    case (Some c)
    then obtain call cs' where c: "callf c = Inr call" "collect_results (map callf (List.map_filter attr args)) = Inr cs'" "cs = call # cs'"
      using Cons.prems(1) by (cases "callf c") (auto simp: map_filter_simps map_ok_def split: sum.splits)
    then obtain e where e: "run_call V call d = Some e" "build_calls V cs' e = Some d'"
      using Cons.prems(2) by (auto simp: bind_eq_Some_conv)
    from assms(4) [OF Some c(1) e(1)] obtain n s where "decl m = Some (n, s)" "e = ins n s d" by blast
    then show ?thesis using Cons.IH [OF c(2) e(2)] Cons.prems(3) by (simp add: map_filter_simps)
  qed
qed (simp add: List.map_filter_def)

definition config_entries :: "(string \<times> agent_config_spec) list \<Rightarrow> agent_config_specs option" where
  "config_entries es = (if es = [] then None else Some (im_from_iter es))"

lemma entries_snoc: "config_entries (es @ [(k, e)]) = Some (im_insert k e (unwrap_or (config_entries es) []))"
  by (simp add: config_entries_def im_from_iter_def unwrap_or_def)

lemma insert_entries:
  "d_configs d = None \<Longrightarrow> fold (\<lambda>(n, s). insert_config_entry n s) es d = d\<lparr>d_configs := config_entries es\<rparr>"
  "d_global_configs d = None \<Longrightarrow> fold (\<lambda>(n, s). insert_global_config_entry n s) es d = d\<lparr>d_global_configs := config_entries es\<rparr>"
proof -
  show "d_configs d = None \<Longrightarrow> fold (\<lambda>(n, s). insert_config_entry n s) es d = d\<lparr>d_configs := config_entries es\<rparr>"
  proof (induction es rule: rev_induct)
    case (snoc x es)
    then show ?case
      by (cases x; cases "config_entries es") (auto simp: insert_config_entry_def entries_snoc unwrap_or_def im_insert_def split: option.splits)
  qed (simp add: config_entries_def)
  show "d_global_configs d = None \<Longrightarrow> fold (\<lambda>(n, s). insert_global_config_entry n s) es d = d\<lparr>d_global_configs := config_entries es\<rparr>"
  proof (induction es rule: rev_induct)
    case (snoc x es)
    then show ?case
      by (cases x; cases "config_entries es") (auto simp: insert_global_config_entry_def entries_snoc unwrap_or_def im_insert_def split: option.splits)
  qed (simp add: config_entries_def)
qed

section \<open>The definition an attribute declares\<close>

definition doc_given :: "rust_env \<Rightarrow> meta list \<Rightarrow> item_struct \<Rightarrow> string option" where
  "doc_given V args item =
    (case arg_given ''description'' args of None \<Rightarrow> extract_doc_comment (it_attrs item) | Some e \<Rightarrow> re_str V e)"

definition declared_ports :: "rust_env \<Rightarrow> string \<Rightarrow> meta list \<Rightarrow> string list option" where
  "declared_ports V k args = (if port_exprs k args = [] then None else collect_options (map (re_str V) (port_exprs k args)))"

definition hint_value :: "rust_env \<Rightarrow> expr \<times> expr \<Rightarrow> (string \<times> json) option" where
  "hint_value V h = Option.bind (re_str V (fst h)) (\<lambda>k. map_option (Pair k) (re_json V (snd h)))"

definition declared_definition :: "rust_env \<Rightarrow> meta list \<Rightarrow> item_struct \<Rightarrow> agent_definition" where
  "declared_definition V args item =
    \<lparr>d_kind = unwrap_or (Option.bind (arg_given ''kind'' args) (re_str V)) ''Agent'',
     d_name = unwrap_or (Option.bind (arg_given ''name'' args) (re_str V)) (re_module V @ ''::'' @ it_ident item),
     d_title = Option.bind (arg_given ''title'' args) (re_str V),
     d_hide_title = flagged ''hide_title'' args,
     d_description = doc_given V args item,
     d_category = Option.bind (arg_given ''category'' args) (re_str V),
     d_inputs = declared_ports V ''inputs'' args,
     d_outputs = declared_ports V ''outputs'' args,
     d_configs = config_entries (List.map_filter (declared V ''_config'') args),
     d_global_configs = config_entries (List.map_filter (declared V ''_global_config'') args),
     d_hints = im_from_iter (List.map_filter (hint_value V) (concat (map hint_attr args))),
     d_native_thread = False,
     d_new_boxed = Some (it_ident item)\<rparr>"

lemma run_ports:
  assumes "build_calls V (ports_call m es) d = Some d'"
  shows "m = ''inputs'' \<Longrightarrow> d_inputs d = None \<Longrightarrow>
      d' = d\<lparr>d_inputs := if es = [] then None else collect_options (map (re_str V) es)\<rparr>"
    "m = ''outputs'' \<Longrightarrow> d_outputs d = None \<Longrightarrow>
      d' = d\<lparr>d_outputs := if es = [] then None else collect_options (map (re_str V) es)\<rparr>"
  using assms by (auto simp: ports_call_def with_inputs_def with_outputs_def split: if_splits option.splits)

lemma run_hints:
  "build_calls V (map (\<lambda>(k, v). Call ''hint'' [k, v]) hs) d = Some d' \<Longrightarrow> d_hints d = [] \<Longrightarrow>
    d' = d\<lparr>d_hints := im_from_iter (List.map_filter (hint_value V) hs)\<rparr>"
proof (induction hs arbitrary: d' rule: rev_induct)
  case Nil
  then show ?case by (simp add: List.map_filter_def im_from_iter_def)
next
  case (snoc h hs)
  obtain k v where h: "h = (k, v)" by (cases h)
  from snoc.prems(1) obtain e where e: "build_calls V (map (\<lambda>(k, v). Call ''hint'' [k, v]) hs) d = Some e"
      "build_calls V [Call ''hint'' [k, v]] e = Some d'"
    by (auto simp: h build_calls_append bind_eq_Some_conv simp del: build_calls.simps)
  then show ?case
    using snoc.IH [OF e(1) snoc.prems(2)]
    by (auto simp: h map_filter_snoc hint_value_def im_from_iter_def with_hint_def split: option.splits)
qed

text \<open>The parts of an expansion, one after the other.\<close>

lemma expand_parts:
  assumes "expand_modular_agent args item = Inr x"
  obtains title category cs gs where "has_data_field item"
    "arg_given ''title'' args = Some title" "arg_given ''category'' args = Some category"
    "collect_results (map config_call (List.map_filter (config_attr local_config) args)) = Inr cs"
    "collect_results (map global_config_call (List.map_filter (config_attr global_config) args)) = Inr gs"
    "\<And>m. m \<in> set args \<Longrightarrow> \<exists>b b'. agent_meta m b = Inr b'"
    "x = \<lparr>ex_kind = unwrap_or (arg_given ''kind'' args) (StrLit ''Agent''),
      ex_name = (case arg_given ''name'' args of Some n \<Rightarrow> Given n | None \<Rightarrow> ModuleName (it_ident item)),
      ex_boxed = it_ident item,
      ex_calls = definition_builder (with_doc_comment item (args_read args)) title category cs gs\<rparr>"
proof -
  from assms obtain a where a: "has_data_field item" "try_fold agent_meta args args_default = Inr a"
      "generate item (with_doc_comment item a) = Inr x"
    by (auto simp: expand_modular_agent_def and_then_def split: if_splits sum.splits)
  have r: "a = args_read args" "\<And>m. m \<in> set args \<Longrightarrow> \<exists>b b'. agent_meta m b = Inr b'"
    using args_fold [OF a(2)] by blast+
  have w: "aa_kind (with_doc_comment item a) = aa_kind a" "aa_name (with_doc_comment item a) = aa_name a"
      "aa_title (with_doc_comment item a) = aa_title a" "aa_category (with_doc_comment item a) = aa_category a"
      "aa_configs (with_doc_comment item a) = aa_configs a" "aa_global_configs (with_doc_comment item a) = aa_global_configs a"
    by (simp_all add: with_doc_comment_def split: option.split)
  from a(3) obtain title category cs gs where "aa_title a = Some title" "aa_category a = Some category"
      "collect_results (map config_call (aa_configs a)) = Inr cs" "collect_results (map global_config_call (aa_global_configs a)) = Inr gs"
      "x = \<lparr>ex_kind = unwrap_or (aa_kind a) (StrLit ''Agent''),
        ex_name = (case aa_name a of Some n \<Rightarrow> Given n | None \<Rightarrow> ModuleName (it_ident item)),
        ex_boxed = it_ident item, ex_calls = definition_builder (with_doc_comment item a) title category cs gs\<rparr>"
    by (auto simp: generate_def w and_then_def ok_or_def split: option.splits sum.splits)
  then show thesis using that [of title category cs gs] a(1) r by (simp add: args_read_def)
qed

lemma run_declared:
  assumes V: "rust_ok V" and acc: "\<And>m. m \<in> set args \<Longrightarrow> \<exists>b b'. agent_meta m b = Inr b'"
  shows "collect_results (map config_call (List.map_filter (config_attr local_config) args)) = Inr cs \<Longrightarrow>
      build_calls V cs d = Some d' \<Longrightarrow> d_configs d = None \<Longrightarrow>
      d' = d\<lparr>d_configs := config_entries (List.map_filter (declared V ''_config'') args)\<rparr>"
    "collect_results (map global_config_call (List.map_filter (config_attr global_config) args)) = Inr gs \<Longrightarrow>
      build_calls V gs d = Some d' \<Longrightarrow> d_global_configs d = None \<Longrightarrow>
      d' = d\<lparr>d_global_configs := config_entries (List.map_filter (declared V ''_global_config'') args)\<rparr>"
proof -
  have l: "config_attr local_config m = Some c \<Longrightarrow> config_call c = Inr call \<Longrightarrow> run_call V call d = Some d' \<Longrightarrow>
      \<exists>n s. declared V ''_config'' m = Some (n, s) \<and> d' = insert_config_entry n s d" for m c call d d'
    by (auto simp: config_attr_def intro: local_runs [OF V] split: meta.splits list.splits option.splits sum.splits)
  have g: "config_attr global_config m = Some c \<Longrightarrow> global_config_call c = Inr call \<Longrightarrow> run_call V call d = Some d' \<Longrightarrow>
      \<exists>n s. declared V ''_global_config'' m = Some (n, s) \<and> d' = insert_global_config_entry n s d" for m c call d d'
    by (auto simp: config_attr_def intro: global_runs [OF V] split: meta.splits list.splits option.splits sum.splits)
  show "d' = d\<lparr>d_configs := config_entries (List.map_filter (declared V ''_config'') args)\<rparr>"
    if "collect_results (map config_call (List.map_filter (config_attr local_config) args)) = Inr cs"
      "build_calls V cs d = Some d'" "d_configs d = None"
    using run_configs [OF that(1,2), of "declared V ''_config''" insert_config_entry] undeclared acc l
      insert_entries(1) [OF that(3)] by metis
  show "d' = d\<lparr>d_global_configs := config_entries (List.map_filter (declared V ''_global_config'') args)\<rparr>"
    if "collect_results (map global_config_call (List.map_filter (config_attr global_config) args)) = Inr gs"
      "build_calls V gs d = Some d'" "d_global_configs d = None"
    using run_configs [OF that(1,2), of "declared V ''_global_config''" insert_global_config_entry] undeclared_global acc g
      insert_entries(2) [OF that(3)] by metis
qed

text \<open>The builder calls before the ports, and all of them.\<close>

lemma run_heading:
  assumes "build_calls V ([Call ''title'' [t]] @ (if h then [Call ''hide_title'' []] else []) @
      (case ds of None \<Rightarrow> [] | Some e \<Rightarrow> [Call ''description'' [e]]) @ [Call ''category'' [c]]) d = Some d'"
    and "d_description d = None" "\<not> d_hide_title d"
  shows "d' = d\<lparr>d_title := re_str V t, d_hide_title := h, d_description := Option.bind ds (re_str V), d_category := re_str V c\<rparr>"
  using assms
  by (cases h; cases ds) (auto simp: bind_eq_Some_conv with_title_def with_hide_title_def with_description_def with_category_def
      split: option.splits)

lemma doc_description:
  assumes "rust_ok V"
  shows "Option.bind (aa_description (with_doc_comment item (args_read args))) (re_str V) = doc_given V args item"
  using assms by (simp add: with_doc_comment_def doc_given_def args_read_def rust_ok_def split: option.split)

lemma run_builder:
  assumes V: "rust_ok V" and acc: "\<And>m. m \<in> set args \<Longrightarrow> \<exists>b b'. agent_meta m b = Inr b'"
    and cs: "collect_results (map config_call (List.map_filter (config_attr local_config) args)) = Inr cs"
    and gs: "collect_results (map global_config_call (List.map_filter (config_attr global_config) args)) = Inr gs"
    and run: "build_calls V (definition_builder (with_doc_comment item (args_read args)) t c cs gs) (definition_new k n b) = Some d"
  shows "d = \<lparr>d_kind = k, d_name = n, d_title = re_str V t, d_hide_title = flagged ''hide_title'' args,
      d_description = doc_given V args item, d_category = re_str V c,
      d_inputs = declared_ports V ''inputs'' args, d_outputs = declared_ports V ''outputs'' args,
      d_configs = config_entries (List.map_filter (declared V ''_config'') args),
      d_global_configs = config_entries (List.map_filter (declared V ''_global_config'') args),
      d_hints = im_from_iter (List.map_filter (hint_value V) (concat (map hint_attr args))),
      d_native_thread = False, d_new_boxed = b\<rparr>"
proof -
  let ?a = "with_doc_comment item (args_read args)"
  have f: "aa_hide_title ?a = flagged ''hide_title'' args" "aa_inputs ?a = port_exprs ''inputs'' args"
      "aa_outputs ?a = port_exprs ''outputs'' args" "aa_hints ?a = concat (map hint_attr args)"
    by (simp_all add: with_doc_comment_def args_read_def split: option.split)
  let ?head = "[Call ''title'' [t]] @ (if flagged ''hide_title'' args then [Call ''hide_title'' []] else []) @
      (case aa_description ?a of None \<Rightarrow> [] | Some e \<Rightarrow> [Call ''description'' [e]]) @ [Call ''category'' [c]]"
  have "definition_builder ?a t c cs gs = ?head @ ports_call ''inputs'' (port_exprs ''inputs'' args) @
      ports_call ''outputs'' (port_exprs ''outputs'' args) @ cs @ gs @
      map (\<lambda>(k, v). Call ''hint'' [k, v]) (concat (map hint_attr args))"
    by (simp add: definition_builder_def f)
  with run obtain d1 d2 d3 d4 d5 where r:
      "build_calls V ?head (definition_new k n b) = Some d1"
      "build_calls V (ports_call ''inputs'' (port_exprs ''inputs'' args)) d1 = Some d2"
      "build_calls V (ports_call ''outputs'' (port_exprs ''outputs'' args)) d2 = Some d3"
      "build_calls V cs d3 = Some d4" "build_calls V gs d4 = Some d5"
      "build_calls V (map (\<lambda>(k, v). Call ''hint'' [k, v]) (concat (map hint_attr args))) d5 = Some d"
    by (simp only: build_calls_append bind_eq_Some_conv) blast
  have d1: "d1 = (definition_new k n b)\<lparr>d_title := re_str V t, d_hide_title := flagged ''hide_title'' args,
      d_description := doc_given V args item, d_category := re_str V c\<rparr>"
    using run_heading [OF r(1)] doc_description [OF V, of item args] by (simp add: definition_new_def)
  have d2: "d2 = d1\<lparr>d_inputs := declared_ports V ''inputs'' args\<rparr>"
    using run_ports(1) [OF r(2)] by (simp add: declared_ports_def d1 definition_new_def)
  have d3: "d3 = d2\<lparr>d_outputs := declared_ports V ''outputs'' args\<rparr>"
    using run_ports(2) [OF r(3)] by (simp add: declared_ports_def d2 d1 definition_new_def)
  have d4: "d4 = d3\<lparr>d_configs := config_entries (List.map_filter (declared V ''_config'') args)\<rparr>"
    using run_declared(1) [OF V acc cs r(4)] by (simp add: d3 d2 d1 definition_new_def)
  have d5: "d5 = d4\<lparr>d_global_configs := config_entries (List.map_filter (declared V ''_global_config'') args)\<rparr>"
    using run_declared(2) [OF V acc gs r(5)] by (simp add: d4 d3 d2 d1 definition_new_def)
  show ?thesis
    using run_hints [OF r(6)] by (simp add: d5 d4 d3 d2 d1 definition_new_def)
qed

theorem built_declared:
  assumes V: "rust_ok V" and x: "expand_modular_agent args item = Inr x" and d: "generated_definition V x = Some d"
  shows "d = declared_definition V args item"
  using x
proof (rule expand_parts)
  fix t c cs gs
  assume p: "arg_given ''title'' args = Some t" "arg_given ''category'' args = Some c"
      "collect_results (map config_call (List.map_filter (config_attr local_config) args)) = Inr cs"
      "collect_results (map global_config_call (List.map_filter (config_attr global_config) args)) = Inr gs"
      "\<And>m. m \<in> set args \<Longrightarrow> \<exists>b b'. agent_meta m b = Inr b'"
    and x: "x = \<lparr>ex_kind = unwrap_or (arg_given ''kind'' args) (StrLit ''Agent''),
      ex_name = (case arg_given ''name'' args of Some n \<Rightarrow> Given n | None \<Rightarrow> ModuleName (it_ident item)),
      ex_boxed = it_ident item,
      ex_calls = definition_builder (with_doc_comment item (args_read args)) t c cs gs\<rparr>"
  from d obtain k n where kn: "re_str V (unwrap_or (arg_given ''kind'' args) (StrLit ''Agent'')) = Some k"
      "name_value V (case arg_given ''name'' args of Some n \<Rightarrow> Given n | None \<Rightarrow> ModuleName (it_ident item)) = Some n"
      "build_calls V (definition_builder (with_doc_comment item (args_read args)) t c cs gs)
        (definition_new k n (Some (it_ident item))) = Some d"
    by (auto simp: x generated_definition_def split: option.splits prod.splits)
  have "k = unwrap_or (Option.bind (arg_given ''kind'' args) (re_str V)) ''Agent''"
    using kn(1) V by (cases "arg_given ''kind'' args") (simp_all add: unwrap_or_def rust_ok_def)
  moreover have "n = unwrap_or (Option.bind (arg_given ''name'' args) (re_str V)) (re_module V @ ''::'' @ it_ident item)"
    using kn(2) by (cases "arg_given ''name'' args") (simp_all add: unwrap_or_def name_value_def)
  ultimately show ?thesis
    using run_builder [OF V p(5) p(3,4) kn(3)] p(1,2) by (simp add: declared_definition_def)
qed

section \<open>When the generated code compiles\<close>

text \<open>The expressions of an argument have the types the builders take.\<close>

definition texts_typed :: "rust_env \<Rightarrow> meta list \<Rightarrow> bool" where
  "texts_typed V ms \<longleftrightarrow>
    list_all (\<lambda>k. case arg_given k ms of None \<Rightarrow> True | Some e \<Rightarrow> re_str V e \<noteq> None) [''title'', ''description'']"

definition config_typed :: "rust_env \<Rightarrow> string \<Rightarrow> meta list \<Rightarrow> bool" where
  "config_typed V k ms \<longleftrightarrow> texts_typed V ms \<and>
    (case strip_suffix ''_global_config'' k of
      Some ty \<Rightarrow> ty \<noteq> ''unit'' \<and> declared_entry V ty ms \<noteq> None
    | None \<Rightarrow> (case strip_suffix ''_config'' k of Some ty \<Rightarrow> declared_entry V ty ms \<noteq> None | None \<Rightarrow> True))"

fun arg_typed :: "rust_env \<Rightarrow> meta \<Rightarrow> bool" where
  "arg_typed V (MPath p) \<longleftrightarrow> True"
| "arg_typed V (MNameValue p e) \<longleftrightarrow>
    (case e of
      ArrayExpr es \<Rightarrow> list_all (\<lambda>e. re_str V e \<noteq> None) es \<and> p \<in> {[''inputs''], [''outputs'']}
    | _ \<Rightarrow> re_str V e \<noteq> None)"
| "arg_typed V (MList p ns es) \<longleftrightarrow>
    (if p = [''inputs''] \<or> p = [''outputs''] then (case es of Inr xs \<Rightarrow> list_all (\<lambda>e. re_str V e \<noteq> None) xs | Inl _ \<Rightarrow> True)
     else if p = [''hint''] then list_all (\<lambda>h. hint_value V h \<noteq> None) (hint_attr (MList p ns es))
     else (case (p, ns) of ([k], Inr ms) \<Rightarrow> config_typed V k ms | _ \<Rightarrow> True))"

lemma given_mem: "arg_given k ms = Some e \<Longrightarrow> MNameValue [k] e \<in> set ms"
proof (induction ms rule: rev_induct)
  case (snoc m ms)
  then show ?case by (cases m) (auto split: if_splits)
qed simp

lemma given_typed:
  assumes "list_all (arg_typed V) args" "arg_given k args = Some e" "k \<noteq> ''inputs''" "k \<noteq> ''outputs''"
  shows "\<exists>s. re_str V e = Some s"
  using given_mem [OF assms(2)] assms(1,3,4) by (force simp: list_all_iff split: expr.splits)

lemma ports_typed: "list_all (arg_typed V) args \<Longrightarrow> k = ''inputs'' \<or> k = ''outputs'' \<Longrightarrow> list_all (\<lambda>e. re_str V e \<noteq> None) (port_exprs k args)"
proof (induction args rule: rev_induct)
  case (snoc m ms)
  then show ?case by (cases m) (auto split: expr.splits sum.splits if_splits)
qed simp

lemma hints_typed: "list_all (arg_typed V) args \<Longrightarrow> list_all (\<lambda>h. hint_value V h \<noteq> None) (concat (map hint_attr args))"
proof (induction args)
  case (Cons m ms)
  then show ?case by (cases m) (auto simp: hint_attr_def split: if_splits)
qed simp

lemma entries_typed: "texts_typed V ms \<Longrightarrow> \<exists>f. entry_fun V (entry_calls (common_read ms)) = Some f"
  by (auto simp: entry_calls_def common_read_def entry_step_def texts_typed_def split: option.splits if_splits)

lemma typed_run:
  assumes V: "rust_ok V" and ty: "(ty, K) \<in> set TYPED" and n: "arg_given ''name'' ms = Some n"
    and typed: "texts_typed V ms" "declared_entry V ty ms \<noteq> None"
  shows "config_call (K (common_read ms)) = Inr call \<Longrightarrow> run_call V call d \<noteq> None"
    "global_config_call (K (common_read ms)) = Inr call \<Longrightarrow> run_call V call d \<noteq> None"
proof -
  obtain f where f: "entry_fun V (entry_calls (common_read ms)) = Some f" using entries_typed [OF typed(1)] ..
  have c: "cc_name (common_read ms) = Some n" "cc_default (common_read ms) = arg_given ''default'' ms"
    using n by (simp_all add: common_read_def)
  obtain k x where k: "re_str V n = Some k" "value_as V ty (unwrap_or (arg_given ''default'' ms) (default_code ty)) = Some x"
    using typed(2) n typed_default [OF V ty, of ms, symmetric] by (auto simp: declared_entry_def bind_eq_Some_conv)
  show "config_call (K (common_read ms)) = Inr call \<Longrightarrow> run_call V call d \<noteq> None"
    using f c k by (auto simp: typed_calls(1) [OF ty] typed_call_def typed_methods [OF ty])
  show "global_config_call (K (common_read ms)) = Inr call \<Longrightarrow> run_call V call d \<noteq> None"
    using f c k by (auto simp: typed_calls(2) [OF ty] typed_call_def typed_global_methods [OF ty])
qed

lemma unit_run:
  assumes n: "arg_given ''name'' ms = Some n" and typed: "texts_typed V ms" "declared_entry V ''unit'' ms \<noteq> None"
    and call: "unit_call (common_read ms) = Inr call"
  shows "run_call V call d \<noteq> None"
proof -
  obtain f where f: "entry_fun V (entry_calls (common_read ms)) = Some f" using entries_typed [OF typed(1)] ..
  have "call = CallWith ''unit_config_with'' [n] (entry_calls (common_read ms))"
    using call n by (simp add: unit_call_def untyped_call_def) (simp add: common_read_def)
  moreover obtain k where "re_str V n = Some k" using typed(2) n by (auto simp: declared_entry_def bind_eq_Some_conv)
  ultimately show ?thesis using f by (simp add: run_with_def)
qed

lemma custom_run:
  assumes c: "parse_custom_config (Inr ms) = Inr c" and typed: "texts_typed V ms" "declared_entry V ''custom'' ms \<noteq> None"
    and call: "custom_config_call m c = Inr call" and m: "m = ''custom_config_with'' \<or> m = ''custom_global_config_with''"
  shows "run_call V call d \<noteq> None"
  using c
proof (rule parse_custom_read)
  fix ms'
  assume eq: "Inr ms = Inr ms'"
    and n: "arg_given ''name'' ms' = Some (xc_name c)" "arg_given ''default'' ms' = Some (xc_default c)"
      "given_any [''type'', ''type_''] ms' = Some (xc_type c)"
    and e: "entry_calls (common_read ms') = entry_calls \<lparr>cc_name = None, cc_default = None, cc_title = xc_title c,
      cc_description = xc_description c, cc_hide_title = xc_hide_title c, cc_hidden = xc_hidden c,
      cc_readonly = xc_readonly c, cc_detail = xc_detail c\<rparr>"
  obtain f where f: "entry_fun V (entry_calls (common_read ms)) = Some f" using entries_typed [OF typed(1)] ..
  have call: "call = CallWith m [xc_name c, xc_default c, xc_type c] (entry_calls (common_read ms))"
    using call e eq by (simp add: custom_config_call_def)
  obtain k v t where "re_str V (xc_name c) = Some k" "re_value V (xc_default c) = Some v" "re_str V (xc_type c) = Some t"
    using typed(2) n eq by (auto simp: declared_entry_def declared_value_def bind_eq_Some_conv)
  then show ?thesis using m f by (elim disjE) (simp_all add: call run_custom)
qed

lemma typed_suffixes:
  assumes "(ty, K) \<in> set TYPED"
  shows "strip_suffix ''_global_config'' (ty @ ''_config'') = None"
proof -
  have "list_all (\<lambda>(ty, K). strip_suffix ''_global_config'' (ty @ ''_config'') = None) TYPED"
    by (simp add: TYPED_def strip_suffix_def strip_prefix_def starts_with_def)
  then show ?thesis using assms by (rule typed_all)
qed

text \<open>A configuration argument with typed expressions runs.\<close>

lemma local_run:
  assumes V: "rust_ok V" and c: "local_config k nested = Some (Inr c)" and call: "config_call c = Inr call"
    and typed: "arg_typed V (MList [k] nested es)"
  shows "run_call V call d \<noteq> None"
proof -
  have k: "k \<noteq> ''inputs''" "k \<noteq> ''outputs''" "k \<noteq> ''hint''" using c by auto
  show ?thesis
  proof (cases "k = ''custom_config''")
    case True
    then obtain x where x: "parse_custom_config nested = Inr x" "c = CustomConfig x"
      using c by (auto simp: local_config_def map_ok_def split: sum.splits)
    obtain ms where ms: "nested = Inr ms" using x(1) by (rule parse_custom_read)
    have t: "config_typed V k ms" using typed k ms by simp
    have "strip_suffix ''_global_config'' k = None" using True by (simp add: strip_suffix_def strip_prefix_def starts_with_def)
    moreover have "strip_suffix ''_config'' k = Some ''custom''" using True by (simp add: strip_suffix_def strip_prefix_def starts_with_def)
    ultimately have "texts_typed V ms" "declared_entry V ''custom'' ms \<noteq> None" using t by (simp_all add: config_typed_def)
    then show ?thesis using custom_run [OF x(1) [unfolded ms]] call x(2) by simp
  next
    case False
    then obtain K cc where K: "map_of LOCAL_CONFIGS k = Some K" "parse_common_config nested = Inr cc" "c = K cc"
      using c by (cases "parse_common_config nested") (auto simp: local_config_def map_ok_def)
    obtain ms n where ms: "nested = Inr ms" "cc = common_read ms" "arg_given ''name'' ms = Some n"
      using K(2) by (rule parse_common_read)
    have t: "config_typed V k ms" using typed k ms by simp
    from config_kinds(1) [OF K(1)] show ?thesis
    proof (elim disjE conjE exE)
      assume u: "k = ''unit_config''" "K = UnitConfig"
      have "strip_suffix ''_global_config'' k = None" using u by (simp add: strip_suffix_def strip_prefix_def starts_with_def)
      moreover have "strip_suffix ''_config'' k = Some ''unit''" using u by (simp add: strip_suffix_def strip_prefix_def starts_with_def)
      ultimately have "texts_typed V ms" "declared_entry V ''unit'' ms \<noteq> None" using t by (simp_all add: config_typed_def)
      then show ?thesis using unit_run [OF ms(3)] call K(3) u(2) ms(2) by simp
    next
      fix ty
      assume u: "k = ty @ ''_config''" "(ty, K) \<in> set TYPED"
      then have "texts_typed V ms" "declared_entry V ty ms \<noteq> None"
        using t by (simp_all add: config_typed_def typed_suffixes [OF u(2)])
      then show ?thesis using typed_run(1) [OF V u(2) ms(3)] call K(3) ms(2) by simp
    qed
  qed
qed

lemma global_run:
  assumes V: "rust_ok V" and c: "global_config k nested = Some (Inr c)" and call: "global_config_call c = Inr call"
    and typed: "arg_typed V (MList [k] nested es)"
  shows "run_call V call d \<noteq> None"
proof -
  have k: "k \<noteq> ''inputs''" "k \<noteq> ''outputs''" "k \<noteq> ''hint''" using c by auto
  show ?thesis
  proof (cases "k = ''custom_global_config''")
    case True
    then obtain x where x: "parse_custom_config nested = Inr x" "c = CustomConfig x"
      using c by (auto simp: global_config_def map_ok_def split: sum.splits)
    obtain ms where ms: "nested = Inr ms" using x(1) by (rule parse_custom_read)
    have t: "config_typed V k ms" using typed k ms by simp
    have "strip_suffix ''_global_config'' k = Some ''custom''"
      using True by (simp add: strip_suffix_def strip_prefix_def starts_with_def)
    then have "texts_typed V ms" "declared_entry V ''custom'' ms \<noteq> None" using t by (simp_all add: config_typed_def)
    then show ?thesis using custom_run [OF x(1) [unfolded ms]] call x(2) by simp
  next
    case False
    then obtain K cc where K: "map_of GLOBAL_CONFIGS k = Some K" "parse_common_config nested = Inr cc" "c = K cc"
      using c by (cases "parse_common_config nested") (auto simp: global_config_def map_ok_def)
    obtain ms n where ms: "nested = Inr ms" "cc = common_read ms" "arg_given ''name'' ms = Some n"
      using K(2) by (rule parse_common_read)
    have t: "config_typed V k ms" using typed k ms by simp
    from config_kinds(2) [OF K(1)] show ?thesis
    proof (elim disjE conjE exE)
      assume u: "k = ''unit_global_config''"
      then have "strip_suffix ''_global_config'' k = Some ''unit''" by (simp add: strip_suffix_def strip_prefix_def starts_with_def)
      then show ?thesis using t by (simp add: config_typed_def)
    next
      fix ty
      assume u: "k = ty @ ''_global_config''" "(ty, K) \<in> set TYPED"
      then have "texts_typed V ms" "declared_entry V ty ms \<noteq> None" using t by (simp_all add: config_typed_def)
      then show ?thesis using typed_run(2) [OF V u(2) ms(3)] call K(3) ms(2) by simp
    qed
  qed
qed

lemma build_calls_all: "list_all (\<lambda>c. \<forall>d. run_call V c d \<noteq> None) cs \<Longrightarrow> \<exists>d'. build_calls V cs d = Some d'"
proof (induction cs arbitrary: d)
  case (Cons c cs)
  then obtain e where "run_call V c d = Some e" by fastforce
  then show ?case using Cons by simp
qed simp

lemma collect_options_None: "collect_options rs = None \<longleftrightarrow> None \<in> set rs"
proof (induction rs)
  case (Cons r rs)
  then show ?case by (cases r) auto
qed simp

lemma collect_results_mem: "collect_results (map f xs) = Inr ys \<Longrightarrow> y \<in> set ys \<Longrightarrow> \<exists>x \<in> set xs. f x = Inr y"
proof (induction xs arbitrary: ys)
  case (Cons x xs)
  then show ?case by (cases "f x") (auto simp: map_ok_def split: sum.splits)
qed simp

lemma configs_run:
  assumes cs: "collect_results (map callf (List.map_filter (config_attr cfg) args)) = Inr cs"
    and all: "list_all (arg_typed V) args"
    and run: "\<And>k nested c call es d. cfg k nested = Some (Inr c) \<Longrightarrow> callf c = Inr call \<Longrightarrow>
      arg_typed V (MList [k] nested es) \<Longrightarrow> run_call V call d \<noteq> None"
  shows "list_all (\<lambda>c. \<forall>d. run_call V c d \<noteq> None) cs"
proof -
  { fix call d
    assume "call \<in> set cs"
    then obtain c where c: "c \<in> set (List.map_filter (config_attr cfg) args)" "callf c = Inr call"
      using collect_results_mem [OF cs] by blast
    then obtain m where m: "m \<in> set args" "config_attr cfg m = Some c" by (auto simp: List.map_filter_def)
    then obtain k nested es where "m = MList [k] nested es" "cfg k nested = Some (Inr c)"
      by (auto simp: config_attr_def split: meta.splits list.splits option.splits sum.splits)
    then have "run_call V call d \<noteq> None" using run c(2) all m(1) by (metis list.pred_set) }
  then show ?thesis by (simp add: list_all_iff)
qed

theorem typed_builds:
  assumes V: "rust_ok V" and x: "expand_modular_agent args item = Inr x" and all: "list_all (arg_typed V) args"
  shows "generated_definition V x \<noteq> None"
  using x
proof (rule expand_parts)
  fix t c cs gs
  assume p: "arg_given ''title'' args = Some t" "arg_given ''category'' args = Some c"
      "collect_results (map config_call (List.map_filter (config_attr local_config) args)) = Inr cs"
      "collect_results (map global_config_call (List.map_filter (config_attr global_config) args)) = Inr gs"
    and x: "x = \<lparr>ex_kind = unwrap_or (arg_given ''kind'' args) (StrLit ''Agent''),
      ex_name = (case arg_given ''name'' args of Some n \<Rightarrow> Given n | None \<Rightarrow> ModuleName (it_ident item)),
      ex_boxed = it_ident item,
      ex_calls = definition_builder (with_doc_comment item (args_read args)) t c cs gs\<rparr>"
  have arg_given: "\<exists>s. re_str V e = Some s" if "arg_given k args = Some e" "k \<notin> {''inputs'', ''outputs''}" for k e
    using given_typed [OF all that(1)] that(2) by simp
  obtain k where k: "re_str V (unwrap_or (arg_given ''kind'' args) (StrLit ''Agent'')) = Some k"
    using arg_given [of "''kind''"] V by (cases "arg_given ''kind'' args") (auto simp: unwrap_or_def rust_ok_def)
  obtain n where n: "name_value V (case arg_given ''name'' args of Some n \<Rightarrow> Given n | None \<Rightarrow> ModuleName (it_ident item)) = Some n"
    using arg_given [of "''name''"] by (cases "arg_given ''name'' args") (auto simp: name_value_def)
  let ?a = "with_doc_comment item (args_read args)"
  have f: "aa_hide_title ?a = flagged ''hide_title'' args" "aa_inputs ?a = port_exprs ''inputs'' args"
      "aa_outputs ?a = port_exprs ''outputs'' args" "aa_hints ?a = concat (map hint_attr args)"
    by (simp_all add: with_doc_comment_def args_read_def split: option.split)
  have d: "\<exists>s. re_str V e = Some s" if "aa_description ?a = Some e" for e
    using that arg_given [of "''description''" e] V
    by (auto simp: with_doc_comment_def args_read_def rust_ok_def split: option.splits if_splits)
  have ps: "list_all (\<lambda>c. \<forall>d. run_call V c d \<noteq> None) (ports_call q (port_exprs q args))" if "q = ''inputs'' \<or> q = ''outputs''" for q
    using ports_typed [OF all that] that
    by (auto simp: ports_call_def collect_options_None list_all_iff split: option.split)
  have "list_all (\<lambda>c. \<forall>d. run_call V c d \<noteq> None) (map (\<lambda>(k, v). Call ''hint'' [k, v]) hs)"
    if "list_all (\<lambda>h. hint_value V h \<noteq> None) hs" for hs
    using that by (induction hs) (auto simp: hint_value_def bind_eq_Some_conv)
  from this [OF hints_typed [OF all]]
  have hs: "list_all (\<lambda>c. \<forall>d. run_call V c d \<noteq> None) (map (\<lambda>(k, v). Call ''hint'' [k, v]) (concat (map hint_attr args)))" .
  have "list_all (\<lambda>c. \<forall>d. run_call V c d \<noteq> None) (definition_builder ?a t c cs gs)"
    using ps hs configs_run [OF p(3) all local_run [OF V]] configs_run [OF p(4) all global_run [OF V]]
      arg_given [OF p(1)] arg_given [OF p(2)] d
    by (auto simp: definition_builder_def f split: option.split)
  then obtain d' where "build_calls V (definition_builder ?a t c cs gs) (definition_new k n (Some (it_ident item))) = Some d'"
    using build_calls_all by blast
  then show ?thesis by (simp add: x generated_definition_def k n)
qed

section \<open>Reserved names and configurations without a type\<close>

text \<open>The names of the configurations are literals.\<close>

fun literal_names :: "meta \<Rightarrow> bool" where
  "literal_names (MList [k] (Inr ms) es) \<longleftrightarrow> (case arg_given ''name'' ms of Some e \<Rightarrow> (case e of StrLit s \<Rightarrow> True | _ \<Rightarrow> False) | None \<Rightarrow> True)"
| "literal_names m \<longleftrightarrow> True"

lemma accepted_name:
  assumes "config_attr local_config (MList [k] (Inr ms) es) = Some c \<or> config_attr global_config (MList [k] (Inr ms) es) = Some c"
    and "arg_given ''name'' ms = Some n"
  shows "\<not> reserved_name n"
proof -
  have "(\<exists>x. parse_custom_config (Inr ms) = Inr x) \<or> (\<exists>cc. parse_common_config (Inr ms) = Inr cc)"
    using assms(1) by (auto simp: config_attr_def local_config_def global_config_def map_ok_def
        split: if_splits option.splits sum.splits)
  then show ?thesis
  proof (elim disjE exE)
    fix x assume "parse_custom_config (Inr ms) = Inr x"
    then show ?thesis by (rule parse_custom_read) (use assms(2) in auto)
  next
    fix cc assume "parse_common_config (Inr ms) = Inr cc"
    then show ?thesis by (rule parse_common_read) (use assms(2) in auto)
  qed
qed

lemma declared_name:
  assumes V: "rust_ok V" and a: "agent_meta m b = Inr b'" and l: "literal_names m"
    and d: "declared V ''_config'' m = Some (k, e) \<or> declared V ''_global_config'' m = Some (k, e)"
  shows "\<not> starts_with ''_'' k"
proof -
  from d obtain ty suffix ms es where m: "m = MList [ty @ suffix] (Inr ms) es" "declared_entry V ty ms = Some (k, e)"
    by (elim disjE declared_cases) blast+
  obtain n where n: "arg_given ''name'' ms = Some n" "re_str V n = Some k"
    using m(2) by (auto simp: declared_entry_def bind_eq_Some_conv)
  have "config_attr local_config m \<noteq> None \<or> config_attr global_config m \<noteq> None"
    using undeclared [OF a] undeclared_global [OF a] d by fastforce
  then obtain c where "config_attr local_config m = Some c \<or> config_attr global_config m = Some c" by blast
  from accepted_name [OF this [unfolded m(1)] n(1)] have "\<not> reserved_name n" .
  moreover have "n = StrLit k" using l n V by (simp add: m(1) rust_ok_def split: expr.splits)
  ultimately show ?thesis by (simp add: reserved_name_def)
qed

lemma entries_keys: "k \<in> set (keys_of (unwrap_or (config_entries es) [])) \<Longrightarrow> k \<in> fst ` set es"
proof -
  have "dom (map_of (fold (\<lambda>(k, v). im_insert k v) es m)) = dom (map_of m) \<union> fst ` set es" for m :: agent_config_specs
    by (induction es arbitrary: m) auto
  from this [of "[]"] have "fst ` set (fold (\<lambda>(k, v). im_insert k v) es []) = fst ` set es"
    by (simp only: dom_map_of_conv_image_fst) simp
  then show "k \<in> set (keys_of (unwrap_or (config_entries es) [])) \<Longrightarrow> k \<in> fst ` set es"
    by (simp add: config_entries_def im_from_iter_def unwrap_or_def split: if_splits)
qed

lemma built_names:
  assumes V: "rust_ok V" and x: "expand_modular_agent args item = Inr x" and d: "generated_definition V x = Some d"
    and l: "list_all literal_names args" and k: "k \<in> set (keys_of (unwrap_or (d_configs d) [])) \<union> set (keys_of (unwrap_or (d_global_configs d) []))"
  shows "\<not> starts_with ''_'' k"
proof -
  have "d_configs d = config_entries (List.map_filter (declared V ''_config'') args)"
      "d_global_configs d = config_entries (List.map_filter (declared V ''_global_config'') args)"
    using built_declared [OF V x d] by (simp_all add: declared_definition_def)
  with k obtain suffix where s: "suffix = ''_config'' \<or> suffix = ''_global_config''"
      "k \<in> fst ` set (List.map_filter (declared V suffix) args)"
    by (metis (no_types, lifting) UnE entries_keys)
  then obtain m e where m: "m \<in> set args" "declared V suffix m = Some (k, e)" by (auto simp: List.map_filter_def)
  have "\<exists>b b'. agent_meta m b = Inr b'" using x by (rule expand_parts) (use m(1) in blast)
  then obtain b b' where "agent_meta m b = Inr b'" by blast
  then show ?thesis using declared_name [OF V, of m b b' k e] l m s(1) by (auto simp: list_all_iff)
qed

lemma map_filter_mem: "x \<in> set xs \<Longrightarrow> f x = Some y \<Longrightarrow> y \<in> set (List.map_filter f xs)"
  by (force simp: List.map_filter_def)

lemma collect_results_value: "collect_results (map f xs) = Inr ys \<Longrightarrow> x \<in> set xs \<Longrightarrow> \<exists>y \<in> set ys. f x = Inr y"
proof (induction xs arbitrary: ys)
  case (Cons a xs)
  then show ?case by (cases "f a") (auto simp: map_ok_def split: sum.splits)
qed simp

text \<open>A unit configuration of the definition has no builder method: it is accepted and cannot compile.\<close>

lemma unit_global_never_builds:
  assumes x: "expand_modular_agent args item = Inr x" and m: "MList [''unit_global_config''] (Inr ms) es \<in> set args"
  shows "generated_definition V x = None"
  using x
proof (rule expand_parts)
  fix t c cs gs
  assume gs: "collect_results (map global_config_call (List.map_filter (config_attr global_config) args)) = Inr gs"
    and acc: "\<And>m. m \<in> set args \<Longrightarrow> \<exists>b b'. agent_meta m b = Inr b'"
    and x: "x = \<lparr>ex_kind = unwrap_or (arg_given ''kind'' args) (StrLit ''Agent''),
      ex_name = (case arg_given ''name'' args of Some n \<Rightarrow> Given n | None \<Rightarrow> ModuleName (it_ident item)),
      ex_boxed = it_ident item,
      ex_calls = definition_builder (with_doc_comment item (args_read args)) t c cs gs\<rparr>"
  have l: "local_config ''unit_global_config'' (Inr ms) = None" by (simp add: local_config_def LOCAL_CONFIGS_def)
  have g: "global_config ''unit_global_config'' (Inr ms) = Some (map_ok UnitConfig (parse_common_config (Inr ms)))"
    by (simp add: global_config_def GLOBAL_CONFIGS_def)
  from acc [OF m] obtain cc where cc: "parse_common_config (Inr ms) = Inr cc"
    by (cases "parse_common_config (Inr ms)") (auto simp: agent_list_def l g)
  then have "UnitConfig cc \<in> set (List.map_filter (config_attr global_config) args)"
    using map_filter_mem [OF m, of "config_attr global_config"] g by (simp add: config_attr_def)
  from collect_results_value [OF gs this] obtain call where call: "call \<in> set gs" "unit_global_call cc = Inr call" by auto
  have stuck: "run_call V call d = None" for d
    using cc by (rule parse_common_read) (use unit_global_stuck call(2) in blast)
  have "build_calls V ks d = None" if "call \<in> set ks" for ks d
    using that stuck by (induction ks arbitrary: d) (auto split: Option.bind_split)
  then have "build_calls V (ex_calls x) d = None" for d
  proof -
    have "call \<in> set (ex_calls x)" using call(1) by (simp add: x definition_builder_def)
    then show ?thesis using \<open>\<And>ks d. call \<in> set ks \<Longrightarrow> build_calls V ks d = None\<close> by blast
  qed
  then show ?thesis by (simp add: generated_definition_def split: option.split)
qed

end
