(* ===== verification/Inventory.thy ===== *)
theory Inventory
  imports Generated Routing McpPool
begin

text \<open>
  registry.rs and the parts of modular_agent.rs around it: the registration of the definitions the
  attributes generate, the start of a \<open>ModularAgent\<close> with them, its end, and the queries on
  definitions. The link-time list of registrations is the argument \<open>ds\<close>.

  The lemmas follow a definition from its attribute to a new agent of it.
\<close>

section \<open>Start and end\<close>

definition register_inventory_agents :: "agent_definition list \<Rightarrow> 'u world \<Rightarrow> 'u world" where
  "register_inventory_agents ds w = fold register_agent_definition ds w"

definition init :: "agent_definition list \<Rightarrow> 'u world result" where
  "init ds = Inr (register_inventory_agents ds world_new)"

text \<open>\<open>shutdown\<close> takes the main channel away and then begins the shutdown of the tool servers.\<close>

definition shutdown :: "'u world \<Rightarrow> mcp_state \<Rightarrow> 'u world \<times> mcp_state option" where
  "shutdown w s = (quit w, pool_step ShutdownBegin s)"

section \<open>Queries\<close>

definition ma_agent_definitions :: "'u world \<Rightarrow> (string, agent_definition) index_map" where
  "ma_agent_definitions w = w_defs w"

definition ma_agent_definition :: "string \<Rightarrow> 'u world \<Rightarrow> agent_definition option" where
  "ma_agent_definition n w = map_of (w_defs w) n"

definition get_agent_config_specs :: "string \<Rightarrow> 'u world \<Rightarrow> agent_config_specs option" where
  "get_agent_config_specs n w = Option.bind (map_of (w_defs w) n) d_configs"

definition new_agent_spec :: "string \<Rightarrow> 'u world \<Rightarrow> 'u world \<times> agent_spec result" where
  "new_agent_spec n w =
    (case ma_agent_definition n w of
      None \<Rightarrow> (w, Inl (AgentDefinitionNotFound n))
    | Some d \<Rightarrow> (let (s, i) = to_spec (w_ids w) d in (w\<lparr>w_ids := i\<rparr>, Inr s)))"

definition get_agent :: "string \<Rightarrow> 'u world \<Rightarrow> nat option" where
  "get_agent i w = map_of (w_agents w) i"

definition get_global_configs_map :: "'u world \<Rightarrow> (string, agent_configs) index_map" where
  "get_global_configs_map w = w_global_configs_map w"

section \<open>What is registered\<close>

text \<open>The defaults of the global configurations of a definition, as \<open>register_agent_definition\<close>
  collects them, are its default configurations.\<close>

lemma global_defaults: "fold (\<lambda>(k, e). configs_set k (cs_value e)) g configs_new = default_configs g"
proof -
  have "fold (\<lambda>(k, e). configs_set k (cs_value e)) g c = fold (\<lambda>(k, v). configs_set k v) (map (\<lambda>(k, c). (k, cs_value c)) g) c" for c
    by (induction g arbitrary: c) auto
  then show ?thesis
    by (simp add: default_configs_def configs_from_iter_eq im_from_iter_def configs_new_def configs_set_eq)
qed

lemma defs_set_global [simp]: "w_defs (set_global_configs n c w) = w_defs w"
  by (simp add: set_global_configs_def)

lemma defs_register [simp]: "w_defs (register_agent_definition d w) = im_insert (d_name d) d (w_defs w)"
  by (simp add: register_agent_definition_def Let_def split: option.split)

lemma register_get:
  "ma_agent_definition n (register_agent_definition d w) = (if n = d_name d then Some d else ma_agent_definition n w)"
  by (simp add: ma_agent_definition_def)

lemma register_global:
  "get_global_configs n (register_agent_definition d w) =
    (if n = d_name d
     then (case d_global_configs d of
         None \<Rightarrow> get_global_configs n w
       | Some g \<Rightarrow> Some (case get_global_configs n w of
           None \<Rightarrow> default_configs g
         | Some old \<Rightarrow> fold (\<lambda>(k, v). configs_set k v) (default_configs g) old))
     else get_global_configs n w)"
  by (auto simp: get_global_configs_def register_agent_definition_def set_global_configs_def global_defaults
      split: option.split)

lemma register_inventory_other:
  "n \<notin> d_name ` set ds \<Longrightarrow>
    ma_agent_definition n (register_inventory_agents ds w) = ma_agent_definition n w \<and>
    get_global_configs n (register_inventory_agents ds w) = get_global_configs n w"
  by (induction ds arbitrary: w) (auto simp: register_inventory_agents_def register_get register_global)

lemma registered_inventory:
  assumes "distinct (map d_name ds)" "d \<in> set ds" "get_global_configs (d_name d) w = None"
  shows "ma_agent_definition (d_name d) (register_inventory_agents ds w) = Some d \<and>
    get_global_configs (d_name d) (register_inventory_agents ds w) = map_option default_configs (d_global_configs d)"
  using assms
proof (induction ds arbitrary: w)
  case (Cons e ds)
  show ?case
  proof (cases "e = d")
    case True
    then have "d_name d \<notin> d_name ` set ds" using Cons.prems(1) by simp
    from register_inventory_other [OF this, of "register_agent_definition d w"] show ?thesis
      using True Cons.prems(3) by (simp add: register_inventory_agents_def register_get register_global split: option.split)
  next
    case False
    then have "d \<in> set ds" "d_name e \<noteq> d_name d" using Cons.prems(1,2) by force+
    then show ?thesis
      using Cons.IH [of "register_agent_definition e w"] Cons.prems
      by (simp add: register_inventory_agents_def register_global)
  qed
qed simp

lemma world_no_globals: "get_global_configs n world_new = None"
  by (simp add: get_global_configs_def world_new_def)

section \<open>A new specification\<close>

lemma default_configs_eq: "distinct (keys_of m) \<Longrightarrow> default_configs m = map (\<lambda>(k, c). (k, cs_value c)) m"
  by (simp add: default_configs_def configs_from_iter_eq comp_def case_prod_beta)

lemma reconcile_defaults:
  assumes "def_ok m"
  shows "reconcile_configs (Some m) (Some (default_configs m)) = Some (default_configs m)"
proof -
  have "reconcile_configs (Some m) None = Some (reorder_configs m (default_configs m))"
    by (simp add: reconcile_configs_def)
  moreover have "reorder_configs m (default_configs m) = default_configs m"
    using assms reorder_fixed [of m "default_configs m" "[]"]
    by (simp add: def_ok_def default_configs_eq comp_def case_prod_beta)
  moreover have "reconcile_configs (Some m) (reconcile_configs (Some m) None) = reconcile_configs (Some m) None"
    by (rule reconcile_configs_idem) (use assms in auto)
  ultimately show ?thesis by simp
qed

text \<open>A specification made from its definition needs no reconciliation and loses nothing when the
  agent is constructed.\<close>

lemma fresh_spec:
  assumes ok: "\<And>m. d_configs d = Some m \<Longrightarrow> def_ok m" and s: "to_spec n d = (s, n')"
  shows "reconcile_spec d s = s" "a_spec (agent_data_new impl st i s) = s"
proof -
  have f: "s_configs s = map_option default_configs (d_configs d)" "s_config_specs s = d_configs d"
      "s_inputs s = d_inputs d" "s_outputs s = d_outputs d"
    using s by (auto simp: to_spec_def Let_def split: prod.splits)
  have "reconcile_configs (d_configs d) (s_configs s) = s_configs s"
    using ok reconcile_defaults by (cases "d_configs d") (simp_all add: f reconcile_configs_def stale_keys_def)
  then show "reconcile_spec d s = s" by (simp add: reconcile_spec_def f split: option.split)
  have "map_option (configs_retain (\<lambda>k v. \<not> starts_with ''_'' k)) (s_configs s) = s_configs s"
  proof (cases "d_configs d")
    case (Some m)
    have "configs_retain (\<lambda>k v. \<not> starts_with ''_'' k) (default_configs m) = default_configs m"
      using ok [OF Some] by (auto simp: def_ok_def default_configs_eq configs_retain_def im_retain_def filter_id_conv)
    then show ?thesis by (simp add: f Some)
  qed (simp add: f)
  then show "a_spec (agent_data_new impl st i s) = s" by (simp add: agent_data_new_def)
qed

text \<open>The definitions an attribute builds satisfy the condition.\<close>

lemma built_def_ok:
  assumes "rust_ok V" "expand_modular_agent args item = Inr x" "generated_definition V x = Some d"
    and "list_all literal_names args" "d_configs d = Some m"
  shows "def_ok m"
proof -
  have e: "d_configs d = config_entries (List.map_filter (declared V ''_config'') args)"
    using built_declared [OF assms(1-3)] by (simp add: declared_definition_def)
  have "distinct (keys_of m)"
    using e assms(5) by (auto simp: config_entries_def split: if_splits)
  moreover have "\<forall>k \<in> set (keys_of m). \<not> starts_with ''_'' k"
  proof
    fix k assume "k \<in> set (keys_of m)"
    then have "k \<in> set (keys_of (unwrap_or (d_configs d) [])) \<union> set (keys_of (unwrap_or (d_global_configs d) []))"
      using assms(5) by (simp add: unwrap_or_def)
    then show "\<not> starts_with ''_'' k" by (rule built_names [OF assms(1-4)])
  qed
  ultimately show ?thesis unfolding def_ok_def by blast
qed

end
