(* ===== verification/Subscriptions.thy ===== *)
theory Subscriptions
  imports EventRing "HOL-Library.Sublist"
begin

text \<open>
  The observers of a \<open>ModularAgent\<close> (modular_agent.rs): \<open>subscribe\<close>, and \<open>subscribe_to_event\<close> with the
  task that filters events into a queue of its own.

  The events sent are the list \<open>w_events\<close>, a receiver is the position of the event it gets next.
  Receiving is the operation of the library's broadcast channel, a parameter: \<open>broadcast_ok\<close> is what
  its documentation says. A turn of the task receives once; between turns events are sent and the
  subscriber takes values or drops its end. \<open>sub_run\<close> keeps beside the state what the filter was
  given and how many events the receiver skipped.
\<close>

section \<open>The program\<close>

definition EVENT_CHANNEL_CAPACITY :: nat where "EVENT_CHANNEL_CAPACITY = 256"

type_synonym receiver = "event_envelope list \<Rightarrow> nat \<Rightarrow> (received \<times> nat) option"

type_synonym ('s, 't) event_filter = "'s \<Rightarrow> event_envelope \<Rightarrow> 's \<times> 't option"

record ('s, 't) subscription =
  su_next :: nat
  su_state :: 's
  su_queue :: "'t list"
  su_alive :: bool
  su_running :: bool

text \<open>A receiver gets the events sent from now on.\<close>

definition subscribe :: "'u world \<Rightarrow> nat" where
  "subscribe w = length (w_events w)"

definition subscribe_to_event :: "'s \<Rightarrow> 'u world \<Rightarrow> ('s, 't) subscription" where
  "subscribe_to_event st w =
    \<lparr>su_next = subscribe w, su_state = st, su_queue = [], su_alive = True, su_running = True\<rparr>"

text \<open>One turn of the task; \<open>closed\<close> when no handle can send any more. A value for a subscriber that
  is gone ends the task.\<close>

definition forward :: "('s, 't) event_filter \<Rightarrow> event_envelope \<Rightarrow> ('s, 't) subscription \<Rightarrow> ('s, 't) subscription" where
  "forward f e s =
    (case f (su_state s) e of
      (st, None) \<Rightarrow> s\<lparr>su_state := st\<rparr>
    | (st, Some t) \<Rightarrow>
        if su_alive s then s\<lparr>su_state := st, su_queue := su_queue s @ [t]\<rparr>
        else s\<lparr>su_state := st, su_running := False\<rparr>)"

definition subscriber_turn :: "receiver \<Rightarrow> ('s, 't) event_filter \<Rightarrow> bool \<Rightarrow> 'u world \<Rightarrow>
    ('s, 't) subscription \<Rightarrow> ('s, 't) subscription" where
  "subscriber_turn recv f closed w s =
    (if \<not> su_running s then s
     else
       (case recv (w_events w) (su_next s) of
         None \<Rightarrow> if closed then s\<lparr>su_running := False\<rparr> else s
       | Some (Event e, p) \<Rightarrow> forward f e (s\<lparr>su_next := p\<rparr>)
       | Some (Lagged n, p) \<Rightarrow> s\<lparr>su_next := p\<rparr>))"

text \<open>The other end of the queue.\<close>

definition take_value :: "('s, 't) subscription \<Rightarrow> ('s, 't) subscription \<times> 't option" where
  "take_value s =
    (case su_queue s of [] \<Rightarrow> (s, None) | t # ts \<Rightarrow> (s\<lparr>su_queue := ts\<rparr>, Some t))"

definition drop_receiver :: "('s, 't) subscription \<Rightarrow> ('s, 't) subscription" where
  "drop_receiver s = s\<lparr>su_alive := False, su_queue := []\<rparr>"

text \<open>The documented channel: up to \<open>cap\<close> events are kept for a receiver; one that is further behind is
  told how many it lost and goes on with the oldest that is kept.\<close>

definition broadcast_ok :: "nat \<Rightarrow> receiver \<Rightarrow> bool" where
  "broadcast_ok cap recv \<longleftrightarrow> (\<forall>es p.
    (length es \<le> p \<longrightarrow> recv es p = None) \<and>
    (p < length es \<and> length es \<le> p + cap \<longrightarrow> recv es p = Some (Event (es ! p), Suc p)) \<and>
    (p + cap < length es \<longrightarrow> recv es p = Some (Lagged (word_of_nat (length es - cap - p)), length es - cap)))"

section \<open>Runs\<close>

datatype sub_event =
    Emit "string option" ma_event
  | Turn
  | Take
  | DropEnd

record ('u, 's, 't) sub_run =
  sr_world :: "'u world"
  sr_sub :: "('s, 't) subscription"
  sr_taken :: "'t list"
  sr_read :: "event_envelope list"
  sr_lost :: nat

definition sub_begin :: "'s \<Rightarrow> 'u world \<Rightarrow> ('u, 's, 't) sub_run" where
  "sub_begin st w = \<lparr>sr_world = w, sr_sub = subscribe_to_event st w, sr_taken = [], sr_read = [], sr_lost = 0\<rparr>"

text \<open>What a turn hands to the filter, and what it skips.\<close>

definition turn_read :: "receiver \<Rightarrow> 'u world \<Rightarrow> ('s, 't) subscription \<Rightarrow> event_envelope list" where
  "turn_read recv w s =
    (if \<not> su_running s then []
     else (case recv (w_events w) (su_next s) of Some (Event e, p) \<Rightarrow> [e] | _ \<Rightarrow> []))"

definition turn_lost :: "receiver \<Rightarrow> 'u world \<Rightarrow> ('s, 't) subscription \<Rightarrow> nat" where
  "turn_lost recv w s =
    (if \<not> su_running s then 0
     else (case recv (w_events w) (su_next s) of Some (Lagged n, p) \<Rightarrow> p - su_next s | _ \<Rightarrow> 0))"

fun sub_step :: "receiver \<Rightarrow> ('s, 't) event_filter \<Rightarrow> sub_event \<Rightarrow> ('u, 's, 't) sub_run \<Rightarrow> ('u, 's, 't) sub_run" where
  "sub_step recv f (Emit org e) r = r\<lparr>sr_world := notify org e (sr_world r)\<rparr>"
| "sub_step recv f Turn r =
    r\<lparr>sr_sub := subscriber_turn recv f False (sr_world r) (sr_sub r),
      sr_read := sr_read r @ turn_read recv (sr_world r) (sr_sub r),
      sr_lost := sr_lost r + turn_lost recv (sr_world r) (sr_sub r)\<rparr>"
| "sub_step recv f Take r =
    (case take_value (sr_sub r) of (s, None) \<Rightarrow> r | (s, Some t) \<Rightarrow> r\<lparr>sr_sub := s, sr_taken := sr_taken r @ [t]\<rparr>)"
| "sub_step recv f DropEnd r = r\<lparr>sr_sub := drop_receiver (sr_sub r)\<rparr>"

definition sub_steps :: "receiver \<Rightarrow> ('s, 't) event_filter \<Rightarrow> sub_event list \<Rightarrow> ('u, 's, 't) sub_run \<Rightarrow> ('u, 's, 't) sub_run" where
  "sub_steps recv f ss r = fold (sub_step recv f) ss r"

text \<open>What the filter makes of a list of events.\<close>

fun filtered :: "('s, 't) event_filter \<Rightarrow> 's \<Rightarrow> event_envelope list \<Rightarrow> 's \<times> 't list" where
  "filtered f st [] = (st, [])"
| "filtered f st (e # es) =
    (let (st1, x) = f st e; (st2, ts) = filtered f st1 es
     in (st2, (case x of None \<Rightarrow> ts | Some t \<Rightarrow> t # ts)))"

lemma filtered_snoc:
  "filtered f st (es @ [e]) =
    (let (st1, ts) = filtered f st es; (st2, x) = f st1 e in (st2, ts @ (case x of None \<Rightarrow> [] | Some t \<Rightarrow> [t])))"
  by (induction es arbitrary: st) (auto split: prod.split option.split)

section \<open>What every run keeps\<close>

text \<open>\<open>start\<close> is the position of the subscription.\<close>

definition sub_ok :: "('s, 't) event_filter \<Rightarrow> 's \<Rightarrow> nat \<Rightarrow> ('u, 's, 't) sub_run \<Rightarrow> bool" where
  "sub_ok f st start r \<longleftrightarrow>
    (let s = sr_sub r; es = w_events (sr_world r) in
      start \<le> su_next s \<and> su_next s \<le> length es \<and>
      subseq (sr_read r) (take (su_next s - start) (drop start es)) \<and>
      length (sr_read r) + sr_lost r = su_next s - start \<and>
      (su_alive s \<longrightarrow> su_running s \<and> filtered f st (sr_read r) = (su_state s, sr_taken r @ su_queue s)))"

lemma sub_ok_begin: "sub_ok f st (subscribe w) (sub_begin st w)"
  by (simp add: sub_ok_def sub_begin_def subscribe_to_event_def subscribe_def)

lemma take_drop_append: "n \<le> length es - start \<Longrightarrow> start \<le> length es \<Longrightarrow> take n (drop start (es @ xs)) = take n (drop start es)"
  by simp

lemma subseq_take_Suc:
  assumes "subseq xs (take n ys)" "n < length ys"
  shows "subseq (xs @ [ys ! n]) (take (Suc n) ys)"
  using assms by (simp add: take_Suc_conv_app_nth list_emb_append_mono)

lemma subseq_take_mono: "subseq xs (take n ys) \<Longrightarrow> n \<le> m \<Longrightarrow> subseq xs (take m ys)"
  by (metis min.absorb1 subseq_order.order_trans take_is_prefix take_take prefix_imp_subseq)

text \<open>The three results of a receive.\<close>

lemma recv_cases:
  assumes "broadcast_ok cap recv" "p \<le> length es"
  obtains "p = length es" "recv es p = None"
  | "p < length es" "length es \<le> p + cap" "recv es p = Some (Event (es ! p), Suc p)"
  | n where "p + cap < length es" "recv es p = Some (Lagged n, length es - cap)"
  using assms unfolding broadcast_ok_def by (metis le_neq_implies_less linorder_le_less_linear order_refl)

lemma sub_ok_turn:
  assumes b: "broadcast_ok cap recv" and ok: "sub_ok f st start r"
  shows "sub_ok f st start (sub_step recv f Turn r)"
proof (cases "su_running (sr_sub r)")
  case False
  then show ?thesis using ok by (simp add: sub_ok_def subscriber_turn_def turn_read_def turn_lost_def Let_def)
next
  case True
  let ?es = "w_events (sr_world r)" and ?p = "su_next (sr_sub r)"
  have le: "start \<le> ?p" "?p \<le> length ?es" using ok by (simp_all add: sub_ok_def Let_def)
  show ?thesis
    using b le(2)
  proof (cases rule: recv_cases)
    case 1
    then show ?thesis using ok True by (simp add: sub_ok_def subscriber_turn_def turn_read_def turn_lost_def Let_def)
  next
    case 2
    have "subseq (sr_read r @ [?es ! ?p]) (take (Suc ?p - start) (drop start ?es))"
      using subseq_take_Suc [of "sr_read r" "?p - start" "drop start ?es"] ok le 2(1)
      by (simp add: sub_ok_def Let_def Suc_diff_le)
    then show ?thesis
      using ok True 2 le
      by (auto simp: sub_ok_def subscriber_turn_def turn_read_def turn_lost_def Let_def forward_def filtered_snoc Suc_diff_le
          split: prod.split option.split)
  next
    case (3 n)
    have "subseq (sr_read r) (take (length ?es - cap - start) (drop start ?es))"
      by (rule subseq_take_mono [of _ "?p - start"]) (use ok 3(1) le in \<open>auto simp: sub_ok_def Let_def\<close>)
    then show ?thesis
      using ok True 3 le by (auto simp: sub_ok_def subscriber_turn_def turn_read_def turn_lost_def Let_def)
  qed
qed

lemma sub_ok_step:
  assumes "broadcast_ok cap recv" and ok: "sub_ok f st start r"
  shows "sub_ok f st start (sub_step recv f x r)"
proof (cases x)
  case Turn
  then show ?thesis using sub_ok_turn [OF assms] by simp
next
  case (Emit org e)
  then show ?thesis using ok by (auto simp: sub_ok_def notify_def Let_def)
next
  case Take
  then show ?thesis using ok by (auto simp: sub_ok_def take_value_def Let_def split: list.split)
next
  case DropEnd
  then show ?thesis using ok by (auto simp: sub_ok_def drop_receiver_def Let_def)
qed

lemma sub_ok_steps: "broadcast_ok cap recv \<Longrightarrow> sub_ok f st start r \<Longrightarrow> sub_ok f st start (sub_steps recv f ss r)"
  by (induction ss arbitrary: r) (auto simp: sub_steps_def intro: sub_ok_step)

text \<open>How far the receiver is behind, and runs in which no turn finds it further behind than the channel
  keeps events.\<close>

definition behind :: "('u, 's, 't) sub_run \<Rightarrow> nat" where
  "behind r = length (w_events (sr_world r)) - su_next (sr_sub r)"

fun keeps_up :: "nat \<Rightarrow> receiver \<Rightarrow> ('s, 't) event_filter \<Rightarrow> sub_event list \<Rightarrow> ('u, 's, 't) sub_run \<Rightarrow> bool" where
  "keeps_up cap recv f [] r \<longleftrightarrow> True"
| "keeps_up cap recv f (x # xs) r \<longleftrightarrow> (x = Turn \<longrightarrow> behind r \<le> cap) \<and> keeps_up cap recv f xs (sub_step recv f x r)"

lemma turn_nothing_lost:
  assumes b: "broadcast_ok cap recv" and ok: "sub_ok f st start r" and "behind r \<le> cap"
  shows "turn_lost recv (sr_world r) (sr_sub r) = 0"
proof (cases rule: recv_cases [OF b, of "su_next (sr_sub r)" "w_events (sr_world r)"])
  case 1
  show ?case using ok by (simp add: sub_ok_def Let_def)
qed (use assms(3) in \<open>auto simp: turn_lost_def behind_def\<close>)

lemma keeps_up_lost:
  assumes b: "broadcast_ok cap recv"
  shows "sub_ok f st start r \<Longrightarrow> keeps_up cap recv f ss r \<Longrightarrow> sr_lost (sub_steps recv f ss r) = sr_lost r"
proof (induction ss arbitrary: r)
  case (Cons x ss)
  have "sr_lost (sub_step recv f x r) = sr_lost r"
    using turn_nothing_lost [OF b Cons.prems(1)] Cons.prems(2)
    by (cases x) (auto simp: take_value_def split: list.split)
  then show ?case
    using Cons.IH [OF sub_ok_step [OF b Cons.prems(1)]] Cons.prems(2) by (simp add: sub_steps_def)
qed (simp add: sub_steps_def)

text \<open>A turn of a task that is behind gets it forward.\<close>

lemma turn_forward:
  assumes b: "broadcast_ok cap recv" and ok: "sub_ok f st start r" and a: "su_alive (sr_sub r)"
  shows "su_alive (sr_sub (sub_step recv f Turn r))" "behind (sub_step recv f Turn r) \<le> behind r - 1"
proof -
  have s: "su_running (sr_sub r)" "su_next (sr_sub r) \<le> length (w_events (sr_world r))"
    using ok a by (simp_all add: sub_ok_def Let_def)
  from b s(2) have "su_alive (sr_sub (sub_step recv f Turn r)) \<and> behind (sub_step recv f Turn r) \<le> behind r - 1"
    by (cases rule: recv_cases)
      (use s(1) a in \<open>auto simp: subscriber_turn_def behind_def forward_def split: prod.split option.split\<close>)
  then show "su_alive (sr_sub (sub_step recv f Turn r))" "behind (sub_step recv f Turn r) \<le> behind r - 1" by auto
qed

lemma turns_catch_up:
  assumes b: "broadcast_ok cap recv"
  shows "sub_ok f st start r \<Longrightarrow> su_alive (sr_sub r) \<Longrightarrow> behind r \<le> k \<Longrightarrow>
    behind (sub_steps recv f (replicate k Turn) r) = 0"
proof (induction k arbitrary: r)
  case (Suc k)
  let ?r = "sub_step recv f Turn r"
  have "behind (sub_steps recv f (replicate k Turn) ?r) = 0"
    by (rule Suc.IH) (use sub_ok_step [OF b Suc.prems(1)] turn_forward [OF b Suc.prems(1,2)] Suc.prems(3) in \<open>auto simp del: sub_step.simps\<close>)
  then show ?case by (simp add: sub_steps_def del: sub_step.simps)
qed (simp add: sub_steps_def)

lemma subseq_full: "subseq xs ys \<Longrightarrow> length xs = length ys \<Longrightarrow> xs = ys"
  by (simp add: subseq_same_length)

theorem subscription_runs:
  fixes st :: 's and f :: "('s, 't) event_filter" and w :: "'u world"
  assumes b: "broadcast_ok cap recv" and r: "r = sub_steps recv f ss (sub_begin st w)"
    and sent: "sent = take (su_next (sr_sub r) - length (w_events w)) (drop (length (w_events w)) (w_events (sr_world r)))"
  shows "subseq (sr_read r) sent" "length (sr_read r) + sr_lost r = length sent"
    "su_alive (sr_sub r) \<Longrightarrow> snd (filtered f st (sr_read r)) = sr_taken r @ su_queue (sr_sub r)"
    "keeps_up cap recv f ss (sub_begin st w) \<Longrightarrow> sr_read r = sent"
    "su_alive (sr_sub r) \<Longrightarrow> behind (sub_steps recv f (replicate (behind r) Turn) r) = 0"
proof -
  have ok: "sub_ok f st (length (w_events w)) r"
    using sub_ok_steps [OF b sub_ok_begin] unfolding r subscribe_def .
  show s: "subseq (sr_read r) sent" and l: "length (sr_read r) + sr_lost r = length sent"
    using ok by (auto simp: sub_ok_def sent Let_def)
  show "su_alive (sr_sub r) \<Longrightarrow> snd (filtered f st (sr_read r)) = sr_taken r @ su_queue (sr_sub r)"
    using ok by (simp add: sub_ok_def Let_def)
  show "sr_read r = sent" if k: "keeps_up cap recv f ss (sub_begin st w)"
    using subseq_full [OF s] l keeps_up_lost [OF b sub_ok_begin k] by (simp add: r) (simp add: sub_begin_def)
  show "su_alive (sr_sub r) \<Longrightarrow> behind (sub_steps recv f (replicate (behind r) Turn) r) = 0"
    by (rule turns_catch_up [OF b ok]) auto
qed

end
