(* ===== verification/Probe.thy ===== *)
theory Probe
  imports External Delivery Subscriptions
begin

text \<open>
  test_utils.rs: the observer of the values on the channels of a \<open>ModularAgent\<close>, the expectations on
  it, and \<open>TestProbeAgent\<close>, which hands its inputs to a test.

  The state of a probe is the queue behind its receiver, which all clones of the receiver share; the
  agent holds both ends, so the queue is closed only when the agent is gone. A bounded wait gives a
  value or times out: the argument is the queue at the end of the wait. \<open>dbg\<close> is the derived text of
  a value.

  The last lemmas follow a value from \<open>write_local_input\<close> through the main loop to the observer.
\<close>

section \<open>Channel values\<close>

type_synonym out_value = "string \<times> agent_value"

definition output_of :: "(unit, out_value) event_filter" where
  "output_of st e = ((), case ev_event e of ExternalOutput n v \<Rightarrow> Some (n, v) | _ \<Rightarrow> None)"

definition subscribe_external_output_observer :: "'u world \<Rightarrow> (unit, out_value) subscription" where
  "subscribe_external_output_observer w = subscribe_to_event () w"

definition recv_external_output ::
    "(unit, out_value) subscription option \<Rightarrow> (unit, out_value) subscription option \<times> out_value result" where
  "recv_external_output slot =
    (case slot of
      None \<Rightarrow> (None, Inl (SendMessageFailed ''external output receiver not initialized''))
    | Some s \<Rightarrow>
        (case take_value s of
          (s', Some x) \<Rightarrow> (Some s', Inr x)
        | (s', None) \<Rightarrow>
            (Some s', Inl (SendMessageFailed
              (if su_running s then ''external output receive timed out'' else ''external output channel closed'')))))"

definition unexpected :: "(agent_value \<Rightarrow> string) \<Rightarrow> out_value \<Rightarrow> out_value \<Rightarrow> string" where
  "unexpected dbg e x = ''expected output '' @ [CHR 0x27] @ fst e @ [CHR 0x27] @ '' with value '' @ dbg (snd e) @
    '', got '' @ [CHR 0x27] @ fst x @ [CHR 0x27] @ '' with value '' @ dbg (snd x)"

definition expect_external_output :: "(agent_value \<Rightarrow> string) \<Rightarrow> string \<Rightarrow> agent_value \<Rightarrow>
    (unit, out_value) subscription option \<Rightarrow> (unit, out_value) subscription option \<times> unit result" where
  "expect_external_output dbg n v slot =
    (case recv_external_output slot of
      (slot', Inl e) \<Rightarrow> (slot', Inl e)
    | (slot', Inr x) \<Rightarrow>
        (slot', if fst x = n \<and> value_eq (snd x) v then Inr () else Inl (SendMessageFailed (unexpected dbg (n, v) x))))"

definition expect_local_value where
  "expect_local_value dbg p n v slot = expect_external_output dbg (local_channel p n) v slot"

text \<open>\<open>wait\<close> is what the program does between the write and the value that is received.\<close>

definition write_and_expect_local_value where
  "write_and_expect_local_value dbg wait p n v w slot =
    (case write_local_input p n v w of
      (w1, Inl e) \<Rightarrow> (w1, slot, Inl e)
    | (w1, Inr _) \<Rightarrow>
        (let (w2, slot2) = wait w1 slot; (slot3, r) = expect_local_value dbg p n v slot2 in (w2, slot3, r)))"

section \<open>The probe\<close>

type_synonym probe_event = "agent_context \<times> agent_value"

definition PROBE :: string where "PROBE = ''TestProbeAgent''"

definition probe_new :: "probe_event list world \<Rightarrow> string \<Rightarrow> agent_spec \<Rightarrow> probe_event list world \<times> probe_event list agent result" where
  "probe_new w i s = (w, Inr (agent_data_new PROBE (User []) i s))"

fun probe_queue :: "probe_event list agent_state \<Rightarrow> probe_event list" where
  "probe_queue (User q) = q" | "probe_queue (Channel c) = []"

definition probe_process :: "probe_event list world \<Rightarrow> probe_event list agent \<Rightarrow> agent_context \<Rightarrow> string \<Rightarrow> agent_value \<Rightarrow>
    probe_event list world \<times> probe_event list agent \<times> unit result" where
  "probe_process w a ctx port v = (w, a\<lparr>a_state := User (probe_queue (a_state a) @ [(ctx, v)])\<rparr>, Inr ())"

definition probe_impl :: "probe_event list impl" where
  "probe_impl = \<lparr>i_new = probe_new, i_configs_changed = no_callback, i_start = no_callback, i_stop = no_callback,
    i_process = probe_process\<rparr>"

text \<open>Receiving, and the receiver of an agent: an agent of another type is not found.\<close>

definition recv_probe :: "probe_event list agent \<Rightarrow> probe_event list agent \<times> probe_event result" where
  "recv_probe a =
    (case probe_queue (a_state a) of
      [] \<Rightarrow> (a, Inl (SendMessageFailed ''probe receive timed out''))
    | x # q \<Rightarrow> (a\<lparr>a_state := User q\<rparr>, Inr x))"

definition probe_receiver :: "string \<Rightarrow> probe_event list world \<Rightarrow> nat result" where
  "probe_receiver i w =
    (case map_of (w_agents w) i of
      None \<Rightarrow> Inl (AgentNotFound i)
    | Some h \<Rightarrow> if a_impl (w_objs w ! h) = PROBE then Inr h else Inl (AgentNotFound i))"

text \<open>The built-in agents with the probe beside them.\<close>

definition with_probe :: "probe_event list impls" where
  "with_probe = builtin (\<lambda>n. if n = PROBE then probe_impl else plain_impl n)"

interpretation probes: agent_contract with_probe
  unfolding with_probe_def
proof (rule builtin_contract, unfold_locales, goal_cases)
  case (1 n w i s w' x)
  then show ?case by (auto simp: probe_impl_def probe_new_def plain_impl_def split: if_splits)
next
  case (2 n w i s w' a)
  then show ?case by (auto simp: probe_impl_def probe_new_def plain_impl_def agent_data_new_def split: if_splits)
next
  case (3 n w a w' a' r)
  then show ?case by (auto simp: probe_impl_def plain_impl_def split: if_splits dest: default_core)
next
  case (4 n w a w' a' r)
  then show ?case by (auto simp: probe_impl_def plain_impl_def split: if_splits dest: default_core)
next
  case (5 n w a w' a' r)
  then show ?case by (auto simp: probe_impl_def plain_impl_def split: if_splits dest: default_core)
next
  case (6 n w a ctx port v w' a' r)
  then show ?case
    by (auto simp: probe_impl_def probe_process_def plain_impl_def ident_of_def no_process_def split: if_splits)
qed

section \<open>A probe receives its inputs in their order\<close>

fun probe_inputs :: "(agent_context \<times> string \<times> agent_value) list \<Rightarrow> probe_event list world \<Rightarrow> probe_event list agent \<Rightarrow>
    probe_event list world \<times> probe_event list agent" where
  "probe_inputs [] w a = (w, a)"
| "probe_inputs ((ctx, port, v) # xs) w a =
    (let (w', a', r) = agent_process with_probe ctx port v w a in probe_inputs xs w' a')"

fun probe_receives :: "nat \<Rightarrow> probe_event list agent \<Rightarrow> probe_event result list" where
  "probe_receives 0 a = []"
| "probe_receives (Suc n) a = (let (a', r) = recv_probe a in r # probe_receives n a')"

lemma probe_process_queue:
  "a_impl a = PROBE \<Longrightarrow> agent_process with_probe ctx port v w a =
    (w, a\<lparr>a_state := User (probe_queue (a_state a) @ [(ctx, v)])\<rparr>, Inr ())"
  by (simp add: agent_process_def with_probe_def builtin_def PROBE_def probe_impl_def probe_process_def)

lemma probe_inputs_queue:
  "a_impl a = PROBE \<Longrightarrow> probe_inputs xs w a = (w', a') \<Longrightarrow>
    probe_queue (a_state a') = probe_queue (a_state a) @ map (\<lambda>(ctx, port, v). (ctx, v)) xs"
proof (induction xs arbitrary: a)
  case (Cons x xs)
  obtain ctx port v where x: "x = (ctx, port, v)" by (cases x)
  let ?a = "a\<lparr>a_state := User (probe_queue (a_state a) @ [(ctx, v)])\<rparr>"
  have "probe_inputs xs w ?a = (w', a')" using Cons.prems by (simp add: x probe_process_queue)
  from Cons.IH [OF _ this] show ?case using Cons.prems(1) by (simp add: x)
qed simp

lemma probe_receives_queue:
  "probe_receives n a = map Inr (take n (probe_queue (a_state a))) @
    replicate (n - length (probe_queue (a_state a))) (Inl (SendMessageFailed ''probe receive timed out''))"
proof (induction n arbitrary: a)
  case (Suc n)
  show ?case
    by (cases "probe_queue (a_state a)") (simp_all add: recv_probe_def Suc)
qed simp

section \<open>A written value is observed\<close>

lemma keeps_up_turns:
  assumes b: "broadcast_ok cap recv"
  shows "sub_ok f st start r \<Longrightarrow> su_alive (sr_sub r) \<Longrightarrow> behind r \<le> cap \<Longrightarrow> keeps_up cap recv f (replicate k Turn) r"
proof (induction k arbitrary: r)
  case (Suc k)
  have "keeps_up cap recv f (replicate k Turn) (sub_step recv f Turn r)"
    by (rule Suc.IH) (use sub_ok_step [OF b Suc.prems(1)] turn_forward [OF b Suc.prems(1,2)] Suc.prems(3) in \<open>auto simp del: sub_step.simps\<close>)
  then show ?case using Suc.prems(3) by simp
qed simp

lemma turns_keep:
  "su_alive (sr_sub r) \<Longrightarrow> sr_world (sub_steps recv f (replicate k Turn) r) = sr_world r \<and>
    sr_taken (sub_steps recv f (replicate k Turn) r) = sr_taken r \<and>
    su_alive (sr_sub (sub_steps recv f (replicate k Turn) r))"
proof (induction k arbitrary: r)
  case (Suc k)
  have "su_alive (sr_sub (sub_step recv f Turn r))"
    using Suc.prems by (auto simp: subscriber_turn_def forward_def split: option.splits prod.splits received.splits)
  from Suc.IH [OF this] show ?case by (simp add: sub_steps_def)
qed (simp add: sub_steps_def)

text \<open>The task gets every event of a burst the channel can hold.\<close>

lemma burst_forwarded:
  fixes w w2 :: "'u world" and st :: 's and f :: "('s, 't) event_filter"
  assumes b: "broadcast_ok cap recv" and e: "w_events w2 = w_events w @ es" and "length es \<le> cap"
  defines "r \<equiv> sub_steps recv f (replicate (length es) Turn) ((sub_begin st w)\<lparr>sr_world := w2\<rparr>)"
  shows "su_queue (sr_sub r) = snd (filtered f st es)"
proof -
  let ?r0 = "(sub_begin st w :: ('u, 's, 't) sub_run)\<lparr>sr_world := w2\<rparr>"
  have ok0: "sub_ok f st (length (w_events w)) ?r0"
    by (simp add: sub_ok_def sub_begin_def subscribe_to_event_def subscribe_def e)
  have a0: "su_alive (sr_sub ?r0)" "behind ?r0 = length es"
    by (simp_all add: sub_begin_def subscribe_to_event_def subscribe_def behind_def e)
  have ok: "sub_ok f st (length (w_events w)) r" unfolding r_def by (rule sub_ok_steps [OF b ok0])
  have k: "sr_world r = w2" "sr_taken r = []" "su_alive (sr_sub r)"
    using turns_keep [OF a0(1), of recv f "length es"] by (simp_all add: r_def sub_begin_def)
  have "behind r = 0" unfolding r_def by (rule turns_catch_up [OF b ok0 a0(1)]) (simp add: a0(2))
  moreover have "keeps_up cap recv f (replicate (length es) Turn) ?r0"
    by (rule keeps_up_turns [OF b ok0 a0(1)]) (simp add: a0(2) assms(3))
  from keeps_up_lost [OF b ok0 this] have "sr_lost r = sr_lost ?r0" unfolding r_def .
  ultimately have "sr_read r = es"
    using ok by (auto simp: sub_ok_def Let_def behind_def k e sub_begin_def intro: subseq_full)
  then show ?thesis using ok k by (simp add: sub_ok_def Let_def)
qed

lemma outputs_of_routed: "snd (filtered output_of () (arrivals org w ds @ [\<lparr>ev_origin = org, ev_event = ExternalOutput n v\<rparr>])) = [(n, v)]"
  unfolding arrivals_def by (induction ds) (auto simp: output_of_def)

lemma routed_forwarded:
  assumes b: "broadcast_ok EVENT_CHANNEL_CAPACITY recv" and ok: "txs_ok w" "queued w (input_routes name w)"
    and few: "length (input_routes name w) < EVENT_CHANNEL_CAPACITY"
    and w2: "w2 = external_input I None name ctx v w"
  shows "\<exists>k. su_queue (sr_sub (sub_steps recv output_of (replicate k Turn) ((sub_begin () w)\<lparr>sr_world := w2\<rparr>))) = [(name, v)]"
proof -
  let ?es = "arrivals None (w\<lparr>w_external_values := im_insert name v (w_external_values w)\<rparr>) (input_routes name w) @
    [\<lparr>ev_origin = None, ev_event = ExternalOutput name v\<rparr>]"
  have e: "w_events w2 = w_events w @ ?es"
    unfolding w2 external_input_eq [OF ok] by (simp add: notify_def after_deliveries_def)
  have "length (arrivals org u ds) \<le> length ds" for org and u :: "'a world" and ds
    unfolding arrivals_def by (induction ds) auto
  from le_less_trans [OF this few] have "length ?es \<le> EVENT_CHANNEL_CAPACITY" by (simp add: Suc_le_eq)
  from burst_forwarded [OF b e this, of output_of "()"] show ?thesis using outputs_of_routed by metis
qed

text \<open>One turn of the main loop, then \<open>k\<close> turns of the observer's task.\<close>

definition turns_pass :: "'u impls \<Rightarrow> receiver \<Rightarrow> nat \<Rightarrow> nat \<Rightarrow> 'u world \<Rightarrow> (unit, out_value) subscription option \<Rightarrow>
    'u world \<times> (unit, out_value) subscription option" where
  "turns_pass I recv t k w slot =
    (let w2 = (case main_step I t w of None \<Rightarrow> w | Some w2 \<Rightarrow> w2)
     in (w2, map_option (\<lambda>s. sr_sub (sub_steps recv output_of (replicate k Turn)
          \<lparr>sr_world = w2, sr_sub = s, sr_taken = [], sr_read = [], sr_lost = 0\<rparr>)) slot))"

definition main_idle :: "nat \<Rightarrow> 'u world \<Rightarrow> bool" where
  "main_idle t w \<longleftrightarrow> w_tx w = Some t \<and> t < length (w_main_chans w) \<and> w_main_chans w ! t = chan_new"

lemma write_routed:
  assumes "main_idle t w"
  shows "\<exists>w1. write_local_input p n v w = (w1, Inr ()) \<and>
    main_step I t w1 = Some (external_input I None (local_channel p n) (fst (ctx_new (w_ctx_ids w))) v
      (w\<lparr>w_ctx_ids := snd (ctx_new (w_ctx_ids w))\<rparr>))"
proof -
  have m: "w_tx w = Some t" "t < length (w_main_chans w)" "w_main_chans w ! t = chan_new"
    using assms by (simp_all add: main_idle_def)
  have l: "(w_main_chans w)[t := chan_new] = w_main_chans w" using m(3) by (metis list_update_id)
  have "write_local_input p n v w = (w\<lparr>w_ctx_ids := snd (ctx_new (w_ctx_ids w)),
      w_main_chans := (w_main_chans w)[t := \<lparr>ch_queue = [ExternalOutputMsg (local_channel p n) (fst (ctx_new (w_ctx_ids w))) v],
        ch_closed = False\<rparr>]\<rparr>, Inr ())"
    using m by (simp add: write_local_input_def world_new_ctx_def case_prod_beta Let_def send_external_output_def main_send_def
        chan_send_def chan_new_def)
  then show ?thesis using m l by (simp add: main_step_def main_message_def chan_new_def)
qed

lemma expect_single:
  "su_queue s = [x] \<Longrightarrow> snd (expect_external_output dbg n u (Some s)) = Inr () \<longleftrightarrow> fst x = n \<and> value_eq (snd x) u"
  by (simp add: expect_external_output_def recv_external_output_def take_value_def)

lemma written_observed:
  fixes w :: "'u world"
  assumes b: "broadcast_ok EVENT_CHANNEL_CAPACITY recv" and idle: "main_idle t w"
    and ok: "txs_ok w" "queued w (input_routes (local_channel p n) w)"
    and few: "length (input_routes (local_channel p n) w) < EVENT_CHANNEL_CAPACITY"
  shows "\<exists>k. \<forall>dbg. case write_and_expect_local_value dbg (turns_pass I recv t k) p n v w
      (Some (subscribe_external_output_observer w)) of (w2, sl, r) \<Rightarrow>
      map_of (w_external_values w2) (local_channel p n) = Some v \<and> (r = Inr () \<longleftrightarrow> value_eq v v)"
proof -
  let ?w = "w\<lparr>w_ctx_ids := snd (ctx_new (w_ctx_ids w))\<rparr>" and ?ctx = "fst (ctx_new (w_ctx_ids w))"
  define w2 where "w2 = external_input I None (local_channel p n) ?ctx v ?w"
  obtain w1 where w1: "write_local_input p n v w = (w1, Inr ())" "main_step I t w1 = Some w2"
    using write_routed [OF idle] unfolding w2_def by blast
  have r: "input_routes (local_channel p n) ?w = input_routes (local_channel p n) w" "txs_ok ?w"
      "queued ?w (input_routes (local_channel p n) ?w)"
    using ok by (simp_all add: input_routes_def node_routes_def [abs_def] txs_ok_def queued_def)
  have x: "map_of (w_external_values w2) (local_channel p n) = Some v"
    unfolding w2_def external_input_eq [OF r(2,3)] by (simp add: notify_def after_deliveries_def)
  let ?s = "subscribe_external_output_observer w"
  have s: "(sub_begin () ?w)\<lparr>sr_world := w2\<rparr> =
      (\<lparr>sr_world = w2, sr_sub = ?s, sr_taken = [], sr_read = [], sr_lost = 0\<rparr> :: ('u, unit, out_value) sub_run)"
    by (simp add: sub_begin_def subscribe_to_event_def subscribe_def subscribe_external_output_observer_def)
  have "length (input_routes (local_channel p n) ?w) < EVENT_CHANNEL_CAPACITY" using few by (simp only: r(1))
  from routed_forwarded [OF b r(2,3) this w2_def, unfolded s] obtain k where
    k: "su_queue (sr_sub (sub_steps recv output_of (replicate k Turn)
      \<lparr>sr_world = w2, sr_sub = ?s, sr_taken = [], sr_read = [], sr_lost = 0\<rparr>)) = [(local_channel p n, v)]" ..
  show ?thesis
    by (intro exI [of _ k] allI)
      (use expect_single [OF k] x in \<open>simp add: write_and_expect_local_value_def w1 turns_pass_def expect_local_value_def case_prod_beta Let_def\<close>)
qed

end
