(* ===== verification/Access.thy ===== *)
theory Access
  imports Value
begin

text \<open>
  value.rs, the rest of \<open>AgentValue\<close>: the conversions from Rust's types, the default values, the
  conversion of any serializable type, and mutable access.

  A mutable reference into a value is its current content with the function that gives the whole
  value for a new content. Shared images, tensors and messages are copied before they are written
  (\<open>Arc::make_mut\<close>), so a write is seen through the reference alone.
\<close>

section \<open>Conversions\<close>

definition value_of_unit :: "unit \<Rightarrow> agent_value" where "value_of_unit u = Unit"
definition value_of_i32 :: "32 word \<Rightarrow> agent_value" where "value_of_i32 n = Integer (scast n)"
definition value_of_usize :: "usize \<Rightarrow> agent_value" where "value_of_usize n = Integer (ucast n)"
definition value_of_u64 :: "u64 \<Rightarrow> agent_value" where "value_of_u64 n = Integer (ucast n)"
definition value_of_f32 :: "f32 \<Rightarrow> agent_value" where "value_of_f32 x = Number (f32_as_f64 x)"
definition value_of_error :: "agent_error \<Rightarrow> agent_value" where "value_of_error e = Error e"
definition value_of_option :: "agent_value option \<Rightarrow> agent_value" where "value_of_option v = unwrap_or v Unit"

definition boolean_default :: agent_value where "boolean_default = Boolean False"
definition integer_default :: agent_value where "integer_default = Integer 0"
definition number_default :: agent_value where "number_default = Number f_zero"
definition string_default :: agent_value where "string_default = String []"
definition image_default :: agent_value where
  "image_default = Image \<lparr>raw_pixels = [0, 0, 0, 0], img_width = 1, img_height = 1\<rparr>"
definition array_default :: agent_value where "array_default = Array []"
definition object_default :: agent_value where "object_default = Object []"
definition tensor_default :: agent_value where "tensor_default = Tensor []"

text \<open>\<open>ser\<close> and \<open>de\<close> are the derived instances of the type.\<close>

definition from_serialize :: "host \<Rightarrow> ('t \<Rightarrow> string + json) \<Rightarrow> 't \<Rightarrow> agent_value result" where
  "from_serialize H ser x =
    and_then (map_err (\<lambda>e. InvalidValue (''Failed to serialize: '' @ e)) (ser x)) (from_json H)"

definition to_deserialize :: "host \<Rightarrow> (json \<Rightarrow> string + 't) \<Rightarrow> agent_value \<Rightarrow> 't result" where
  "to_deserialize H de v = map_err (\<lambda>e. InvalidValue (''Failed to deserialize: '' @ e)) (de (to_json H v))"

text \<open>The unsigned types keep their value below \<open>2 ^ 63\<close> only.\<close>

lemma signed_as_unsigned: "sint (n :: 64 word) = uint n \<longleftrightarrow> uint n < 2 ^ 63"
proof
  assume "sint n = uint n"
  then show "uint n < 2 ^ 63" using sint_less [of n] by simp
next
  assume "uint n < 2 ^ 63"
  moreover have "- (2 ^ 63) \<le> uint n" by (rule order_trans [of _ 0]) simp_all
  ultimately show "sint n = uint n" by (simp add: sint_uint signed_take_bit_int_eq_self)
qed

lemma value_of_u64_reads: "\<exists>i. as_i64 (value_of_u64 n) = Some i \<and> (sint i = uint n \<longleftrightarrow> uint n < 2 ^ 63)"
  by (simp add: value_of_u64_def signed_as_unsigned del: power_numeral)

section \<open>Mutable access\<close>

type_synonym 'a mut = "'a \<times> ('a \<Rightarrow> agent_value)"

fun as_object_mut :: "agent_value \<Rightarrow> value_map mut option" where
  "as_object_mut (Object m) = Some (m, Object)" | "as_object_mut v = None"

fun as_array_mut :: "agent_value \<Rightarrow> agent_value list mut option" where
  "as_array_mut (Array a) = Some (a, Array)" | "as_array_mut v = None"

fun as_tensor_mut :: "agent_value \<Rightarrow> f32 list mut option" where
  "as_tensor_mut (Tensor t) = Some (t, Tensor)" | "as_tensor_mut v = None"

fun as_image_mut :: "agent_value \<Rightarrow> photon_image mut option" where
  "as_image_mut (Image i) = Some (i, Image)" | "as_image_mut v = None"

fun as_message_mut :: "agent_value \<Rightarrow> message mut option" where
  "as_message_mut (Message m) = Some (m, Message)" | "as_message_mut v = None"

definition value_get_mut :: "string \<Rightarrow> agent_value \<Rightarrow> agent_value mut option" where
  "value_get_mut k v =
    Option.bind (as_object_mut v) (\<lambda>(m, wr). map_option (\<lambda>x. (x, \<lambda>y. wr (im_insert k y m))) (map_of m k))"

text \<open>A reference into the value behind a reference.\<close>

definition reborrow :: "(agent_value \<Rightarrow> 'a mut option) \<Rightarrow> agent_value mut option \<Rightarrow> 'a mut option" where
  "reborrow f r = Option.bind r (\<lambda>(x, wr). map_option (\<lambda>(y, b). (y, \<lambda>z. wr (b z))) (f x))"

definition value_get_object_mut where "value_get_object_mut k v = reborrow as_object_mut (value_get_mut k v)"
definition value_get_array_mut where "value_get_array_mut k v = reborrow as_array_mut (value_get_mut k v)"
definition value_get_tensor_mut where "value_get_tensor_mut k v = reborrow as_tensor_mut (value_get_mut k v)"
definition value_get_image_mut where "value_get_image_mut k v = reborrow as_image_mut (value_get_mut k v)"
definition value_get_message_mut where "value_get_message_mut k v = reborrow as_message_mut (value_get_mut k v)"

text \<open>The contract of a mutable access beside its reader: it answers where the reader does and with the
  same content, a write is read wr and a second one overwrites it, and writing the content that
  is there changes nothing.\<close>

locale mut_access =
  fixes rd :: "agent_value \<Rightarrow> 'a option" and mu :: "agent_value \<Rightarrow> 'a mut option"
  assumes agrees: "map_option fst (mu v) = rd v"
    and put_get: "mu v = Some (x, wr) \<Longrightarrow> mu (wr y) = Some (y, wr)"
    and get_put: "mu v = Some (x, wr) \<Longrightarrow> wr x = v"
begin

lemma mut_reads: "mu v = Some (x, wr) \<Longrightarrow> rd v = Some x"
  using agrees [of v] by force

lemma read_back: "mu v = Some (x, wr) \<Longrightarrow> rd (wr y) = Some y"
  using put_get mut_reads by blast

lemma absent: "mu v = None \<longleftrightarrow> rd v = None"
  using agrees [of v] by (metis map_option_is_None)

end

text \<open>An access under a key gives one for the whole value that leaves the other keys alone.\<close>

lemma reborrow_access:
  assumes "mut_access rd mu"
  shows "mut_access (\<lambda>v. Option.bind (value_get v k) rd) (\<lambda>v. reborrow mu (value_get_mut k v))"
proof -
  note a = mut_access.agrees [OF assms] mut_access.put_get [OF assms] mut_access.get_put [OF assms]
  show ?thesis
  proof (unfold_locales, goal_cases)
    case (1 v)
    show ?case
      using a(1) by (cases v) (auto simp: reborrow_def value_get_mut_def value_get_def option.map_comp comp_def case_prod_beta
        split: option.split Option.bind_split)
  next
    case (2 v x wr y)
    then obtain m u b where "v = Object m" "map_of m k = Some u" "mu u = Some (x, b)" "wr = (\<lambda>z. Object (im_insert k (b z) m))"
      by (cases v) (auto simp: reborrow_def value_get_mut_def bind_eq_Some_conv)
    then show ?case using a(2) by (auto simp: reborrow_def value_get_mut_def im_insert_again)
  next
    case (3 v x wr)
    then obtain m u b where "v = Object m" "map_of m k = Some u" "mu u = Some (x, b)" "wr = (\<lambda>z. Object (im_insert k (b z) m))"
      by (cases v) (auto simp: reborrow_def value_get_mut_def bind_eq_Some_conv)
    then show ?case using a(3) [of u x b] by (simp add: im_insert_same)
  qed
qed

lemma reborrow_other:
  "reborrow mu (value_get_mut k v) = Some (x, wr) \<Longrightarrow> k' \<noteq> k \<Longrightarrow> value_get (wr y) k' = value_get v k'"
  by (cases v) (auto simp: reborrow_def value_get_mut_def value_get_def bind_eq_Some_conv)

text \<open>The accesses of the constructors.\<close>

lemma constructor_access:
  assumes "\<And>v x. rd v = Some x \<longleftrightarrow> v = C x" and "\<And>v. mu v = map_option (\<lambda>x. (x, C)) (rd v)"
  shows "mut_access rd mu"
proof (unfold_locales, goal_cases)
  case (1 v) show ?case by (cases "rd v") (simp_all add: assms(2))
next
  case (2 v x wr y)
  then have "wr = C" by (auto simp: assms(2))
  moreover have "rd (C y) = Some y" by (simp add: assms(1))
  ultimately show ?case by (simp add: assms(2))
next
  case (3 v x wr)
  then show ?case using assms(1) [of v x] by (auto simp: assms(2))
qed

interpretation objects: mut_access as_object as_object_mut
proof (rule constructor_access)
  show "as_object v = Some x \<longleftrightarrow> v = Object x" for v x by (cases v) simp_all
  show "as_object_mut v = map_option (\<lambda>x. (x, Object)) (as_object v)" for v by (cases v) simp_all
qed

interpretation arrays: mut_access as_array as_array_mut
proof (rule constructor_access)
  show "as_array v = Some x \<longleftrightarrow> v = Array x" for v x by (cases v) simp_all
  show "as_array_mut v = map_option (\<lambda>x. (x, Array)) (as_array v)" for v by (cases v) simp_all
qed

interpretation tensors: mut_access as_tensor as_tensor_mut
proof (rule constructor_access)
  show "as_tensor v = Some x \<longleftrightarrow> v = Tensor x" for v x by (cases v) simp_all
  show "as_tensor_mut v = map_option (\<lambda>x. (x, Tensor)) (as_tensor v)" for v by (cases v) simp_all
qed

interpretation images: mut_access as_image as_image_mut
proof (rule constructor_access)
  show "as_image v = Some x \<longleftrightarrow> v = Image x" for v x by (cases v) simp_all
  show "as_image_mut v = map_option (\<lambda>x. (x, Image)) (as_image v)" for v by (cases v) simp_all
qed

interpretation messages: mut_access as_message as_message_mut
proof (rule constructor_access)
  show "as_message v = Some x \<longleftrightarrow> v = Message x" for v x by (cases v) simp_all
  show "as_message_mut v = map_option (\<lambda>x. (x, Message)) (as_message v)" for v by (cases v) simp_all
qed

interpretation keyed_objects: mut_access "\<lambda>v. value_get_object v k" "value_get_object_mut k" for k
  using reborrow_access [OF objects.mut_access_axioms] by (simp add: value_get_object_def value_get_object_mut_def [abs_def])

interpretation keyed_arrays: mut_access "\<lambda>v. value_get_array v k" "value_get_array_mut k" for k
  using reborrow_access [OF arrays.mut_access_axioms] by (simp add: value_get_array_def value_get_array_mut_def [abs_def])

interpretation keyed_tensors: mut_access "\<lambda>v. value_get_tensor v k" "value_get_tensor_mut k" for k
  using reborrow_access [OF tensors.mut_access_axioms] by (simp add: value_get_tensor_def value_get_tensor_mut_def [abs_def])

interpretation keyed_images: mut_access "\<lambda>v. value_get_image v k" "value_get_image_mut k" for k
  using reborrow_access [OF images.mut_access_axioms] by (simp add: value_get_image_def value_get_image_mut_def [abs_def])

interpretation keyed_messages: mut_access "\<lambda>v. value_get_message v k" "value_get_message_mut k" for k
  using reborrow_access [OF messages.mut_access_axioms] by (simp add: value_get_message_def value_get_message_mut_def [abs_def])

text \<open>What every access under a key does, as one statement.\<close>

lemma keyed_write:
  assumes "mut_access rd mu" and "reborrow mu (value_get_mut k v) = Some (x, wr)"
  shows "Option.bind (value_get v k) rd = Some x \<and> Option.bind (value_get (wr y) k) rd = Some y \<and> wr x = v \<and>
    (\<forall>k'. k' \<noteq> k \<longrightarrow> value_get (wr y) k' = value_get v k')"
  using mut_access.mut_reads [OF reborrow_access [OF assms(1)] assms(2)]
    mut_access.read_back [OF reborrow_access [OF assms(1)] assms(2)]
    mut_access.get_put [OF reborrow_access [OF assms(1)] assms(2)] reborrow_other [OF assms(2)] by blast

end
