(* ===== verification/Samples.thy ===== *)
theory Samples
  imports Example Engine Stores PresetTool EventRing Saving Serving McpPool McpTools Inventory Probe Access
begin

text \<open>
  A second set of inputs for the witnesses: a session with one compaction entry and the text
  environment that reads it back, and a registry with two tools, one of each scheduling mode.
\<close>

section \<open>A session\<close>

definition meta_S :: session_meta where
  "meta_S = \<lparr>sm_id = ''s'', sm_version = 1, sm_parent_session = None, sm_created_at = ''t''\<rparr>"

definition entry_S :: session_entry where
  "entry_S = CompactionEntry ''e'' None ''t'' ''sum'' ''k'' None"

text \<open>The header is written as \<open>h\<close> and every entry as \<open>ee\<close>, which reads as \<open>entry_S\<close>; no other
  text is JSON.\<close>

definition texts0 :: store_env where
  "texts0 = \<lparr>
    se_host = host0\<lparr>h_json_parse := (\<lambda>s.
      if s = ''h'' then Some (meta_to_json meta_S)
      else if s = ''ee'' then Some (entry_to_json host0 entry_S) else None)\<rparr>,
    se_meta_text = (\<lambda>m. Inr ''h''), se_entry_text = (\<lambda>e. Inr ''ee''), se_text_error = (\<lambda>t s. ''bad'')\<rparr>"

lemma texts0_utf8: "is_utf8 ''h''" "is_utf8 ''e''" "is_utf8 ''ee''" "is_utf8 ''eee''"
  by code_simp+

lemma texts0_sel [simp]:
  "se_meta_text texts0 m = Inr ''h''" "se_entry_text texts0 e = Inr ''ee''"
  "se_text_error texts0 ty s = ''bad''"
  by (simp_all add: texts0_def)

lemma entry_S_host: "entry_to_json H entry_S = entry_to_json host0 entry_S"
  by (simp add: entry_S_def)

lemma texts0_meta: "meta_writable texts0 meta_S"
  by (simp add: meta_writable_def texts0_def one_line_def texts0_utf8)

lemma texts0_entry: "entry_writable texts0 entry_S"
  unfolding entry_writable_def entry_S_host [of "se_host texts0"]
  by (simp add: entry_S_def texts0_def one_line_def texts0_utf8)

lemma texts0_parse:
  "parse_meta texts0 ''h'' = Inr meta_S" "parse_entry texts0 ''ee'' = Inr entry_S"
proof -
  show "parse_meta texts0 ''h'' = Inr meta_S" by (simp add: parse_meta_def texts0_def)
  have "entry_from_json (se_host texts0) (entry_to_json (se_host texts0) entry_S) = Some (flat_entry entry_S)"
    by (rule entry_round_trip) (simp add: entry_S_def)
  then have "entry_from_json (se_host texts0) (entry_to_json host0 entry_S) = Some entry_S"
    unfolding entry_S_host [of "se_host texts0"] by (simp add: entry_S_def)
  then show "parse_entry texts0 ''ee'' = Inr entry_S"
    unfolding parse_entry_def by (simp add: texts0_def)
qed

lemma texts0_bad: "parse_entry texts0 ''eee'' = Inl ''bad''"
  by (simp add: parse_entry_def texts0_def)

text \<open>A directory with the session's header and one entry.\<close>

definition disk_S :: disk where
  "disk_S = \<lparr>dk_dir = True, dk_files = [(''s.jsonl'', as_file [''h'', ''ee''])]\<rparr>"

definition empty_disk :: disk where
  "empty_disk = \<lparr>dk_dir = False, dk_files = []\<rparr>"

lemma empty_disk_ok: "disk_good texts0 empty_disk" "disk_log texts0 empty_disk = (\<lambda>i. None)"
  by (simp_all add: disk_good_def disk_log_def empty_disk_def)

lemma disk_S_file: "file_lines texts0 (as_file [''h'', ''ee'']) ''h'' [''ee'']"
  by (simp add: file_lines_def one_line_def texts0_utf8 texts0_parse)

lemma disk_S_ok: "disk_good texts0 disk_S" "disk_log texts0 disk_S ''s'' = Some [entry_S]"
proof -
  show "disk_good texts0 disk_S"
    using disk_S_file by (auto simp: disk_good_def disk_S_def session_path_def split: if_splits)
  have "file_entries texts0 (as_file [''h'', ''ee'']) = [entry_S]"
    using file_lines_str_lines [OF disk_S_file] by (simp add: file_entries_def texts0_parse)
  then show "disk_log texts0 disk_S ''s'' = Some [entry_S]"
    by (simp add: disk_log_def disk_S_def session_path_def)
qed

text \<open>An append that stops after one byte.\<close>

definition torn_io :: io where
  "torn_io = \<lparr>io_fault = (\<lambda>c. if c = WriteAll then Some ''full'' else None), io_written = 1\<rparr>"

lemma torn_io_write: "torn_write torn_io 1"
  by (simp add: torn_write_def torn_io_def)

section \<open>A tool\<close>

text \<open>The tool \<open>add\<close> returns its arguments; every schema accepts everything.\<close>

definition env0 :: tool_env where
  "env0 = \<lparr>tv_host = host0, tv_compiles = (\<lambda>s. True), tv_valid = (\<lambda>s v. True), tv_errors = (\<lambda>s v. []),
    tv_regex = (\<lambda>ps. Inr (\<lambda>s. True))\<rparr>"

definition tools0 :: "unit tools" where
  "tools0 h = \<lparr>tl_info = tool_info_new ''add'' ''adds two numbers'' None, tl_call = (\<lambda>ctx v st. (st, Inr v))\<rparr>"

definition state0 :: "unit tool_state" where
  "state0 = \<lparr>ts_registry = [(''add'', tool_entry_new tools0 ''h'')], ts_world = demo\<rparr>"

definition call_A :: tool_call where
  "call_A = \<lparr>tc_function = \<lparr>fn_name = ''add'', fn_parameters = JObject [], fn_id = Some ''1'', fn_parse_error = None\<rparr>\<rparr>"

definition broken :: "tool_call \<Rightarrow> tool_call" where
  "broken c = \<lparr>tc_function = (tc_function c)\<lparr>fn_parse_error := Some ''eof''\<rparr>\<rparr>"

definition message_A :: message where
  "message_A = (assistant_message ''x'')\<lparr>msg_id := Some ''m1'', msg_tool_calls := Some [call_A]\<rparr>"

text \<open>An agent whose configuration is empty, so that every setting has its default.\<close>

definition agent_C :: "unit agent" where
  "agent_C = (agent_D ''a'' Start)\<lparr>a_spec := (spec_D ''a'')\<lparr>s_configs := Some []\<rparr>\<rparr>"

lemma tools0_mode: "ti_mode (tl_info (tools0 h)) = Sequential"
  by (simp add: tools0_def tool_info_new_def)

lemma agent_C_configs: "agent_configs_of agent_C = Inr []"
  by (simp add: agent_C_def agent_configs_of_def)

lemma ctx0_key: "ctx_key ctx0 = Inr (usize_to_string 7)"
  by (simp add: ctx_key_def ctx0_def map_frame_indices_def)

lemma message_A_sel [simp]:
  "msg_streaming message_A = False" "msg_tool_calls message_A = Some [call_A]"
  "msg_id message_A = Some ''m1''" "msg_role message_A = ''assistant''"
  "fn_id (tc_function call_A) = Some ''1''"
  by (simp_all add: message_A_def call_A_def assistant_message_def new_message_def)

lemma message_A_reason: "msg_stop_reason message_A = None"
  by (simp add: message_A_def assistant_message_def new_message_def)

lemma allowed_A: "allowed_calls env0 (configs_get_string_or_default [] ''tools'') st cs = Inr cs"
  by (simp add: allowed_calls_def configs_get_string_or_default_def)

lemma run_A:
  obtains m st where "call_tools env0 tools0 ctx0 [call_A] 1 [Complete 0] state0 = Some ([], [m], st)"
proof -
  obtain st m where x: "execute_tool_call env0 tools0 ctx0 call_A state0 = (st, m)" by fastforce
  have "call_tools env0 tools0 ctx0 [call_A] 1 (replicate (length [call_A]) (Complete 0)) state0 = Some ([], [m], st)"
    by (subst call_tools_sequential) (simp_all add: tools0_mode ctx0_def x [unfolded ctx0_def])
  then show thesis using that by simp
qed

lemma process_A:
  obtains s st r where
    "call_message_process env0 tools0 agent_C ctx0 (Message message_A) [Complete 0] tracked_new state0 = Some (s, st, r)"
proof -
  obtain m st where r: "call_tools env0 tools0 ctx0 [call_A] 8 [Complete 0] state0 = Some ([], [m], st)"
  proof -
    obtain st m where x: "execute_tool_call env0 tools0 ctx0 call_A state0 = (st, m)" by fastforce
    have "call_tools env0 tools0 ctx0 [call_A] 8 (replicate (length [call_A]) (Complete 0)) state0 = Some ([], [m], st)"
      by (subst call_tools_sequential) (simp_all add: tools0_mode ctx0_def x [unfolded ctx0_def])
    then show thesis using that by simp
  qed
  have c: "concurrency_of [] = 8"
    by (simp add: concurrency_of_def configs_get_integer_or_def configs_get_integer_def DEFAULT_MAX_CONCURRENCY_def)
  have n: "new_calls k tracked_new [call_A] = [call_A]" for k
    by (simp add: new_calls_def is_executed_def tracked_new_def)
  obtain t x where o: "output_all agent_C ctx0 ''message'' [Message m] st = (t, x)" by fastforce
  show thesis
    by (rule that [of _ t x]) (simp add: call_message_process_def agent_C_configs ctx0_key allowed_A n run_message_calls_def
        c r o message_A_reason Let_def del: output_all.simps)
qed

lemma flows_few: "card (flows ds) \<le> length ds"
proof -
  have "flows ds \<subseteq> (\<lambda>(ctx, v). projr (ctx_key ctx)) ` set ds"
    by (force simp: flows_def image_iff)
  then have "card (flows ds) \<le> card ((\<lambda>(ctx, v). projr (ctx_key ctx)) ` set ds)"
    by (intro card_mono) simp_all
  also have "\<dots> \<le> length ds" by (meson card_image_le card_length finite_set le_trans)
  finally show ?thesis .
qed

text \<open>A workflow tool without pending calls.\<close>

definition pending_none :: preset_tool_agent where
  "pending_none = \<lparr>pt_name = ''flow'', pt_description = [], pt_parameters = None, pt_pending = [], pt_oneshots = []\<rparr>"

lemma pending_none_ok: "pending_ok pending_none"
  by (simp add: pending_ok_def pending_none_def)

definition wired :: "unit world" where
  "wired = demo\<lparr>w_tx := Some 0, w_main_chans := [chan_new]\<rparr>"

lemma start_A:
  obtains p w r where "start_tool_call agent_C ctx0 Unit pending_none wired = (p, w, Inr r)"
proof -
  obtain p n where p: "add_pending (ctx_id ctx0) pending_none = (p, n)" by fastforce
  obtain w where w: "agent_try_output agent_C ctx0 ''tool_in'' Unit wired = (w, Inr ())"
    by (auto simp: agent_try_output_def try_send_agent_out_def wired_def chan_try_send_def chan_new_def MAIN_LIMIT_def)
  show thesis by (rule that [of p w n]) (simp add: start_tool_call_def p w)
qed

section \<open>A saved preset\<close>

text \<open>The preset of \<open>demo\<close> with a configured agent, and the files: the document of its
  specification is written as \<open>p\<close>, which reads back.\<close>

definition saved :: "unit world" where
  "saved = demo\<lparr>w_objs := [(agent_D ''a'' Init)\<lparr>a_spec := (spec_D ''a'')\<lparr>s_configs := Some [(''n'', Integer 5)]\<rparr>\<rparr>,
    agent_D ''b'' Start]\<rparr>"

definition preset_S :: preset_spec where
  "preset_S = (pr_spec preset_P)\<lparr>p_agents := [(spec_D ''a'')\<lparr>s_configs := Some [(''n'', Integer 5)]\<rparr>, spec_D ''b'']\<rparr>"

definition files0 :: file_env where
  "files0 = \<lparr>fe_host = host0, fe_pretty = (\<lambda>j. Inr ''p''),
    fe_parse = (\<lambda>s. if s = ''p'' then Some (preset_spec_to_doc host0 preset_S) else None),
    fe_parse_error = (\<lambda>s. ''bad''), fe_fault = (\<lambda>c. None), fe_written = 0, fe_not_found = ''none''\<rparr>"

lemma saved_spec: "get_preset_spec ''p'' saved = Some preset_S"
  by (simp add: saved_def preset_S_def get_preset_spec_def get_preset_def get_agent_spec_def map_filter_simps
      demo_defs spec_of_def)

lemma preset_S_ok: "preset_ok (fe_host files0) preset_S"
  by (simp add: preset_ok_def preset_S_def demo_defs spec_ok_def extensions_ok_def value_ok_def files0_def)

lemma files0_ok: "text_ok files0 path preset_S"
  by (simp add: text_ok_def files0_def)

section \<open>A server\<close>

definition def_G :: agent_definition where
  "def_G = def_D\<lparr>d_global_configs := Some [(''token'', config_spec_new (String []) ''string'')]\<rparr>"

definition secret_world :: "unit world" where
  "secret_world = demo\<lparr>w_defs := [(''D'', def_G)]\<rparr>"

definition server_S :: "unit world \<Rightarrow> unit server" where
  "server_S w = \<lparr>sv_world = w, sv_files = [(''other'', ''o'')], sv_ring = ring_new\<rparr>"

definition served :: server_env where
  "served = \<lparr>sv_io = files0, sv_dir = Some ''d''\<rparr>"

definition add_D :: "(string \<times> json) list \<Rightarrow> add_agent_params" where
  "add_D c = \<lparr>ap_preset = ''p'', ap_def = ''D'', ap_configs = Some c, ap_x = None, ap_y = None,
    ap_width = None, ap_height = None\<rparr>"

lemma saved_names: "valid_names saved"
proof -
  have "names_view saved = names_view demo" by (simp add: saved_def names_view_def)
  then have "names_ok saved" by (rule names_ok_view [OF _ demo_names])
  moreover have "valid_name ''main''" by code_simp
  ultimately show ?thesis by (simp add: valid_names_def saved_def)
qed

lemma save_new: "\<exists>fs w m. tool_save_preset served ''p'' (Some ''new'') [] saved = (fs, w, OkText m)"
proof -
  have v: "valid_name ''new''" by code_simp
  have n: "get_preset_info ''p'' saved = Some \<lparr>pi_id = ''p'', pi_name = Some ''main'', pi_running = True\<rparr>"
    by (simp add: get_preset_info_def info_of_def get_preset_def saved_def)
  obtain w where r: "rename_preset ORIGIN ''p'' ''new'' saved = (w, Inr ())"
    by (simp add: rename_preset_def rename_reserve_def rename_recheck_def get_preset_def saved_def)
  have "get_preset_spec ''p'' w = Some preset_S" using rename_spec [OF r] saved_spec by simp
  then show ?thesis
    by (simp add: tool_save_preset_def served_def n v r Let_def create_dir_all_def files0_def save_preset_def
        preset_spec_to_text_def write_text_def split: sum.split)
qed

text \<open>A parked key is refused whatever the new agent looks like.\<close>

lemma add_parked: "\<exists>w e. tool_add_agent host0 impls0 (add_D [(''_x'', JNull)]) demo = (w, ErrText e)"
proof -
  obtain s0 n where s0: "to_spec 1 def_D = (s0, n)" "s_configs s0 = Some [(''n'', Integer 1), (''s'', String ''x'')]"
    by (simp add: to_spec_def new_id_def def_D_def definition_new_def default_configs_def configs_from_iter_def
        configs_set_def im_insert_def config_spec_new_def configs_new_def)
  obtain w1 x where a: "add_agent impls0 ORIGIN ''p'' (place_layout (layout_of (add_D [(''_x'', JNull)]))
      (s0\<lparr>s_configs := Some [(''n'', Integer 1), (''s'', String ''x'')]\<rparr>)) (demo\<lparr>w_ids := n\<rparr>) = (w1, x)" by fastforce
  have v: "\<exists>e. validate_config_keys def_D live [''_x''] = Inl e" for live
    using validate_iff [of def_D live "[''_x'']"] unit_result by (force simp: settable_def)
  have u: "\<exists>w e'. undo_added_agent I p i e w1 = (w, ErrText e')" for I :: "unit impls" and p i e
    by (cases "remove_agent I ORIGIN p i w1"; cases "snd (remove_agent I ORIGIN p i w1)")
      (simp_all add: undo_added_agent_def)
  have "\<exists>w e. apply_deferred host0 impls0 def_D ''p'' i [(''_x'', Unit)] w1 = (w, ErrText e)" for i
  proof (cases "get_agent_spec i w1")
    case None
    then show ?thesis using u by (simp add: apply_deferred_def)
  next
    case (Some s)
    obtain e where "validate_config_keys def_D (Some s) [''_x''] = Inl e" using v by blast
    then show ?thesis using u Some by (simp add: apply_deferred_def)
  qed
  moreover have "reject_global_config_keys def_D [''_x''] = Inr ()"
    by (simp add: is_global_key_def def_D_def definition_new_def)
  moreover have "json_to_agent_value host0 ''_x'' JNull = Inr Unit"
    by (simp add: json_to_agent_value_def deserialize_value_def)
  moreover have "ap_preset (add_D c) = ''p''" "ap_def (add_D c) = ''D''" "ap_configs (add_D c) = Some c" for c
    by (simp_all add: add_D_def)
  ultimately show ?thesis using s0 a
    by (cases x) (simp_all add: tool_add_agent_def configs_contains_key_def)
qed


section \<open>Tool servers\<close>

definition result_R :: call_tool_result where
  "result_R = \<lparr>cr_content = [RawText ''ok''], cr_is_error = None\<rparr>"

text \<open>Two calls share a connection; the first fails and gets a new one, the second still runs on the
  old one, which is cancelled when it has ended.\<close>

definition mcp_demo :: "mcp_event list" where
  "mcp_demo = [NewCall ''s'' ''t'' True, NewCall ''s'' ''u'' True, Acquire 0 Started, Acquire 1 Started,
    Begin 0, Answer 0 (Inl ''x''), Report 0, Begin 1, Acquire 0 Started, Answer 1 (Inr result_R),
    Begin 0, Answer 0 (Inr result_R), CancelTask 0]"

definition mcp_demo_state :: mcp_state where
  "mcp_demo_state =
    \<lparr>ms_pool = \<lparr>mc_pool = [(''s'', 1)],
       mc_conns = [\<lparr>cn_service = None, cn_busy = False, cn_dead = True\<rparr>, \<lparr>cn_service = Some 1, cn_busy = False, cn_dead = False\<rparr>],
       mc_started = [''s'', ''s''], mc_cancelling = [], mc_shutdown = [], mc_cancelled = [0]\<rparr>,
     ms_calls =
       [\<lparr>ml_server = ''s'', ml_name = ''t'', ml_retries = True, ml_phase = Ended (Inr result_R), ml_sent = [0, 1], ml_failed = [0]\<rparr>,
        \<lparr>ml_server = ''s'', ml_name = ''u'', ml_retries = True, ml_phase = Ended (Inr result_R), ml_sent = [0], ml_failed = []\<rparr>]\<rparr>"

lemma mcp_demo_run: "pool_run mcp_demo mcp_start = Some mcp_demo_state"
  by code_simp

definition mcp_next :: "mcp_event list" where
  "mcp_next = [NewCall ''s'' ''v'' True, Acquire 2 (SpawnFailed ''no''), Begin 2, Answer 2 (Inr result_R)]"

lemma mcp_next_run:
  "pool_run mcp_next mcp_demo_state = Some (mcp_demo_state\<lparr>ms_calls := ms_calls mcp_demo_state @
    [\<lparr>ml_server = ''s'', ml_name = ''v'', ml_retries = True, ml_phase = Ended (Inr result_R), ml_sent = [1], ml_failed = []\<rparr>]\<rparr>)"
  by code_simp

definition tool_T :: mcp_tool where
  "tool_T = \<lparr>mt_name = ''find'', mt_description = None, mt_schema = JObject []\<rparr>"

definition servers_A :: answers where
  "servers_A server c = (if server = ''s'' then (Started, Inr [tool_T]) else (SpawnFailed ''no'', Inr []))"

definition server_doc :: json where
  "server_doc = JObject [(''command'', JString ''npx''), (''args'', JArray [])]"

definition servers_doc :: json where
  "servers_doc = JObject [(''mcpServers'', JObject [(''s'', server_doc), (''other'', server_doc)])]"

definition files_M :: file_env where
  "files_M = files0\<lparr>fe_parse := (\<lambda>s. Some servers_doc)\<rparr>"

lemma servers_read:
  "read_mcp_config files_M ''mcp.json'' [(''mcp.json'', ''c'')] =
    Inr [(''s'', \<lparr>mc_command = ''npx'', mc_args = [], mc_env = None\<rparr>), (''other'', \<lparr>mc_command = ''npx'', mc_args = [], mc_env = None\<rparr>)]"
  by code_simp

lemma servers_registered:
  "\<exists>p st e. register_tools_from_mcp_json files_M servers_A ''mcp.json'' [(''mcp.json'', ''c'')] pool_new state0 = (p, st, Inl e) \<and>
    get_tool ''s::find'' st = Some ''s::find''"
  by (simp add: register_tools_from_mcp_json_def servers_read register_tools_from_server_def get_or_create_def pool_new_def
      servers_A_def start_service_def register_listed_def register_mcp_tool_def tool_T_def mcp_tool_name_def get_tool_def map_ok_def)

section \<open>An attribute\<close>

text \<open>The example of the documentation of the macro, and the values of its expressions.\<close>

definition add_int_args :: "meta list" where
  "add_int_args = [MNameValue [''title''] (StrLit ''Add Integer''), MNameValue [''category''] (StrLit ''Math/Arithmetic''),
    MNameValue [''description''] (StrLit ''Adds a constant to the input value''),
    MNameValue [''inputs''] (ArrayExpr [Code ''PORT_INPUT'']), MNameValue [''outputs''] (ArrayExpr [Code ''PORT_OUTPUT'']),
    MList [''integer_config''] (Inr [MNameValue [''name''] (StrLit ''n''), MNameValue [''default''] (Code ''1''),
      MNameValue [''title''] (StrLit ''Add Value'')]) (Inl ''not expressions'')]"

definition add_int_item :: item_struct where
  "add_int_item = \<lparr>it_ident = ''AddIntAgent'',
    it_fields = [\<lparr>sf_name = Some ''data'', sf_type = Some [''AgentData'']\<rparr>, \<lparr>sf_name = Some ''n'', sf_type = Some [''i64'']\<rparr>],
    it_attrs = []\<rparr>"

definition rust_V :: rust_env where
  "rust_V = \<lparr>re_str = (\<lambda>e. case e of StrLit s \<Rightarrow> Some s
      | Code c \<Rightarrow> if c = ''PORT_INPUT'' then Some ''input'' else if c = ''PORT_OUTPUT'' then Some ''output'' else None
      | _ \<Rightarrow> None),
    re_bool = (\<lambda>e. if e = FALSE_CODE then Some False else None),
    re_i64 = (\<lambda>e. if e = INT_CODE then Some 0 else if e = Code ''1'' then Some 1 else None),
    re_f64 = (\<lambda>e. if e = NUMBER_CODE then Some f_zero else None),
    re_value = (\<lambda>e. if e = ARRAY_CODE then Some (Array []) else if e = OBJECT_CODE then Some (Object []) else None),
    re_json = (\<lambda>e. None), re_module = ''agents::math''\<rparr>"

lemma rust_V_ok: "rust_ok rust_V"
  by (simp add: rust_ok_def rust_V_def ARRAY_CODE_def OBJECT_CODE_def)

definition add_int_expansion :: expansion where
  "add_int_expansion = \<lparr>ex_kind = StrLit ''Agent'', ex_name = ModuleName ''AddIntAgent'', ex_boxed = ''AddIntAgent'',
    ex_calls = [Call ''title'' [StrLit ''Add Integer''], Call ''description'' [StrLit ''Adds a constant to the input value''],
      Call ''category'' [StrLit ''Math/Arithmetic''], CallVec ''inputs'' [Code ''PORT_INPUT''],
      CallVec ''outputs'' [Code ''PORT_OUTPUT''],
      CallWith ''integer_config_with'' [StrLit ''n'', Code ''1''] [EntryTitle (StrLit ''Add Value'')]]\<rparr>"

lemma add_int_expands: "expand_modular_agent add_int_args add_int_item = Inr add_int_expansion"
  by code_simp

lemma add_int_typed: "list_all (arg_typed rust_V) add_int_args"
  by code_simp

lemma add_int_literal: "list_all literal_names add_int_args"
  by code_simp

lemma add_int_configs:
  "d_configs (declared_definition rust_V add_int_args add_int_item) =
    Some [(''n'', (config_spec_new (Integer 1) ''integer'')\<lparr>cs_title := Some ''Add Value''\<rparr>)]"
  by code_simp

lemma add_int_builds: "generated_definition rust_V add_int_expansion = Some (declared_definition rust_V add_int_args add_int_item)"
  using typed_builds [OF rust_V_ok add_int_expands add_int_typed] built_declared [OF rust_V_ok add_int_expands] by fastforce

definition add_int_definition :: agent_definition where
  "add_int_definition = declared_definition rust_V add_int_args add_int_item"

definition add_int_world :: "unit world" where
  "add_int_world = register_inventory_agents [def_D, add_int_definition] world_new"

lemma add_int_fresh:
  "d_name add_int_definition = ''agents::math::AddIntAgent'' \<and> d_name def_D \<noteq> d_name add_int_definition \<and>
    map_option default_configs (config_entries (List.map_filter (declared rust_V ''_config'') add_int_args)) = Some [(''n'', Integer 1)]"
  by code_simp

section \<open>A subscription\<close>

definition tokio_recv :: receiver where
  "tokio_recv es p =
    (if length es \<le> p then None
     else if length es \<le> p + EVENT_CHANNEL_CAPACITY then Some (Event (es ! p), Suc p)
     else Some (Lagged (word_of_nat (length es - EVENT_CHANNEL_CAPACITY - p)), length es - EVENT_CHANNEL_CAPACITY))"

lemma tokio_recv_ok: "broadcast_ok EVENT_CHANNEL_CAPACITY tokio_recv"
  by (simp add: broadcast_ok_def tokio_recv_def)

definition sub_demo_steps :: "sub_event list" where
  "sub_demo_steps = [Emit None (ExternalOutput ''x'' (Integer 1)), Turn, Emit (Some ''mcp'') (AgentSpecUpdated ''a''),
    Emit None (ExternalOutput ''y'' (Integer 2)), Take, Turn, Turn, Turn]"

definition sub_demo :: "(unit, unit, out_value) sub_run" where
  "sub_demo = sub_steps tokio_recv output_of sub_demo_steps (sub_begin () world_new)"

lemma sub_demo_facts:
  "su_alive (sr_sub sub_demo) \<and> sr_taken sub_demo @ su_queue (sr_sub sub_demo) = [(''x'', Integer 1), (''y'', Integer 2)]"
  by code_simp

definition idle_world :: "unit world" where
  "idle_world = world_new"

definition probe_P :: "probe_event list agent" where
  "probe_P = agent_data_new PROBE (User []) ''p'' (spec_D ''p'')"

end
