(* ===== verification/Spec2Isabelle.thy ===== *)
theory Spec2Isabelle
  imports Samples
begin

text \<open>
  A model of modular-agent-core, the engine that runs graphs of agents, and its correctness.

  The program. A \<open>ModularAgent\<close> (modular_agent.rs) holds agents and presets. An agent is created
  from a definition (definition.rs) and a specification (spec.rs), belongs to a preset
  (preset.rs), and, while it runs, has a loop that takes messages from its channel. An agent's
  output goes to the main channel; the router (message.rs) delivers it along the connections to
  the channels of the target agents. Four built-in agents (external_agent.rs) connect the graph to
  named channels, five more (tool.rs) let a language model list and call tools. Values
  (value.rs), messages (llm.rs) and contexts (context.rs) travel along the connections; a
  conversation can be kept in a session log (session.rs). A server (mcp_server.rs) edits and runs
  graphs for an external client.

  The theories, in the order of their imports, and what they model under
  src/modular-agent-core/src:

  \<^item> Prelude, Containers, Decimal, Errors, Floats, Text: machine integers as words, results as sums
    with \<open>Inl\<close> the error, Rust's maps as association lists with the operations the code calls,
    decimal texts, the error enum (error.rs), IEEE 754 binary64 as far as the code uses it, lines
    and UTF-8. Strings are lists of bytes.
  \<^item> Json, Value, Message, Coercion, Llm: JSON values and the parts of serde the code relies on,
    \<open>AgentValue\<close> with its readers, equality and two serializations, \<open>Message\<close> with its hand-written
    serialization, the conversions, the token estimates and streaming events. The picture crate panics
    on some texts: reading a message is \<open>None\<close> there.
  \<^item> Config, Spec, Definition, Context: configurations, specifications and their patching,
    definitions with \<open>to_spec\<close> and \<open>reconcile_spec\<close>, contexts with variables, frames and map frames.
  \<^item> Tokens, World, Lifecycle, Connections, Presets, Routing: the tree of cancellation tokens; the
    state of the orchestrator as the record \<open>world\<close> (its tables, the objects behind the handles,
    channels, loops, events); starting, stopping and stepping agents; the connection table; presets,
    batches and names; the delivery of outputs. What an agent implementation does is the table
    \<open>impls\<close>, an argument; its interface is the locale \<open>agent_contract\<close>, which the built-in agents
    satisfy (interpretation \<open>builtins\<close>).
  \<^item> External, Registration: the four channel agents, and the invariant of their registrations over
    every order of the calls that start, stop and change an agent and the turns that run its start.
  \<^item> Delivery, Stopping, Batch, Names, Interleaving: the lemmas behind the properties of routing,
    tokens, transactions and the name index, the last one under interleaved sections.
  \<^item> Engine: anything that can happen in the engine as one step relation (\<open>engine\<close>), and what every run
    of it does to loops, tokens and generations (\<open>evolves\<close>). The locale \<open>engine_contract\<close> extends
    \<open>agent_contract\<close>; the built-in agents satisfy it (interpretation \<open>engines\<close>).
  \<^item> Session, Stores: the session log, its two stores over an explicit directory with failing file
    operations, the contract of a store as the locale \<open>session_contract\<close> with the interpretations
    \<open>mem\<close> and \<open>jsonl\<close>, crashes in the middle of an append.
  \<^item> Tool, CallTools, ToolAgents, PresetTool: the tool registry, argument repair and one call; the
    scheduler of a batch of calls; the tool agents with their bounded maps; workflows as tools.
  \<^item> Saving, EventRing: the text of a specification and preset files; the bearer check and the ring of
    captured events of the server (mcp_server.rs) with a reader that polls it.
  \<^item> Server, Serving: the tools of the server as one function \<open>serve\<close> from requests to replies, and
    the lemmas on what a client can change and which files it can reach.
  \<^item> McpClient, McpPool, McpTools: the client of tool servers (mcp.rs). Calls, background cancellations
    and shutdowns are events of one state (\<open>pool_step\<close>) and may interleave in any order; McpPool has
    the invariant of all runs; McpTools reads the file of servers and registers their tools.
  \<^item> Macro, Generated: the attribute of modular-agent-macros/src/lib.rs, from its parsed arguments to the
    builder calls it generates, what those calls build (\<open>generated_definition\<close>), and the definition
    the arguments declare (\<open>declared_definition\<close>) with the lemmas that the two are one.
  \<^item> Inventory, Subscriptions, Probe, Access: registration of definitions (registry.rs), start, end and queries
    of a \<open>ModularAgent\<close>; the observers of its events with the task that filters them; the probe agent
    and the expectations of test_utils.rs; the rest of value.rs, its conversions and mutable access,
    whose contract is the locale \<open>mut_access\<close>.
  \<^item> Example, Samples: the concrete inputs of the witnesses.

  State and concurrency. An operation takes the state and returns the new one. Code under one lock
  is one step; where an operation releases a lock in between, its sections are separate steps and
  the properties quantify over their interleavings (\<open>race\<close>), and awaiting code takes the list of
  what happens while it waits (\<open>tool_event\<close>). The main channel and agent channels are queues with
  their capacities. Ids, times and other fresh data are arguments or counters.

  Code outside the repository is a parameter: the picture crate, the text of floats and of JSON, the
  JSON schema validator, regular expressions (records \<open>host\<close>, \<open>tool_env\<close>, \<open>store_env\<close>), the broadcast
  channel (\<open>receiver\<close>), the values of the expressions of an attribute (\<open>rust_env\<close>); what a theorem needs of it is a hypothesis, and its witness instantiates it.

  Bounds. Recursion is structural or has a measure; no fuel is used. \<open>call_tools\<close> returns \<open>None\<close> when
  its events end before it does; \<open>call_tools_can_finish\<close> shows that it is never stuck. Counters and
  sizes are words of the width of the code and wrap as it does; \<open>stopped_preset_idle\<close> holds until the
  64-bit counter of the starts has gone round.

  The properties, by part: the name index (C1, C2), routing (C3, C4), graph editing (C5 to C8),
  life cycle and tokens (C9 to C11), channel agents (C12), definitions (C13, C14), values and
  messages (C15 to C17), sessions (C18 to C21), tools (C22 to C27), the polling of captured errors
  (C28), the server (C29 to C32), the client of tool servers (C33 to C36), the attribute and its
  agents (C37, C38), observers (C39, C40).
  Further theorems on identifiers, patches, contexts, tokens, values, token estimates, preset
  files, tool servers, probes and the bearer check carry no number.

  Not modelled: the parsing of tokens and the fixed parts of the generated code, link-time registration, the
  transport of the server and of its client and the processes they start, logging.
\<close>
section \<open>Presets and their names\<close>

text \<open>C1. The name index is right after any sequence of calls of the preset API (adding,
  renaming, removing, starting, stopping and updating presets, registering definitions of agents,
  adding and removing agents and connections, one by one or in a batch), failed calls included: a name leads to an id exactly
  when the listed preset of that id has that name.\<close>

theorem preset_names_correct:
  assumes "agent_contract I" and "(preset_call I)\<^sup>*\<^sup>* world_new w"
  shows "find_preset_id_by_name n w = Some i \<longleftrightarrow>
    (\<exists>h. get_preset i w = Some h \<and> pr_name (w_preset_objs w ! h) = Some n)"
  by (rule names_ok_lookup, rule agent_contract.calls_names_ok [OF assms], rule names_ok_new)

lemma usize_1: "usize_to_string 1 = ''1''"
  by code_simp

lemma new_preset_demo:
  "find_preset_id_by_name ''x'' (fst (new_preset_with_name impls0 None ''x'' (world_new :: unit world))) = Some ''1''"
  by (simp add: new_preset_with_name_def add_preset_raw_def preset_new_def update_ids_def new_id_def
      preset_spec_default_def usize_1 im_insert_def reserve_name_def Let_def world_new_def
      notify_def find_preset_id_by_name_def)

theorem preset_names_correct_witness:
  "\<exists>h. get_preset ''1'' (fst (new_preset_with_name impls0 None ''x'' world_new)) = Some h \<and>
    pr_name (w_preset_objs (fst (new_preset_with_name impls0 None ''x'' (world_new :: unit world))) ! h) = Some ''x''"
  by (rule preset_names_correct [OF contract0, THEN iffD1, OF _ new_preset_demo],
      unfold new_preset_with_name_def, rule r_into_rtranclp, rule call_add_preset)

text \<open>C2. Whatever the interleaving of additions, renamings and removals of presets, section by
  section: once no operation is under way, every name in the index leads to a listed preset. A
  renaming that lost the race against a removal has taken its name back.\<close>

theorem names_survive_races:
  assumes "agent_contract I" and "names_ok w" and "(race I)\<^sup>*\<^sup>* (race_start w) s"
    and "rs_renames s = []" and "rs_removes s = []" and "rs_adds s = []"
    and "find_preset_id_by_name n (rs_world s) = Some i"
  shows "get_preset i (rs_world s) \<noteq> None"
  by (rule race_inv_quiet [OF agent_contract.race_inv_reachable [OF assms(1,3) race_inv_start [OF assms(2)]]
        assms(4-7)])

lemma race_rename_demo: "(race impls0)\<^sup>*\<^sup>* (race_start demo) (race_start
    (rename_commit None 0 ''p'' ''new'' (demo\<lparr>w_preset_names := [(''new'', ''p'')]\<rparr>)))"
proof -
  let ?w = "demo\<lparr>w_preset_names := [(''new'', ''p'')]\<rparr>"
  let ?s = "race_start demo"
  have r: "rename_reserve ''p'' ''new'' demo = (?w, Inr ())"
    by (simp add: rename_reserve_def im_retain_def im_insert_def)
  have 1: "race impls0 ?s (?s\<lparr>rs_renames := [(''p'', ''new'', Looked 0)]\<rparr>)"
    using rename_begin [of "''p''" ?s 0 impls0 "''new''"] by (simp add: race_start_def get_preset_def)
  have 2: "race impls0 (?s\<lparr>rs_renames := [(''p'', ''new'', Looked 0)]\<rparr>)
      (?s\<lparr>rs_world := ?w, rs_renames := [(''p'', ''new'', Reserved 0)]\<rparr>)"
    using rename_reserved [of 0 "?s\<lparr>rs_renames := [(''p'', ''new'', Looked 0)]\<rparr>" "''p''" "''new''" 0 ?w impls0] r
    by (simp add: race_start_def upd_def)
  have 3: "race impls0 (?s\<lparr>rs_world := ?w, rs_renames := [(''p'', ''new'', Reserved 0)]\<rparr>)
      (?s\<lparr>rs_world := ?w, rs_renames := [(''p'', ''new'', Alive 0)]\<rparr>)"
    using rename_alive [of 0 "?s\<lparr>rs_world := ?w, rs_renames := [(''p'', ''new'', Reserved 0)]\<rparr>" "''p''" "''new''" 0 impls0]
    by (simp add: upd_def)
  have 4: "race impls0 (?s\<lparr>rs_world := ?w, rs_renames := [(''p'', ''new'', Alive 0)]\<rparr>)
      (race_start (rename_commit None 0 ''p'' ''new'' ?w))"
    using rename_done [of 0 "?s\<lparr>rs_world := ?w, rs_renames := [(''p'', ''new'', Alive 0)]\<rparr>" "''p''" "''new''" 0 impls0 None]
    by (simp add: upd_def race_start_def)
  show ?thesis using 1 2 3 4 by (meson converse_rtranclp_into_rtranclp rtranclp.rtrancl_refl)
qed

theorem names_survive_races_witness:
  "get_preset ''p'' (rename_commit None 0 ''p'' ''new'' (demo\<lparr>w_preset_names := [(''new'', ''p'')]\<rparr>)) \<noteq> None"
  using names_survive_races [OF contract0 demo_names race_rename_demo, of "''new''" "''p''"]
  by (simp add: race_start_def find_preset_id_by_name_def rename_commit_def notify_def update_preset_obj_def)
section \<open>Routing\<close>



text \<open>C4. A value on a channel becomes the channel's value, goes along every connection of every
  agent that listens to the channel (in the order of registration, whatever the source port),
  and is announced after the deliveries.\<close>

theorem channel_value_routed:
  assumes "txs_ok w" and "queued w (input_routes name w)"
  shows "external_input I org name ctx v w =
    notify org (ExternalOutput name v)
      (after_deliveries org ctx v (input_routes name w)
        (w\<lparr>w_external_values := im_insert name v (w_external_values w)\<rparr>))"
  by (rule external_input_eq [OF assms])

theorem channel_value_routed_witness:
  "w_chans (external_input impls0 None ''ch'' ctx0 Unit demo) = [\<lparr>ch_queue = [Input ctx0 ''in'' Unit], ch_closed = False\<rparr>] \<and>
    w_external_values (external_input impls0 None ''ch'' ctx0 Unit demo) = [(''ch'', Unit)]"
proof -
  have r: "input_routes ''ch'' demo = [(''b'', ''in'')]" by (simp add: input_routes_def node_routes_def)
  have q: "queued demo (input_routes ''ch'' demo)" by (simp add: r queued_def)
  show ?thesis
    unfolding channel_value_routed [OF demo_ok(4) q] r
    by (simp add: notify_def after_deliveries_def inbox_def arrivals_def open_channel_def chan_new_def
        input_message_def strip_prefix_def im_insert_def)
qed

section \<open>The graph\<close>

text \<open>C5. A batch that fails leaves no trace in the graph: the agents, every row of the routing
  table and the specification of the preset are what they were, wherever the failure was. The
  preset's own connections must be routed, and its agents' ids differ from the new ones.\<close>

theorem failed_batch_rolled_back:
  assumes "agent_contract I" and "add_agents_and_connections I org p as cs w = (w', Inl e)"
    and "distinct (keys_of (w_agents w))" and "conns_wf (w_connections w)"
    and "get_preset p w = Some h" and "h < length (w_preset_objs w)"
    and "set (p_connections (spec_of h w)) \<subseteq> edges (w_connections w)"
    and "\<forall>a \<in> set (p_agents (spec_of h w)). \<forall>i < length as. s_id a \<noteq> usize_to_string (w_ids w + word_of_nat i)"
  shows "map_of (w_agents w') = map_of (w_agents w) \<and> map_of (w_connections w') = map_of (w_connections w) \<and>
    spec_of h w' = spec_of h w"
  using agent_contract.batch_failure [OF assms] by blast

lemma failing_batch: "add_agents_and_connections impls0 None ''p'' [] [edge ''a'' ''out'' ''b'' ''in''] demo =
    (demo, Inl ConnectionAlreadyExists)"
  by (simp add: add_agents_and_connections_def update_ids_def renamed_def unwrap_or_def
      add_connection_internal_def conn_add_def rollback_batch_def Let_def)

theorem failed_batch_rolled_back_witness:
  "map_of (w_connections (fst (add_agents_and_connections impls0 None ''p'' [] [edge ''a'' ''out'' ''b'' ''in''] demo))) ''a'' =
    Some [(''b'', ''out'', ''in'')]"
proof -
  have s: "set (p_connections (spec_of 0 demo)) \<subseteq> edges (w_connections demo)"
    by (simp add: spec_of_def edges_def conn_target_def)
  show ?thesis
    using failed_batch_rolled_back [OF contract0 failing_batch demo_ok(5,3,6) _ s] by (simp add: failing_batch)
qed

text \<open>C6. A batch that succeeds installs the renumbered graph: under the ids the caller gets back
  the constructed agents are listed for the preset, no other agent has moved, and the new
  connections are the only new edges. The specification of the preset has them in order.\<close>

theorem batch_installed:
  assumes "agent_contract I" and "add_agents_and_connections I org p as cs w = (w', Inr (built, cs'))"
    and "distinct (keys_of (w_agents w))" and "conns_wf (w_connections w)"
    and "get_preset p w = Some h" and "h < length (w_preset_objs w)"
  shows "(\<exists>as' n. update_ids (w_ids w) as cs = (as', cs', n) \<and> map s_id built = map s_id as' \<and>
      (\<forall>c \<in> set built. \<exists>k. map_of (w_agents w') (s_id c) = Some k \<and> k < length (w_objs w') \<and>
        a_spec (w_objs w' ! k) = c \<and> a_preset_id (w_objs w' ! k) = p)) \<and>
    (\<forall>i. i \<notin> s_id ` set built \<longrightarrow> map_of (w_agents w') i = map_of (w_agents w) i) \<and>
    edges (w_connections w') = edges (w_connections w) \<union> set cs' \<and>
    spec_of h w' = (spec_of h w)\<lparr>p_agents := p_agents (spec_of h w) @ built,
      p_connections := p_connections (spec_of h w) @ cs'\<rparr>"
  using agent_contract.batch_success [OF assms] by (simp add: with_agents_def with_connections_def)

lemma small_batch: "\<exists>w'. add_agents_and_connections impls0 None ''p'' [] [edge ''b'' ''x'' ''a'' ''y''] demo =
    (w', Inr ([], [edge ''b'' ''x'' ''a'' ''y'']))"
  by (simp add: add_agents_and_connections_def update_ids_def renamed_def unwrap_or_def
      add_connection_internal_def conn_add_def Let_def)

theorem batch_installed_witness:
  "edges (w_connections (fst (add_agents_and_connections impls0 None ''p'' [] [edge ''b'' ''x'' ''a'' ''y''] demo))) =
    edges (w_connections demo) \<union> {edge ''b'' ''x'' ''a'' ''y''}"
proof -
  obtain w' where w': "add_agents_and_connections impls0 None ''p'' [] [edge ''b'' ''x'' ''a'' ''y''] demo =
      (w', Inr ([], [edge ''b'' ''x'' ''a'' ''y'']))" using small_batch by blast
  show ?thesis
    using batch_installed [OF contract0 w' demo_ok(5,3,6)] by (simp add: w')
qed

text \<open>C7. \<open>add_connection\<close> checks its endpoints, its ports and the table in this order. When it
  refuses, nothing has changed; when it accepts, the table has exactly this edge more and the
  preset lists it.\<close>

theorem connection_added:
  assumes "conns_wf (w_connections w)" and "get_preset p w = Some h" and "h < length (w_preset_objs w)"
    and "add_connection org p c w = (w', x)"
  shows "x = (if \<not> has_key (w_agents w) (c_source c) then Inl (AgentNotFound (c_source c))
      else if \<not> has_key (w_agents w) (c_target c) then Inl (AgentNotFound (c_target c))
      else if c_source_handle c = [] then Inl EmptySourceHandle
      else if c_target_handle c = [] then Inl EmptyTargetHandle
      else if c \<in> edges (w_connections w) then Inl ConnectionAlreadyExists
      else Inr ()) \<and>
    (\<not> is_ok x \<longrightarrow> w' = w) \<and>
    (is_ok x \<longrightarrow> edges (w_connections w') = insert c (edges (w_connections w)) \<and>
      conns_wf (w_connections w') \<and> spec_of h w' = preset_add_connection c (spec_of h w))"
  using add_connection_spec [OF assms] by blast

theorem connection_added_witness:
  "snd (add_connection None ''p'' (edge ''a'' ''out'' ''b'' ''in'') demo) = Inl ConnectionAlreadyExists \<and>
    fst (add_connection None ''p'' (edge ''a'' ''out'' ''b'' ''in'') demo) = demo"
  using connection_added [OF demo_ok(3,6) _ surjective_pairing, of None "edge ''a'' ''out'' ''b'' ''in''"]
  by (simp add: edges_def conn_target_def)

text \<open>C8. \<open>remove_agent\<close> takes the agent out of the tables with every edge from it or to it, and
  out of the agents of the preset's specification. The connections of the specification stay,
  also those that name the removed agent. When the agent's own stop fails with the error of a
  missing agent, only the specification changes.\<close>

theorem agent_removed:
  assumes "agent_contract I" and "remove_agent I org p i w = (w', Inr ())"
    and "distinct (keys_of (w_agents w))" and "conns_wf (w_connections w)"
    and "get_preset p w = Some h" and "h < length (w_preset_objs w)"
  shows "map_of (w_agents w') =
      (if is_ok (snd (stop_agent I i w)) then (map_of (w_agents w))(i := None) else map_of (w_agents w)) \<and>
    edges (w_connections w') =
      (if is_ok (snd (stop_agent I i w)) then {c \<in> edges (w_connections w). c_source c \<noteq> i \<and> c_target c \<noteq> i}
       else edges (w_connections w)) \<and>
    conns_wf (w_connections w') \<and>
    spec_of h w' = (spec_of h w)\<lparr>p_agents := filter (\<lambda>a. s_id a \<noteq> i) (p_agents (spec_of h w))\<rparr>"
  using agent_contract.remove_agent_spec [OF assms] by (simp add: preset_remove_agent_def)

lemma stop_a: "stop_agent impls0 ''a'' demo = (demo, Inr ())"
  by (simp add: stop_agent_def send_stop_def cancel_agent_token_def)

lemma remove_a: "\<exists>w'. remove_agent impls0 None ''p'' ''a'' demo = (w', Inr ())"
  by (simp add: remove_agent_def remove_agent_internal_def stop_a Let_def)

theorem agent_removed_witness:
  "edges (w_connections (fst (remove_agent impls0 None ''p'' ''a'' demo))) = {} \<and>
    p_connections (spec_of 0 (fst (remove_agent impls0 None ''p'' ''a'' demo))) = [edge ''a'' ''out'' ''b'' ''in'']"
proof -
  obtain w' where w': "remove_agent impls0 None ''p'' ''a'' demo = (w', Inr ())" using remove_a by blast
  have e: "{c \<in> edges (w_connections demo). c_source c \<noteq> ''a'' \<and> c_target c \<noteq> ''a''} = {}"
    by (auto simp: edges_def split: if_splits)
  show ?thesis
    using agent_removed [OF contract0 w' demo_ok(5,3,6)] e by (simp add: w' stop_a spec_of_def)
qed
section \<open>Starting, stopping and cancelling\<close>

text \<open>C9. Starting a preset spawns exactly one loop for each of its agents that is enabled, known
  and at rest, in the order of its specification, each about to start and none cancelled, even
  when an earlier run of the preset was cancelled; the preset's token is alive.\<close>

theorem preset_started:
  assumes "tokens_ok w" and "w_preset_objs w ! h = p" and "\<not> pr_running p" and "h < length (w_preset_objs w)"
  shows "\<exists>ls. w_loops (preset_start h w) = w_loops w @ ls \<and>
    map lp_agent_id ls = [s_id a. a \<leftarrow> p_agents (pr_spec p), \<not> s_disabled a \<and> startable (s_id a) w] \<and>
    tokens_ok (preset_start h w) \<and> alive (preset_start h w) (pr_id p) \<and>
    (\<forall>l \<in> set ls. lp_phase l = Starting \<and>
      (lp_preset_id l = pr_id p \<longrightarrow> \<not> cancelled (w_tokens (preset_start h w)) (lp_token l)))"
  using preset_start_spec [OF assms] by (simp add: launches_def)

definition demo_idle :: "unit world" where
  "demo_idle = demo\<lparr>w_preset_objs := [preset_P\<lparr>pr_running := False\<rparr>]\<rparr>"

theorem preset_started_witness:
  "\<exists>l. w_loops (preset_start 0 demo_idle) = [loop_b, l] \<and> lp_agent_id l = ''a'' \<and> lp_phase l = Starting"
proof -
  have ok: "tokens_ok demo_idle" using demo_ok(1) by (simp add: demo_idle_def tokens_ok_def)
  obtain ls where ls: "w_loops (preset_start 0 demo_idle) = w_loops demo_idle @ ls"
    "map lp_agent_id ls = [s_id a. a \<leftarrow> p_agents (pr_spec (preset_P\<lparr>pr_running := False\<rparr>)),
      \<not> s_disabled a \<and> startable (s_id a) demo_idle]"
    "\<forall>l \<in> set ls. lp_phase l = Starting"
    using preset_started [OF ok, of 0 "preset_P\<lparr>pr_running := False\<rparr>"] by (auto simp: demo_idle_def)
  have "map lp_agent_id ls = [''a'']" unfolding ls(2) by (simp add: demo_idle_def startable_def)
  then show ?thesis using ls(1,3) by (auto simp: demo_idle_def map_eq_Cons_conv)
qed

text \<open>C10. Stopping a preset takes the channel and the token of each of its agents away, drops the
  token of the preset, and cancels everything below it; no other entry of the tables changes.\<close>

theorem preset_stopped:
  assumes "agent_contract I" and "tables_distinct w" and "w_preset_objs w ! h = p"
    and "map_of (w_preset_tokens w) (pr_id p) = Some t"
  shows "map_of (w_agent_txs (preset_stop I h w)) =
      map_of (w_agent_txs w) |` (- s_id ` set (p_agents (pr_spec p))) \<and>
    map_of (w_agent_tokens (preset_stop I h w)) =
      map_of (w_agent_tokens w) |` (- s_id ` set (p_agents (pr_spec p))) \<and>
    map_of (w_preset_tokens (preset_stop I h w)) = (map_of (w_preset_tokens w))(pr_id p := None) \<and>
    (\<forall>u. below (w_tokens w) t u \<longrightarrow> cancelled (w_tokens (preset_stop I h w)) u)"
  using agent_contract.preset_stop_spec [OF assms] by blast

theorem preset_stopped_witness:
  "map_of (w_agent_txs (preset_stop impls0 0 demo)) ''b'' = None \<and>
    cancelled (w_tokens (preset_stop impls0 0 demo)) 1"
proof -
  have b: "below (w_tokens demo) 0 1" by (simp add: below.simps)
  show ?thesis using preset_stopped [OF contract0 demo_ok(2), of 0 preset_P 0] b by simp
qed

text \<open>C11. A stopped preset does no more work. Take a loop of one of its agents, with a token below
  the preset's, at the moment of the stop. Whatever happens afterwards (turns of this and of
  other loops, messages that arrive, the preset stopped and started again, anything that
  \<open>engine\<close> allows, until the 64-bit counter of the starts has gone round), a turn of that loop calls no
  code of an agent: the turn is the same under every table of implementations, and no agent
  changes. An input is dropped, and the token the loop is left with is a fired one, so the next
  input is dropped too. Only a change of configuration still reaches the agent.\<close>

theorem stopped_preset_idle:
  assumes "engine_contract I" and "tables_distinct w" and "w_preset_objs w ! h = p"
    and "map_of (w_preset_tokens w) (pr_id p) = Some t"
    and "n < length (w_loops w)" and "w_loops w ! n = l"
    and "lp_agent_id l \<in> s_id ` set (p_agents (pr_spec p))" and "below (w_tokens w) t (lp_token l)"
    and "unat (lp_generation l) < unat (w_generation w)"
    and "(engine H I)\<^sup>*\<^sup>* (preset_stop I h w) u"
    and "unat (w_generation w) + (length (w_loops u) - length (w_loops w)) \<le> 2 ^ 64"
    and "loop_step I live n u = Some u'"
    and "\<not> for_config (ch_queue (w_chans u ! lp_chan l))"
  shows "w_objs u' = w_objs u \<and> (\<forall>J. loop_step J live n u = Some u') \<and>
    cancelled (w_tokens u') (lp_token (w_loops u' ! n))"
proof -
  let ?w = "preset_stop I h w"
  note A = engine_contract.axioms(1) [OF assms(1)]
  note S = agent_contract.preset_stop_spec [OF A assms(2-4)]
  have g: "w_generation ?w = w_generation w"
    using evolvesD(2) [OF engine_contract.preset_stop_evolves [OF assms(1)], of h w] S(5) by simp
  have e: "evolves ?w u" by (rule engine_contract.run_evolves [OF assms(1,10)])
  have "evolves u u'" by (rule engine_contract.loop_step_evolves [OF assms(1,12)])
  have i: "\<not> issued ?w u (lp_generation l)" by (rule issued_fresh) (use assms(9,11) g S(5) in simp_all)
  have s: "\<not> holds_slot ?w (lp_agent_id l) (lp_generation l)"
  proof -
    have "map_of (w_agent_tokens ?w) (lp_agent_id l) = None" using S(3) assms(7) by simp
    then show ?thesis by (force simp: holds_slot_def map_of_eq_None_iff)
  qed
  have l: "w_loops ?w ! n = l" "n < length (w_loops ?w)" using S(5) assms(5,6) by simp_all
  note C = cut_off_stays [OF e l(2,1) s i S(4) [OF assms(8)]]
  let ?u = "w_loops u ! n"
  have c: "cancelled (w_tokens u) (lp_token ?u)" "lp_chan ?u = lp_chan l" using C by (simp_all add: same_loop_def)
  have n: "n < length (w_loops u)" using evolvesD(1) [OF e] l(2) by simp
  have "\<not> holds_slot u (lp_agent_id ?u) (lp_generation ?u)" using C by (simp add: same_loop_def)
  then have "lp_token (w_loops u' ! n) = lp_token ?u"
    using loop_step_cut_off [OF assms(1,12) n] by blast
  then show ?thesis
    using cancelled_step_idle [OF c(1) assms(12)] assms(13) c
      evolvesD(3) [OF \<open>evolves u u'\<close> c(1)] by metis
qed

text \<open>The agent \<open>b\<close> of \<open>demo\<close> with two inputs waiting. The preset is stopped; the loop takes the
  first input; the preset is started again; the loop takes the second.\<close>

definition busy :: "unit world" where
  "busy = demo\<lparr>w_chans := [chan_new\<lparr>ch_queue := [Input ctx0 ''in'' Unit, Input ctx0 ''in'' Unit]\<rparr>]\<rparr>"

definition busy_turn :: "unit world \<Rightarrow> unit world" where
  "busy_turn w = the (loop_step impls0 (\<lambda>_. True) 0 w)"

definition busy_again :: "unit world" where
  "busy_again = preset_start 0 (busy_turn (preset_stop impls0 0 busy))"

lemma busy_facts:
  "loop_step impls0 (\<lambda>_. True) 0 (preset_stop impls0 0 busy) = Some (busy_turn (preset_stop impls0 0 busy))"
  "loop_step impls0 (\<lambda>_. True) 0 busy_again = Some (busy_turn busy_again)"
  "length (w_loops busy_again) = 3"
  "\<not> for_config (ch_queue (w_chans (preset_stop impls0 0 busy) ! 0))"
  "\<not> for_config (ch_queue (w_chans busy_again ! 0))"
  by code_simp+

lemma busy_run: "(engine host0 impls0)\<^sup>*\<^sup>* (preset_stop impls0 0 busy) busy_again"
proof -
  let ?w = "preset_stop impls0 0 busy"
  have "0 < length (w_loops ?w)" by code_simp
  then have "engine host0 impls0 ?w (busy_turn ?w)" by (rule engine_turn) (rule busy_facts(1))
  moreover have "preset_start 0 w = fst (start_preset ''p'' w)" if "get_preset ''p'' w = Some 0" for w :: "unit world"
    using that by (simp add: start_preset_def)
  moreover have "get_preset ''p'' (busy_turn ?w) = Some 0" by code_simp
  ultimately show ?thesis
    unfolding busy_again_def by (metis engine_call call_start r_into_rtranclp rtranclp.rtrancl_into_rtrancl)
qed

theorem stopped_preset_idle_witness:
  "w_objs (busy_turn (preset_stop impls0 0 busy)) = w_objs (preset_stop impls0 0 busy) \<and>
    w_objs (busy_turn busy_again) = w_objs busy_again \<and>
    cancelled (w_tokens (busy_turn busy_again)) (lp_token (w_loops (busy_turn busy_again) ! 0))"
proof -
  let ?w = "preset_stop impls0 0 busy"
  have b: "below (w_tokens busy) 0 (lp_token loop_b)" by (simp add: busy_def loop_b_def below.simps)
  have c: "lp_chan loop_b = 0" "lp_agent_id loop_b = ''b''" "lp_generation loop_b = 1" by (simp_all add: loop_b_def)
  have d: "tables_distinct busy" using demo_ok(2) by (simp add: busy_def tables_distinct_def)
  note T = stopped_preset_idle [OF engines.engine_contract_axioms d, of 0 preset_P 0 0 loop_b, unfolded c,
      OF _ _ _ _ _ b [unfolded c]]
  have g: "unat (1::u64) < unat (w_generation busy)" by (simp add: busy_def)
  have l: "w_loops ?w = [loop_b]"
    using agent_contract.preset_stop_spec(5) [OF contract0 d, of 0 preset_P 0] by (simp add: busy_def)
  have r0: "(engine host0 impls0)\<^sup>*\<^sup>* ?w ?w" by simp
  have 1: "w_objs (busy_turn ?w) = w_objs ?w"
    using T [OF _ _ _ _ _ g r0 _ busy_facts(1,4)] l by (simp add: busy_def)
  have 2: "w_objs (busy_turn busy_again) = w_objs busy_again \<and>
      cancelled (w_tokens (busy_turn busy_again)) (lp_token (w_loops (busy_turn busy_again) ! 0))"
    using T [OF _ _ _ _ _ g busy_run _ busy_facts(2,5)] busy_facts(3) by (simp add: busy_def)
  show ?thesis using 1 2 by blast
qed

text \<open>\<open>stop_agent\<close> takes the agent's channel and token away and cancels exactly the tokens
  below the agent's token; afterwards no loop of an earlier start can renew its token.\<close>

theorem agent_stopped:
  assumes "agent_contract I" and "tables_distinct w" and "fst (stop_agent I i w) = w'"
  shows "map_of (w_agent_txs w') = (map_of (w_agent_txs w))(i := None) \<and>
    (cancelled (w_tokens w') u \<longleftrightarrow> cancelled (w_tokens w) u \<or>
      (\<exists>g t. map_of (w_agent_tokens w) i = Some (g, t) \<and> below (w_tokens w) t u)) \<and>
    snd (renew_agent_token p i g w') = None"
  using agent_contract.stop_agent_spec [OF assms] renew_iff [of p i g w'] by auto

theorem agent_stopped_witness:
  "snd (renew_agent_token ''p'' ''b'' 1 (fst (stop_agent impls0 ''b'' demo))) = None \<and>
    cancelled (w_tokens (fst (stop_agent impls0 ''b'' demo))) 1"
  using agent_stopped [OF contract0 demo_ok(2) refl, of "''b''" 1 "''p''" 1] by (simp add: below.simps)

text \<open>A loop renews its token exactly when its preset still has a token and the agent's slot
  still has the generation of the loop's start. The new token is cancelled from birth when the
  preset's is, and otherwise not; a refusal leaves the slots alone.\<close>

theorem token_renewal:
  assumes "renew_agent_token p i g w = (w', r)" and "tokens_ok w"
  shows "(r \<noteq> None \<longleftrightarrow> has_key (w_preset_tokens w) p \<and> (\<exists>t. map_of (w_agent_tokens w) i = Some (g, t))) \<and>
    (r = None \<longrightarrow> w_agent_tokens w' = w_agent_tokens w) \<and>
    (\<forall>t. r = Some t \<longrightarrow> map_of (w_agent_tokens w') = (map_of (w_agent_tokens w))(i \<mapsto> (g, t)) \<and>
      (cancelled (w_tokens w') t \<longleftrightarrow> \<not> alive w p) \<and> tokens_ok w')"
  using renew_iff [of p i g w] renew_none [of p i g w] renew_some [OF _ assms(2), of p i g w'] assms(1)
  by auto

theorem token_renewal_witness:
  "snd (renew_agent_token ''p'' ''b'' 1 demo) \<noteq> None \<and> snd (renew_agent_token ''p'' ''b'' 5 demo) = None"
  using token_renewal [OF surjective_pairing demo_ok(1), of "''p''" "''b''" 1]
    token_renewal [OF surjective_pairing demo_ok(1), of "''p''" "''b''" 5] by simp

text \<open>Contexts share their token: while it is alive, every request gets the same one and
  changes nothing; a dead or missing one is replaced by a fresh token that is not cancelled.
  The live tokens of other contexts survive the pruning of the table.\<close>

theorem context_token_shared:
  assumes "context_token live c w = (w', t)" and "distinct (keys_of (w_context_tokens w))"
  shows "map_of (w_context_tokens w') c = Some t \<and>
    (\<forall>u. map_of (w_context_tokens w) c = Some u \<and> live u \<longrightarrow> w' = w \<and> t = u) \<and>
    ((\<forall>u. map_of (w_context_tokens w) c = Some u \<longrightarrow> \<not> live u) \<longrightarrow>
      t = length (w_tokens w) \<and> \<not> cancelled (w_tokens w') t) \<and>
    (\<forall>c' u. c' \<noteq> c \<longrightarrow> live u \<longrightarrow>
      (map_of (w_context_tokens w') c' = Some u \<longleftrightarrow> map_of (w_context_tokens w) c' = Some u))"
proof -
  note s = context_token_spec [OF assms]
  have "upgrade live (map_of (w_context_tokens w) c) = None"
    if "\<forall>u. map_of (w_context_tokens w) c = Some u \<longrightarrow> \<not> live u"
    using that by (auto simp: upgrade_def simp del: map_of_eq_Some_iff split: option.splits)
  moreover have "map_of (w_context_tokens w') c' = Some u \<longleftrightarrow> map_of (w_context_tokens w) c' = Some u"
    if "c' \<noteq> c" "live u" for c' u
    using s(4) [OF that(1)] that(2) upgrade_Some by metis
  moreover have "w' = w \<and> t = u" if "map_of (w_context_tokens w) c = Some u \<and> live u" for u
    using that by (intro s(2)) (simp add: upgrade_Some)
  ultimately show ?thesis using s(1,3) by blast
qed

theorem context_token_shared_witness:
  "snd (context_token (\<lambda>_. True) 7 demo) = 2 \<and>
    fst (context_token (\<lambda>_. True) 7 (fst (context_token (\<lambda>_. True) 7 demo))) = fst (context_token (\<lambda>_. True) 7 demo)"
proof -
  let ?w = "fst (context_token (\<lambda>_. True) 7 demo)"
  have d: "distinct (keys_of (w_context_tokens ?w))"
    using context_token_spec(5) [OF surjective_pairing, of demo "\<lambda>_. True" 7] by simp
  have a: "snd (context_token (\<lambda>_. True) 7 demo) = 2 \<and> map_of (w_context_tokens ?w) 7 = Some 2"
    using context_token_shared [OF surjective_pairing, of demo "\<lambda>_. True" 7] by simp
  then show ?thesis using context_token_shared [OF surjective_pairing d, of "\<lambda>_. True" 7] by simp
qed

text \<open>C12. The input agents of external_agent.rs stay registered correctly under any sequence of
  starts, stops, changes of configuration, patches and inputs: while the agent runs, its id
  stands in the list of the channel it is configured for and in no other, while it does not run
  it stands nowhere, and the entries of all other agents are untouched. It stands there once as
  long as no start hits the agent while it runs; every such start, which the code does not rule
  out, adds one more entry.\<close>

theorem input_agent_registered:
  assumes "is_input_agent a" and "registered_ok w a" and "agent_run H (builtin U) xs (w, a) = (w', a')"
  shows "(\<forall>ch. 0 < count_list (listeners ch w') (a_id a') \<longleftrightarrow>
      a_status a' = Start \<and> map_option (kind_channel (a_impl a') a') (a_channel a') = Some ch) \<and>
    (single_starts H (builtin U) xs (w, a) \<longrightarrow> (\<forall>ch. count_list (listeners ch w') (a_id a') \<le> 1)) \<and>
    (\<forall>ch. a_status a' = Start \<and> map_option (kind_channel (a_impl a') a') (a_channel a') = Some ch \<longrightarrow>
      count_list (listeners ch (fst (agent_step H (builtin U) OpStart (w', a')))) (a_id a') =
        Suc (count_list (listeners ch w') (a_id a'))) \<and>
    (\<forall>j. j \<noteq> a_id a \<longrightarrow> listens j w' = listens j w)"
proof -
  have m: "moves N (w, a) (w', a')"
    if "1 \<in> N" "single_starts H (builtin U) xs (w, a) \<or> (\<forall>n \<in> N. Suc n \<in> N)" for N
    using run_good [OF registered_good [OF assms(1,2) that(1)] that] assms(3) by simp
  have some: "moves {1..} (w, a) (w', a')" by (rule m) auto
  then have g: "good {1..} (w', a')" and q: "quiet (a_id a) w w'" by (simp_all add: moves_def)
  from g obtain n where i: "is_input_agent a'" and n: "1 \<le> n"
    and l: "listens (a_id a') w' = (\<lambda>ch. n * registration (kind_channel (a_impl a')) a' ch)"
    by (rule goodE) simp
  have "\<forall>ch. listens (a_id a') w' ch \<le> 1" if "single_starts H (builtin U) xs (w, a)"
  proof -
    have "good {1} (w', a')" using m [of "{1}"] that by (simp add: moves_def)
    then show ?thesis by (rule goodE) (simp add: registration_def)
  qed
  then show ?thesis
    using l n q start_running [OF i] by (auto simp: quiet_def registration_def simp flip: listens_def)
qed

definition input_D :: "unit agent" where
  "input_D = \<lparr>a_id = ''i'', a_spec = spec_D ''i'', a_preset_id = ''p'', a_status = Init,
    a_impl = ''ExternalInputAgent'', a_state = Channel (Some ''ch'')\<rparr>"

theorem input_agent_registered_witness:
  "count_list (listeners ''ch'' (fst (agent_run host0 impls0 [OpStart] (demo, input_D)))) ''i'' = 1 \<and>
    count_list (listeners ''ch'' (fst (agent_run host0 impls0 [OpStart, OpStart] (demo, input_D)))) ''i'' = 2 \<and>
    count_list (listeners ''ch'' (fst (agent_run host0 impls0 [OpStart, OpStart, OpStop] (demo, input_D)))) ''i'' = 0"
proof -
  have r: "is_input_agent input_D" "registered_ok demo input_D"
    by (auto simp: is_input_agent_def registered_ok_def listens_def listeners_def registration_def input_D_def
        fun_eq_iff unwrap_or_def split: option.split)
  obtain w1 where s: "agent_step host0 impls0 OpStart (demo, input_D) = (w1, input_D\<lparr>a_status := Start\<rparr>)"
    by (simp add: agent_start_def builtin_defs input_start_def input_D_def)
  obtain w2 where t: "agent_step host0 impls0 OpStart (w1, input_D\<lparr>a_status := Start\<rparr>) =
      (w2, input_D\<lparr>a_status := Start\<rparr>)"
    by (simp add: agent_start_def builtin_defs input_start_def input_D_def)
  obtain w3 where u: "agent_step host0 impls0 OpStop (w2, input_D\<lparr>a_status := Start\<rparr>) = (w3, input_D)"
    by (simp add: agent_stop_def builtin_defs input_stop_def input_D_def)
  note T = input_agent_registered [OF r]
  have 1: "agent_run host0 impls0 [OpStart] (demo, input_D) = (w1, input_D\<lparr>a_status := Start\<rparr>)"
    using s by simp
  have 2: "agent_run host0 impls0 [OpStart, OpStart] (demo, input_D) = (w2, input_D\<lparr>a_status := Start\<rparr>)"
    using s t by simp
  have 3: "agent_run host0 impls0 [OpStart, OpStart, OpStop] (demo, input_D) = (w3, input_D)"
    using s t u by simp
  have d: "single_starts host0 impls0 [OpStart] (demo, input_D)" "a_status input_D = Init" "a_id input_D = ''i''"
    "kind_channel (a_impl input_D) input_D ''ch'' = ''ch''" "a_channel input_D = Some ''ch''"
    by (simp_all add: input_D_def kind_channel_def plain_channel_def)
  have c1: "count_list (listeners ''ch'' w1) ''i'' = 1"
    using T [OF 1] d by (simp add: le_Suc_eq) (metis One_nat_def le_Suc_eq le_zero_eq less_numeral_extra(3))
  have "count_list (listeners ''ch'' w2) ''i'' = 2" using T [OF 1] d c1 t by simp
  moreover have "count_list (listeners ''ch'' w3) ''i'' = 0" using T [OF 3] d by simp
  ultimately show ?thesis using c1 1 2 3 by simp
qed
section \<open>Definitions and specifications\<close>

text \<open>Renumbering a graph gives the agents fresh distinct ids counted up from the id counter,
  changes nothing else about them, and moves the endpoints of the connections with their
  agents. An endpoint that is no agent of the graph stays as it is.\<close>

theorem graph_renumbered:
  assumes "update_ids n as cs = (bs, ds, n')" and "distinct (map s_id as)" and "length as < 2 ^ 64"
  shows "length bs = length as \<and> distinct (map s_id bs) \<and> n' = n + word_of_nat (length as) \<and>
    (\<forall>i < length as. bs ! i = (as ! i)\<lparr>s_id := usize_to_string (n + word_of_nat i)\<rparr>) \<and>
    (\<exists>f. (\<forall>i < length as. f (s_id (as ! i)) = s_id (bs ! i)) \<and> (\<forall>x. x \<notin> s_id ` set as \<longrightarrow> f x = x) \<and>
      ds = map (\<lambda>c. c\<lparr>c_source := f (c_source c), c_target := f (c_target c)\<rparr>) cs)"
proof -
  obtain ids where r: "update_agent_ids n [] as = (bs, ids, n')"
    and ds: "ds = map (\<lambda>c. c\<lparr>c_source := renamed ids (c_source c), c_target := renamed ids (c_target c)\<rparr>) cs"
    using assms(1) by (auto simp: update_ids_def Let_def split: prod.splits)
  show ?thesis
    using update_agent_ids_props [OF r] update_agent_ids_id [OF r] update_agent_ids_distinct [OF r assms(3)]
      renamed_agent [OF r _ assms(2)] renamed_other [OF r]
    by (intro conjI exI [of _ "renamed ids"]) (auto simp: ds)
qed

theorem graph_renumbered_witness:
  "distinct (map s_id (fst (update_ids 1 [spec_D ''a'', spec_D ''b''] [edge ''a'' ''o'' ''x'' ''i''])))"
  using graph_renumbered [of 1 "[spec_D ''a'', spec_D ''b'']" "[edge ''a'' ''o'' ''x'' ''i'']"]
  by (cases "update_ids 1 [spec_D ''a'', spec_D ''b''] [edge ''a'' ''o'' ''x'' ''i'']") simp

text \<open>C13. Reconciling a specification with its definition gives configurations whose first keys are
  the definition's, in its order, each with the old value or else the default. Every other old
  value that was not parked already is parked: it stands under its key with an underscore in front.
  What was parked before keeps its place, unless a value is parked over it, and nothing else is
  left.\<close>

theorem reconciled_shape:
  assumes "d_configs d = Some ds" and "def_ok ds" and "spec_wf s"
  shows "let old = (\<lambda>k. Option.bind (s_configs s) (\<lambda>c. map_of c k)) in
    \<exists>a b. s_configs (reconcile_spec d s) = Some (a @ b) \<and> map fst a = map fst ds \<and>
      distinct (map fst (a @ b)) \<and>
      (\<forall>k \<in> fst ` set ds. map_of a k =
        Some (case old k of Some v \<Rightarrow> v | None \<Rightarrow> cs_value (the (map_of ds k)))) \<and>
      (\<forall>k \<in> fst ` set b. starts_with ''_'' k) \<and>
      (\<forall>k. map_of b (''_'' @ k) =
        (if k \<notin> fst ` set ds \<and> \<not> starts_with ''_'' k \<and> old k \<noteq> None then old k else old (''_'' @ k)))"
proof -
  have d: "distinct (keys_of c)" if "s_configs s = Some c" for c
    using assms(3) that by (simp add: spec_wf_def)
  obtain a b where r: "reconcile_configs (Some ds) (s_configs s) = Some (a @ b)" "keys_of a = keys_of ds"
    "distinct (keys_of (a @ b))" "\<forall>k \<in> set (keys_of b). starts_with ''_'' k"
    "\<And>k. k \<in> set (keys_of ds) \<Longrightarrow> map_of a k =
      Some (case Option.bind (s_configs s) (\<lambda>c. map_of c k) of Some v \<Rightarrow> v | None \<Rightarrow> cs_value (the (map_of ds k)))"
    "\<And>k. map_of b (CHR ''_'' # k) =
      (if k \<notin> set (keys_of ds) \<and> \<not> starts_with ''_'' k \<and> Option.bind (s_configs s) (\<lambda>c. map_of c k) \<noteq> None
       then Option.bind (s_configs s) (\<lambda>c. map_of c k) else Option.bind (s_configs s) (\<lambda>c. map_of c (CHR ''_'' # k)))"
    using reconcile_shape [OF assms(2) d] by blast
  have "s_configs (reconcile_spec d s) = Some (a @ b)"
    using r(1) assms(1) by (simp add: reconcile_spec_def split: option.splits)
  then show ?thesis
    unfolding Let_def using r(2-6)
    by (intro exI [of _ a] exI [of _ b])
      (simp del: starts_with_Cons map_of_eq_Some_iff not_None_eq bind_eq_None_conv)
qed

definition old_spec :: agent_spec where
  "old_spec = (spec_D ''a'')\<lparr>s_configs := Some [(''gone'', Integer 7), (''s'', String ''y''), (''_gone'', Unit), (''_x'', Unit)]\<rparr>"

lemma def_D_configs: "d_configs def_D =
    Some [(''n'', config_spec_new (Integer 1) ''integer''), (''s'', config_spec_new (String ''x'') ''string'')]"
  by (simp add: def_D_def)

theorem reconciled_shape_witness:
  "\<exists>a b. s_configs (reconcile_spec def_D old_spec) = Some (a @ b) \<and> map fst a = [''n'', ''s''] \<and>
    map_of a ''n'' = Some (Integer 1) \<and> map_of a ''s'' = Some (String ''y'') \<and>
    map_of b ''_gone'' = Some (Integer 7) \<and> map_of b ''_x'' = Some Unit \<and> map_of b ''gone'' = None"
proof -
  have ok: "def_ok [(''n'', config_spec_new (Integer 1) ''integer''), (''s'', config_spec_new (String ''x'') ''string'')]"
    by (simp add: def_ok_def)
  have wf: "spec_wf old_spec" by (simp add: spec_wf_def old_spec_def spec_D_def)
  let ?old = "\<lambda>k. Option.bind (s_configs old_spec) (\<lambda>c. map_of c k)"
  let ?ds = "[(''n'', config_spec_new (Integer 1) ''integer''), (''s'', config_spec_new (String ''x'') ''string'')]"
  obtain a b where r: "s_configs (reconcile_spec def_D old_spec) = Some (a @ b)" "map fst a = map fst ?ds"
    "\<forall>k \<in> fst ` set ?ds. map_of a k =
      Some (case ?old k of Some v \<Rightarrow> v | None \<Rightarrow> cs_value (the (map_of ?ds k)))"
    and n: "\<forall>k \<in> fst ` set b. starts_with ''_'' k"
    and u: "\<forall>k. map_of b (''_'' @ k) =
      (if k \<notin> fst ` set ?ds \<and> \<not> starts_with ''_'' k \<and> ?old k \<noteq> None then ?old k else ?old (''_'' @ k))"
    using reconciled_shape [OF def_D_configs ok wf] unfolding Let_def by blast
  have "\<not> starts_with ''_'' ''gone''" by simp
  then have "map_of b ''gone'' = None" using n unfolding map_of_eq_None_iff by blast
  then show ?thesis
    using r spec [OF u, of "''gone''"] spec [OF u, of "''x''"]
    by (intro exI [of _ a] exI [of _ b]) (simp add: old_spec_def config_spec_new_def del: map_of_eq_Some_iff)
qed

text \<open>C14. Reconciling twice is reconciling once.\<close>

theorem reconcile_idempotent:
  assumes "\<And>m. d_configs d = Some m \<Longrightarrow> def_ok m" and "spec_wf s"
  shows "reconcile_spec d (reconcile_spec d s) = reconcile_spec d s"
  by (rule reconcile_spec_idem [OF assms])

theorem reconcile_idempotent_witness:
  "reconcile_spec def_D (reconcile_spec def_D old_spec) = reconcile_spec def_D old_spec"
  by (rule reconcile_idempotent) (auto simp: def_D_configs def_ok_def spec_wf_def old_spec_def spec_D_def)

lemma update_fields_wf: "spec_wf s \<Longrightarrow> spec_wf (fst (spec_update_fields H m s))"
proof (induction m arbitrary: s)
  case (Cons kv m)
  obtain k j where kv: "kv = (k, j)" by (cases kv)
  show ?case
  proof (cases "spec_update_field H k j s")
    case (Inl e)
    then show ?thesis using Cons.prems by (simp add: kv)
  next
    case (Inr s')
    then show ?thesis using Cons.IH [OF spec_update_field_wf [OF Cons.prems Inr]] by (simp add: kv)
  qed
qed simp

lemma update_field_ok: "is_ok (spec_update_field H k j s) \<longleftrightarrow> (k = ''configs'' \<longrightarrow> (\<exists>m. j = JObject m))"
  using configs_from_json_ok [of H j]
  by (cases "configs_from_json H j") (auto simp: spec_update_field_def)

lemma update_fields_ok: "is_ok (snd (spec_update_fields H m s)) \<longleftrightarrow>
    (\<forall>(k, j) \<in> set m. k = ''configs'' \<longrightarrow> (\<exists>m. j = JObject m))"
proof (induction m arbitrary: s)
  case (Cons kv m)
  obtain k j where kv: "kv = (k, j)" by (cases kv)
  show ?case
  proof (cases "spec_update_field H k j s")
    case (Inl e)
    then show ?thesis using update_field_ok [of H k j s] by (simp add: kv)
  next
    case (Inr s')
    then show ?thesis using update_field_ok [of H k j s] Cons.IH [of s'] by (simp add: kv)
  qed
qed simp

text \<open>A patch of a specification is accepted exactly when it is an object whose
  \<open>configs\<close>, if present, are an object: a field of the wrong type is skipped, not refused.
  Whatever the outcome, the specification stays well formed.\<close>

theorem patch_accepted:
  assumes "spec_wf s"
  shows "(is_ok (snd (spec_update H j s)) \<longleftrightarrow>
      (\<exists>m. j = JObject m \<and> (\<forall>(k, v) \<in> set m. k = ''configs'' \<longrightarrow> (\<exists>o'. v = JObject o')))) \<and>
    spec_wf (fst (spec_update H j s))"
  using assms update_fields_ok [of H _ s] update_fields_wf
  by (cases j) (auto simp: spec_update_def)

theorem patch_accepted_witness:
  "is_ok (snd (spec_update host0 (JObject [(''id'', JNull)]) (spec_D ''a''))) \<and>
    \<not> is_ok (snd (spec_update host0 (JObject [(''configs'', JNull)]) (spec_D ''a'')))"
proof -
  have wf: "spec_wf (spec_D ''a'')" by (simp add: spec_wf_def spec_D_def)
  show ?thesis using patch_accepted [OF wf, of host0] by simp
qed

section \<open>Contexts\<close>

text \<open>Two contexts get the same key only when they have the same id and the same map
  frames, so a key identifies one element of one iteration of one flow.\<close>

theorem ctx_key_identifies:
  assumes "ctx_key c = Inr k" and "ctx_key d = Inr k"
  shows "ctx_id c = ctx_id d \<and> map_frame_indices c = map_frame_indices d"
  by (rule ctx_key_inj [OF assms])

theorem ctx_key_identifies_witness:
  "ctx_id (ctx_with_var ''x'' Unit ctx0) = ctx_id ctx0"
  using ctx_key_identifies [of "ctx_with_var ''x'' Unit ctx0" "usize_to_string 7" ctx0]
  by (simp add: ctx_key_def map_frame_indices_def ctx0_def ctx_with_var_def)

text \<open>A map frame that was pushed is the current frame and popping it gives the context back,
  for every length below \<open>2 ^ 63\<close>.\<close>

theorem map_frame_round_trip:
  assumes "ctx_wf c" and "push_map_frame i len c = Inr c'" and "unat len < 2 ^ 63"
  shows "current_map_frame c' = Inr (Some (i, len)) \<and> pop_map_frame c' = Inr c"
  using push_map_frame_current [OF assms(2,3)] pop_push_map_frame [OF assms(1,2)] by simp

theorem map_frame_round_trip_witness:
  "\<exists>c'. push_map_frame 1 2 ctx0 = Inr c' \<and> current_map_frame c' = Inr (Some (1, 2)) \<and> pop_map_frame c' = Inr ctx0"
proof -
  obtain c' where c': "push_map_frame 1 2 ctx0 = Inr c'" by (auto simp: push_map_frame_def)
  have "ctx_wf ctx0" by (simp add: ctx_wf_def ctx0_def)
  from map_frame_round_trip [OF this c'] c' show ?thesis by simp
qed

text \<open>From \<open>2 ^ 63\<close> on the length turns negative in the frame's data: the push succeeds, and
  the frame cannot be read.\<close>

theorem map_frame_overflow:
  assumes "push_map_frame i len c = Inr c'" and "2 ^ 63 \<le> unat len"
  shows "current_map_frame c' = Inl (InvalidValue ''Invalid map frame values'')"
  by (rule push_map_frame_overflow [OF assms])

theorem map_frame_overflow_witness:
  "\<exists>c'. push_map_frame 0 (2 ^ 63) ctx0 = Inr c' \<and>
    current_map_frame c' = Inl (InvalidValue ''Invalid map frame values'')"
proof -
  obtain c' where c': "push_map_frame 0 (2 ^ 63) ctx0 = Inr c'" by (auto simp: push_map_frame_def)
  from map_frame_overflow [OF this] c' show ?thesis by simp
qed

section \<open>Values\<close>

text \<open>C15. A value JSON can represent survives the trip through JSON, up to the order of the
  entries of its objects.\<close>

theorem value_json_round_trip:
  assumes "value_wf v" and "plain H v"
  shows "from_json H (to_json H v) = Inr (canon v)"
  by (rule json_round_trip [OF assms])

theorem value_json_round_trip_witness:
  "from_json host0 (to_json host0 (Object [(''b'', Integer 2), (''a'', Array [Boolean True])])) =
    Inr (Object [(''a'', Array [Boolean True]), (''b'', Integer 2)])"
  using value_json_round_trip [of "Object [(''b'', Integer 2), (''a'', Array [Boolean True])]" host0] by simp

text \<open>The JSON of a value does not depend on the iteration order of the maps inside it: equal
  values up to that order have the same JSON, and reading JSON never fails.\<close>

theorem json_order_independent:
  assumes "canon v = canon w"
  shows "to_json H v = to_json H w \<and> (\<exists>u. from_json H (to_json H v) = Inr u)"
  using assms to_json_canon [of H v] to_json_canon [of H w] from_json_ok by metis

theorem json_order_independent_witness:
  "to_json host0 (Object [(''b'', Unit), (''a'', Unit)]) = to_json host0 (Object [(''a'', Unit), (''b'', Unit)])"
  using json_order_independent [of "Object [(''b'', Unit), (''a'', Unit)]" "Object [(''a'', Unit), (''b'', Unit)]" host0]
  by simp

text \<open>Equality of values is symmetric, and a value equals itself exactly when it has no NaN and
  no error inside.\<close>

theorem value_eq_laws:
  assumes "value_wf v" and "value_wf w"
  shows "(value_eq v w \<longleftrightarrow> value_eq w v) \<and> (value_eq v v \<longleftrightarrow> comparable v)"
  using value_eq_sym [OF assms] value_eq_refl_iff [OF assms(1)] by simp

theorem value_eq_laws_witness:
  "value_eq (Object [(''k'', Integer 1)]) (Object [(''k'', Integer 1)]) \<and> \<not> value_eq (Error NoConfig) (Error NoConfig)"
  using value_eq_laws [of "Object [(''k'', Integer 1)]" Unit] value_eq_laws [of "Error NoConfig" Unit] by simp

text \<open>The two JSON forms of a value agree when every element of its tensors is finite; a tensor
  with an element that is not has two different forms.\<close>

theorem serialize_agrees:
  "(finite_tensors v \<longrightarrow> serialize_value H v = to_json H v) \<and>
    ((\<exists>x \<in> set t. \<not> f_is_finite (f32_as_f64 x)) \<longrightarrow> serialize_value H (Tensor t) \<noteq> to_json H (Tensor t))"
  using serialize_eq_to_json [of v H] serialize_tensor_differs [of _ t H] by blast

theorem serialize_agrees_witness:
  "serialize_value host0 (Array [Integer 1]) = to_json host0 (Array [Integer 1])"
  using serialize_agrees [of "Array [Integer 1]" host0 "[]"] by simp

text \<open>C16. The five coercions treat arrays element by element, at any depth, all or nothing, and any
  other value by the scalar conversion of the same name; what they return they return unchanged,
  and they leave exactly the values alone whose leaves have the wanted type.\<close>

theorem coercions_uniform:
  "coerces is_boolean (\<lambda>v. map_option Boolean (to_boolean v)) to_boolean_value \<and>
   coerces is_integer (\<lambda>v. map_option Integer (to_integer v)) to_integer_value \<and>
   coerces is_number (\<lambda>v. map_option Number (to_number H v)) (to_number_value H) \<and>
   coerces is_string (\<lambda>v. map_option String (to_string H v)) (to_string_value H) \<and>
   coerces is_message (\<lambda>v. map_option Message (to_message H v)) (to_message_value H)"
  by (intro conjI coerces_boolean coerces_integer coerces_number coerces_string coerces_message)

theorem coercions_uniform_witness:
  "to_boolean_value (Array [Integer 0, Array [String ''true'']]) = Some (Array [Boolean False, Array [Boolean True]]) \<and>
    to_boolean_value (Array [Integer 0, Unit]) = None \<and>
    to_message_value host0 (Array [String ''hi'']) = Some (Array [Message (user_message ''hi'')])"
proof -
  have "coerces is_boolean (\<lambda>v. map_option Boolean (to_boolean v)) to_boolean_value"
    and "coerces is_message (\<lambda>v. map_option Message (to_message host0 v)) (to_message_value host0)"
    using coercions_uniform [of host0] by simp_all
  then show ?thesis
    unfolding coerces_def
    by (simp add: list_all2_Cons1 parse_bool_def to_message_def message_try_from_def ok_def list_all2_Cons2)
qed

text \<open>Integers survive the trip through text, and through a float as long as their magnitude
  is below \<open>2 ^ 53\<close>; booleans survive the trip through text and through integers.\<close>

theorem number_round_trips:
  "Option.bind (to_string H (Integer i)) (\<lambda>s. to_integer (String s)) = Some i \<and>
    (\<bar>sint i\<bar> < 2 ^ 53 \<longrightarrow> Option.bind (to_number H (Integer i)) (\<lambda>x. to_integer (Number x)) = Some i) \<and>
    Option.bind (to_string H (Boolean b)) (\<lambda>s. to_boolean (String s)) = Some b \<and>
    Option.bind (to_integer (Boolean b)) (\<lambda>n. to_boolean (Integer n)) = Some b"
  using i64_as_f64_as_i64 [of i] by simp

theorem number_round_trips_witness:
  "to_integer (Number (the (to_number host0 (Integer 5)))) = Some 5"
  using number_round_trips [of host0 5 True] by simp

text \<open>Setting a key succeeds exactly on objects, and afterwards the key has the new value and
  every other key the old one.\<close>

theorem value_set_laws:
  "(is_ok (value_set k x v) \<longleftrightarrow> is_object v) \<and>
    (\<forall>w. value_set k x v = Inr w \<longrightarrow>
      (\<forall>k'. value_get w k' = (if k' = k then Some x else value_get v k')))"
  using value_set_ok_iff value_set_get by blast

theorem value_set_laws_witness:
  "value_get (projr (value_set ''k'' Unit (Object [(''j'', Boolean True)]))) ''j'' = Some (Boolean True)"
proof -
  obtain w where w: "value_set ''k'' Unit (Object [(''j'', Boolean True)]) = Inr w"
    by (simp add: value_set_def)
  then show ?thesis using value_set_laws [of "''k''" Unit "Object [(''j'', Boolean True)]"] by simp
qed

text \<open>C17. A message without a picture survives its serialization; only blocks of plain text come
  back joined into one text, with the same reading. A picture does not: the reader hands the
  whole data URL to the picture crate, where it panics (as on every data URL), or whatever else it
  makes of that text.\<close>

theorem message_json_round_trip:
  "message_from_json H (message_to_json H m) =
    (case msg_image m of
      None \<Rightarrow> Some (Inr (m\<lparr>msg_content := flatten_content (msg_content m)\<rparr>))
    | Some i \<Rightarrow>
        if h_img_panics H (h_img_encode H i) then None
        else Some (Inr (m\<lparr>msg_content := flatten_content (msg_content m),
          msg_image := Some (h_img_decode H (h_img_encode H i))\<rparr>))) \<and>
    content_text (flatten_content (msg_content m)) = content_text (msg_content m)"
proof -
  have "m\<lparr>msg_content := c, msg_image := None\<rparr> = m\<lparr>msg_content := c\<rparr>" if "msg_image m = None" for c
    using that by (cases m) simp
  then show ?thesis by (simp add: message_round_trip reread_image_def split: option.split)
qed

definition answer_M :: message where
  "answer_M = (assistant_message [])\<lparr>msg_id := Some ''m'',
    msg_content := Blocks [ThinkingBlock ''hm'' (Some ''sig'') False, TextBlock ''hi''], msg_tokens := Some 5,
    msg_tool_calls := Some [\<lparr>tc_function = \<lparr>fn_name = ''add'', fn_parameters = JObject [(''x'', JNull)],
      fn_id = Some ''1'', fn_parse_error = None\<rparr>\<rparr>],
    msg_usage := Some \<lparr>input_tokens = 1, output_tokens = 2, cache_read_tokens = 3, cache_write_tokens = 4\<rparr>\<rparr>"

definition picture_M :: message where
  "picture_M = with_image \<lparr>raw_pixels = [], img_width = 0, img_height = 0\<rparr> (user_message ''look'')"

theorem message_json_round_trip_witness:
  "message_from_json host0 (message_to_json host0 answer_M) = Some (Inr answer_M) \<and>
    message_from_json host0 (message_to_json host0
      ((user_message [])\<lparr>msg_content := Blocks [TextBlock ''a'', TextBlock ''b'']\<rparr>)) = Some (Inr (user_message ''ab'')) \<and>
    image_url host0 \<lparr>raw_pixels = [], img_width = 0, img_height = 0\<rparr> \<and>
    message_from_json host0 (message_to_json host0 picture_M) = None"
proof (intro conjI)
  show "message_from_json host0 (message_to_json host0 answer_M) = Some (Inr answer_M)"
    using message_json_round_trip [of host0 answer_M]
    by (simp add: answer_M_def assistant_message_def new_message_def flatten_content_def)
  show "message_from_json host0 (message_to_json host0
      ((user_message [])\<lparr>msg_content := Blocks [TextBlock ''a'', TextBlock ''b'']\<rparr>)) = Some (Inr (user_message ''ab''))"
    using message_json_round_trip [of host0 "(user_message [])\<lparr>msg_content := Blocks [TextBlock ''a'', TextBlock ''b'']\<rparr>"]
    by (simp add: user_message_def new_message_def flatten_content_def content_text_def List.map_filter_def)
  show "image_url host0 \<lparr>raw_pixels = [], img_width = 0, img_height = 0\<rparr>"
    by code_simp
  show "message_from_json host0 (message_to_json host0 picture_M) = None"
    using message_json_round_trip [of host0 picture_M]
    by (simp add: picture_M_def with_image_def user_message_def new_message_def host0_def IMAGE_BASE64_PREFIX_def)
qed

section \<open>Conversations\<close>

text \<open>The estimate of a conversation is the exact sum, over the natural numbers, of what it
  counts: with a last assistant message \<open>a\<close> that carries a usage, the usage of \<open>a\<close> and the cost
  of the messages after it; without one, the cost of all messages. Nothing wraps as long as each
  message is shorter than \<open>2 ^ 64\<close> bytes and the sum is below \<open>2 ^ 64\<close>.\<close>

theorem context_estimate:
  assumes "\<forall>m \<in> set ms. \<not> is_anchor m" "\<forall>m \<in> set ms. message_bytes H m < 2 ^ 64" "is_anchor a"
    and "usage_cost (the (msg_usage a)) + sum_list (map (message_cost H) ms) < 2 ^ 64"
  shows "unat (estimate_context_tokens H (pre @ a # ms)) =
      usage_cost (the (msg_usage a)) + sum_list (map (message_cost H) ms) \<and>
    unat (estimate_context_tokens H ms) = sum_list (map (message_cost H) ms)"
proof -
  let ?n = "sum_list (map (message_cost H) ms)" and ?u = "usage_cost (the (msg_usage a))"
  have est: "estimate_context_tokens H (pre @ a # ms) = word_of_nat (?u + ?n)"
    using estimate_context_tokens_anchor [OF assms(1,3), of H pre] sum_estimates [OF assms(2)]
    by (simp add: usage_total_eq)
  have "estimate_context_tokens H ms = word_of_nat ?n"
    using estimate_context_tokens_none [OF assms(1), of H] sum_estimates [OF assms(2)] by simp
  then show ?thesis
    using est unat_word_of_nat_64 [OF assms(4)] unat_word_of_nat_64 [of ?n] assms(4) by simp
qed

theorem context_estimate_witness:
  "unat (estimate_context_tokens host0 [user_message ''hello'',
    (assistant_message ''x'')\<lparr>msg_usage := Some \<lparr>input_tokens = 10, output_tokens = 5,
      cache_read_tokens = 0, cache_write_tokens = 0\<rparr>\<rparr>, user_message ''hello'']) = 17"
  using context_estimate [of "[user_message ''hello'']" host0 "(assistant_message ''x'')\<lparr>msg_usage :=
    Some \<lparr>input_tokens = 10, output_tokens = 5, cache_read_tokens = 0, cache_write_tokens = 0\<rparr>\<rparr>"
    "[user_message ''hello'']"]
  by (simp add: is_anchor_def user_message_def assistant_message_def new_message_def message_bytes_def
    message_cost_def message_images_def content_bytes_def content_images_def usage_cost_def)

text \<open>C18. Refinement: the two stores agree. As long as what is written is one line that reads back
  and no call fails, a run of operations gives on disk the results it gives in memory, with the
  block form of the messages flattened.\<close>

theorem session_stores_agree:
  assumes "disk_good E d" "sorted_wrt (<) (keys_of s)" "disk_log E d = stored_logs flat_entry (mem_log s)"
    and "list_all (op_ok (meta_writable E) (entry_writable E)) cs"
  shows "snd (store_run (jsonl_store E) cs d) =
    map (stored_outcome flat_entry) (snd (store_run mem_store cs s))"
proof -
  have "snd (store_run (jsonl_store E) cs d) =
      snd (log_run (map (stored_op flat_entry) cs) (stored_logs flat_entry (mem_log s)))"
    using jsonl.run_follows_log [OF assms(1,4)] assms(3) by simp
  also have "\<dots> = map (stored_outcome flat_entry) (snd (log_run cs (mem_log s)))"
    by (rule log_run_stored)
  also have "snd (log_run cs (mem_log s)) = snd (store_run mem_store cs s)"
    by (rule mem_run [OF assms(2), symmetric])
  finally show ?thesis .
qed

theorem session_stores_agree_witness:
  "snd (store_run (jsonl_store texts0)
      [CreateOp meta_S, AppendOp ''s'' entry_S, CreateOp meta_S, LoadOp ''s'', LoadOp ''r''] empty_disk) =
    [Created (Inr ''s''), Appended (Inr ()), Created (Inl (DuplicateId ''s'')), Loaded (Inr [entry_S]),
     Loaded (Inl (session_not_found ''r''))]"
proof -
  let ?cs = "[CreateOp meta_S, AppendOp ''s'' entry_S, CreateOp meta_S, LoadOp ''s'', LoadOp ''r'']"
  have "snd (store_run mem_store ?cs []) =
      [Created (Inr ''s''), Appended (Inr ()), Created (Inl (DuplicateId ''s'')), Loaded (Inr [entry_S]),
       Loaded (Inl (session_not_found ''r''))]"
    by (simp add: mem_store_def mem_create_def mem_append_def mem_load_def meta_S_def)
  moreover have "disk_log texts0 empty_disk = stored_logs flat_entry (mem_log [])"
    by (simp add: empty_disk_ok stored_logs_def mem_log_def)
  ultimately show ?thesis
    using session_stores_agree [of texts0 empty_disk "[]" ?cs]
    by (simp add: empty_disk_ok(1) texts0_meta texts0_entry del: store_run.simps) (simp add: entry_S_def)
qed

text \<open>C19. A crash in the middle of an append loses at most the entry in flight: the next load
  returns the log as it was before and removes the fragment, which leaves the directory as it was;
  when only the report of the success is lost, the entry is there. The fragment must not end
  inside a UTF-8 character.\<close>

theorem torn_append_recovered:
  assumes "disk_good E d" "disk_log E d i = Some es" "entry_writable E e" "se_entry_text E e = Inr t"
    and "torn_write io n"
  shows "(n \<le> length t \<and> is_utf8 (take n t) \<longrightarrow>
      jsonl_load E no_faults i (fst (jsonl_append E io i e d)) = (d, Inr es)) \<and>
    (length t < n \<longrightarrow>
      snd (jsonl_load E no_faults i (fst (jsonl_append E io i e d))) = Inr (es @ [flat_entry e]))"
proof -
  have "fst (jsonl_append E io i e d) = fst (jsonl_append E no_faults i e d)" if "length t < n"
    using torn_append_whole [OF assms(5) _ assms(4) that] disk_log_present [OF assms(2)] by blast
  moreover obtain d' where "jsonl_append E no_faults i e d = (d', Inr ())" "disk_good E d'"
      "disk_log E d' = (disk_log E d)(i \<mapsto> es @ [flat_entry e])"
    using jsonl.append_present [OF assms(1,3,2)] by (auto simp: jsonl_store_def)
  moreover have "jsonl_load E no_faults i d' = (d', Inr (es @ [flat_entry e]))"
    using jsonl.load_present [OF calculation(3), of i] calculation(4) by (simp add: jsonl_store_def)
  ultimately show ?thesis using load_after_torn_append [OF assms] by simp
qed

theorem torn_append_recovered_witness:
  "jsonl_load texts0 no_faults ''s'' (fst (jsonl_append texts0 torn_io ''s'' entry_S disk_S)) =
    (disk_S, Inr [entry_S])"
  using torn_append_recovered [OF disk_S_ok texts0_entry texts0_sel(2) torn_io_write]
  by (simp add: texts0_utf8)

text \<open>C20. What the recovery needs. An append that is not preceded by a load puts its line behind
  the fragment and reports success; unless the two happen to read as one entry, every later load
  of the session fails. A fragment that ends inside a UTF-8 character makes the load fail at once,
  and leaves the fragment where it is.\<close>

theorem torn_append_corrupts:
  assumes "disk_good E d" "disk_log E d i = Some es" "entry_writable E e" "se_entry_text E e = Inr t"
    and "torn_write io n" "n \<le> length t"
    and "entry_writable E e'" "se_entry_text E e' = Inr u" "parse_entry E (take n t @ u) = Inl err"
  defines "d1 \<equiv> fst (jsonl_append E io i e d)"
  defines "d2 \<equiv> fst (jsonl_append E no_faults i e' d1)"
  shows "(is_utf8 (take n t) \<longrightarrow>
      snd (jsonl_append E no_faults i e' d1) = Inr () \<and>
      jsonl_load E no_faults i d2 =
        (d2, Inl (JsonParseError (''Invalid entry at line '' @ dec_nat (length es + 2) @
          '' of session '' @ i @ '': '' @ err)))) \<and>
    (\<not> is_utf8 (take n t) \<longrightarrow>
      jsonl_load E no_faults i d1 =
        (d1, Inl (IoError ''Failed to read session file: stream did not contain valid UTF-8'')))"
proof -
  obtain c h ls where f: "map_of (dk_files d) (session_path i) = Some c" "file_lines E c h ls"
      "length es = length ls"
    using disk_log_file [OF assms(1,2)] by blast
  have t: "one_line (take n t)" using entry_writable_line [OF assms(3,4)] one_line_take by blast
  then have one: "newline \<notin> set (take n t)" by (simp add: one_line_def)
  have d1: "d1 = set_file (session_path i) (c @ take n t) d"
    unfolding d1_def using torn_append [OF assms(5) f(1) assms(4)] assms(6) by simp
  have c1: "map_of (dk_files d1) (session_path i) = Some (c @ take n t)" by (simp add: d1)
  have app: "jsonl_append E no_faults i e' d1 =
      (set_file (session_path i) (c @ (take n t @ u) @ [newline]) d1, Inr ())"
    using jsonl_append_eq [OF c1 assms(8)] by simp
  have u: "one_line (take n t @ u)" "is_utf8 u"
    using t entry_writable_line [OF assms(7,8)] by (simp_all add: one_line_append)
  have fused: "is_utf8 (take n t) \<Longrightarrow> is_utf8 (take n t @ u)" using is_utf8_append u(2) by blast
  have "is_utf8 (take n t) \<Longrightarrow> jsonl_load E no_faults i d2 = (d2, Inl (JsonParseError
      (''Invalid entry at line '' @ dec_nat (length es + 2) @ '' of session '' @ i @ '': '' @ err)))"
    unfolding f(3) by (rule load_fused [OF f(2) u(1) fused assms(9)]) (simp_all add: d2_def app)
  moreover have "\<not> is_utf8 (take n t) \<Longrightarrow> jsonl_load E no_faults i d1 =
      (d1, Inl (IoError ''Failed to read session file: stream did not contain valid UTF-8''))"
    using load_torn [OF c1 f(2) one] by (cases "take n t = []") (simp_all add: is_utf8_def utf8_count.simps)
  ultimately show ?thesis by (simp add: app)
qed

theorem torn_append_corrupts_witness:
  "snd (jsonl_load texts0 no_faults ''s'' (fst (jsonl_append texts0 no_faults ''s'' entry_S
      (fst (jsonl_append texts0 torn_io ''s'' entry_S disk_S))))) =
    Inl (JsonParseError (''Invalid entry at line '' @ dec_nat 3 @ '' of session s: bad''))"
  using torn_append_corrupts [OF disk_S_ok texts0_entry texts0_sel(2) torn_io_write _ texts0_entry
    texts0_sel(2), of "''bad''"]
  by (simp add: texts0_utf8 texts0_bad)

text \<open>C21. The context of a log: without a compaction all its messages; with one, the summary of the
  last compaction followed by the messages from the first kept one on, or, when that one is not in
  the log, by the messages after the compaction.\<close>

theorem context_built:
  assumes "list_all (\<lambda>e. \<not> is_compaction e) post"
    and "es = pre @ CompactionEntry i p t s k n # post"
  shows "build_context post = messages_of post \<and>
    (list_all (\<lambda>e. \<not> is_kept k e) es \<longrightarrow>
      build_context es = user_message (SUMMARY_PREFIX @ s) # messages_of post) \<and>
    (\<forall>a x b. es = a @ x # b \<longrightarrow> is_kept k x \<longrightarrow> list_all (\<lambda>e. \<not> is_kept k e) a \<longrightarrow>
      build_context es = user_message (SUMMARY_PREFIX @ s) # messages_of (x # b))"
  using build_context_plain [OF assms(1)] build_context_compacted [OF assms] by blast

theorem context_built_witness:
  "build_context [MessageEntry ''a'' None ''t'' (user_message ''1''), MessageEntry ''b'' None ''t'' (user_message ''2''),
      CompactionEntry ''e'' None ''t'' ''sum'' ''b'' None, MessageEntry ''c'' None ''t'' (user_message ''3'')] =
    [user_message (SUMMARY_PREFIX @ ''sum''), user_message ''2'', user_message ''3'']"
  using context_built [of "[MessageEntry ''c'' None ''t'' (user_message ''3'')]" _
      "[MessageEntry ''a'' None ''t'' (user_message ''1''), MessageEntry ''b'' None ''t'' (user_message ''2'')]"
      "''e''" None "''t''" "''sum''" "''b''" None]
  by (auto simp: is_kept_def dest: spec [of _ "[MessageEntry ''a'' None ''t'' (user_message ''1'')]"])

section \<open>Tools\<close>

text \<open>C22. The tool calls of a message are answered one by one, in the order of the calls and under
  their names and ids: with what the tool or the checks in front of it said, or, only when the flow
  carries a token that can be cancelled, with the notice that the operation was aborted.\<close>

theorem call_tools_answered:
  assumes "call_tools E T ctx calls n evs st = Some (evs', ms, st')"
  shows "list_all2 answers calls ms \<and>
    list_all2 (\<lambda>c m. real_result E T ctx c m \<or> ctx_cancel ctx \<noteq> None \<and> m = aborted_result c) calls ms"
proof -
  have "list_all2 (\<lambda>c m. result_of E T ctx (ctx_cancel ctx \<noteq> None) m c) calls ms"
    using call_tools_results [OF assms] by (simp add: list_all2_conv_all_nth)
  then show ?thesis
    by (auto simp: result_of_def dest: real_result_answers elim: list_all2_mono)
qed

theorem call_tools_answered_witness:
  "\<exists>m st'. call_tools env0 tools0 ctx0 [call_A] 1 [Complete 0] state0 = Some ([], [m], st') \<and> answers call_A m"
proof -
  obtain m st' where r: "call_tools env0 tools0 ctx0 [call_A] 1 [Complete 0] state0 = Some ([], [m], st')"
    by (rule run_A)
  show ?thesis using call_tools_answered [OF r] r by simp
qed

text \<open>C23. The scheduler never gets stuck: whatever has happened so far, some further completions
  end the batch and every call has its answer.\<close>

theorem call_tools_can_finish:
  "\<exists>ext evs' ms st'. call_tools E T ctx calls n (evs @ ext) st = Some (evs', ms, st') \<and>
    length ms = length calls"
proof -
  obtain ext where "call_tools E T ctx calls n (evs @ ext) st \<noteq> None"
    using call_tools_extends by blast
  then obtain evs' ms st' where r: "call_tools E T ctx calls n (evs @ ext) st = Some (evs', ms, st')"
    by (metis option.exhaust prod_cases3)
  have "length ms = length calls" by (rule list_all2_lengthD [OF call_tools_results [OF r]])
  with r show ?thesis by blast
qed

text \<open>When every tool is sequential and nothing is cancelled, \<open>call_tools\<close> is one execution
  after the other: its batches and events change nothing.\<close>

theorem sequential_calls_in_order:
  assumes "\<And>h. ti_mode (tl_info (T h)) = Sequential" "ctx_cancel ctx = None"
  shows "call_tools E T ctx calls n (replicate (length calls) (Complete 0)) st =
    (let (ms, st') = in_order E T ctx calls st in Some ([], ms, st'))"
  by (rule call_tools_sequential [OF assms])

theorem sequential_calls_in_order_witness:
  "call_tools env0 tools0 ctx0 [call_A, call_A] 8 [Complete 0, Complete 0] state0 =
    (let (ms, st') = in_order env0 tools0 ctx0 [call_A, call_A] state0 in Some ([], ms, st'))"
  using sequential_calls_in_order [of tools0 ctx0 env0 "[call_A, call_A]" 8 state0]
  by (simp add: tools0_mode ctx0_def)

text \<open>C24. Before a tool runs its arguments are repaired and checked against its schema. Arguments that
  were not JSON, or violate the schema even after the repair, never reach the tool: the call leaves
  the state as it is and answers with an error. The tool sees no arguments but those given with
  some strings replaced by the integer, number or boolean they spell, and valid for its schema
  (unless the schema does not compile): how it behaves on others makes no difference. Good
  arguments do reach it, and the answer is an error exactly when the tool fails.\<close>

theorem arguments_checked:
  assumes "get_tool (fn_name (tc_function c)) st = Some h"
  shows "let args = fn_parameters (tc_function c); schema = ti_parameters (tl_info (T h));
      fixed = (if tv_compiles E schema then coerce_by_schema E schema args else args);
      good = (\<lambda>x. repaired (tv_host E) args x \<and> (tv_compiles E schema \<longrightarrow> tv_errors E schema x = []));
      run = execute_tool_call E T ctx c st in
    (fn_parse_error (tc_function c) \<noteq> None \<or> tv_compiles E schema \<and> tv_errors E schema fixed \<noteq> [] \<longrightarrow>
      fst run = st \<and> msg_is_error (snd run) = Some True) \<and>
    (\<forall>g. (\<forall>x v st'. good x \<and> from_json (tv_host E) x = Inr v \<longrightarrow> g ctx v st' = tl_call (T h) ctx v st') \<longrightarrow>
      execute_tool_call E (T(h := (T h)\<lparr>tl_call := g\<rparr>)) ctx c st = run) \<and>
    (\<forall>v. fn_parse_error (tc_function c) = None \<and> (tv_compiles E schema \<longrightarrow> tv_errors E schema fixed = []) \<and>
        from_json (tv_host E) fixed = Inr v \<and> \<not> ctx_is_cancelled (cancelled (w_tokens (ts_world st))) ctx \<longrightarrow>
      fst run = fst (tl_call (T h) ctx v st) \<and>
      (msg_is_error (snd run) = Some True \<longleftrightarrow> \<not> is_ok (snd (tl_call (T h) ctx v st))))"
proof -
  let ?args = "fn_parameters (tc_function c)" and ?schema = "ti_parameters (tl_info (T h))"
  define fixed where "fixed = (if tv_compiles E ?schema then coerce_by_schema E ?schema ?args else ?args)"
  have rep: "repaired (tv_host E) ?args fixed"
    using coerce_repaired [of E ?args ?schema] by (simp add: fixed_def repaired_same)
  have run: "execute_tool_call E T ctx c st = run_checked E ?schema fixed (tl_call (T h)) ctx c st"
    using execute_tool_call_tool [OF assms] by (simp add: fixed_def)
  show ?thesis
    unfolding Let_def fixed_def [symmetric]
  proof (intro conjI allI impI)
    fix g assume g: "\<forall>x v st'. (repaired (tv_host E) ?args x \<and> (tv_compiles E ?schema \<longrightarrow> tv_errors E ?schema x = [])) \<and>
      from_json (tv_host E) x = Inr v \<longrightarrow> g ctx v st' = tl_call (T h) ctx v st'"
    have "execute_tool_call E (T(h := (T h)\<lparr>tl_call := g\<rparr>)) ctx c st = run_checked E ?schema fixed g ctx c st"
      using execute_tool_call_tool [OF assms, of E "T(h := (T h)\<lparr>tl_call := g\<rparr>)" ctx] by (simp add: fixed_def)
    then show "execute_tool_call E (T(h := (T h)\<lparr>tl_call := g\<rparr>)) ctx c st = execute_tool_call E T ctx c st"
      unfolding run using g rep by (auto simp: run_checked_def split: option.split sum.split)
  qed (auto simp: run run_checked_def error_tool_result_def tool_message_with_content_def new_message_def is_ok_def
      split: option.splits sum.splits prod.splits)
qed

definition strict_env :: tool_env where
  "strict_env = env0\<lparr>tv_errors := (\<lambda>s v. [(''/x'', ''unknown'')])\<rparr>"

definition lax_env :: tool_env where
  "lax_env = env0\<lparr>tv_compiles := (\<lambda>s. False)\<rparr>"

theorem arguments_checked_witness:
  "fst (execute_tool_call env0 tools0 ctx0 (broken call_A) state0) = state0 \<and>
    msg_is_error (snd (execute_tool_call strict_env tools0 ctx0 call_A state0)) = Some True \<and>
    msg_is_error (snd (execute_tool_call lax_env tools0 ctx0 call_A state0)) \<noteq> Some True \<and>
    execute_tool_call strict_env (tools0(''h'' := (tools0 ''h'')\<lparr>tl_call := (\<lambda>ctx v st. (st, Inl NoConfig))\<rparr>)) ctx0 call_A state0 =
      execute_tool_call strict_env tools0 ctx0 call_A state0"
proof -
  have g: "get_tool (fn_name (tc_function (broken call_A))) state0 = Some ''h''"
    "get_tool (fn_name (tc_function call_A)) state0 = Some ''h''"
    by (simp_all add: get_tool_def state0_def tool_entry_new_def broken_def call_A_def)
  note A = arguments_checked [OF g(1), of tools0 env0 ctx0, unfolded Let_def]
    and B = arguments_checked [OF g(2), of tools0 strict_env ctx0, unfolded Let_def]
    and C = arguments_checked [OF g(2), of tools0 lax_env ctx0, unfolded Let_def]
  have "fst (execute_tool_call env0 tools0 ctx0 (broken call_A) state0) = state0" using A by (simp add: broken_def)
  moreover have "msg_is_error (snd (execute_tool_call strict_env tools0 ctx0 call_A state0)) = Some True"
    using B by (simp add: strict_env_def env0_def)
  moreover have "msg_is_error (snd (execute_tool_call lax_env tools0 ctx0 call_A state0)) \<noteq> Some True"
  proof -
    have "fn_parse_error (tc_function call_A) = None" "from_json (tv_host lax_env) (fn_parameters (tc_function call_A)) = Inr (Object [])"
      "\<not> ctx_is_cancelled (cancelled (w_tokens (ts_world state0))) ctx0" "\<not> tv_compiles lax_env s" for s
      by (simp_all add: call_A_def lax_env_def ctx_is_cancelled_def ctx0_def im_from_iter_def)
    with C show ?thesis by (simp add: tools0_def)
  qed
  moreover have "execute_tool_call strict_env (tools0(''h'' := (tools0 ''h'')\<lparr>tl_call := (\<lambda>ctx v st. (st, Inl NoConfig))\<rparr>)) ctx0 call_A state0 =
      execute_tool_call strict_env tools0 ctx0 call_A state0"
    using B by (simp add: strict_env_def env0_def)
  ultimately show ?thesis by blast
qed

text \<open>C25. A message that is delivered again under the same flow runs none of its calls again: once it
  has been processed, and until the flow is the oldest of 1024 others, processing it again does
  nothing. All its calls must carry an id.\<close>

theorem redelivery_ignored:
  assumes "tracked_ok s" "agent_configs_of a = Inr c" "ctx_key ctx = Inr k"
    and "\<not> msg_streaming m" "msg_tool_calls m = Some calls"
    and "allowed_calls E (configs_get_string_or_default c ''tools'') st calls = Inr allowed"
    and "\<forall>x \<in> set allowed. fn_id (tc_function x) \<noteq> None"
    and "call_message_process E T a ctx (Message m) evs s st = Some (s1, st1, r)"
    and "k \<notin> fst ` set us" "age k s1 + length us \<le> MAX_TRACKED_CTX_KEYS"
    and "allowed_calls E (configs_get_string_or_default c ''tools'') st2 calls = Inr allowed"
  shows "call_message_process E T a ctx (Message m) evs2 (track_run us s1) st2 =
    Some (track_run us s1, st2, Inr ())"
proof -
  have s1: "s1 = fold (mark_call k) (new_calls k s allowed) s"
    by (rule process_marks [OF assms(2-6,8)])
  have "new_calls k (track_run us s1) allowed = []"
    by (rule new_calls_after [OF assms(1,7) s1 assms(9,10)])
  then show ?thesis by (rule process_nothing_new [OF assms(2-5,11)])
qed

theorem redelivery_ignored_witness:
  "\<exists>s1 st1 r. call_message_process env0 tools0 agent_C ctx0 (Message message_A) [Complete 0] tracked_new state0 =
      Some (s1, st1, r) \<and>
    call_message_process env0 tools0 agent_C ctx0 (Message message_A) [] s1 st1 = Some (s1, st1, Inr ())"
proof -
  obtain s1 st1 r where p: "call_message_process env0 tools0 agent_C ctx0 (Message message_A) [Complete 0]
      tracked_new state0 = Some (s1, st1, r)"
    by (rule process_A)
  have "tracked_ok s1" using process_marks [OF agent_C_configs ctx0_key _ message_A_sel(2) allowed_A p]
    by (simp add: mark_calls)
  then show ?thesis
    using redelivery_ignored [OF tracked_new_ok agent_C_configs ctx0_key _ message_A_sel(2) allowed_A _ p,
      of "[]" st1 "[]"] p age_le [of s1] by (simp add: allowed_A)
qed

text \<open>C26. The loop guard counts the turns of every flow: after any deliveries of at most 1024 flows,
  a message with tool calls passes as long as its turn is within the configured limit, the first
  message of the next turn is replaced by a notice on \<open>limit_exceeded\<close>, and repeated deliveries of
  it are dropped; a message with the id of the previous one is no new turn. Zero and negative limits
  switch the guard off.\<close>

theorem loop_limit:
  assumes "agent_configs_of a = Inr c" "card (flows ds) \<le> MAX_TRACKED_CTX_KEYS" "length ds + 1 < 2 ^ 32"
    and "countable v" "ctx_key ctx = Inr k"
  defines "e \<equiv> turns (flow_ids k ds)"
  defines "e' \<equiv> next_turn (delivered_id v) e"
  shows "snd (loop_decide a ctx v (loop_run a ds tracked_new)) = Inr (
    if 0 < limit_of c \<and> limit_of c < fst e'
    then (if e' = e then None
          else Some (''limit_exceeded'', Message (limit_notice
            (configs_get_integer_or c ''max_iterations'' DEFAULT_MAX_ITERATIONS))))
    else Some (''message'', v))"
  using loop_verdict [OF assms(1-5)] by (simp add: verdict_def e_def e'_def Let_def)

theorem loop_limit_witness:
  "snd (loop_decide agent_C ctx0 (Message message_A)
      (loop_run agent_C [(ctx0, Message message_A)] tracked_new)) = Inr (Some (''message'', Message message_A))"
proof -
  have "card (flows [(ctx0, Message message_A)]) \<le> MAX_TRACKED_CTX_KEYS"
    using flows_few [of "[(ctx0, Message message_A)]"] by (simp add: MAX_TRACKED_CTX_KEYS_def)
  from loop_limit [OF agent_C_configs this _ _ ctx0_key, of "Message message_A"] show ?thesis
    by (simp add: countable_def turns_def flow_ids_def delivered_id_def next_turn_def limit_of_def ctx0_key
        configs_get_integer_or_def configs_get_integer_def DEFAULT_MAX_ITERATIONS_def)
qed

text \<open>C27. A call of a workflow tool waits until a value arrives for its context and returns exactly
  that value, whatever calls and answers of other contexts happen before and after; however the wait
  ends, the pending entry is gone.\<close>

theorem preset_tool_answered:
  assumes "pending_ok p" "start_tool_call a ctx args p w = (p1, w1, Inr r)"
    and "(other_step (ctx_id ctx))\<^sup>*\<^sup>* p1 p2" "ctx_id ctx' = ctx_id ctx"
    and "preset_tool_process ctx' v p2 = (p3, x)" "(other_step (ctx_id ctx))\<^sup>*\<^sup>* p3 p4"
  shows "preset_call_wait r t Resolved p2 = None \<and> preset_call_wait r t Resolved p4 = Some (Inr v) \<and>
    (\<forall>why q y. preset_call_end ctx r t why p2 = Some (q, y) \<or> preset_call_end ctx r t why p4 = Some (q, y) \<longrightarrow>
      pending_ok q \<and> map_of (pt_pending q) (ctx_id ctx) = None)"
proof -
  have p2: "slot (ctx_id ctx) r Waiting p2"
    by (rule other_steps_slot [OF assms(3) start_tool_call_slot [OF assms(1,2)]])
  have "slot (ctx_id ctx) r (Sent v) p3"
    using process_answers [of ctx' r p2 v] p2 assms(4,5) by simp
  then have p4: "slot (ctx_id ctx) r (Sent v) p4" by (rule other_steps_slot [OF assms(6)])
  have "pending_ok p2" "pending_ok p4" using p2 p4 by (simp_all add: slot_def)
  then show ?thesis using p2 p4 remove_pending_ok remove_pending_gone
    by (auto simp: preset_call_wait_def preset_call_end_def slot_def)
qed

theorem preset_tool_answered_witness:
  "\<exists>p1 w1 r p3. start_tool_call agent_C ctx0 Unit pending_none wired = (p1, w1, Inr r) \<and>
    preset_tool_process ctx0 (Integer 5) p1 = (p3, Inr ()) \<and>
    preset_call_wait r 60 Resolved p3 = Some (Inr (Integer 5))"
proof -
  obtain p1 w1 r where s: "start_tool_call agent_C ctx0 Unit pending_none wired = (p1, w1, Inr r)"
    by (rule start_A)
  obtain p3 where p: "preset_tool_process ctx0 (Integer 5) p1 = (p3, Inr ())"
    by (cases "map_of (pt_pending p1) (ctx_id ctx0)") (auto simp: preset_tool_process_def)
  show ?thesis
    using preset_tool_answered [OF pending_none_ok s rtranclp.rtrancl_refl refl p rtranclp.rtrancl_refl, of 60] s p
    by blast
qed

section \<open>Polling and files\<close>

text \<open>C28. A client that polls the captured errors with the cursor it was given gets every error of
  its preset, in order and at most once, whatever limits it asks for and whatever is captured in
  between, except records that 200 newer errors pushed out of the buffer before it asked. Such a
  loss is not counted: \<open>dropped\<close> sums only what the event channel reported as lagged.\<close>

theorem polling_complete:
  fixes p :: "string option" and ss :: "ring_step list"
  assumes "length ss < 2 ^ 64"
  defines "r \<equiv> reader_run p ss reader_new"
  shows "rd_got r @ unread p r = filter (\<lambda>x. x \<notin> set (rd_lost r)) (filter (error_matches p) (rd_pushed r)) \<and>
    by_seq (rd_got r) \<and>
    (\<forall>x \<in> set (rd_lost r). RING_CAPACITY \<le> length (filter (\<lambda>y. er_seq x < er_seq y) (rd_pushed r))) \<and>
    map content_of (rd_pushed r) = errors_of ss \<and> rg_dropped (rd_ring r) = lags_of ss"
proof -
  have "unat (rg_seq (rd_ring reader_new)) + length ss < 2 ^ 64"
    using assms(1) by (simp add: reader_new_def ring_new_def)
  note run = reader_run_ok [OF reader_new_ok [of p] this, folded r_def]
  have ok: "reader_ok p r" using run by blast
  then have "by_seq (rd_got r @ unread p r)" by (simp add: reader_ok_def by_seq_filter)
  then have "by_seq (rd_got r)" by (simp add: sorted_wrt_append)
  moreover have "rd_pushed reader_new = []" "rg_dropped (rd_ring reader_new) = 0"
    by (simp_all add: reader_new_def ring_new_def)
  ultimately show ?thesis using run ok lost_are_old [OF ok] by (auto simp: reader_ok_def)
qed

theorem polling_complete_witness:
  "map content_of (rd_pushed (reader_run (Some ''p'')
      [RingError 1 (Some ''p'') ''a'' ''e1'', PollErrors 5, RingLagged 2, RingError 2 None ''b'' ''e2'', PollErrors 5]
      reader_new)) = [(Some ''p'', ''a'', ''e1''), (None, ''b'', ''e2'')] \<and>
    rg_dropped (rd_ring (reader_run (Some ''p'')
      [RingError 1 (Some ''p'') ''a'' ''e1'', PollErrors 5, RingLagged 2, RingError 2 None ''b'' ''e2'', PollErrors 5]
      reader_new)) = 2"
  using polling_complete [of "[RingError 1 (Some ''p'') ''a'' ''e1'', PollErrors 5, RingLagged 2,
    RingError 2 None ''b'' ''e2'', PollErrors 5]" "Some ''p''"]
  by (simp del: reader_run.simps)

text \<open>The tools accept a request exactly when its authorization header is the word \<open>Bearer\<close>, a
  space and the configured token: the comparison that looks at every byte is equality.\<close>

theorem bearer_exact: "require_bearer e h \<longleftrightarrow> h = Some (''Bearer '' @ e)"
  by (rule require_bearer_iff)

text \<open>A preset that was saved can be opened again: saving changes no other file, and opening the
  file adds the specification that was saved, with its values in the order of JSON, under the name
  that is asked for. It supposes values that survive JSON and file operations that do not fail.\<close>

theorem preset_saved_and_opened:
  assumes "get_preset_spec i w = Some p" "preset_ok (fe_host E) p" "text_ok E path p"
    and "save_preset E org i path fs w = (fs', w', r)"
  shows "r = Inr () \<and> (\<forall>q. q \<noteq> path \<longrightarrow> map_of fs' q = map_of fs q) \<and>
    open_preset_from_file E I org' path name fs' v = add_preset_raw I org' (canon_preset p) name v"
  by (rule save_and_open [OF assms])

theorem preset_saved_and_opened_witness:
  "\<exists>fs' w'. save_preset files0 None ''p'' ''f'' [] saved = (fs', w', Inr ()) \<and>
    open_preset_from_file files0 impls0 None ''f'' (Some ''copy'') fs' demo =
      add_preset_raw impls0 None (canon_preset preset_S) (Some ''copy'') demo"
proof -
  obtain fs' w' r where s: "save_preset files0 None ''p'' ''f'' [] saved = (fs', w', r)"
    by (cases "save_preset files0 None ''p'' ''f'' [] saved") auto
  from preset_saved_and_opened [OF saved_spec preset_S_ok files0_ok s] s show ?thesis by blast
qed

section \<open>The server\<close>

text \<open>C29. A request that names a configuration key the client may not set is answered with an error.
  On an agent that exists (global keys, parked keys, and keys neither its specification nor else its
  definition has) nothing changes. A global key in \<open>add_agent\<close> is refused before anything is built,
  so nothing changes either. Any other key that the definition does not declare waits until the
  agent is built: when the built agent does not accept it, because it is parked or unknown, the
  agent is removed again, and the agents, the edges, the specification of the preset and the
  files are as they were.\<close>

theorem config_keys_guarded:
  assumes "agent_contract I" and "graph_ok (sv_world s)"
    and "named_keys (sv_host E) I q (sv_world s) = Some (d, live, ks)" and "k \<in> set ks"
    and "live = None \<or> \<not> settable d live k"
  shows "\<exists>s' e. serve E I q s = (s', ErrText e) \<and> sv_files s' = sv_files s \<and>
    ((\<forall>p. q \<noteq> AddAgent p) \<or> is_global_key d k \<longrightarrow> s' = s) \<and>
    (\<forall>p. q = AddAgent p \<longrightarrow> same_graph (ap_preset p) (sv_world s) (sv_world s'))"
  using agent_contract.bad_key_refused [OF assms(1,3,4,5,2)] by metis

lemma usize_2: "usize_to_string 2 = ''2''"
  by code_simp

lemma demo_graph: "graph_ok demo" "graph_ok secret_world"
proof -
  show d: "graph_ok demo"
    using demo_ok(3,5) by (auto simp: graph_ok_def get_preset_def spec_of_def usize_2 edges_def conn_target_def split: if_splits)
  then show "graph_ok secret_world"
    by (simp add: graph_ok_def secret_world_def get_preset_def spec_of_def)
qed

theorem config_keys_guarded_witness:
  "(\<exists>e. serve served impls0 (AddAgent (add_D [(''token'', JString ''x'')])) (server_S secret_world) =
      (server_S secret_world, ErrText e)) \<and>
    (\<exists>s e. serve served impls0 (AddAgent (add_D [(''_x'', JNull)])) (server_S demo) = (s, ErrText e) \<and>
      same_graph ''p'' demo (sv_world s)) \<and>
    (\<exists>e. serve served impls0 (SetAgentConfigs ''a'' [(''_x'', JNull)]) (server_S demo) = (server_S demo, ErrText e))"
proof (intro conjI)
  have "\<not> settable def_G x ''token''" for x by (rule global_not_settable) (simp add: is_global_key_def def_G_def)
  then show "\<exists>e. serve served impls0 (AddAgent (add_D [(''token'', JString ''x'')])) (server_S secret_world) =
      (server_S secret_world, ErrText e)"
    using config_keys_guarded [OF contract0, of "server_S secret_world" served "AddAgent (add_D [(''token'', JString ''x'')])"
        def_G _ "[''token'']" "''token''"] demo_graph(2)
    by (auto simp: server_S_def secret_world_def add_D_def is_global_key_def def_G_def simp del: serve.simps)
next
  have "\<not> settable def_D x ''_x''" for x by (simp add: settable_def)
  then show "\<exists>s e. serve served impls0 (AddAgent (add_D [(''_x'', JNull)])) (server_S demo) = (s, ErrText e) \<and>
      same_graph ''p'' demo (sv_world s)"
    using config_keys_guarded [OF contract0, of "server_S demo" served "AddAgent (add_D [(''_x'', JNull)])"
        def_D _ "[''_x'']" "''_x''"] demo_graph(1)
    by (auto simp: server_S_def add_D_def def_D_configs simp del: serve.simps)
next
  show "\<exists>e. serve served impls0 (SetAgentConfigs ''a'' [(''_x'', JNull)]) (server_S demo) = (server_S demo, ErrText e)"
    using config_keys_guarded [OF contract0, of "server_S demo" served "SetAgentConfigs ''a'' [(''_x'', JNull)]"
        def_D "Some (spec_D ''a'')" "[''_x'']" "''_x''"] demo_graph(1)
    by (simp add: server_S_def agent_keys_def get_agent_spec_def settable_def del: serve.simps)
qed

text \<open>C31. When \<open>add_agent\<close> reports an error, the graph is as it was: the table of agents, the edges and
  the specification of the preset. An agent that was already built when its remaining
  configuration turned out wrong is removed again.\<close>

theorem failed_add_taken_back:
  assumes "agent_contract I" and "tool_add_agent H I q w = (w', ErrText e)"
    and "get_preset (ap_preset q) w = Some h" and "h < length (w_preset_objs w)"
    and "distinct (keys_of (w_agents w))" and "conns_wf (w_connections w)"
    and "\<forall>c \<in> edges (w_connections w). c_source c \<noteq> usize_to_string (w_ids w + 1) \<and> c_target c \<noteq> usize_to_string (w_ids w + 1)"
    and "\<forall>a \<in> set (p_agents (spec_of h w)). s_id a \<noteq> usize_to_string (w_ids w + 1)"
  shows "map_of (w_agents w') = map_of (w_agents w) \<and> edges (w_connections w') = edges (w_connections w) \<and>
    spec_of h w' = spec_of h w"
  by (rule agent_contract.failed_add_undone [OF assms])

theorem failed_add_taken_back_witness:
  "\<exists>w e. tool_add_agent host0 impls0 (add_D [(''_x'', JNull)]) demo = (w, ErrText e) \<and>
    map_of (w_agents w) = map_of (w_agents demo) \<and> p_agents (spec_of 0 w) = [spec_D ''a'', spec_D ''b'']"
proof -
  obtain w e where t: "tool_add_agent host0 impls0 (add_D [(''_x'', JNull)]) demo = (w, ErrText e)"
    using add_parked by blast
  have p: "get_preset (ap_preset (add_D [(''_x'', JNull)])) demo = Some 0" by (simp add: add_D_def get_preset_def)
  have f: "\<forall>c \<in> edges (w_connections demo). c_source c \<noteq> usize_to_string (w_ids demo + 1) \<and>
      c_target c \<noteq> usize_to_string (w_ids demo + 1)"
    by (auto simp: edges_def usize_2 conn_target_def split: if_splits)
  show ?thesis
    using failed_add_taken_back [OF contract0 t p _ demo_ok(5,3) f] t by (simp add: spec_of_def usize_2)
qed

text \<open>The connection tool accepts exactly the new connections from \<open>err\<close> or an output of an
  existing agent to an input or a configuration key of an existing agent, and adds that edge to
  the table and to the preset; every other request changes nothing.\<close>

theorem connection_tool_checked:
  assumes "conns_wf (w_connections w)" and "get_preset p w = Some h" and "h < length (w_preset_objs w)"
    and "tool_add_connection p c w = (w', r)"
  shows "if joinable c w \<and> c_source_handle c \<noteq> [] \<and> c_target_handle c \<noteq> [] \<and> c \<notin> edges (w_connections w)
    then r = OkText ''Connection added'' \<and> edges (w_connections w') = insert c (edges (w_connections w)) \<and>
      spec_of h w' = preset_add_connection c (spec_of h w)
    else w' = w \<and> (\<exists>e. r = ErrText e)"
  by (rule tool_connection_spec [OF assms])

theorem connection_tool_checked_witness:
  "edges (w_connections (fst (tool_add_connection ''p'' (edge ''b'' ''err'' ''a'' ''config:n'') saved))) =
      insert (edge ''b'' ''err'' ''a'' ''config:n'') (edges (w_connections saved)) \<and>
    fst (tool_add_connection ''p'' (edge ''a'' ''nope'' ''b'' ''in'') saved) = saved"
proof -
  have s: "w_connections saved = w_connections demo" "length (w_preset_objs saved) = 1" "get_preset ''p'' saved = Some 0"
    by (simp_all add: saved_def get_preset_def)
  have wf: "conns_wf (w_connections saved)" using demo_ok(3) by (simp only: s(1))
  have spec: "get_agent_spec ''a'' saved = Some ((spec_D ''a'')\<lparr>s_configs := Some [(''n'', Integer 5)]\<rparr>)"
      "get_agent_spec ''b'' saved = Some (spec_D ''b'')"
    by (simp_all add: get_agent_spec_def saved_def)
  note t = connection_tool_checked [OF wf s(3) _ surjective_pairing, unfolded s(2)]
  have j: "joinable (edge ''b'' ''err'' ''a'' ''config:n'') saved"
    by (simp add: joinable_def spec source_handle_ok_def target_handle_ok_def strip_prefix_def configs_keys_def)
  have nj: "\<not> joinable (edge ''a'' ''nope'' ''b'' ''in'') saved"
    by (simp add: joinable_def spec source_handle_ok_def spec_D_def)
  have n: "edge ''b'' ''err'' ''a'' ''config:n'' \<notin> edges (w_connections saved)"
    by (simp add: edges_def s(1) conn_target_def)
  show ?thesis
    using t [of "edge ''b'' ''err'' ''a'' ''config:n''"] t [of "edge ''a'' ''nope'' ''b'' ''in''"] j nj n by simp
qed

text \<open>C30. Whatever a client asks for, in whatever order, the server writes and removes files below the
  directory of the presets only: every path it touches is that directory followed by names that
  are neither empty nor steps back. Every name in the index stays one that such a path is made of.\<close>

theorem server_files_confined:
  assumes "agent_contract I" and "valid_names (sv_world s)" and "sv_dir E = Some dir"
  shows "valid_names (sv_world (serve_all E I qs s)) \<and>
    (\<forall>path. map_of (sv_files (serve_all E I qs s)) path \<noteq> map_of (sv_files s) path \<longrightarrow> inside dir path)"
  by (rule agent_contract.serve_all_files [OF assms])

theorem server_files_confined_witness:
  "map_of (sv_files (serve_all served impls0 [CreatePreset ''../x'', SavePreset ''p'' (Some ''new''),
      SavePreset ''p'' (Some ''/other'')] (server_S saved))) ''other'' = Some ''o''"
proof -
  have "\<not> inside ''d'' ''other''"
    by (auto simp: inside_def)
  moreover have v: "valid_names (sv_world (server_S saved))" and d: "sv_dir served = Some ''d''"
    using saved_names by (simp_all add: server_S_def served_def)
  moreover have "map_of (sv_files (server_S saved)) ''other'' = Some ''o''" by (simp add: server_S_def)
  ultimately show ?thesis
    using server_files_confined [OF contract0 v d, THEN conjunct2, THEN spec, of _ "''other''"] by metis
qed

text \<open>C32. Saving a preset under another name moves it: the new file opens with the specification that
  was saved, the file of the old name is gone, no other file has changed, and the new name leads
  to the preset.\<close>

theorem saved_preset_moved:
  assumes "valid_names w" and "sv_dir E = Some dir" and "get_preset_spec i w = Some p"
    and "preset_ok (sv_host E) p" and "text_ok (sv_io E) (preset_path dir n) p"
    and "tool_save_preset E i (Some n) fs w = (fs', w', OkText m)"
  shows "open_preset_from_file (sv_io E) I org (preset_path dir n) name fs' v = add_preset_raw I org (canon_preset p) name v \<and>
    (\<forall>q. q \<noteq> preset_path dir n \<and> (\<forall>old. name_of i w = Some old \<longrightarrow> q \<noteq> preset_path dir old) \<longrightarrow> map_of fs' q = map_of fs q) \<and>
    (\<forall>old. name_of i w = Some old \<and> old \<noteq> n \<and> fe_fault (sv_io E) (RemoveFile (preset_path dir old)) = None \<longrightarrow>
      map_of fs' (preset_path dir old) = None) \<and>
    (\<forall>old. name_of i w = Some old \<and> old \<noteq> n \<longrightarrow> find_preset_id_by_name n w' = Some i)"
  by (rule tool_save_moves [OF assms])

theorem saved_preset_moved_witness:
  "\<exists>fs w m. tool_save_preset served ''p'' (Some ''new'') [] saved = (fs, w, OkText m) \<and>
    open_preset_from_file files0 impls0 None ''d/new.json'' (Some ''copy'') fs demo =
      add_preset_raw impls0 None (canon_preset preset_S) (Some ''copy'') demo \<and>
    find_preset_id_by_name ''new'' w = Some ''p''"
proof -
  obtain fs w m where s: "tool_save_preset served ''p'' (Some ''new'') [] saved = (fs, w, OkText m)"
    using save_new by blast
  have e: "sv_dir served = Some ''d''" "sv_io served = files0" by (simp_all add: served_def)
  have p: "preset_path ''d'' ''new'' = ''d/new.json''" by (simp add: preset_path_def join_path_def ends_with_def)
  have n: "name_of ''p'' saved = Some ''main''"
    by (simp add: name_of_def get_preset_info_def info_of_def get_preset_def saved_def)
  show ?thesis
    using saved_preset_moved [OF saved_names e(1) saved_spec _ _ s, of impls0 None "Some ''copy''" demo]
      preset_S_ok files0_ok s n by (simp add: e(2) p)
qed

section \<open>Tool servers\<close>

text \<open>C33. However calls, background tasks and shutdowns interleave, every service that was started is in
  exactly one place: in the pool under its server, with a task that will cancel it, with a
  shutdown, or cancelled. So none is left behind, and when the first three are empty all have been
  told to end. A pooled connection has its service, and none is cancelled while a request runs on
  it.\<close>

theorem pool_never_leaks:
  assumes "pool_run es mcp_start = Some s"
  shows "mset (map snd (mc_pool (ms_pool s)) @ mc_cancelling (ms_pool s) @ mc_shutdown (ms_pool s) @ mc_cancelled (ms_pool s)) =
      mset [0..<length (mc_started (ms_pool s))] \<and>
    (\<forall>server n. map_of (mc_pool (ms_pool s)) server = Some n \<longrightarrow>
      mc_started (ms_pool s) ! n = server \<and> cn_service (mc_conns (ms_pool s) ! n) = Some n) \<and>
    (\<forall>i n. calling s i n \<longrightarrow> n \<notin> set (mc_cancelled (ms_pool s)))"
proof (intro conjI allI impI)
  have ok: "mcp_ok s" by (rule reachable_ok [OF assms])
  note p = mcp_okD(1) [OF ok]
  show "mset (map snd (mc_pool (ms_pool s)) @ mc_cancelling (ms_pool s) @ mc_shutdown (ms_pool s) @ mc_cancelled (ms_pool s)) =
      mset [0..<length (mc_started (ms_pool s))]"
    using p by (simp add: pool_ok_def owned_def)
  show "n \<notin> set (mc_cancelled (ms_pool s))" if "calling s i n" for i n by (rule lock_okD(2) [OF mcp_okD(2) [OF ok] that])
  fix server n
  assume n: "map_of (mc_pool (ms_pool s)) server = Some n"
  show "mc_started (ms_pool s) ! n = server" using p map_of_SomeD [OF n] by (fastforce simp: pool_ok_def)
  show "cn_service (mc_conns (ms_pool s) ! n) = Some n" by (rule owned_service [OF p pooled_owned [OF n]])
qed

theorem pool_never_leaks_witness:
  "cn_service (mc_conns (ms_pool mcp_demo_state) ! 1) = Some 1"
  using pool_never_leaks [OF mcp_demo_run] by (simp add: mcp_demo_state_def)

text \<open>C35. A call sends its request at most twice, to different connections of its server, a listing at
  most once, and the second time only after the first connection failed. It succeeds only with the
  answer of the last one, which has not failed under it.\<close>

theorem call_retried_once:
  assumes "pool_run es mcp_start = Some s" and "c \<in> set (ms_calls s)"
  shows "length (ml_sent c) \<le> (if ml_retries c then 2 else 1) \<and> distinct (ml_sent c) \<and>
    (\<forall>n \<in> set (ml_sent c). mc_started (ms_pool s) ! n = ml_server c) \<and>
    (\<forall>m n. ml_sent c = [m, n] \<longrightarrow> m \<in> set (ml_failed c) \<and> cn_dead (mc_conns (ms_pool s) ! m)) \<and>
    (\<forall>v. ml_phase c = Ended (Inr v) \<longrightarrow> ml_sent c \<noteq> [] \<and> last (ml_sent c) \<notin> set (ml_failed c))"
  by (rule call_ok_facts) (use reachable_ok [OF assms(1)] assms(2) in \<open>simp add: mcp_ok_def\<close>)

theorem call_retried_once_witness:
  "0 \<in> set (ml_failed (ms_calls mcp_demo_state ! 0)) \<and> cn_dead (mc_conns (ms_pool mcp_demo_state) ! 0)"
  using call_retried_once [OF mcp_demo_run, of "ms_calls mcp_demo_state ! 0"] by (simp add: mcp_demo_state_def)

text \<open>C36. Calls come to an end: together they take at most eight turns each, and as long as one has not
  ended, some call can go on, at the latest with the answer of the server it waits for. No call
  waits for a lock that nobody will give back.\<close>

theorem calls_end:
  assumes "pool_run es mcp_start = Some s"
  shows "length (filter call_turn es) \<le> 8 * length (ms_calls s) \<and>
    ((\<exists>c \<in> set (ms_calls s). \<forall>r. ml_phase c \<noteq> Ended r) \<longrightarrow> can_turn s)"
proof (intro conjI impI)
  show "length (filter call_turn es) \<le> 8 * length (ms_calls s)"
    using run_turns [OF assms] by (simp add: all_turns_left_def mcp_start_def)
next
  assume "\<exists>c \<in> set (ms_calls s). \<forall>r. ml_phase c \<noteq> Ended r"
  then obtain i where "i < length (ms_calls s)" "\<forall>r. ml_phase (ms_calls s ! i) \<noteq> Ended r"
    by (metis in_set_conv_nth)
  then show "can_turn s" using not_stuck [OF reachable_ok [OF assms]] by blast
qed

theorem calls_end_witness: "length (filter call_turn mcp_demo) \<le> 16"
  using calls_end [OF mcp_demo_run] by (simp add: mcp_demo_state_def)

text \<open>C34. A connection that no request has failed on stays in the pool, under its server and alive,
  until a shutdown: failures of other connections, late invalidations and restarts of its own
  server by other calls do not touch it.\<close>

theorem healthy_connection_kept:
  assumes "pool_run es mcp_start = Some s" and "pool_run fs s = Some s'" and "ShutdownBegin \<notin> set fs"
    and "map_of (mc_pool (ms_pool s)) server = Some n" and "\<forall>c \<in> set (ms_calls s'). n \<notin> set (ml_failed c)"
  shows "map_of (mc_pool (ms_pool s')) server = Some n \<and>
    cn_service (mc_conns (ms_pool s') ! n) = Some n \<and> \<not> cn_dead (mc_conns (ms_pool s') ! n)"
proof -
  have b: "\<not> blamed s' n" using assms(5) by (simp add: blamed_def)
  have "map_of (mc_pool (ms_pool s')) server = Some n"
    by (rule run_keeps [OF reachable_ok [OF assms(1)] assms(2-4) b])
  then show ?thesis using kept_alive [OF run_ok [OF reachable_ok [OF assms(1)] assms(2)] _ b] by blast
qed

theorem healthy_connection_kept_witness:
  "\<exists>s. pool_run mcp_next mcp_demo_state = Some s \<and> map_of (mc_pool (ms_pool s)) ''s'' = Some 1"
  using healthy_connection_kept [OF mcp_demo_run mcp_next_run, of "''s''" 1]
  by (simp add: mcp_next_run) (simp add: mcp_next_def mcp_demo_state_def)

text \<open>The tools of the servers of a file are registered server by server, up to the first server that
  fails; those registered before stay, although the caller gets only the error. Every name is found
  in the registry, other names lead where they led. None of these names is one the language models
  accept.\<close>

theorem mcp_tools_registered:
  assumes "register_tools_from_mcp_json E A path fs p st = (p', st', r)"
  shows "case read_mcp_config E path fs of
      Inl e \<Rightarrow> r = Inl e \<and> st' = st
    | Inr m \<Rightarrow> \<exists>k \<le> length m.
        (\<forall>n. get_tool n st' = (if n \<in> set (names_of (listed_tools A (take k m))) then Some n else get_tool n st)) \<and>
        (case r of
          Inr names \<Rightarrow> k = length m \<and> names = names_of (listed_tools A m) \<and> (\<forall>n \<in> set names. \<not> is_valid_tool_name n)
        | Inl e \<Rightarrow> k < length m)"
proof (cases "read_mcp_config E path fs")
  case (Inr m)
  then have "register_servers A m p st = (p', st', r)" using assms by (simp add: register_tools_from_mcp_json_def)
  from register_servers_spec [OF this] obtain k where k: "k \<le> length m" "st' = register_all (listed_tools A (take k m)) st"
      "case r of Inr names \<Rightarrow> k = length m \<and> names = names_of (listed_tools A m) | Inl e \<Rightarrow> k < length m" by blast
  show ?thesis unfolding Inr sum.case
  proof (intro exI [of _ k] conjI allI)
    show "get_tool n st' = (if n \<in> set (names_of (listed_tools A (take k m))) then Some n else get_tool n st)" for n
      by (simp only: k(2) get_registered)
    show "case r of Inr names \<Rightarrow> k = length m \<and> names = names_of (listed_tools A m) \<and> (\<forall>n \<in> set names. \<not> is_valid_tool_name n)
        | Inl e \<Rightarrow> k < length m"
      using k(3) mcp_name_invalid by (cases r) auto
  qed (rule k(1))
qed (use assms in \<open>simp add: register_tools_from_mcp_json_def\<close>)

theorem mcp_tools_registered_witness:
  "\<exists>p st e. register_tools_from_mcp_json files_M servers_A ''mcp.json'' [(''mcp.json'', ''c'')] pool_new state0 = (p, st, Inl e) \<and>
    get_tool ''other::find'' st = get_tool ''other::find'' state0"
proof -
  obtain p st e where r: "register_tools_from_mcp_json files_M servers_A ''mcp.json'' [(''mcp.json'', ''c'')] pool_new state0 = (p, st, Inl e)"
    using servers_registered by blast
  have n: "''other::find'' \<notin> set (names_of (listed_tools servers_A (take k
      [(''s'', \<lparr>mc_command = ''npx'', mc_args = [], mc_env = None\<rparr>), (''other'', \<lparr>mc_command = ''npx'', mc_args = [], mc_env = None\<rparr>)])))" for k
    by (cases k; cases "k - 1") (simp_all add: listed_tools_def servers_A_def names_of_def tool_T_def mcp_tool_name_def)
  show ?thesis using mcp_tools_registered [OF r] r n by (auto simp: servers_read)
qed

section \<open>Attributes\<close>

text \<open>C37. Where the attribute accepts its arguments, the generated code can only build the definition they
  declare: every given value, the last one of a repeated key, the documentation where no
  description is given, each configuration with its entry under its name in the order of the
  arguments, a later one of the same name in the place of the earlier. When the expressions have
  the types the builders take and no argument is a unit configuration of the definition, it builds
  it.\<close>

theorem macro_definition:
  assumes "rust_ok V" and "expand_modular_agent args item = Inr x"
  shows "(\<forall>d. generated_definition V x = Some d \<longrightarrow> d = declared_definition V args item) \<and>
    (list_all (arg_typed V) args \<longrightarrow> generated_definition V x = Some (declared_definition V args item))"
  using built_declared [OF assms] typed_builds [OF assms] by fastforce

theorem macro_definition_witness:
  "\<exists>x. expand_modular_agent add_int_args add_int_item = Inr x \<and>
    generated_definition rust_V x = Some (declared_definition rust_V add_int_args add_int_item) \<and>
    d_configs (declared_definition rust_V add_int_args add_int_item) =
      Some [(''n'', (config_spec_new (Integer 1) ''integer'')\<lparr>cs_title := Some ''Add Value''\<rparr>)]"
  using macro_definition [OF rust_V_ok add_int_expands] add_int_expands add_int_typed add_int_configs by blast

text \<open>A definition built by an attribute whose configurations have literal names has no configuration
  whose name starts with an underscore, the prefix under which the keys of older specifications
  are kept.\<close>

theorem macro_names_free:
  assumes "rust_ok V" and "expand_modular_agent args item = Inr x" and "generated_definition V x = Some d"
    and "list_all literal_names args"
  shows "\<forall>k \<in> set (keys_of (unwrap_or (d_configs d) [])) \<union> set (keys_of (unwrap_or (d_global_configs d) [])).
    \<not> starts_with ''_'' k"
  using built_names [OF assms] by blast

theorem macro_names_free_witness: "\<not> starts_with ''_'' ''n''"
proof -
  have "''n'' \<in> set (keys_of (unwrap_or (d_configs (declared_definition rust_V add_int_args add_int_item)) []))"
    by (simp add: add_int_configs unwrap_or_def)
  then show ?thesis
    using macro_names_free [OF rust_V_ok add_int_expands add_int_builds add_int_literal] by blast
qed

text \<open>C38. From the attribute to the agent: once a definition built by an attribute with literal
  configuration names is registered at the start beside definitions of other names, a new
  specification of it has the declared configurations with their declared values, its definition
  finds nothing to reconcile in it, the constructor of an agent drops none of its keys, and the
  global configurations have their declared values.\<close>

theorem registered_agent_fresh:
  fixes ds :: "agent_definition list"
  assumes "rust_ok V" and "expand_modular_agent args item = Inr x" and "generated_definition V x = Some d"
    and "list_all literal_names args" and "distinct (map d_name ds)" and "d \<in> set ds" and "init ds = Inr w"
  shows "\<exists>w' s. new_agent_spec (d_name d) w = (w', Inr s) \<and>
    s_configs s = map_option default_configs (config_entries (List.map_filter (declared V ''_config'') args)) \<and>
    reconcile_spec d s = s \<and> a_spec (agent_data_new impl st i s) = s \<and>
    get_global_configs (d_name d) w =
      map_option default_configs (config_entries (List.map_filter (declared V ''_global_config'') args))"
proof -
  have w: "w = register_inventory_agents ds world_new" using assms(7) by (simp add: init_def)
  have g: "ma_agent_definition (d_name d) w = Some d"
      "get_global_configs (d_name d) w = map_option default_configs (d_global_configs d)"
    using registered_inventory [OF assms(5,6) world_no_globals] unfolding w by blast+
  have c: "d_configs d = config_entries (List.map_filter (declared V ''_config'') args)"
      "d_global_configs d = config_entries (List.map_filter (declared V ''_global_config'') args)"
    using built_declared [OF assms(1-3)] by (simp_all add: declared_definition_def)
  obtain s n where s: "to_spec (w_ids w) d = (s, n)" by fastforce
  then have "s_configs s = map_option default_configs (d_configs d)" by (auto simp: to_spec_def split: prod.splits)
  moreover have "reconcile_spec d s = s" "a_spec (agent_data_new impl st i s) = s"
    using fresh_spec [OF built_def_ok [OF assms(1-4)] s] by blast+
  moreover have "new_agent_spec (d_name d) w = (w\<lparr>w_ids := n\<rparr>, Inr s)" by (simp add: new_agent_spec_def g(1) s)
  ultimately show ?thesis using g(2) c by simp
qed

theorem registered_agent_fresh_witness:
  "\<exists>w' s. new_agent_spec ''agents::math::AddIntAgent'' add_int_world = (w', Inr s) \<and> s_configs s = Some [(''n'', Integer 1)]"
proof -
  have "init [def_D, add_int_definition] = Inr add_int_world" by (simp add: init_def add_int_world_def)
  from registered_agent_fresh [OF rust_V_ok add_int_expands add_int_builds add_int_literal _ _ this [unfolded add_int_definition_def]]
  show ?thesis using add_int_fresh by (fastforce simp: add_int_definition_def)
qed

section \<open>Observers\<close>

text \<open>C39. However events, turns of the forwarding task and the subscriber interleave: the filter sees
  events sent after the subscription, in their order and each at most once, and every one it does
  not see is counted by the channel as lost, which happens only when a turn finds the task more than
  256 events behind. While the subscriber is there, what it took and what still waits for it is
  exactly what the filter made of the events it saw, and as many turns as it is behind bring it up
  to date.\<close>

theorem subscriber_gets_events:
  fixes st :: 's and f :: "('s, 't) event_filter" and w :: "'u world"
  assumes "broadcast_ok EVENT_CHANNEL_CAPACITY recv" and "r = sub_steps recv f ss (sub_begin st w)"
    and "sent = take (su_next (sr_sub r) - length (w_events w)) (drop (length (w_events w)) (w_events (sr_world r)))"
  shows "subseq (sr_read r) sent \<and> length (sr_read r) + sr_lost r = length sent \<and>
    (keeps_up EVENT_CHANNEL_CAPACITY recv f ss (sub_begin st w) \<longrightarrow> sr_read r = sent) \<and>
    (su_alive (sr_sub r) \<longrightarrow>
      snd (filtered f st (sr_read r)) = sr_taken r @ su_queue (sr_sub r) \<and>
      behind (sub_steps recv f (replicate (behind r) Turn) r) = 0)"
  using subscription_runs [OF assms] by blast

theorem subscriber_gets_events_witness:
  "snd (filtered output_of () (sr_read sub_demo)) = [(''x'', Integer 1), (''y'', Integer 2)]"
  using subscriber_gets_events [OF tokio_recv_ok, of sub_demo output_of sub_demo_steps "()" world_new] sub_demo_facts
  by (simp add: sub_demo_def)

text \<open>A reference under a key reads what the reader by key reads, a write through it is read back and
  leaves the other keys alone, and writing the content that is there changes nothing.\<close>

theorem object_written_in_place:
  assumes "value_get_object_mut k v = Some (m, wr)"
  shows "value_get_object v k = Some m \<and> value_get_object (wr m') k = Some m' \<and> wr m = v \<and>
    (\<forall>k'. k' \<noteq> k \<longrightarrow> value_get (wr m') k' = value_get v k')"
  using keyed_objects.mut_reads [OF assms] keyed_objects.read_back [OF assms] keyed_objects.get_put [OF assms]
    reborrow_other [OF assms [unfolded value_get_object_mut_def]] by blast

theorem object_written_in_place_witness:
  "value_get_object (Object [(''a'', Object [(''x'', Unit)]), (''b'', Integer 1)]) ''a'' = Some [(''x'', Unit)]"
proof -
  have "value_get_object_mut ''a'' (Object [(''a'', Object [(''x'', Unit)]), (''b'', Integer 1)]) =
      Some ([(''x'', Unit)], \<lambda>z. Object (im_insert ''a'' (Object z) [(''a'', Object [(''x'', Unit)]), (''b'', Integer 1)]))"
    by (simp add: value_get_object_mut_def value_get_mut_def reborrow_def)
  from object_written_in_place [OF this] show ?thesis by blast
qed

text \<open>An unsigned number keeps its value as an integer below \<open>2 ^ 63\<close> and only there.\<close>

theorem unsigned_kept: "\<exists>i. as_i64 (value_of_u64 n) = Some i \<and> (sint i = uint n \<longleftrightarrow> uint n < 2 ^ 63)"
  by (rule value_of_u64_reads)

text \<open>C40. End to end: writing a value to a variable of a preset and expecting it there succeeds exactly
  when the value is comparable (no NaN and no error in it), with one turn of the main loop and
  enough turns of the observer's task in between, whatever agents listen to the variable. The
  value is then the value of the variable.\<close>

theorem written_value_observed:
  fixes w :: "'u world"
  assumes "broadcast_ok EVENT_CHANNEL_CAPACITY recv" and "main_idle t w" and "txs_ok w"
    and "queued w (input_routes (local_channel p n) w)"
    and "length (input_routes (local_channel p n) w) < EVENT_CHANNEL_CAPACITY" and "value_wf v"
  shows "\<exists>k. \<forall>dbg. case write_and_expect_local_value dbg (turns_pass I recv t k) p n v w
      (Some (subscribe_external_output_observer w)) of (w2, sl, r) \<Rightarrow>
      map_of (w_external_values w2) (local_channel p n) = Some v \<and> (r = Inr () \<longleftrightarrow> comparable v)"
  by (rule written_observed [OF assms(1-5), where v = v, unfolded value_eq_refl_iff [OF assms(6)]])

theorem written_value_observed_witness:
  "\<exists>k. \<forall>dbg. case write_and_expect_local_value dbg (turns_pass impls0 tokio_recv 0 k) ''p'' ''v'' (Integer 1)
      (spawn_message_loop idle_world) (Some (subscribe_external_output_observer (spawn_message_loop idle_world))) of
      (w2, sl, r) \<Rightarrow> r = Inr ()"
proof -
  have i: "main_idle 0 (spawn_message_loop idle_world)"
    by (simp add: main_idle_def spawn_message_loop_def idle_world_def world_new_def)
  have r: "input_routes (local_channel ''p'' ''v'') (spawn_message_loop idle_world) = []"
    by (simp add: input_routes_def spawn_message_loop_def idle_world_def world_new_def unwrap_or_def)
  have t: "txs_ok (spawn_message_loop idle_world)"
    by (simp add: txs_ok_def spawn_message_loop_def idle_world_def world_new_def)
  have q: "queued (spawn_message_loop idle_world) (input_routes (local_channel ''p'' ''v'') (spawn_message_loop idle_world))"
    "length (input_routes (local_channel ''p'' ''v'') (spawn_message_loop idle_world)) < EVENT_CHANNEL_CAPACITY"
    unfolding r by (simp_all add: queued_def EVENT_CHANNEL_CAPACITY_def)
  from written_value_observed [OF tokio_recv_ok i t q, of "Integer 1" impls0] show ?thesis
    by (simp add: case_prod_beta) blast
qed

text \<open>A probe hands its inputs to the test in the order the agent processed them, after what was
  waiting, and then times out.\<close>

theorem probe_in_order:
  assumes "a_impl a = PROBE" and "probe_inputs xs w a = (w', a')"
  shows "probe_receives n a' =
    map Inr (take n (probe_queue (a_state a) @ map (\<lambda>(ctx, port, v). (ctx, v)) xs)) @
    replicate (n - (length (probe_queue (a_state a)) + length xs)) (Inl (SendMessageFailed ''probe receive timed out''))"
  using probe_inputs_queue [OF assms] by (simp add: probe_receives_queue)

theorem probe_in_order_witness:
  "probe_receives 2 (snd (probe_inputs [(ctx0, ''value'', Integer 1)] world_new probe_P)) =
    [Inr (ctx0, Integer 1), Inl (SendMessageFailed ''probe receive timed out'')]"
proof -
  have p: "a_impl probe_P = PROBE" by (simp add: probe_P_def agent_data_new_def)
  obtain w' a' where a: "probe_inputs [(ctx0, ''value'', Integer 1)] world_new probe_P = (w', a')" by fastforce
  have q: "probe_queue (a_state probe_P) = []" by (simp add: probe_P_def agent_data_new_def)
  have "probe_receives 2 a' = [Inr (ctx0, Integer 1), Inl (SendMessageFailed ''probe receive timed out'')]"
    unfolding probe_in_order [OF p a] q by (simp add: numeral_2_eq_2)
  then show ?thesis by (simp only: a snd_conv)
qed

end
